(* ===== verification/HFlat_Prelude.thy ===== *)
theory HFlat_Prelude
  imports Main "HOL-Library.Word" "HOL-Library.AList"
begin

section \<open>Shared vocabulary of the development\<close>

text \<open>
  What every component of h-flat uses and none of them owns: the operations of
  \<^verbatim>\<open>std::string\<close> the sources call (positions, \<^verbatim>\<open>erase\<close>, \<^verbatim>\<open>resize\<close>, \<^verbatim>\<open>replace\<close>, decimal
  conversion), the POSIX error numbers and limits, the ways in which a call can fail to
  return a value, and a small state-and-failure monad in which the operations on the file
  system's private data are written. The lemma collections declared here carry the proofs of
  the components.
\<close>

named_theorems cmd_simps \<open>evaluation of commands\<close>
named_theorems keeps_intros \<open>commands that preserve a state predicate\<close>
named_theorems string_simps \<open>facts on the std::string operations\<close>

subsection \<open>Error numbers and limits\<close>

text \<open>The values of errno.h, limits.h and sys/param.h on Linux.\<close>

abbreviation (input) EPERM :: int where "EPERM \<equiv> 1"
abbreviation (input) ENOENT :: int where "ENOENT \<equiv> 2"
abbreviation (input) EIO :: int where "EIO \<equiv> 5"
abbreviation (input) EAGAIN :: int where "EAGAIN \<equiv> 11"
abbreviation (input) EACCES :: int where "EACCES \<equiv> 13"
abbreviation (input) EEXIST :: int where "EEXIST \<equiv> 17"
abbreviation (input) ENOTDIR :: int where "ENOTDIR \<equiv> 20"
abbreviation (input) EINVAL :: int where "EINVAL \<equiv> 22"
abbreviation (input) EFBIG :: int where "EFBIG \<equiv> 27"
abbreviation (input) ERANGE :: int where "ERANGE \<equiv> 34"
abbreviation (input) ENAMETOOLONG :: int where "ENAMETOOLONG \<equiv> 36"
abbreviation (input) ENOTEMPTY :: int where "ENOTEMPTY \<equiv> 39"
abbreviation (input) ELOOP :: int where "ELOOP \<equiv> 40"
abbreviation (input) ENOATTR :: int where "ENOATTR \<equiv> 61"
abbreviation (input) EHOSTDOWN :: int where "EHOSTDOWN \<equiv> 112"
abbreviation (input) EALREADY :: int where "EALREADY \<equiv> 114"

abbreviation (input) NAME_MAX :: nat where "NAME_MAX \<equiv> 255"
abbreviation (input) PATH_MAX :: nat where "PATH_MAX \<equiv> 4096"
abbreviation (input) MAXSYMLINKS :: nat where "MAXSYMLINKS \<equiv> 20"

subsection \<open>Ways not to return\<close>

text \<open>
  The build does not define \<^verbatim>\<open>NDEBUG\<close>, so a failed \<^verbatim>\<open>assert\<close> aborts the client. The macros
  \<^verbatim>\<open>REQ_0\<close> and \<^verbatim>\<open>REQ_TRUE\<close> of debug.h call \<^verbatim>\<open>exit\<close>. An exception nobody catches terminates
  the process, an access outside an object's bounds is undefined, a wait for a condition that
  nobody can signal never ends, and \<open>OutOfFuel\<close> is the model's own bound on loops and
  recursions for which no bound is known.
\<close>

datatype stop =
  Assertion | Exit_Failure | Uncaught_Exception | Undefined_Behaviour | Deadlock | OutOfFuel

subsection \<open>Operations of std::string\<close>

primrec find_first :: "(char \<Rightarrow> bool) \<Rightarrow> string \<Rightarrow> nat option" where
  "find_first P [] = None"
| "find_first P (x # xs) = (if P x then Some 0 else map_option Suc (find_first P xs))"

primrec find_last :: "(char \<Rightarrow> bool) \<Rightarrow> string \<Rightarrow> nat option" where
  "find_last P [] = None"
| "find_last P (x # xs) = (case find_last P xs of
     Some i \<Rightarrow> Some (Suc i)
   | None \<Rightarrow> if P x then Some 0 else None)"

definition find_first_from :: "(char \<Rightarrow> bool) \<Rightarrow> nat \<Rightarrow> string \<Rightarrow> nat option" where
  "find_first_from P i s = map_option (\<lambda>j. i + j) (find_first P (drop i s))"

text \<open>
  \<open>erase s i n\<close> removes at most \<open>n\<close> characters from position \<open>i\<close> on. \<open>resize\<close> pads with
  NUL. \<open>replace s i n t\<close> puts \<open>t\<close> in place of at most \<open>n\<close> characters at position \<open>i\<close> and,
  like \<open>substr\<close>, throws \<^verbatim>\<open>std::out_of_range\<close> when \<open>i\<close> is beyond the end.
\<close>

definition str_erase :: "string \<Rightarrow> nat \<Rightarrow> nat \<Rightarrow> string" where
  "str_erase s i n = take i s @ drop (i + n) s"

definition str_resize :: "string \<Rightarrow> nat \<Rightarrow> string" where
  "str_resize s n = take n s @ replicate (n - length s) (CHR 0x00)"

definition str_substr :: "string \<Rightarrow> nat \<Rightarrow> nat \<Rightarrow> stop + string" where
  "str_substr s i n = (if i \<le> length s then Inr (take n (drop i s)) else Inl Uncaught_Exception)"

definition str_replace :: "string \<Rightarrow> nat \<Rightarrow> nat \<Rightarrow> string \<Rightarrow> stop + string" where
  "str_replace s i n t =
     (if i \<le> length s then Inr (take i s @ t @ drop (i + n) s) else Inl Uncaught_Exception)"

lemma find_first_None: "find_first P s = None \<longleftrightarrow> (\<forall>c \<in> set s. \<not> P c)"
  by (induction s) auto

lemma find_last_None: "find_last P s = None \<longleftrightarrow> (\<forall>c \<in> set s. \<not> P c)"
  by (induction s) (auto split: option.splits)

lemma find_first_append_None [simp]:
  "find_first P xs = None \<Longrightarrow> find_first P (xs @ ys) = map_option (\<lambda>i. length xs + i) (find_first P ys)"
  by (induction xs) (auto split: if_splits simp: option.map_comp comp_def option.map_ident
      intro: option.map_cong map_option_idI [symmetric])

lemma find_last_append:
  "find_last P (xs @ ys) = (case find_last P ys of
     Some i \<Rightarrow> Some (length xs + i) | None \<Rightarrow> find_last P xs)"
  by (induction xs) (auto split: option.splits)

lemma find_first_Some:
  "find_first P s = Some i \<Longrightarrow> i < length s \<and> P (s ! i) \<and> (\<forall>j < i. \<not> P (s ! j))"
proof (induction s arbitrary: i)
  case (Cons x xs)
  then show ?case
    by (auto split: if_splits simp: less_Suc_eq_0_disj)
qed simp

lemma find_last_Some:
  "find_last P s = Some i \<Longrightarrow> i < length s \<and> P (s ! i) \<and> (\<forall>c \<in> set (drop (Suc i) s). \<not> P c)"
proof (induction s arbitrary: i)
  case (Cons x xs)
  show ?case
  proof (cases "find_last P xs")
    case None
    with Cons.prems show ?thesis by (auto split: if_splits simp: find_last_None)
  next
    case (Some j)
    with Cons.prems have "i = Suc j" by simp
    with Cons.IH [OF Some] show ?thesis by simp
  qed
qed simp

lemma length_str_resize [simp, string_simps]: "length (str_resize s n) = n"
  by (simp add: str_resize_def)

lemma nth_str_resize [string_simps]:
  "i < n \<Longrightarrow> str_resize s n ! i = (if i < length s then s ! i else CHR 0x00)"
  by (simp add: str_resize_def nth_append min_def)

lemma str_resize_same [simp]: "str_resize s (length s) = s"
  by (simp add: str_resize_def)

subsection \<open>Decimal conversion: std::to_string and std::stoll\<close>

definition digit_char :: "nat \<Rightarrow> char" where
  "digit_char d = char_of (48 + d)"

fun nat_to_string :: "nat \<Rightarrow> string" where
  "nat_to_string n =
     (if n < 10 then [digit_char n] else nat_to_string (n div 10) @ [digit_char (n mod 10)])"

declare nat_to_string.simps [simp del]

definition to_string :: "int \<Rightarrow> string" where
  "to_string i = (if i < 0 then CHR ''-'' # nat_to_string (nat (- i)) else nat_to_string (nat i))"

definition is_digit :: "char \<Rightarrow> bool" where
  "is_digit c \<longleftrightarrow> 48 \<le> (of_char c :: nat) \<and> (of_char c :: nat) \<le> 57"

definition digit_val :: "char \<Rightarrow> nat" where
  "digit_val c = of_char c - 48"

definition digits_val :: "string \<Rightarrow> nat" where
  "digits_val s = foldl (\<lambda>n c. 10 * n + digit_val c) 0 s"

definition is_space :: "char \<Rightarrow> bool" where
  "is_space c \<longleftrightarrow> c = CHR '' '' \<or> 9 \<le> (of_char c :: nat) \<and> (of_char c :: nat) \<le> 13"

text \<open>
  \<open>stoll\<close> skips white space, reads an optional sign and the longest run of digits, and throws
  when there is no digit or the value does not fit into 64 bits.
\<close>

definition stoll :: "string \<Rightarrow> stop + int" where
  "stoll s =
     (let t = dropWhile is_space s;
          neg = (t \<noteq> [] \<and> hd t = CHR ''-'');
          u = (if t \<noteq> [] \<and> (hd t = CHR ''-'' \<or> hd t = CHR ''+'') then tl t else t);
          ds = takeWhile is_digit u;
          v = (if neg then - int (digits_val ds) else int (digits_val ds))
      in if ds = [] \<or> v < - (2 ^ 63) \<or> 2 ^ 63 \<le> v then Inl Uncaught_Exception else Inr v)"

lemma is_digit_digit_char: "d < 10 \<Longrightarrow> is_digit (digit_char d)"
  by (simp add: is_digit_def digit_char_def)

lemma digit_val_digit_char [simp]: "d < 10 \<Longrightarrow> digit_val (digit_char d) = d"
  by (simp add: digit_val_def digit_char_def)

lemma nat_to_string_digits: "\<forall>c \<in> set (nat_to_string n). is_digit c"
proof (induction n rule: nat_to_string.induct)
  case (1 n)
  then show ?case
    by (subst nat_to_string.simps) (auto simp: is_digit_digit_char)
qed

lemma takeWhile_nat_to_string [simp]: "takeWhile is_digit (nat_to_string n) = nat_to_string n"
  using nat_to_string_digits by (simp add: takeWhile_eq_all_conv)

lemma nat_to_string_not_Nil [simp]: "nat_to_string n \<noteq> []"
  by (subst nat_to_string.simps) simp

lemma digits_val_nat_to_string [simp]: "digits_val (nat_to_string n) = n"
proof (induction n rule: nat_to_string.induct)
  case (1 n)
  then show ?case
    by (subst nat_to_string.simps) (auto simp: digits_val_def)
qed

lemma nat_to_string_inject [simp]: "nat_to_string m = nat_to_string n \<longleftrightarrow> m = n"
  by (metis digits_val_nat_to_string)

lemma digit_not_special:
  "is_digit c \<Longrightarrow> c \<noteq> CHR ''-'' \<and> c \<noteq> CHR ''+'' \<and> c \<noteq> CHR ''|'' \<and> c \<noteq> CHR ''_''
     \<and> c \<noteq> CHR ''/'' \<and> c \<noteq> CHR '':'' \<and> \<not> is_space c"
  by (auto simp: is_digit_def is_space_def)

lemma to_string_inject [simp]: "to_string i = to_string j \<longleftrightarrow> i = j"
proof
  assume eq: "to_string i = to_string j"
  have hd_digit: "is_digit (hd (nat_to_string n))" for n
    using nat_to_string_digits [of n] by (simp add: hd_in_set)
  show "i = j"
    using eq digit_not_special hd_digit
    by (auto simp: to_string_def split: if_splits) (metis list.sel(1))+
qed simp

lemma stoll_to_string [simp]:
  assumes "- (2 ^ 63) \<le> i" "i < 2 ^ 63"
  shows "stoll (to_string i) = Inr i"
proof -
  let ?ds = "nat_to_string (nat \<bar>i\<bar>)"
  obtain c cs where ds: "?ds = c # cs" by (cases ?ds) auto
  have digs: "\<forall>d \<in> set ?ds. is_digit d" by (rule nat_to_string_digits)
  then have c: "is_digit c" by (simp add: ds)
  show ?thesis
  proof (cases "i < 0")
    case True
    then have ts: "to_string i = CHR ''-'' # ?ds" by (simp add: to_string_def)
    have "\<not> is_space (CHR ''-'')" by (simp add: is_space_def)
    with True ts assms show ?thesis by (simp add: stoll_def Let_def)
  next
    case False
    then have ts: "to_string i = ?ds" by (simp add: to_string_def)
    have "\<not> is_space c \<and> c \<noteq> CHR ''-'' \<and> c \<noteq> CHR ''+''" using c digit_not_special by blast
    then have "dropWhile is_space ?ds = ?ds" "hd ?ds \<noteq> CHR ''-''" "hd ?ds \<noteq> CHR ''+''"
      by (simp_all add: ds)
    with False ts assms show ?thesis by (simp add: stoll_def Let_def)
  qed
qed

subsection \<open>Commands\<close>

text \<open>
  A command runs on a state and gives a value, or stops without one; either way it leaves a
  state behind, because what has been written to a drive stays there when the client dies.
  \<open>call m f\<close> runs \<open>m\<close> and then \<open>f\<close> on its value.
\<close>

type_synonym ('s, 'a) cmd = "'s \<Rightarrow> (stop + 'a) \<times> 's"

definition ret :: "'a \<Rightarrow> ('s, 'a) cmd" where
  "ret a = (\<lambda>s. (Inr a, s))"

definition halt :: "stop \<Rightarrow> ('s, 'a) cmd" where
  "halt e = (\<lambda>s. (Inl e, s))"

definition call :: "('s, 'a) cmd \<Rightarrow> ('a \<Rightarrow> ('s, 'b) cmd) \<Rightarrow> ('s, 'b) cmd" where
  "call m f = (\<lambda>s. case m s of (Inl e, s') \<Rightarrow> (Inl e, s') | (Inr a, s') \<Rightarrow> f a s')"

definition reads :: "('s \<Rightarrow> 'a) \<Rightarrow> ('s, 'a) cmd" where
  "reads f = (\<lambda>s. (Inr (f s), s))"

definition modify :: "('s \<Rightarrow> 's) \<Rightarrow> ('s, unit) cmd" where
  "modify f = (\<lambda>s. (Inr (), f s))"

text \<open>A pure computation that can stop, and one that also changes the state.\<close>

definition lift :: "stop + 'a \<Rightarrow> ('s, 'a) cmd" where
  "lift r = (\<lambda>s. (r, s))"

text \<open>A null pointer cannot be dereferenced.\<close>

definition deref :: "'p option \<Rightarrow> ('p \<Rightarrow> ('s, 'a) cmd) \<Rightarrow> ('s, 'a) cmd" where
  "deref p f = (case p of None \<Rightarrow> halt Undefined_Behaviour | Some r \<Rightarrow> f r)"

text \<open>The macro \<^verbatim>\<open>REQ_0\<close> of debug.h, for a call that gives an error number.\<close>

definition REQ_0 :: "('s, int) cmd \<Rightarrow> ('s, unit) cmd" where
  "REQ_0 m = call m (\<lambda>err. if err = 0 then ret () else halt Exit_Failure)"

definition REQ_TRUE :: "('s, bool) cmd \<Rightarrow> ('s, unit) cmd" where
  "REQ_TRUE m = call m (\<lambda>b. if b then ret () else halt Exit_Failure)"

definition check_assert :: "bool \<Rightarrow> ('s, unit) cmd" where
  "check_assert b = (if b then ret () else halt Assertion)"

lemmas cmd_defs = ret_def halt_def reads_def modify_def lift_def

lemma call_simps [cmd_simps]:
  "call (ret a) f = f a" "call (halt e) f = halt e" "call m ret = m"
  "call (call m f) g = call m (\<lambda>x. call (f x) g)"
  by (auto simp: call_def ret_def halt_def fun_eq_iff split: prod.splits sum.splits)

lemma call_apply [cmd_simps]:
  "m s = (Inr a, s') \<Longrightarrow> call m f s = f a s'"
  "m s = (Inl e, s') \<Longrightarrow> call m f s = (Inl e, s')"
  by (simp_all add: call_def)

lemma basic_apply [simp]:
  "ret a s = (Inr a, s)" "halt e s = (Inl e, s)" "reads f s = (Inr (f s), s)" "modify g s = (Inr (), g s)"
  "lift (Inr a) s = (Inr a, s)" "lift (Inl e) s = (Inl e, s)"
  by (simp_all add: cmd_defs)

lemma call_basic [cmd_simps]:
  "call (reads f) h s = h (f s) s" "call (modify g) k s = k () (g s)" "call (lift (Inr a)) h s = h a s"
  "call (lift (Inl e)) h s = (Inl e, s)" "call (ret a) h s = h a s"
  by (simp_all add: call_def)

lemma call_Inr: "call m f s = (Inr b, s'') \<longleftrightarrow> (\<exists>a s'. m s = (Inr a, s') \<and> f a s' = (Inr b, s''))"
  by (auto simp: call_def split: prod.splits sum.splits)

lemma call_cong: "m s = m' s \<Longrightarrow> (\<And>a s'. m s = (Inr a, s') \<Longrightarrow> f a s' = f' a s') \<Longrightarrow> call m f s = call m' f' s"
  by (auto simp: call_def split: prod.splits sum.splits)

text \<open>Preservation of a predicate on states, whether the command returns or stops.\<close>

definition keeps :: "('s \<Rightarrow> bool) \<Rightarrow> ('s, 'a) cmd \<Rightarrow> bool" where
  "keeps I m \<longleftrightarrow> (\<forall>s. I s \<longrightarrow> I (snd (m s)))"

lemma keepsD: "keeps I m \<Longrightarrow> I s \<Longrightarrow> m s = (r, s') \<Longrightarrow> I s'"
  by (auto simp: keeps_def dest: spec [of _ s])

lemma keeps_basic [keeps_intros]:
  "keeps I (ret a)" "keeps I (halt e)" "keeps I (reads f)" "keeps I (lift r)"
  by (simp_all add: keeps_def cmd_defs)

lemma keeps_modify [keeps_intros]: "(\<And>s. I s \<Longrightarrow> I (f s)) \<Longrightarrow> keeps I (modify f)"
  by (simp add: keeps_def)

lemma keeps_call [keeps_intros]: "keeps I m \<Longrightarrow> (\<And>a. keeps I (f a)) \<Longrightarrow> keeps I (call m f)"
  by (auto simp: keeps_def call_def split: prod.splits sum.splits dest: spec)

lemma keeps_if [keeps_intros]: "(b \<Longrightarrow> keeps I m) \<Longrightarrow> (\<not> b \<Longrightarrow> keeps I n) \<Longrightarrow> keeps I (if b then m else n)"
  by simp

lemma keeps_option [keeps_intros]:
  "keeps I m \<Longrightarrow> (\<And>a. keeps I (f a)) \<Longrightarrow> keeps I (case x of None \<Rightarrow> m | Some a \<Rightarrow> f a)"
  by (cases x) simp_all

lemma keeps_sum [keeps_intros]:
  "(\<And>a. keeps I (f a)) \<Longrightarrow> (\<And>a. keeps I (g a)) \<Longrightarrow> keeps I (case x of Inl a \<Rightarrow> f a | Inr a \<Rightarrow> g a)"
  by (cases x) simp_all

lemma keeps_prod [keeps_intros]: "(\<And>a b. keeps I (f a b)) \<Longrightarrow> keeps I (case x of (a, b) \<Rightarrow> f a b)"
  by (cases x) simp

lemma keeps_REQ [keeps_intros]:
  "keeps I m \<Longrightarrow> keeps I (REQ_0 m)" "keeps I n \<Longrightarrow> keeps I (REQ_TRUE n)" "keeps I (check_assert b)"
  by (auto simp: REQ_0_def REQ_TRUE_def check_assert_def intro!: keeps_intros)

text \<open>
  Commands that wait forever only for a reason: started in a state with \<open>P\<close>, a command that stops
  with a deadlock does so in a state with \<open>W\<close>, and when it returns its value and state satisfy \<open>Q\<close>.
\<close>

definition live :: "('s \<Rightarrow> bool) \<Rightarrow> ('s \<Rightarrow> bool) \<Rightarrow> ('s, 'a) cmd \<Rightarrow> ('a \<Rightarrow> 's \<Rightarrow> bool) \<Rightarrow> bool" where
  "live W P m Q \<longleftrightarrow> (\<forall>s r s'. P s \<longrightarrow> m s = (r, s') \<longrightarrow> (r = Inl Deadlock \<longrightarrow> W s') \<and> (\<forall>a. r = Inr a \<longrightarrow> Q a s'))"

named_theorems live_intros \<open>commands that wait forever only for a reason\<close>

lemma live_call [live_intros]:
  "live W P m R \<Longrightarrow> (\<And>a. live W (R a) (f a) Q) \<Longrightarrow> live W P (call m f) Q"
  unfolding live_def call_def by (fastforce split: prod.splits sum.splits)

lemma live_mono: "live W P m Q \<Longrightarrow> (\<And>s. P' s \<Longrightarrow> P s) \<Longrightarrow> (\<And>a s. Q a s \<Longrightarrow> Q' a s) \<Longrightarrow> live W P' m Q'"
  unfolding live_def by fast

lemma live_ret [live_intros]: "(\<And>s. P s \<Longrightarrow> Q a s) \<Longrightarrow> live W P (ret a) Q"
  by (simp add: live_def)

lemma live_halt [live_intros]: "e \<noteq> Deadlock \<Longrightarrow> live W P (halt e) Q"
  by (simp add: live_def)

lemma live_reads [live_intros]: "(\<And>s. P s \<Longrightarrow> Q (f s) s) \<Longrightarrow> live W P (reads f) Q"
  by (simp add: live_def)

lemma live_modify [live_intros]: "(\<And>s. P s \<Longrightarrow> Q () (f s)) \<Longrightarrow> live W P (modify f) Q"
  by (simp add: live_def)

lemma live_lift [live_intros]: "r \<noteq> Inl Deadlock \<Longrightarrow> (\<And>a s. r = Inr a \<Longrightarrow> P s \<Longrightarrow> Q a s) \<Longrightarrow> live W P (lift r) Q"
  by (cases r) (auto simp: live_def)

lemma live_if [live_intros]: "(b \<Longrightarrow> live W P m Q) \<Longrightarrow> (\<not> b \<Longrightarrow> live W P n Q) \<Longrightarrow> live W P (if b then m else n) Q"
  by simp

lemma live_option [live_intros]:
  "(x = None \<Longrightarrow> live W P m Q) \<Longrightarrow> (\<And>a. x = Some a \<Longrightarrow> live W P (f a) Q) \<Longrightarrow> live W P (case x of None \<Rightarrow> m | Some a \<Rightarrow> f a) Q"
  by (cases x) simp_all

lemma live_sum [live_intros]:
  "(\<And>a. x = Inl a \<Longrightarrow> live W P (f a) Q) \<Longrightarrow> (\<And>a. x = Inr a \<Longrightarrow> live W P (g a) Q) \<Longrightarrow> live W P (case x of Inl a \<Rightarrow> f a | Inr a \<Rightarrow> g a) Q"
  by (cases x) simp_all

lemma live_prod [live_intros]: "(\<And>a b. x = (a, b) \<Longrightarrow> live W P (f a b) Q) \<Longrightarrow> live W P (case x of (a, b) \<Rightarrow> f a b) Q"
  by (cases x) simp

lemma live_REQ_TRUE [live_intros]:
  assumes "live W P m (\<lambda>b s. b \<longrightarrow> Q () s)"
  shows "live W P (REQ_TRUE m) Q"
  unfolding REQ_TRUE_def by (rule live_call [OF assms]) (auto intro!: live_intros)

lemma live_check_assert [live_intros]: "(\<And>s. P s \<Longrightarrow> b \<Longrightarrow> Q () s) \<Longrightarrow> live W P (check_assert b) Q"
  by (auto simp: check_assert_def intro!: live_intros)

end
