(* ===== verification/Path_Map_DB.thy ===== *)
theory Path_Map_DB
  imports HFlat_Prelude
begin

section \<open>The path map database\<close>

text \<open>
  The class PathMapDB of pathmap\_db.cc: a versioned dictionary in which a client remembers
  the hierarchical operations (directory moves, symbolic links, permission changes) that the
  flat key-value namespace cannot express, and the translation of user paths into the keys
  under which metadata is stored. The dictionary (a \<^verbatim>\<open>std::unordered_map\<close>) is an association
  list with one entry per key; its order stands for the unspecified iteration order.
  The readers counter and the mutex are the subject of the theory on the locking protocol.
\<close>

subsection \<open>Data\<close>

text \<open>
  \<open>UNSET\<close> is the value 0 that \<^verbatim>\<open>operator[]\<close> gives to the type of an entry it creates; it is
  no enumerator of database.proto.
\<close>

datatype MappingType = MOVE | SYMLINK | NONE | REUSE | UNSET

datatype CallingType = LOOKUP | READLINK

record PMEntry =
  pm_type :: MappingType
  target :: string
  permissionTimeStamp :: int

record PathMapDB =
  snapshotVersion :: int
  snapshot :: "(string \<times> PMEntry) list"

definition PathMapDB_init :: PathMapDB where
  "PathMapDB_init = \<lparr>snapshotVersion = 0, snapshot = []\<rparr>"

text \<open>The messages of database.proto. \<open>db_entry_Type_other\<close> is a value outside the enum.\<close>

datatype db_entry_Type =
  db_entry_Type_MOVE | db_entry_Type_SYMLINK | db_entry_Type_NONE | db_entry_Type_REMOVED
| db_entry_Type_other int

record db_entry =
  entry_origin :: string
  entry_type :: db_entry_Type
  entry_target :: string

record db_snapshot_entry =
  se_origin :: string
  se_type :: MappingType
  se_target :: "string option"
  se_permissiontimestamp :: int

record db_snapshot =
  snapshot_version :: int
  entries :: "db_snapshot_entry list"

subsection \<open>Reading\<close>

abbreviation pm_at :: "PathMapDB \<Rightarrow> string \<Rightarrow> PMEntry option" where
  "pm_at db \<equiv> map_of (snapshot db)"

definition getSnapshotVersion :: "PathMapDB \<Rightarrow> int" where
  "getSnapshotVersion db = snapshotVersion db"

definition is_slash :: "char \<Rightarrow> bool" where
  "is_slash c \<longleftrightarrow> c = CHR ''/''"

definition is_colon :: "char \<Rightarrow> bool" where
  "is_colon c \<longleftrightarrow> c = CHR '':''"

text \<open>
  The search for a mapping: the entry's time stamp always counts, the mapping is followed
  unless one of the three exceptions applies, and otherwise the last component is cut off.
  The result is the returned flag with the two reference parameters. With no slash left,
  \<^verbatim>\<open>path.size() - 1 - npos\<close> is the size of the whole string.
\<close>

definition remaps :: "bool \<Rightarrow> bool \<Rightarrow> PMEntry \<Rightarrow> bool" where
  "remaps followReuse followSymlink e \<longleftrightarrow>
     \<not> (pm_type e = NONE \<or> (\<not> followSymlink \<and> pm_type e = SYMLINK)
        \<or> (\<not> followReuse \<and> pm_type e = REUSE))"

definition max_stamp :: "PathMapDB \<Rightarrow> string \<Rightarrow> int \<Rightarrow> int" where
  "max_stamp db path maxTimeStamp = (case pm_at db path of
     Some e \<Rightarrow> max maxTimeStamp (permissionTimeStamp e) | None \<Rightarrow> maxTimeStamp)"

definition remapped_at :: "PathMapDB \<Rightarrow> bool \<Rightarrow> bool \<Rightarrow> string \<Rightarrow> bool" where
  "remapped_at db followReuse followSymlink path = (case pm_at db path of
     Some e \<Rightarrow> remaps followReuse followSymlink e | None \<Rightarrow> False)"

function searchPathRecursive ::
    "PathMapDB \<Rightarrow> string \<Rightarrow> int \<Rightarrow> bool \<Rightarrow> bool \<Rightarrow> bool \<times> string \<times> int" where
  "searchPathRecursive db path maxTimeStamp followReuse followSymlink =
     (let maxTimeStamp = max_stamp db path maxTimeStamp
      in if remapped_at db followReuse followSymlink path then (True, path, maxTimeStamp)
         else case find_last is_slash path of
           None \<Rightarrow> if length path > NAME_MAX then (False, path, - ENAMETOOLONG)
                   else (False, path, maxTimeStamp)
         | Some pos \<Rightarrow> if length path - 1 - pos > NAME_MAX then (False, path, - ENAMETOOLONG)
                       else searchPathRecursive db (take pos path) maxTimeStamp followReuse True)"
  by pat_completeness auto
termination
  by (relation "measure (\<lambda>(db, path, _). length path)") (auto dest: find_last_Some)

declare searchPathRecursive.simps [simp del]

text \<open>
  Undoing the path manipulation of the interception library. The count passed to \<^verbatim>\<open>erase\<close> is
  computed in 64 bits: with no slash behind the colon it covers the rest of the path, except
  at position 0, where \<^verbatim>\<open>npos - 0 + 1\<close> is 0.
\<close>

definition iointercept :: "string \<Rightarrow> string" where
  "iointercept path = (case find_first is_colon path of
     None \<Rightarrow> path
   | Some pos \<Rightarrow>
       let path = (case find_first_from is_slash pos path of
             Some end \<Rightarrow> str_erase path pos (end - pos + 1)
           | None \<Rightarrow> if pos = 0 then path else take pos path)
       in map (\<lambda>c. if is_colon c then CHR ''/'' else c) path)"

text \<open>
  The translation loop. \<open>fuel\<close> bounds the number of iterations of the \<^verbatim>\<open>while\<close> loop; the
  section on termination says when it ends and when it does not.
\<close>

fun toSystemPath_loop ::
    "nat \<Rightarrow> PathMapDB \<Rightarrow> string \<Rightarrow> int \<Rightarrow> bool \<Rightarrow> bool \<Rightarrow> nat \<Rightarrow> stop + string \<times> int" where
  "toSystemPath_loop 0 db systemPath maxTimeStamp followReuse followSymlink numLinks =
     Inl OutOfFuel"
| "toSystemPath_loop (Suc fuel) db systemPath maxTimeStamp followReuse followSymlink numLinks =
     (case searchPathRecursive db systemPath maxTimeStamp followReuse followSymlink of
        (found, temp, maxTimeStamp) \<Rightarrow>
          if \<not> found then Inr (systemPath, maxTimeStamp)
          else case pm_at db temp of
            None \<Rightarrow> Inl Uncaught_Exception
          | Some e \<Rightarrow>
              (let numLinks = (if pm_type e = SYMLINK then Suc numLinks else numLinks)
               in if pm_type e = SYMLINK \<and> numLinks > MAXSYMLINKS then Inr (systemPath, - ELOOP)
                  else toSystemPath_loop fuel db (target e @ drop (length temp) systemPath)
                         maxTimeStamp (pm_type e \<noteq> MOVE) followSymlink numLinks))"

definition toSystemPath ::
    "nat \<Rightarrow> PathMapDB \<Rightarrow> string \<Rightarrow> CallingType \<Rightarrow> stop + string \<times> int" where
  "toSystemPath fuel db user_path ctype =
     (let systemPath = iointercept user_path
      in if length systemPath > PATH_MAX then Inr (systemPath, - ENAMETOOLONG)
         else toSystemPath_loop fuel db systemPath 0 True (ctype \<noteq> LOOKUP) 0)"

definition hasMapping :: "PathMapDB \<Rightarrow> string \<Rightarrow> bool" where
  "hasMapping db path = (pm_at db (iointercept path) \<noteq> None)"

subsection \<open>Writing\<close>

definition pm_put :: "string \<Rightarrow> PMEntry \<Rightarrow> PathMapDB \<Rightarrow> PathMapDB" where
  "pm_put k e db = db\<lparr>snapshot := AList.update k e (snapshot db)\<rparr>"

definition pm_erase :: "string \<Rightarrow> PathMapDB \<Rightarrow> PathMapDB" where
  "pm_erase k db = db\<lparr>snapshot := AList.delete k (snapshot db)\<rparr>"

definition bump :: "PathMapDB \<Rightarrow> PathMapDB" where
  "bump db = db\<lparr>snapshotVersion := snapshotVersion db + 1\<rparr>"

definition reuse_name :: "int \<Rightarrow> string" where
  "reuse_name v = ''|reuse_'' @ to_string v"

definition addSoftLink :: "string \<Rightarrow> string \<Rightarrow> PathMapDB \<Rightarrow> stop + PathMapDB" where
  "addSoftLink origin destination db =
     (let origin = iointercept origin; destination = iointercept destination; db = bump db
      in case pm_at db origin of
        None \<Rightarrow> Inr (pm_put origin \<lparr>pm_type = SYMLINK, target = destination,
                       permissionTimeStamp = 0\<rparr> db)
      | Some e \<Rightarrow> if pm_type e \<noteq> REUSE then Inl Assertion
          else Inr (pm_put (target e) \<lparr>pm_type = SYMLINK, target = destination,
                      permissionTimeStamp = 0\<rparr> db))"

definition addPermissionChange :: "string \<Rightarrow> PathMapDB \<Rightarrow> PathMapDB" where
  "addPermissionChange path db =
     (let path = iointercept path; db = bump db
      in case pm_at db path of
        Some e \<Rightarrow> pm_put path \<lparr>pm_type = pm_type e, target = target e,
                    permissionTimeStamp = snapshotVersion db\<rparr> db
      | None \<Rightarrow> pm_put path \<lparr>pm_type = NONE, target = '''',
                  permissionTimeStamp = snapshotVersion db\<rparr> db)"

text \<open>
  The lookup \<^verbatim>\<open>snapshot[destination]\<close> of the last step creates the entry when it is not there,
  which happens when origin and destination are equal and the mapping has just been erased.
\<close>

definition addDirectoryMove :: "string \<Rightarrow> string \<Rightarrow> PathMapDB \<Rightarrow> stop + PathMapDB" where
  "addDirectoryMove origin destination db =
     (let origin = iointercept origin; destination = iointercept destination; db = bump db;
          moved = (case pm_at db origin of
            None \<Rightarrow> Inr (pm_put origin \<lparr>pm_type = REUSE, target = reuse_name (snapshotVersion db),
                           permissionTimeStamp = 0\<rparr>
                     (pm_put destination \<lparr>pm_type = MOVE, target = origin,
                        permissionTimeStamp = 0\<rparr> db))
          | Some e \<Rightarrow>
              if \<not> (pm_type e = MOVE \<or> pm_type e = REUSE) then Inl Assertion
              else
                let db' = pm_put destination \<lparr>pm_type = MOVE, target = target e,
                            permissionTimeStamp = permissionTimeStamp e\<rparr> db
                in if pm_type e = REUSE then
                     (case pm_at db' origin of
                        Some e' \<Rightarrow> Inr (pm_put origin
                                   (e'\<lparr>target := reuse_name (snapshotVersion db)\<rparr>) db')
                      | None \<Rightarrow> Inl Undefined_Behaviour)
                   else Inr (pm_erase origin db'))
      in case moved of
           Inl s \<Rightarrow> Inl s
         | Inr db \<Rightarrow>
             (case pm_at db destination of
                Some e \<Rightarrow> if destination = target e then Inr (pm_erase origin (pm_erase destination db))
                          else Inr db
              | None \<Rightarrow> if destination = '''' then Inr (pm_erase origin db)
                        else Inr (pm_put destination \<lparr>pm_type = UNSET, target = '''',
                                    permissionTimeStamp = 0\<rparr> db)))"

definition addUnlink :: "string \<Rightarrow> PathMapDB \<Rightarrow> PathMapDB" where
  "addUnlink path db = pm_erase (iointercept path) (bump db)"

subsection \<open>Snapshots and the log\<close>

definition serializeSnapshot :: "PathMapDB \<Rightarrow> db_snapshot" where
  "serializeSnapshot db =
     \<lparr>snapshot_version = snapshotVersion db,
      entries = map (\<lambda>(k, e). \<lparr>se_origin = k, se_type = pm_type e, se_target = Some (target e),
                                se_permissiontimestamp = permissionTimeStamp e\<rparr>) (snapshot db)\<rparr>"

definition load_entry :: "(string \<times> PMEntry) list \<Rightarrow> db_snapshot_entry \<Rightarrow> (string \<times> PMEntry) list" where
  "load_entry m e = AList.update (se_origin e)
     \<lparr>pm_type = se_type e, target = (case se_target e of Some t \<Rightarrow> t | None \<Rightarrow> ''''),
      permissionTimeStamp = se_permissiontimestamp e\<rparr> m"

definition loadSnapshot :: "db_snapshot \<Rightarrow> PathMapDB \<Rightarrow> int \<times> PathMapDB" where
  "loadSnapshot serialized db =
     (if snapshot_version serialized \<le> snapshotVersion db then (0, db)
      else (0, \<lparr>snapshotVersion = snapshot_version serialized,
                snapshot = foldl load_entry [] (entries serialized)\<rparr>))"

text \<open>One entry of the log, as the \<^verbatim>\<open>switch\<close> of updateSnapshot applies it.\<close>

definition apply_entry :: "db_entry \<Rightarrow> PathMapDB \<Rightarrow> stop + (PathMapDB option)" where
  "apply_entry en db = (case entry_type en of
     db_entry_Type_MOVE \<Rightarrow> map_sum id Some (addDirectoryMove (entry_origin en) (entry_target en) db)
   | db_entry_Type_SYMLINK \<Rightarrow> map_sum id Some (addSoftLink (entry_origin en) (entry_target en) db)
   | db_entry_Type_NONE \<Rightarrow> Inr (Some (addPermissionChange (entry_origin en) db))
   | db_entry_Type_REMOVED \<Rightarrow> Inr (Some (addUnlink (entry_origin en) db))
   | db_entry_Type_other _ \<Rightarrow> Inr None)"

fun updateSnapshot_loop ::
    "db_entry list \<Rightarrow> int \<Rightarrow> int \<Rightarrow> PathMapDB \<Rightarrow> stop + (PathMapDB option)" where
  "updateSnapshot_loop [] currentVersion fromVersion db = Inr (Some db)"
| "updateSnapshot_loop (en # ens) currentVersion fromVersion db =
     (let currentVersion = currentVersion + 1
      in if currentVersion < fromVersion then updateSnapshot_loop ens currentVersion fromVersion db
         else case apply_entry en db of
           Inl s \<Rightarrow> Inl s
         | Inr None \<Rightarrow> Inr None
         | Inr (Some db) \<Rightarrow> updateSnapshot_loop ens currentVersion fromVersion db)"

definition updateSnapshot ::
    "db_entry list \<Rightarrow> int \<Rightarrow> int \<Rightarrow> PathMapDB \<Rightarrow> stop + int \<times> PathMapDB" where
  "updateSnapshot ens fromVersion toVersion db =
     (if int (length ens) \<noteq> (toVersion - fromVersion) mod 2 ^ 64 then Inl Assertion
      else if \<not> fromVersion \<le> snapshotVersion db then Inl Assertion
      else if toVersion \<le> snapshotVersion db then Inr (0, db)
      else case updateSnapshot_loop ens (snapshotVersion db) fromVersion db of
        Inl s \<Rightarrow> Inl s
      | Inr None \<Rightarrow> Inr (- EINVAL, \<lparr>snapshotVersion = 0, snapshot = []\<rparr>)
      | Inr (Some db) \<Rightarrow> Inr (0, db\<lparr>snapshotVersion := toVersion\<rparr>))"

subsection \<open>The dictionary\<close>

lemma pm_at_put [simp]: "pm_at (pm_put k e db) = (pm_at db)(k \<mapsto> e)"
  by (simp add: pm_put_def update_conv')

lemma pm_at_erase [simp]: "pm_at (pm_erase k db) = (pm_at db)(k := None)"
  by (simp add: pm_erase_def delete_conv')

lemma snapshotVersion_put [simp]: "snapshotVersion (pm_put k e db) = snapshotVersion db"
  by (simp add: pm_put_def)

lemma snapshotVersion_erase [simp]: "snapshotVersion (pm_erase k db) = snapshotVersion db"
  by (simp add: pm_erase_def)

lemma snapshotVersion_bump [simp]: "snapshotVersion (bump db) = snapshotVersion db + 1"
  by (simp add: bump_def)

lemma snapshot_bump [simp]: "snapshot (bump db) = snapshot db"
  by (simp add: bump_def)

lemma snapshotVersion_update_snapshot [simp]:
  "snapshot (db\<lparr>snapshotVersion := v\<rparr>) = snapshot db"
  by simp

definition db_ok :: "PathMapDB \<Rightarrow> bool" where
  "db_ok db \<longleftrightarrow> distinct (map fst (snapshot db))"

lemma db_ok_put [simp]: "db_ok db \<Longrightarrow> db_ok (pm_put k e db)"
  by (simp add: db_ok_def pm_put_def distinct_update)

lemma db_ok_erase [simp]: "db_ok db \<Longrightarrow> db_ok (pm_erase k db)"
  by (simp add: db_ok_def pm_erase_def distinct_delete)

lemma db_ok_bump [simp]: "db_ok (bump db) = db_ok db"
  by (simp add: db_ok_def)

lemma db_ok_addDirectoryMove: "db_ok db \<Longrightarrow> addDirectoryMove p q db = Inr db' \<Longrightarrow> db_ok db'"
  by (auto simp: addDirectoryMove_def Let_def split: option.splits if_splits sum.splits)

lemma db_ok_addSoftLink: "db_ok db \<Longrightarrow> addSoftLink p q db = Inr db' \<Longrightarrow> db_ok db'"
  by (auto simp: addSoftLink_def Let_def split: option.splits if_splits)

lemma db_ok_addPermissionChange: "db_ok db \<Longrightarrow> db_ok (addPermissionChange p db)"
  by (simp add: addPermissionChange_def Let_def split: option.splits)

lemma db_ok_addUnlink: "db_ok db \<Longrightarrow> db_ok (addUnlink p db)"
  by (simp add: addUnlink_def)

lemma db_ok_apply_entry: "db_ok db \<Longrightarrow> apply_entry en db = Inr (Some db') \<Longrightarrow> db_ok db'"
  by (cases "entry_type en"; cases "addDirectoryMove (entry_origin en) (entry_target en) db";
      cases "addSoftLink (entry_origin en) (entry_target en) db")
     (auto simp: apply_entry_def db_ok_addPermissionChange db_ok_addUnlink
       dest: db_ok_addDirectoryMove db_ok_addSoftLink)

lemma apply_entry_version:
  "apply_entry en db = Inr (Some db') \<Longrightarrow> snapshotVersion db' = snapshotVersion db + 1"
  by (auto simp: apply_entry_def addDirectoryMove_def addSoftLink_def addPermissionChange_def
      addUnlink_def Let_def map_sum_def
      split: db_entry_Type.splits option.splits if_splits sum.splits)

subsection \<open>Paths and their ancestors\<close>

text \<open>The paths the search visits: the path itself, then with one component less each time.\<close>

function ancestors :: "string \<Rightarrow> string list" where
  "ancestors path = path # (case find_last is_slash path of
     None \<Rightarrow> [] | Some pos \<Rightarrow> ancestors (take pos path))"
  by pat_completeness auto
termination
  by (relation "measure length") (auto dest: find_last_Some)

declare ancestors.simps [simp del]

definition last_component :: "string \<Rightarrow> string" where
  "last_component path = (case find_last is_slash path of
     None \<Rightarrow> path | Some pos \<Rightarrow> drop (Suc pos) path)"

definition names_ok :: "string \<Rightarrow> bool" where
  "names_ok path \<longleftrightarrow> (\<forall>a \<in> set (ancestors path). length (last_component a) \<le> NAME_MAX)"

lemma ancestors_not_Nil [simp]: "ancestors p \<noteq> []"
  by (subst ancestors.simps) simp

lemma self_ancestor [simp]: "p \<in> set (ancestors p)"
  by (subst ancestors.simps) simp

lemma ancestors_no_slash: "find_last is_slash p = None \<Longrightarrow> ancestors p = [p]"
  by (subst ancestors.simps) simp

lemma find_last_under:
  "find_last is_slash (d @ CHR ''/'' # x) =
     Some (length d + (case find_last is_slash x of None \<Rightarrow> 0 | Some i \<Rightarrow> Suc i))"
  by (auto simp: find_last_append is_slash_def split: option.splits)

lemma ancestors_under:
  "ancestors (d @ CHR ''/'' # x) = map (\<lambda>y. d @ CHR ''/'' # y) (ancestors x) @ ancestors d"
proof (induction x rule: ancestors.induct)
  case (1 x)
  show ?case
  proof (cases "find_last is_slash x")
    case None
    then show ?thesis
      by (subst ancestors.simps) (simp add: find_last_under ancestors_no_slash)
  next
    case (Some i)
    with "1.IH" have "ancestors (d @ CHR ''/'' # take i x) =
        map (\<lambda>y. d @ CHR ''/'' # y) (ancestors (take i x)) @ ancestors d"
      by blast
    with Some show ?thesis
      by (subst ancestors.simps, subst ancestors.simps [of x]) (simp add: find_last_under)
  qed
qed

lemma ancestor_shape: "a \<in> set (ancestors p) \<Longrightarrow> a = p \<or> (\<exists>x. p = a @ CHR ''/'' # x)"
proof (induction p rule: ancestors.induct)
  case (1 p)
  show ?case
  proof (cases "a = p \<or> find_last is_slash p = None")
    case True
    with "1.prems" show ?thesis by (auto simp: ancestors_no_slash)
  next
    case False
    then obtain i where i: "find_last is_slash p = Some i" by auto
    with False "1.prems" have "a \<in> set (ancestors (take i p))"
      by (subst (asm) ancestors.simps) simp
    with "1.IH" [OF i] have "a = take i p \<or> (\<exists>x. take i p = a @ CHR ''/'' # x)" by blast
    moreover have "p = take i p @ CHR ''/'' # drop (Suc i) p"
      using find_last_Some [OF i] by (simp add: is_slash_def id_take_nth_drop [of i p, symmetric])
        (metis id_take_nth_drop)
    ultimately show ?thesis by (metis append.assoc append_Cons)
  qed
qed

lemma under_ancestor [simp]: "d \<in> set (ancestors (d @ CHR ''/'' # x))"
  by (simp add: ancestors_under)

lemma ancestor_iff: "a \<in> set (ancestors p) \<longleftrightarrow> a = p \<or> (\<exists>x. p = a @ CHR ''/'' # x)"
  using ancestor_shape by auto

lemma ancestor_take: "a \<in> set (ancestors p) \<Longrightarrow> p = a @ drop (length a) p"
  by (auto simp: ancestor_iff)

lemma last_component_length:
  "find_last is_slash p = Some i \<Longrightarrow> length (last_component p) = length p - 1 - i"
  by (simp add: last_component_def)

lemma names_ok_take: "names_ok p \<Longrightarrow> find_last is_slash p = Some i \<Longrightarrow> names_ok (take i p)"
  using ancestors.simps [of p] by (simp add: names_ok_def)

lemma names_ok_last: "names_ok p \<Longrightarrow> length (last_component p) \<le> NAME_MAX"
  by (simp add: names_ok_def)

subsection \<open>What the search finds\<close>

text \<open>
  A specification of the search without recursion on strings: it walks the list of ancestors
  up to the first one with a mapping that may be followed, and collects the time stamps on the
  way. A symbolic link is not followed at the path itself unless asked for.
\<close>

definition stops_at :: "PathMapDB \<Rightarrow> string \<Rightarrow> bool \<Rightarrow> bool \<Rightarrow> string \<Rightarrow> bool" where
  "stops_at db path followReuse followSymlink a =
     remapped_at db followReuse (followSymlink \<or> a \<noteq> path) a"

definition search_spec ::
    "PathMapDB \<Rightarrow> string \<Rightarrow> int \<Rightarrow> bool \<Rightarrow> bool \<Rightarrow> bool \<times> string \<times> int" where
  "search_spec db path maxTimeStamp followReuse followSymlink =
     (let stop = stops_at db path followReuse followSymlink;
          before = takeWhile (Not \<circ> stop) (ancestors path);
          stamps = foldl (\<lambda>t a. max_stamp db a t) maxTimeStamp
      in case dropWhile (Not \<circ> stop) (ancestors path) of
           [] \<Rightarrow> (False, last (ancestors path), stamps before)
         | a # _ \<Rightarrow> (True, a, stamps (before @ [a])))"

lemma ancestors_shorter:
  "find_last is_slash p = Some i \<Longrightarrow> a \<in> set (ancestors (take i p)) \<Longrightarrow> a \<noteq> p"
proof
  assume i: "find_last is_slash p = Some i" and a: "a \<in> set (ancestors (take i p))" and "a = p"
  then have "\<exists>x. take i p = p @ x" by (metis ancestor_iff append_Nil2)
  then have "length p \<le> length (take i p)" by (metis length_append le_add1)
  with find_last_Some [OF i] show False by simp
qed

lemma search_spec_step:
  assumes "find_last is_slash p = Some i" "\<not> remapped_at db fr fs p"
  shows "search_spec db p ts fr fs = search_spec db (take i p) (max_stamp db p ts) fr True"
proof -
  have "stops_at db p fr fs a = stops_at db (take i p) fr True a" if "a \<in> set (ancestors (take i p))" for a
    using ancestors_shorter [OF assms(1) that] by (simp add: stops_at_def)
  then have tw: "takeWhile (Not \<circ> stops_at db p fr fs) (ancestors (take i p)) =
      takeWhile (Not \<circ> stops_at db (take i p) fr True) (ancestors (take i p))"
    and dw: "dropWhile (Not \<circ> stops_at db p fr fs) (ancestors (take i p)) =
      dropWhile (Not \<circ> stops_at db (take i p) fr True) (ancestors (take i p))"
    by (auto intro: takeWhile_cong dropWhile_cong)
  have anc: "ancestors p = p # ancestors (take i p)"
    using assms(1) by (subst ancestors.simps) simp
  have "\<not> stops_at db p fr fs p" using assms(2) by (simp add: stops_at_def)
  then show ?thesis
    by (simp add: search_spec_def Let_def anc tw dw del: dropWhile_eq_Nil_conv split: list.splits)
qed

lemma search_spec_hit: "remapped_at db fr fs p \<Longrightarrow> search_spec db p ts fr fs = (True, p, max_stamp db p ts)"
  by (subst search_spec_def, subst ancestors.simps, subst ancestors.simps, subst ancestors.simps)
     (simp add: stops_at_def Let_def)

lemma search_spec_end:
  "find_last is_slash p = None \<Longrightarrow> \<not> remapped_at db fr fs p \<Longrightarrow>
     search_spec db p ts fr fs = (False, p, max_stamp db p ts)"
  by (simp add: search_spec_def ancestors_no_slash stops_at_def Let_def)

lemma search_correct:
  "names_ok p \<Longrightarrow> searchPathRecursive db p ts fr fs = search_spec db p ts fr fs"
proof (induction db p ts fr fs rule: searchPathRecursive.induct)
  case (1 db p ts fr fs)
  show ?case
  proof (cases "remapped_at db fr fs p")
    case True
    then show ?thesis
      by (subst searchPathRecursive.simps) (simp add: search_spec_hit Let_def)
  next
    case nohit: False
    show ?thesis
    proof (cases "find_last is_slash p")
      case None
      with "1.prems" have "length p \<le> NAME_MAX"
        using names_ok_last [of p] by (simp add: last_component_def)
      with None nohit show ?thesis
        by (subst searchPathRecursive.simps) (simp add: search_spec_end Let_def)
    next
      case (Some i)
      have len: "\<not> length p - 1 - i > NAME_MAX"
        using names_ok_last [OF "1.prems"] last_component_length [OF Some] by simp
      have "searchPathRecursive db (take i p) (max_stamp db p ts) fr True =
          search_spec db (take i p) (max_stamp db p ts) fr True"
        using "1.IH" [OF refl nohit Some len] names_ok_take [OF "1.prems" Some] by simp
      with Some nohit len show ?thesis
        by (subst searchPathRecursive.simps) (simp add: search_spec_step Let_def)
    qed
  qed
qed

text \<open>What the clients of the search use: no mapping on the way, and the first one.\<close>

lemma search_unmapped:
  assumes "names_ok p" "\<forall>a \<in> set (ancestors p). pm_at db a = None"
  shows "\<exists>q. searchPathRecursive db p ts fr fs = (False, q, ts)"
proof -
  have "\<not> stops_at db p fr fs a" if "a \<in> set (ancestors p)" for a
    using assms(2) that by (simp add: stops_at_def remapped_at_def)
  then have "takeWhile (Not \<circ> stops_at db p fr fs) (ancestors p) = ancestors p"
    and "dropWhile (Not \<circ> stops_at db p fr fs) (ancestors p) = []"
    by (auto simp: takeWhile_eq_all_conv dropWhile_eq_Nil_conv)
  moreover have "foldl (\<lambda>t a. max_stamp db a t) ts as = ts"
    if "set as \<subseteq> set (ancestors p)" for as
    using that assms(2) by (induction as arbitrary: ts) (auto simp: max_stamp_def)
  ultimately show ?thesis
    using search_correct [OF assms(1)]
    by (simp add: search_spec_def Let_def del: dropWhile_eq_Nil_conv takeWhile_eq_all_conv)
qed

lemma search_nohit:
  assumes "names_ok p" "\<forall>a \<in> set (ancestors p). \<not> stops_at db p fr fs a"
  shows "\<exists>q ts'. searchPathRecursive db p ts fr fs = (False, q, ts')"
proof -
  have "dropWhile (Not \<circ> stops_at db p fr fs) (ancestors p) = []"
    using assms(2) by (auto simp: dropWhile_eq_Nil_conv)
  then show ?thesis
    using search_correct [OF assms(1)]
    by (simp add: search_spec_def Let_def del: dropWhile_eq_Nil_conv takeWhile_eq_all_conv)
qed

lemma search_found:
  assumes "searchPathRecursive db p ts fr fs = (True, a, ts')"
  shows "a \<in> set (ancestors p) \<and> (\<exists>e. pm_at db a = Some e \<and> remaps fr (fs \<or> a \<noteq> p) e)"
  using assms
proof (induction db p ts fr fs rule: searchPathRecursive.induct)
  case (1 db p ts fr fs)
  show ?case
  proof (cases "remapped_at db fr fs p")
    case True
    with "1.prems" show ?thesis
      by (subst (asm) searchPathRecursive.simps)
         (auto simp: Let_def remapped_at_def remaps_def split: option.splits)
  next
    case nohit: False
    then obtain i where i: "find_last is_slash p = Some i" "\<not> length p - 1 - i > NAME_MAX"
      and rec: "searchPathRecursive db (take i p) (max_stamp db p ts) fr True = (True, a, ts')"
      using "1.prems" by (subst (asm) searchPathRecursive.simps)
        (auto simp: Let_def split: option.splits if_splits)
    then have IH: "a \<in> set (ancestors (take i p)) \<and>
        (\<exists>e. pm_at db a = Some e \<and> remaps fr (True \<or> a \<noteq> take i p) e)"
      using "1.IH" [OF refl nohit i] by blast
    then have "a \<noteq> p" using ancestors_shorter [OF i(1)] by blast
    with IH show ?thesis using ancestors.simps [of p] i(1) by simp
  qed
qed

end
