(* ===== verification/Path_Map_Props.thy ===== *)
theory Path_Map_Props
  imports Path_Map_DB
begin

section \<open>Properties of the path map database\<close>

text \<open>
  What the translation of paths promises: which key a path leads to after directory moves,
  which time stamp it demands after a permission change, that snapshots and the log carry the
  same information, when the translation loop ends, and three places where the code does not
  do what its comments say.
\<close>

subsection \<open>Running the translation loop\<close>

definition relative :: "string \<Rightarrow> bool" where
  "relative x \<longleftrightarrow> x = '''' \<or> (\<exists>y. x = CHR ''/'' # y)"

lemma iointercept_no_colon [simp]: "CHR '':'' \<notin> set p \<Longrightarrow> iointercept p = p"
proof -
  assume "CHR '':'' \<notin> set p"
  then have "find_first is_colon p = None" by (auto simp: find_first_None is_colon_def)
  then show ?thesis by (simp add: iointercept_def)
qed

lemma loop_unmapped:
  assumes "names_ok p" "\<forall>a \<in> set (ancestors p). pm_at db a = None" "0 < fuel"
  shows "toSystemPath_loop fuel db p ts fr fs n = Inr (p, ts)"
proof -
  obtain f where f: "fuel = Suc f" using assms(3) by (cases fuel) auto
  obtain q where "searchPathRecursive db p ts fr fs = (False, q, ts)"
    using search_unmapped [OF assms(1,2)] by blast
  then show ?thesis by (simp add: f)
qed

lemma loop_step:
  assumes "searchPathRecursive db p ts fr fs = (True, a, ts')" "pm_at db a = Some e"
    "pm_type e \<noteq> SYMLINK"
  shows "toSystemPath_loop (Suc fuel) db p ts fr fs n =
     toSystemPath_loop fuel db (target e @ drop (length a) p) ts' (pm_type e \<noteq> MOVE) fs n"
  using assms by simp

lemma ancestors_append:
  assumes "relative x" "a \<in> set (ancestors (d @ x))"
  shows "a \<in> set (ancestors d) \<or> (\<exists>y. a = d @ CHR ''/'' # y)"
  using assms by (auto simp: relative_def ancestors_under)

lemma ancestor_of_append [simp]: "relative x \<Longrightarrow> d \<in> set (ancestors (d @ x))"
  by (auto simp: relative_def)

text \<open>
  The search ends at \<open>d\<close> when \<open>d\<close> is the only ancestor with an entry that may be followed.
\<close>

lemma search_single:
  assumes ok: "names_ok p" and d: "d \<in> set (ancestors p)"
    and e: "pm_at db d = Some e" "remaps fr (fs \<or> d \<noteq> p) e"
    and only: "\<forall>a \<in> set (ancestors p) - {d}. pm_at db a = None"
  shows "searchPathRecursive db p ts fr fs = (True, d, max ts (permissionTimeStamp e))"
proof -
  let ?P = "Not \<circ> stops_at db p fr fs"
  have stop: "stops_at db p fr fs a \<longleftrightarrow> a = d" if "a \<in> set (ancestors p)" for a
    using that e only by (cases "a = d") (auto simp: stops_at_def remapped_at_def)
  have "d \<in> set (dropWhile ?P (ancestors p))"
    using d stop by (metis comp_apply set_takeWhileD takeWhile_dropWhile_id Un_iff set_append)
  then obtain b bs where b: "dropWhile ?P (ancestors p) = b # bs"
    by (cases "dropWhile ?P (ancestors p)") auto
  have "stops_at db p fr fs b" using hd_dropWhile [of ?P "ancestors p"] b by simp
  moreover have "b \<in> set (ancestors p)" using b by (metis list.set_intros(1) set_dropWhileD)
  ultimately have bd: "b = d" using stop by blast
  have "foldl (\<lambda>t a. max_stamp db a t) ts as = ts" if "set as \<subseteq> set (ancestors p) - {d}" for as
    using that only by (induction as) (auto simp: max_stamp_def)
  moreover have "set (takeWhile ?P (ancestors p)) \<subseteq> set (ancestors p) - {d}"
    using stop by (auto dest: set_takeWhileD)
  ultimately have "foldl (\<lambda>t a. max_stamp db a t) ts (takeWhile ?P (ancestors p)) = ts" by blast
  then show ?thesis
    using search_correct [OF ok] b bd e(1) by (simp add: search_spec_def Let_def max_stamp_def)
qed

lemma search_skips_reuse:
  assumes "names_ok p" "pm_at db d = Some e" "pm_type e = REUSE" "permissionTimeStamp e \<le> ts"
    "\<forall>a \<in> set (ancestors p) - {d}. pm_at db a = None"
  shows "\<exists>q. searchPathRecursive db p ts False fs = (False, q, ts)"
proof -
  have "\<not> stops_at db p False fs a" if "a \<in> set (ancestors p)" for a
    using that assms(2,3,5) by (cases "a = d") (auto simp: stops_at_def remapped_at_def remaps_def)
  then have "dropWhile (Not \<circ> stops_at db p False fs) (ancestors p) = []" by auto
  moreover have "foldl (\<lambda>t a. max_stamp db a t) ts as = ts" if "set as \<subseteq> set (ancestors p)" for as
    using that assms(2,4,5)
  proof (induction as)
    case (Cons a as)
    then have "max_stamp db a ts = ts" by (cases "a = d") (auto simp: max_stamp_def)
    with Cons show ?case by simp
  qed simp
  moreover have "set (takeWhile (Not \<circ> stops_at db p False fs) (ancestors p)) \<subseteq> set (ancestors p)"
    by (auto dest: set_takeWhileD)
  ultimately show ?thesis
    using search_correct [OF assms(1), of db ts False fs]
    by (simp add: search_spec_def Let_def del: dropWhile_eq_Nil_conv takeWhile_eq_all_conv)
qed

subsection \<open>Directory moves\<close>

lemma addDirectoryMove_fresh:
  assumes "CHR '':'' \<notin> set origin" "CHR '':'' \<notin> set dest"
    "pm_at db origin = None" "origin \<noteq> dest"
  obtains db' where "addDirectoryMove origin dest db = Inr db'"
    "snapshotVersion db' = snapshotVersion db + 1"
    "pm_at db' = (pm_at db)(dest \<mapsto> \<lparr>pm_type = MOVE, target = origin, permissionTimeStamp = 0\<rparr>,
       origin \<mapsto> \<lparr>pm_type = REUSE, target = reuse_name (snapshotVersion db + 1),
                   permissionTimeStamp = 0\<rparr>)"
  using assms by (simp add: addDirectoryMove_def Let_def)

text \<open>
  The central promise of the file system (README\_ARCH.md): after moving the directory
  \<open>origin\<close> to \<open>dest\<close>, every path at or below \<open>dest\<close> leads to the key the same file had below
  \<open>origin\<close>, and the old name is free again: paths at or below \<open>origin\<close> lead to fresh keys.
  Two iterations of the translation loop are enough. The hypotheses say that neither path
  lies inside the other and that no other mapping is involved.
\<close>

lemma directory_move_remaps:
  assumes plain: "CHR '':'' \<notin> set origin" "CHR '':'' \<notin> set dest" "CHR '':'' \<notin> set x" "relative x"
    and apart: "origin \<notin> set (ancestors (dest @ x))" "dest \<notin> set (ancestors (origin @ x))"
    and clear: "\<forall>a \<in> set (ancestors (dest @ x)) \<union> set (ancestors (origin @ x)). pm_at db a = None"
    and fresh: "\<forall>a \<in> set (ancestors (reuse_name (snapshotVersion db + 1) @ x)).
                  pm_at db a = None \<and> a \<noteq> origin \<and> a \<noteq> dest"
    and names: "names_ok (dest @ x)" "names_ok (origin @ x)"
      "names_ok (reuse_name (snapshotVersion db + 1) @ x)"
    and short: "length (dest @ x) \<le> PATH_MAX" "length (origin @ x) \<le> PATH_MAX"
    and fuel: "2 \<le> fuel"
  shows "\<exists>db'. addDirectoryMove origin dest db = Inr db'
     \<and> toSystemPath fuel db' (dest @ x) ctype = Inr (origin @ x, 0)
     \<and> toSystemPath fuel db' (origin @ x) ctype = Inr (reuse_name (snapshotVersion db + 1) @ x, 0)"
proof -
  have "pm_at db origin = None" "origin \<noteq> dest" using clear apart plain(4) by auto
  then obtain db' where mv: "addDirectoryMove origin dest db = Inr db'"
    and at: "pm_at db' = (pm_at db)(dest \<mapsto> \<lparr>pm_type = MOVE, target = origin, permissionTimeStamp = 0\<rparr>,
       origin \<mapsto> \<lparr>pm_type = REUSE, target = reuse_name (snapshotVersion db + 1),
                   permissionTimeStamp = 0\<rparr>)"
    using addDirectoryMove_fresh [OF plain(1,2)] by metis
  define f where "f = fuel - 2"
  then have f: "fuel = Suc (Suc f)" using fuel by simp
  have dest: "pm_at db' dest = Some \<lparr>pm_type = MOVE, target = origin, permissionTimeStamp = 0\<rparr>"
    and orig: "pm_at db' origin = Some \<lparr>pm_type = REUSE,
      target = reuse_name (snapshotVersion db + 1), permissionTimeStamp = 0\<rparr>"
    using \<open>origin \<noteq> dest\<close> by (simp_all add: at)
  have only_dest: "\<forall>a \<in> set (ancestors (dest @ x)) - {dest}. pm_at db' a = None"
    using apart clear by (auto simp: at)
  have only_orig: "\<forall>a \<in> set (ancestors (origin @ x)) - {origin}. pm_at db' a = None"
    using apart clear by (auto simp: at)
  have s1: "searchPathRecursive db' (dest @ x) 0 True fs = (True, dest, 0)" for fs
    using search_single [OF names(1) ancestor_of_append [OF plain(4)] dest _ only_dest, of True fs 0]
    by (simp add: remaps_def)
  have s2: "\<exists>q. searchPathRecursive db' (origin @ x) 0 False fs = (False, q, 0)" for fs
    by (rule search_skips_reuse [OF names(2) orig _ _ only_orig]) simp_all
  have s3: "searchPathRecursive db' (origin @ x) 0 True fs = (True, origin, 0)" for fs
    using search_single [OF names(2) ancestor_of_append [OF plain(4)] orig _ only_orig, of True fs 0]
    by (simp add: remaps_def)
  have unm: "\<forall>a \<in> set (ancestors (reuse_name (snapshotVersion db + 1) @ x)). pm_at db' a = None"
    using fresh by (auto simp: at)
  have s4: "toSystemPath_loop (Suc f) db' (reuse_name (snapshotVersion db + 1) @ x) 0 True fs 0 =
      Inr (reuse_name (snapshotVersion db + 1) @ x, 0)" for fs
    by (rule loop_unmapped [OF names(3) unm]) simp
  have "toSystemPath fuel db' (dest @ x) ctype = Inr (origin @ x, 0)"
    using plain short s2 [of "ctype \<noteq> LOOKUP"] by (auto simp: toSystemPath_def f s1 dest)
  moreover have "toSystemPath fuel db' (origin @ x) ctype =
      Inr (reuse_name (snapshotVersion db + 1) @ x, 0)"
    using plain short s4 by (simp add: toSystemPath_def f s3 orig del: toSystemPath_loop.simps)
       (simp add: s3 orig s4 del: toSystemPath_loop.simps(2) add: loop_step [OF s3 orig])
  ultimately show ?thesis using mv by blast
qed

text \<open>Moving on: a second move of a moved directory rewrites the mapping instead of chaining it.\<close>

lemma addDirectoryMove_again:
  assumes "CHR '':'' \<notin> set origin" "CHR '':'' \<notin> set dest" "origin \<noteq> dest"
    "pm_at db origin = Some e" "pm_type e = MOVE" "target e \<noteq> dest"
  obtains db' where "addDirectoryMove origin dest db = Inr db'"
    "pm_at db' = (pm_at db)(dest \<mapsto> \<lparr>pm_type = MOVE, target = target e,
       permissionTimeStamp = permissionTimeStamp e\<rparr>, origin := None)"
  using assms by (simp add: addDirectoryMove_def Let_def)

text \<open>
  Moving a directory back to where it came from leaves no mapping behind: the two entries
  cancel out and the dictionary is the one from before (the comment \<open>mv /a /b [b->a, a->X];
  mv /b /a []\<close>), so the special case for circular moves is complete.
\<close>

theorem circular_move_cancels:
  assumes "CHR '':'' \<notin> set a" "CHR '':'' \<notin> set b" "a \<noteq> b" "pm_at db a = None" "pm_at db b = None"
  shows "\<exists>db1 db2. addDirectoryMove a b db = Inr db1 \<and> addDirectoryMove b a db1 = Inr db2
     \<and> pm_at db2 = pm_at db \<and> snapshotVersion db2 = snapshotVersion db + 2"
proof -
  obtain db1 where mv: "addDirectoryMove a b db = Inr db1"
    and v1: "snapshotVersion db1 = snapshotVersion db + 1"
    and at: "pm_at db1 = (pm_at db)(b \<mapsto> \<lparr>pm_type = MOVE, target = a, permissionTimeStamp = 0\<rparr>,
       a \<mapsto> \<lparr>pm_type = REUSE, target = reuse_name (snapshotVersion db + 1),
             permissionTimeStamp = 0\<rparr>)"
    using addDirectoryMove_fresh [OF assms(1,2,4,3)] by metis
  have "\<exists>db2. addDirectoryMove b a db1 = Inr db2 \<and> pm_at db2 = pm_at db
      \<and> snapshotVersion db2 = snapshotVersion db + 2"
    using assms by (auto simp: addDirectoryMove_def Let_def at v1 fun_eq_iff)
  with mv show ?thesis by blast
qed

theorem circular_move_cancels_witness:
  "\<exists>db1 db2. addDirectoryMove ''/a'' ''/b'' PathMapDB_init = Inr db1
     \<and> addDirectoryMove ''/b'' ''/a'' db1 = Inr db2
     \<and> pm_at db2 = pm_at PathMapDB_init
     \<and> snapshotVersion db2 = snapshotVersion PathMapDB_init + 2"
  by (rule circular_move_cancels) (simp_all add: PathMapDB_init_def)

subsection \<open>Permission changes\<close>

lemma stamps_ge: "ts \<le> foldl (\<lambda>t a. max_stamp db a t) ts as"
proof (induction as arbitrary: ts)
  case (Cons a as)
  have "ts \<le> max_stamp db a ts" by (simp add: max_stamp_def split: option.splits)
  with Cons.IH [of "max_stamp db a ts"] show ?case by simp
qed simp

lemma stamps_member:
  "a \<in> set as \<Longrightarrow> pm_at db a = Some e \<Longrightarrow> permissionTimeStamp e \<le> foldl (\<lambda>t a. max_stamp db a t) ts as"
proof (induction as arbitrary: ts)
  case (Cons b as)
  show ?case
  proof (cases "a = b")
    case True
    with Cons.prems have "permissionTimeStamp e \<le> max_stamp db b ts" by (simp add: max_stamp_def)
    then show ?thesis using stamps_ge [of "max_stamp db b ts" db as] by simp
  next
    case False
    with Cons show ?thesis by simp
  qed
qed simp

lemma search_stamp_ge:
  assumes "searchPathRecursive db p ts fr fs = (found, q, ts')"
  shows "(\<not> found \<and> ts' = - ENAMETOOLONG) \<or> ts \<le> ts'"
  using assms
proof (induction db p ts fr fs rule: searchPathRecursive.induct)
  case (1 db p ts fr fs)
  have "ts \<le> max_stamp db p ts" by (simp add: max_stamp_def split: option.splits)
  with "1.prems" "1.IH" [OF refl] show ?case
    using searchPathRecursive.simps [of db p ts fr fs]
    by (fastforce simp: Let_def split: option.splits if_splits)
qed

lemma loop_stamp_ge:
  assumes "toSystemPath_loop fuel db p ts fr fs n = Inr (q, ts')" "0 \<le> ts'"
  shows "ts \<le> ts' \<and> (\<forall>a ts1. searchPathRecursive db p ts fr fs = (a, ts1) \<longrightarrow> snd ts1 \<le> ts')"
  using assms
proof (induction fuel arbitrary: p ts fr n)
  case (Suc fuel)
  obtain found temp ts1 where s: "searchPathRecursive db p ts fr fs = (found, temp, ts1)"
    by (metis prod_cases3)
  show ?case
  proof (cases "found")
    case False
    with Suc.prems s have "ts1 = ts'" by simp
    with Suc.prems s search_stamp_ge [OF s] show ?thesis by simp
  next
    case True
    with Suc.prems s obtain p' fr' n' where
      "toSystemPath_loop fuel db p' ts1 fr' fs n' = Inr (q, ts')"
      by (auto simp: Let_def split: option.splits if_splits)
    from Suc.IH [OF this] Suc.prems(2) have "ts1 \<le> ts'" by blast
    with s search_stamp_ge [OF s] True show ?thesis by simp
  qed
qed simp

lemma search_stamp_ge_ok:
  assumes "names_ok p" "searchPathRecursive db p ts fr fs = (found, q, ts')"
  shows "ts \<le> ts'"
  using assms stamps_ge search_correct [OF assms(1), of db ts fr fs]
  by (auto simp: search_spec_def Let_def simp del: foldl_append split: list.splits)

lemma search_visits:
  assumes "names_ok p" "d \<in> set (ancestors p)" "pm_at db d = Some e"
    "\<forall>a \<in> set (ancestors p). a \<noteq> d \<and> d \<in> set (ancestors a) \<longrightarrow> pm_at db a = None"
    "searchPathRecursive db p ts fr fs = (found, q, ts')"
  shows "permissionTimeStamp e \<le> ts'"
  using assms
proof (induction db p ts fr fs rule: searchPathRecursive.induct)
  case (1 db p ts fr fs)
  show ?case
  proof (cases "p = d")
    case True
    with "1.prems"(3) have "permissionTimeStamp e \<le> max_stamp db p ts" by (simp add: max_stamp_def)
    moreover have "max_stamp db p ts \<le> ts'"
      using "1.prems"(1,5) search_stamp_ge_ok [OF names_ok_take] names_ok_last [of p]
      by (subst (asm) searchPathRecursive.simps)
         (fastforce simp: Let_def last_component_def split: option.splits if_splits)
    ultimately show ?thesis by simp
  next
    case False
    with "1.prems"(2,4) have unm: "pm_at db p = None" by simp
    then have nohit: "\<not> remapped_at db fr fs p" by (simp add: remapped_at_def)
    from False "1.prems"(2) obtain i where i: "find_last is_slash p = Some i"
        "d \<in> set (ancestors (take i p))"
      using ancestors.simps [of p] by (auto split: option.splits)
    then have len: "\<not> length p - 1 - i > NAME_MAX"
      using names_ok_last [OF "1.prems"(1)] last_component_length [OF i(1)] by simp
    have sub: "set (ancestors (take i p)) \<subseteq> set (ancestors p)"
      using ancestors.simps [of p] i(1) by auto
    have "searchPathRecursive db (take i p) (max_stamp db p ts) fr True = (found, q, ts')"
      using "1.prems"(5) nohit i(1) len by (subst (asm) searchPathRecursive.simps) (simp add: Let_def)
    then show ?thesis
      using "1.IH" [OF refl nohit i(1) len] names_ok_take [OF "1.prems"(1) i(1)] i(2) "1.prems"(3,4) sub
      by blast
  qed
qed

lemma addPermissionChange_at:
  assumes "CHR '':'' \<notin> set p"
  shows "\<exists>e. pm_at (addPermissionChange p db) = (pm_at db)(p \<mapsto> e)
     \<and> permissionTimeStamp e = snapshotVersion (addPermissionChange p db)"
  using assms by (cases "pm_at db p") (auto simp: addPermissionChange_def Let_def)

text \<open>
  After a permission change on a directory, every translation of a path at or below that
  directory demands path permissions verified at least at the version of the change: the
  stale metadata of no file below it passes the staleness test of the lookup. The hypothesis
  \<open>between\<close> says that no mapping deeper than the directory diverts the search before it.
\<close>

theorem permission_change_demanded:
  assumes plain: "CHR '':'' \<notin> set p" "CHR '':'' \<notin> set x" "relative x" "names_ok (p @ x)"
    and between: "\<forall>a \<in> set (ancestors (p @ x)). a \<noteq> p \<and> p \<in> set (ancestors a) \<longrightarrow> pm_at db a = None"
    and res: "toSystemPath fuel (addPermissionChange p db) (p @ x) ctype = Inr (key, ts)" "0 \<le> ts"
  shows "snapshotVersion (addPermissionChange p db) \<le> ts"
proof -
  define db' where "db' = addPermissionChange p db"
  obtain e where at: "pm_at db' = (pm_at db)(p \<mapsto> e)"
    and e: "permissionTimeStamp e = snapshotVersion db'"
    using addPermissionChange_at [OF plain(1)] unfolding db'_def by blast
  obtain f q ts1 where s: "searchPathRecursive db' (p @ x) 0 True (ctype \<noteq> LOOKUP) = (f, q, ts1)"
    by (metis prod_cases3)
  have "permissionTimeStamp e \<le> ts1"
    by (rule search_visits [OF plain(4) _ _ _ s]) (use plain(3) between in \<open>auto simp: at\<close>)
  moreover have "toSystemPath_loop fuel db' (p @ x) 0 True (ctype \<noteq> LOOKUP) 0 = Inr (key, ts)"
    using res plain by (auto simp: toSystemPath_def db'_def Let_def split: if_splits)
  ultimately show ?thesis
    using loop_stamp_ge [of fuel db' "p @ x" 0 True _ 0 key ts] res(2) e s unfolding db'_def
    by fastforce
qed

theorem permission_change_demanded_witness:
  "toSystemPath 1 (addPermissionChange ''/a'' PathMapDB_init) (''/a'' @ ''/f'') LOOKUP = Inr (''/a/f'', 1)
   \<and> snapshotVersion (addPermissionChange ''/a'' PathMapDB_init) \<le> 1"
proof
  show res: "toSystemPath 1 (addPermissionChange ''/a'' PathMapDB_init) (''/a'' @ ''/f'') LOOKUP
      = Inr (''/a/f'', 1)"
    by code_simp
  have ok: "names_ok (''/a'' @ ''/f'')" by code_simp
  show "snapshotVersion (addPermissionChange ''/a'' PathMapDB_init) \<le> 1"
    by (rule permission_change_demanded [OF _ _ _ ok _ res])
       (simp_all add: relative_def PathMapDB_init_def)
qed

subsection \<open>Snapshots and the log\<close>

lemma update_fresh: "k \<notin> fst ` set m \<Longrightarrow> AList.update k v m = m @ [(k, v)]"
  by (induction m) auto

lemma load_entries:
  "distinct (map fst (acc @ m)) \<Longrightarrow>
   foldl load_entry acc (map (\<lambda>(k, e). \<lparr>se_origin = k, se_type = pm_type e, se_target = Some (target e),
      se_permissiontimestamp = permissionTimeStamp e\<rparr>) m) = acc @ m"
  by (induction m arbitrary: acc) (auto simp: load_entry_def update_fresh)

lemma load_serialized:
  assumes "db_ok db"
  shows "loadSnapshot (serializeSnapshot db) old = (0, if snapshotVersion db \<le> snapshotVersion old then old else db)"
  using assms load_entries [of "[]" "snapshot db"]
  by (simp add: loadSnapshot_def serializeSnapshot_def db_ok_def)

text \<open>
  C25. A stored snapshot carries the whole database: a client at an older version that loads
  what another client serialized has exactly that client's database.
\<close>

theorem load_serialize:
  assumes "db_ok db" "snapshotVersion old < snapshotVersion db"
  shows "loadSnapshot (serializeSnapshot db) old = (0, db)"
  using assms load_serialized by simp

theorem load_serialize_witness:
  "loadSnapshot (serializeSnapshot (addPermissionChange ''/a'' PathMapDB_init)) PathMapDB_init
     = (0, addPermissionChange ''/a'' PathMapDB_init)"
proof (rule load_serialize)
  show "db_ok (addPermissionChange ''/a'' PathMapDB_init)"
    by (rule db_ok_addPermissionChange) (simp add: db_ok_def PathMapDB_init_def)
  show "snapshotVersion PathMapDB_init < snapshotVersion (addPermissionChange ''/a'' PathMapDB_init)"
    by code_simp
qed

text \<open>Replaying the log from its start: the meaning of a sequence of entries.\<close>

primrec replay :: "db_entry list \<Rightarrow> PathMapDB \<Rightarrow> stop + (PathMapDB option)" where
  "replay [] db = Inr (Some db)"
| "replay (en # ens) db = (case apply_entry en db of
     Inl s \<Rightarrow> Inl s | Inr None \<Rightarrow> Inr None | Inr (Some db) \<Rightarrow> replay ens db)"

lemma loop_replay:
  "fromVersion \<le> currentVersion + 1 \<Longrightarrow>
   updateSnapshot_loop ens currentVersion fromVersion db = replay ens db"
  by (induction ens arbitrary: currentVersion db) (auto split: sum.splits option.splits)

lemma replay_append:
  "replay (xs @ ys) db = (case replay xs db of
     Inl s \<Rightarrow> Inl s | Inr None \<Rightarrow> Inr None | Inr (Some db) \<Rightarrow> replay ys db)"
  by (induction xs arbitrary: db) (auto split: sum.splits option.splits)

lemma replay_version:
  "replay ens db = Inr (Some db') \<Longrightarrow> snapshotVersion db' = snapshotVersion db + int (length ens)"
  by (induction ens arbitrary: db)
     (auto split: sum.splits option.splits dest!: apply_entry_version)

lemma db_ok_replay: "db_ok db \<Longrightarrow> replay ens db = Inr (Some db') \<Longrightarrow> db_ok db'"
  by (induction ens arbitrary: db) (auto split: sum.splits option.splits intro: db_ok_apply_entry)

lemma updateSnapshot_replay:
  assumes "snapshotVersion db = v" "int (length ens) < 2 ^ 64"
  shows "updateSnapshot ens v (v + int (length ens)) db = (case replay ens db of
     Inl s \<Rightarrow> Inl s
   | Inr None \<Rightarrow> Inr (- EINVAL, \<lparr>snapshotVersion = 0, snapshot = []\<rparr>)
   | Inr (Some db') \<Rightarrow> Inr (0, db'))"
proof (cases "ens = []")
  case True
  with assms show ?thesis by (simp add: updateSnapshot_def)
next
  case False
  have upd: "db'\<lparr>snapshotVersion := v + int (length ens)\<rparr> = db'" if "replay ens db = Inr (Some db')" for db'
    using replay_version [OF that] assms(1) by simp
  show ?thesis
    using assms False loop_replay [of v v ens db] upd
    by (auto simp: updateSnapshot_def split: sum.splits option.splits)
qed

text \<open>
  Incremental updates agree with replaying the log: however a client cuts the log into
  batches, as long as each batch starts at its current version, it ends with the snapshot it
  would have after one update over the whole interval, with the same error and the same abort
  if there is one. Clients that have seen the same log prefix therefore agree.
\<close>

theorem updateSnapshot_batches:
  assumes v: "snapshotVersion db = v" and len: "int (length (xs @ ys)) < 2 ^ 64"
    and first: "updateSnapshot xs v (v + int (length xs)) db = Inr (0, db1)"
  shows "updateSnapshot ys (snapshotVersion db1) (snapshotVersion db1 + int (length ys)) db1 =
         updateSnapshot (xs @ ys) v (v + int (length (xs @ ys))) db
       \<and> snapshotVersion db1 = v + int (length xs)"
proof -
  have "replay xs db = Inr (Some db1)"
    using first updateSnapshot_replay [OF v, of xs] len
    by (auto split: sum.splits option.splits)
  moreover from this have "snapshotVersion db1 = v + int (length xs)"
    using replay_version v by auto
  ultimately show ?thesis
    using updateSnapshot_replay [OF refl, of ys db1] updateSnapshot_replay [OF v, of "xs @ ys"] len
    by (simp add: replay_append algebra_simps)
qed

definition log_example :: "db_entry list" where
  "log_example = [\<lparr>entry_origin = ''/a'', entry_type = db_entry_Type_MOVE, entry_target = ''/b''\<rparr>,
                  \<lparr>entry_origin = ''/c'', entry_type = db_entry_Type_MOVE, entry_target = ''/d''\<rparr>]"

theorem updateSnapshot_batches_witness:
  "\<exists>db1. updateSnapshot [hd log_example] 0 (0 + int (length [hd log_example])) PathMapDB_init = Inr (0, db1)
     \<and> updateSnapshot (tl log_example) (snapshotVersion db1)
          (snapshotVersion db1 + int (length (tl log_example))) db1
       = updateSnapshot ([hd log_example] @ tl log_example) 0
          (0 + int (length ([hd log_example] @ tl log_example))) PathMapDB_init
     \<and> snapshotVersion db1 = 0 + int (length [hd log_example])"
proof -
  have v: "snapshotVersion PathMapDB_init = 0" by (simp add: PathMapDB_init_def)
  have len: "int (length ([hd log_example] @ tl log_example)) < 2 ^ 64" by (simp add: log_example_def)
  obtain db1 where
    "updateSnapshot [hd log_example] 0 (0 + int (length [hd log_example])) PathMapDB_init = Inr (0, db1)"
    by (simp add: log_example_def PathMapDB_init_def updateSnapshot_def apply_entry_def
        addDirectoryMove_def Let_def reuse_name_def)
  with updateSnapshot_batches [OF v len this] show ?thesis by blast
qed

text \<open>
  The loop never skips an entry. A batch that starts before the current version, which the
  assertions of updateSnapshot admit and a concurrent update produces, is applied in full, so
  that entries already in the snapshot are applied a second time.
\<close>

theorem updateSnapshot_never_skips:
  assumes "fromVersion \<le> snapshotVersion db" "snapshotVersion db < toVersion"
    "toVersion - fromVersion = int (length ens)" "int (length ens) < 2 ^ 64"
    "replay ens db = Inr (Some db')"
  shows "updateSnapshot ens fromVersion toVersion db = Inr (0, db'\<lparr>snapshotVersion := toVersion\<rparr>)"
  using assms loop_replay [of fromVersion "snapshotVersion db" ens db]
  by (simp add: updateSnapshot_def)

text \<open>
  Its consequence at a concrete log: a client that has applied the first of two moves and then
  updates over both loses the first directory, whose new name leads to an unused key.
\<close>

theorem updateSnapshot_never_skips_witness:
  "\<exists>db1 db2. updateSnapshot [hd log_example] 0 1 PathMapDB_init = Inr (0, db1)
     \<and> toSystemPath 2 db1 ''/b/f'' LOOKUP = Inr (''/a/f'', 0)
     \<and> updateSnapshot log_example 0 2 db1 = Inr (0, db2\<lparr>snapshotVersion := 2\<rparr>)
     \<and> toSystemPath 2 (db2\<lparr>snapshotVersion := 2\<rparr>) ''/b/f'' LOOKUP = Inr (''|reuse_1/f'', 0)"
proof -
  let ?db1 = "\<lparr>snapshotVersion = 1,
    snapshot = [(''/b'', \<lparr>pm_type = MOVE, target = ''/a'', permissionTimeStamp = 0\<rparr>),
                (''/a'', \<lparr>pm_type = REUSE, target = ''|reuse_1'', permissionTimeStamp = 0\<rparr>)]\<rparr>"
  let ?db2 = "\<lparr>snapshotVersion = 3,
    snapshot = [(''/b'', \<lparr>pm_type = MOVE, target = ''|reuse_1'', permissionTimeStamp = 0\<rparr>),
                (''/a'', \<lparr>pm_type = REUSE, target = ''|reuse_2'', permissionTimeStamp = 0\<rparr>),
                (''/d'', \<lparr>pm_type = MOVE, target = ''/c'', permissionTimeStamp = 0\<rparr>),
                (''/c'', \<lparr>pm_type = REUSE, target = ''|reuse_3'', permissionTimeStamp = 0\<rparr>)]\<rparr>"
  have "updateSnapshot [hd log_example] 0 1 PathMapDB_init = Inr (0, ?db1)" by code_simp
  moreover have "toSystemPath 2 ?db1 ''/b/f'' LOOKUP = Inr (''/a/f'', 0)" by code_simp
  moreover have "updateSnapshot log_example 0 2 ?db1 = Inr (0, ?db2\<lparr>snapshotVersion := 2\<rparr>)"
  proof (rule updateSnapshot_never_skips)
    show "replay log_example ?db1 = Inr (Some ?db2)" by code_simp
  qed (simp_all add: log_example_def)
  moreover have "toSystemPath 2 (?db2\<lparr>snapshotVersion := 2\<rparr>) ''/b/f'' LOOKUP = Inr (''|reuse_1/f'', 0)"
    by code_simp
  ultimately show ?thesis by blast
qed

subsection \<open>When the translation loop ends\<close>

text \<open>
  A database is settled when no mapping other than a symbolic link leads to a path that is
  itself at, above or below a mapped path, apart from the reuse entry that a move leaves at
  its own target.
\<close>

definition settled :: "PathMapDB \<Rightarrow> bool" where
  "settled db \<longleftrightarrow> (\<forall>k e k' e'. pm_at db k = Some e \<and> pm_type e \<notin> {SYMLINK, NONE}
      \<and> pm_at db k' = Some e' \<and> pm_type e' \<noteq> NONE
      \<and> (k' \<in> set (ancestors (target e)) \<or> target e \<in> set (ancestors k'))
      \<longrightarrow> k' = target e \<and> pm_type e' = REUSE \<and> pm_type e = MOVE)"

lemma relative_drop: "a \<in> set (ancestors p) \<Longrightarrow> relative (drop (length a) p)"
  by (auto simp: ancestor_iff relative_def)

lemma settled_stops:
  assumes "settled db" "searchPathRecursive db p ts fr fs = (True, temp, ts')"
    "pm_at db temp = Some e" "pm_type e \<noteq> SYMLINK"
  shows "\<exists>q ts2. searchPathRecursive db (target e @ drop (length temp) p) ts' (pm_type e \<noteq> MOVE) fs
     = (False, q, ts2)"
proof (rule ccontr)
  let ?p = "target e @ drop (length temp) p"
  assume "\<not> ?thesis"
  then obtain a ts2 where "searchPathRecursive db ?p ts' (pm_type e \<noteq> MOVE) fs = (True, a, ts2)"
    by (metis (full_types) prod_cases3)
  from search_found [OF this] obtain e' where a: "a \<in> set (ancestors ?p)"
    and e': "pm_at db a = Some e'" "remaps (pm_type e \<noteq> MOVE) (fs \<or> a \<noteq> ?p) e'"
    by blast
  have temp: "temp \<in> set (ancestors p)" "pm_type e \<noteq> NONE"
    using search_found [OF assms(2)] assms(3) by (auto simp: remaps_def)
  have "a \<in> set (ancestors (target e)) \<or> target e \<in> set (ancestors a)"
    using ancestors_append [OF relative_drop [OF temp(1)] a] by auto
  then have "pm_type e' = REUSE \<and> pm_type e = MOVE"
    using assms(1,3,4) temp(2) e' by (auto simp: settled_def remaps_def)
  with e'(2) show False by (simp add: remaps_def)
qed

text \<open>
  C26. On a settled database the translation of every path ends, with or without symbolic
  links, after at most 22 iterations of the loop: the 20 links that may be followed, one
  further mapping, and the search that finds nothing more.
\<close>

theorem toSystemPath_terminates:
  assumes "settled db" "22 \<le> fuel"
  shows "\<exists>key ts. toSystemPath fuel db p ctype = Inr (key, ts)"
proof -
  have "\<exists>key ts'. toSystemPath_loop fuel db q ts fr fs n = Inr (key, ts')"
    if "n \<le> MAXSYMLINKS" "22 \<le> fuel + n" for q ts fr fs n
    using that
  proof (induction fuel arbitrary: q ts fr n)
    case (Suc fuel)
    obtain found temp ts1 where s: "searchPathRecursive db q ts fr fs = (found, temp, ts1)"
      by (metis prod_cases3)
    show ?case
    proof (cases found)
      case False
      with s show ?thesis by simp
    next
      case True
      with s have s1: "searchPathRecursive db q ts fr fs = (True, temp, ts1)" by simp
      from search_found [OF this] obtain e where e: "pm_at db temp = Some e" by blast
      show ?thesis
      proof (cases "pm_type e = SYMLINK")
        case True
        with Suc.IH [of "Suc n"] Suc.prems s1 e show ?thesis by auto
      next
        case nolink: False
        obtain q2 ts2 where s2: "searchPathRecursive db (target e @ drop (length temp) q) ts1
            (pm_type e \<noteq> MOVE) fs = (False, q2, ts2)"
          using settled_stops [OF assms(1) s1 e nolink] by blast
        obtain f where "fuel = Suc f" using Suc.prems by (cases fuel) auto
        with s1 s2 e nolink show ?thesis by auto
      qed
    qed
  qed simp
  from this [of 0] assms(2) show ?thesis by (simp add: toSystemPath_def Let_def)
qed

lemma settled_move_example:
  "settled \<lparr>snapshotVersion = 1,
    snapshot = [(''/b'', \<lparr>pm_type = MOVE, target = ''/a'', permissionTimeStamp = 0\<rparr>),
                (''/a'', \<lparr>pm_type = REUSE, target = ''|reuse_1'', permissionTimeStamp = 0\<rparr>)]\<rparr>"
  by (auto simp: settled_def ancestor_iff split: if_splits)

theorem toSystemPath_terminates_witness:
  "\<exists>key ts. toSystemPath 22 \<lparr>snapshotVersion = 1,
    snapshot = [(''/b'', \<lparr>pm_type = MOVE, target = ''/a'', permissionTimeStamp = 0\<rparr>),
                (''/a'', \<lparr>pm_type = REUSE, target = ''|reuse_1'', permissionTimeStamp = 0\<rparr>)]\<rparr>
     ''/b/f'' LOOKUP = Inr (key, ts)"
  by (rule toSystemPath_terminates [OF settled_move_example]) simp

subsection \<open>Where the code departs from its intention\<close>

lemma search_first:
  assumes "names_ok p" "d \<in> set (ancestors p)" "stops_at db p fr fs d"
    "\<forall>a \<in> set (ancestors p) - {d}. \<not> stops_at db p fr fs a"
  shows "\<exists>ts'. searchPathRecursive db p ts fr fs = (True, d, ts')"
proof -
  let ?P = "Not \<circ> stops_at db p fr fs"
  have "d \<in> set (dropWhile ?P (ancestors p))"
    using assms(2,3) by (metis comp_apply set_takeWhileD takeWhile_dropWhile_id Un_iff set_append)
  then obtain b bs where b: "dropWhile ?P (ancestors p) = b # bs"
    by (cases "dropWhile ?P (ancestors p)") auto
  have "stops_at db p fr fs b" using hd_dropWhile [of ?P "ancestors p"] b by simp
  moreover have "b \<in> set (ancestors p)" using b by (metis list.set_intros(1) set_dropWhileD)
  ultimately have "b = d" using assms(4) by blast
  then show ?thesis using search_correct [OF assms(1)] b by (simp add: search_spec_def Let_def)
qed

lemma names_ok_snoc: "names_ok p \<Longrightarrow> names_ok (p @ ''/b'')"
proof -
  assume "names_ok p"
  moreover have "last_component (p @ ''/b'') = ''b''"
    using find_last_under [of p "''b''"] by (simp add: last_component_def is_slash_def)
  moreover have "ancestors (p @ ''/b'') = (p @ ''/b'') # ancestors p"
    using ancestors_under [of p "''b''"] by (simp add: ancestors_no_slash is_slash_def)
  ultimately show ?thesis by (simp add: names_ok_def)
qed

text \<open>
  C33. The loop does not always end. Take \<open>/a/b\<close>, move it to \<open>/c\<close>, and move \<open>/c\<close> over the now
  empty directory \<open>/a\<close>: the resulting mapping leads from \<open>/a\<close> to \<open>/a/b\<close>, and every iteration
  replaces \<open>/a\<close> by \<open>/a/b\<close> once more. No number of iterations is enough to translate \<open>/a\<close>.
\<close>

theorem toSystemPath_diverges:
  "\<exists>db1 db2. addDirectoryMove ''/a/b'' ''/c'' PathMapDB_init = Inr db1
     \<and> addDirectoryMove ''/c'' ''/a'' db1 = Inr db2
     \<and> (\<forall>fuel ctype. toSystemPath fuel db2 ''/a'' ctype = Inl OutOfFuel)"
proof -
  let ?move = "\<lparr>pm_type = MOVE, target = ''/a/b'', permissionTimeStamp = 0\<rparr>"
  let ?reuse = "\<lparr>pm_type = REUSE, target = ''|reuse_1'', permissionTimeStamp = 0\<rparr>"
  let ?db1 = "\<lparr>snapshotVersion = 1, snapshot = [(''/c'', ?move), (''/a/b'', ?reuse)]\<rparr>"
  let ?db2 = "\<lparr>snapshotVersion = 2, snapshot = [(''/a/b'', ?reuse), (''/a'', ?move)]\<rparr>"
  define path where "path i = ''/a'' @ concat (replicate i ''/b'')" for i :: nat
  have path_Suc: "path (Suc i) = path i @ ''/b''" for i
    by (simp add: path_def replicate_append_same [symmetric])
  have "names_ok ''/a''" by code_simp
  then have ok: "names_ok (path i)" for i
    by (induction i) (simp_all add: path_Suc names_ok_snoc del: append_Cons, simp add: path_def)
  have anc: "''/a'' \<in> set (ancestors (path i))" for i
    unfolding path_def by (rule ancestor_of_append) (cases i; simp add: relative_def)
  have step: "\<exists>ts'. searchPathRecursive ?db2 (path i) ts fr fs = (True, ''/a'', ts')"
    if "i = 0 \<or> \<not> fr" for i ts fr fs
  proof (rule search_first [OF ok anc])
    show "stops_at ?db2 (path i) fr fs ''/a''" by (simp add: stops_at_def remapped_at_def remaps_def)
    have "''/a/b'' \<in> set (ancestors (path 0)) \<Longrightarrow> False" by (simp add: path_def) code_simp
    then show "\<forall>a \<in> set (ancestors (path i)) - {''/a''}. \<not> stops_at ?db2 (path i) fr fs a"
      using that by (auto simp: stops_at_def remapped_at_def remaps_def)
  qed
  have "toSystemPath_loop fuel ?db2 (path i) ts fr fs n = Inl OutOfFuel"
    if "i = 0 \<or> \<not> fr" for fuel i ts fr fs n
    using that
  proof (induction fuel arbitrary: i ts fr)
    case (Suc fuel)
    obtain ts' where s: "searchPathRecursive ?db2 (path i) ts fr fs = (True, ''/a'', ts')"
      using step [OF Suc.prems] by blast
    have "''/a/b'' @ drop (length ''/a'') (path i) = path (Suc i)" by (simp add: path_def)
    with Suc.IH [of "Suc i" False ts'] show ?case
      by (simp add: s)
  qed simp
  from this [of 0] have "toSystemPath fuel ?db2 ''/a'' ctype = Inl OutOfFuel" for fuel ctype
    by (simp add: toSystemPath_def path_def)
  moreover have "addDirectoryMove ''/a/b'' ''/c'' PathMapDB_init = Inr ?db1" by code_simp
  moreover have "addDirectoryMove ''/c'' ''/a'' ?db1 = Inr ?db2" by code_simp
  ultimately show ?thesis by blast
qed

text \<open>
  Changing the permissions of a directory and then moving it aborts the client: the move
  finds the entry of type NONE that the permission change left and its assertion fails. The
  log entry is stored before it is applied, so that every client that replays the log aborts.
\<close>

theorem chmod_then_move_aborts:
  assumes "CHR '':'' \<notin> set p" "pm_at db p = None"
  shows "addDirectoryMove p q (addPermissionChange p db) = Inl Assertion"
  using assms by (simp add: addDirectoryMove_def addPermissionChange_def Let_def)

theorem chmod_then_move_aborts_witness:
  "addDirectoryMove ''/a'' ''/b'' (addPermissionChange ''/a'' PathMapDB_init) = Inl Assertion"
  by (rule chmod_then_move_aborts) (simp_all add: PathMapDB_init_def)

end
