(* ===== verification/Path_Map_Locks.thy ===== *)
theory Path_Map_Locks
  imports HFlat_Prelude
begin

section \<open>The locking protocol of the path map database\<close>

text \<open>
  The threads of a client share one PathMapDB. A translation takes the mutex only to count
  itself as a reader, reads without it and counts itself out; every operation that changes the
  snapshot takes the mutex and keeps it while it waits for the counter to reach zero and while
  it writes. \<open>hasMapping\<close> reads without either. The steps below are those of one thread at a
  time, in any interleaving.
\<close>

datatype pc = Idle | Counting | Reading | Draining | Writing | Probing

record lock_state =
  mutex :: "nat option"
  currentReaders :: nat
  pcs :: "nat \<Rightarrow> pc"

definition lock_init :: lock_state where
  "lock_init = \<lparr>mutex = None, currentReaders = 0, pcs = (\<lambda>_. Idle)\<rparr>"

definition goto :: "nat \<Rightarrow> pc \<Rightarrow> lock_state \<Rightarrow> lock_state" where
  "goto t c s = s\<lparr>pcs := (pcs s)(t := c)\<rparr>"

inductive lock_step :: "lock_state \<Rightarrow> lock_state \<Rightarrow> bool" where
  read_lock: "pcs s t = Idle \<Longrightarrow> mutex s = None \<Longrightarrow> lock_step s (goto t Counting (s\<lparr>mutex := Some t\<rparr>))"
| read_count: "pcs s t = Counting \<Longrightarrow>
    lock_step s (goto t Reading (s\<lparr>currentReaders := Suc (currentReaders s), mutex := None\<rparr>))"
| read_done: "pcs s t = Reading \<Longrightarrow>
    lock_step s (goto t Idle (s\<lparr>currentReaders := currentReaders s - 1\<rparr>))"
| write_lock: "pcs s t = Idle \<Longrightarrow> mutex s = None \<Longrightarrow> lock_step s (goto t Draining (s\<lparr>mutex := Some t\<rparr>))"
| write_sleep: "pcs s t = Draining \<Longrightarrow> currentReaders s \<noteq> 0 \<Longrightarrow> lock_step s s"
| write_go: "pcs s t = Draining \<Longrightarrow> currentReaders s = 0 \<Longrightarrow> lock_step s (goto t Writing s)"
| write_done: "pcs s t = Writing \<Longrightarrow> lock_step s (goto t Idle (s\<lparr>mutex := None\<rparr>))"
| probe: "pcs s t = Idle \<Longrightarrow> lock_step s (goto t Probing s)"
| probe_done: "pcs s t = Probing \<Longrightarrow> lock_step s (goto t Idle s)"

inductive lock_reachable :: "lock_state \<Rightarrow> bool" where
  lock_start: "lock_reachable lock_init"
| lock_next: "lock_reachable s \<Longrightarrow> lock_step s s' \<Longrightarrow> lock_reachable s'"

inductive_cases lock_stepE: "lock_step s s'"

subsection \<open>The invariant\<close>

definition locked_pc :: "pc \<Rightarrow> bool" where
  "locked_pc c \<longleftrightarrow> c = Counting \<or> c = Draining \<or> c = Writing"

definition readers :: "lock_state \<Rightarrow> nat set" where
  "readers s = {t. pcs s t = Reading}"

definition lock_inv :: "lock_state \<Rightarrow> bool" where
  "lock_inv s \<longleftrightarrow> (\<forall>t. locked_pc (pcs s t) \<longleftrightarrow> mutex s = Some t)
     \<and> finite (readers s) \<and> card (readers s) = currentReaders s
     \<and> (\<forall>t. pcs s t = Writing \<longrightarrow> currentReaders s = 0)"

lemma readers_goto:
  "readers (goto t c s) = (if c = Reading then insert t (readers s) else readers s - {t})"
  by (auto simp: readers_def goto_def)

lemma readers_mutex [simp]: "readers (s\<lparr>mutex := m\<rparr>) = readers s"
  by (simp add: readers_def)

lemma readers_count [simp]: "readers (s\<lparr>currentReaders := n\<rparr>) = readers s"
  by (simp add: readers_def)

lemma goto_sel [simp]:
  "mutex (goto t c s) = mutex s" "currentReaders (goto t c s) = currentReaders s"
  "pcs (goto t c s) u = (if u = t then c else pcs s u)"
  by (simp_all add: goto_def)

lemma mutex_same [simp]: "mutex s = m \<Longrightarrow> s\<lparr>mutex := m\<rparr> = s"
  by auto

lemma not_reader [simp]: "pcs s t \<noteq> Reading \<Longrightarrow> readers s - {t} = readers s"
  by (auto simp: readers_def)

lemma locked_pc_simps [simp]:
  "locked_pc Counting" "locked_pc Draining" "locked_pc Writing"
  "\<not> locked_pc Idle" "\<not> locked_pc Reading" "\<not> locked_pc Probing"
  by (simp_all add: locked_pc_def)

lemma lock_inv_mutex: "lock_inv s \<Longrightarrow> locked_pc (pcs s t) \<longleftrightarrow> mutex s = Some t"
  by (simp add: lock_inv_def)

lemma lock_inv_no_readers: "lock_inv s \<Longrightarrow> pcs s u = Writing \<Longrightarrow> readers s = {}"
  unfolding lock_inv_def by (metis card_0_eq)

lemma lock_inv_init: "lock_inv lock_init"
  by (simp add: lock_inv_def lock_init_def readers_def locked_pc_def)

lemma lock_invI:
  assumes "\<And>u. locked_pc (pcs s u) \<longleftrightarrow> mutex s = Some u"
    "finite (readers s)" "card (readers s) = currentReaders s"
    "\<And>u. pcs s u = Writing \<Longrightarrow> currentReaders s = 0"
  shows "lock_inv s"
  using assms by (simp add: lock_inv_def)

lemma lock_inv_readers: "lock_inv s \<Longrightarrow> finite (readers s) \<and> card (readers s) = currentReaders s"
  by (simp add: lock_inv_def)

lemma lock_inv_writer: "lock_inv s \<Longrightarrow> pcs s u = Writing \<Longrightarrow> currentReaders s = 0 \<and> mutex s = Some u"
  using lock_inv_mutex [of s u] by (auto simp: lock_inv_def)

text \<open>A thread that changes its place without touching the counter keeps the invariant.\<close>

lemma lock_inv_goto:
  assumes inv: "lock_inv s" and t: "pcs s t \<noteq> Reading" "c \<noteq> Reading"
    and m: "locked_pc c \<longleftrightarrow> m = Some t" "\<And>u. u \<noteq> t \<Longrightarrow> m = Some u \<longleftrightarrow> mutex s = Some u"
    and w: "c = Writing \<Longrightarrow> currentReaders s = 0"
  shows "lock_inv (goto t c (s\<lparr>mutex := m\<rparr>))"
proof (rule lock_invI)
  fix u
  show "locked_pc (pcs (goto t c (s\<lparr>mutex := m\<rparr>)) u) \<longleftrightarrow> mutex (goto t c (s\<lparr>mutex := m\<rparr>)) = Some u"
    using m lock_inv_mutex [OF inv, of u] by simp
  show "pcs (goto t c (s\<lparr>mutex := m\<rparr>)) u = Writing \<Longrightarrow> currentReaders (goto t c (s\<lparr>mutex := m\<rparr>)) = 0"
    using w lock_inv_writer [OF inv, of u] by (simp split: if_splits)
qed (use t lock_inv_readers [OF inv] in \<open>simp_all add: readers_goto\<close>)

lemma lock_inv_step: "lock_step s s' \<Longrightarrow> lock_inv s \<Longrightarrow> lock_inv s'"
proof (induction rule: lock_step.induct)
  case (read_count s t)
  note mine = lock_inv_mutex [OF read_count(2), of t]
  have t: "t \<notin> readers s" using read_count(1) by (simp add: readers_def)
  show ?case
  proof (rule lock_invI)
    fix u
    let ?s = "goto t Reading (s\<lparr>currentReaders := Suc (currentReaders s), mutex := None\<rparr>)"
    show "locked_pc (pcs ?s u) \<longleftrightarrow> mutex ?s = Some u"
      using mine read_count(1) lock_inv_mutex [OF read_count(2), of u] by auto
    show "pcs ?s u = Writing \<Longrightarrow> currentReaders ?s = 0"
      using mine read_count(1) lock_inv_writer [OF read_count(2), of u] by (auto split: if_splits)
  qed (use t lock_inv_readers [OF read_count(2)] in \<open>simp_all add: readers_goto\<close>)
next
  case (read_done s t)
  have t: "t \<in> readers s" using read_done(1) by (simp add: readers_def)
  show ?case
  proof (rule lock_invI)
    fix u
    let ?s = "goto t Idle (s\<lparr>currentReaders := currentReaders s - 1\<rparr>)"
    show "locked_pc (pcs ?s u) \<longleftrightarrow> mutex ?s = Some u"
      using read_done(1) lock_inv_mutex [OF read_done(2), of u] by auto
    show "pcs ?s u = Writing \<Longrightarrow> currentReaders ?s = 0"
      using lock_inv_no_readers [OF read_done(2), of u] t by (auto split: if_splits)
  qed (use t lock_inv_readers [OF read_done(2)] in \<open>simp_all add: readers_goto\<close>)
next
  case (read_lock s t)
  then show ?case by (intro lock_inv_goto) auto
next
  case (write_lock s t)
  then show ?case by (intro lock_inv_goto) auto
next
  case (write_go s t)
  then show ?case using lock_inv_goto [of s t Writing "mutex s"] lock_inv_mutex [of s t] by simp
next
  case (write_done s t)
  then show ?case using lock_inv_mutex [of s t] by (intro lock_inv_goto) auto
next
  case (probe s t)
  then show ?case using lock_inv_goto [of s t Probing "mutex s"] lock_inv_mutex [of s t] by simp
next
  case (probe_done s t)
  then show ?case using lock_inv_goto [of s t Idle "mutex s"] lock_inv_mutex [of s t] by simp
qed

lemma lock_inv_reachable: "lock_reachable s \<Longrightarrow> lock_inv s"
  by (induction rule: lock_reachable.induct) (blast intro: lock_inv_init lock_inv_step)+

text \<open>
  C24. While a thread changes the snapshot no other thread translates a path or changes it,
  in every interleaving, and a waiting writer is not overtaken: from the moment it holds the
  mutex the number of readers never grows until it has written.
\<close>

theorem snapshot_exclusion:
  assumes "lock_reachable s" "lock_step s s'"
  shows "(\<forall>t u. pcs s t = Writing \<longrightarrow> pcs s u \<noteq> Reading \<and> (pcs s u = Writing \<longrightarrow> u = t))
     \<and> (\<forall>t. pcs s t = Draining \<longrightarrow> currentReaders s' \<le> currentReaders s)"
proof -
  have inv: "lock_inv s" using assms(1) by (rule lock_inv_reachable)
  have "pcs s u \<noteq> Reading \<and> (pcs s u = Writing \<longrightarrow> u = t)" if w: "pcs s t = Writing" for t u
  proof -
    have "readers s = {}" using inv w by (rule lock_inv_no_readers)
    moreover have "pcs s u = Writing \<Longrightarrow> mutex s = Some u" for u
      using inv by (auto simp: lock_inv_def locked_pc_def)
    ultimately show ?thesis using w by (auto simp: readers_def) (metis option.inject)
  qed
  moreover have "currentReaders s' \<le> currentReaders s" if d: "pcs s t = Draining" for t
  proof -
    have "pcs s u \<noteq> Counting" for u
      using lock_inv_mutex [OF inv, of t] lock_inv_mutex [OF inv, of u] d by auto
    with assms(2) show ?thesis by (auto elim: lock_stepE)
  qed
  ultimately show ?thesis by blast
qed

definition writing_example :: lock_state where
  "writing_example = goto 0 Writing (goto 0 Draining (lock_init\<lparr>mutex := Some 0\<rparr>))"

lemma writing_example_reachable: "lock_reachable writing_example"
proof -
  have "lock_reachable (goto 0 Draining (lock_init\<lparr>mutex := Some 0\<rparr>))"
    by (rule lock_next [OF lock_start write_lock]) (simp_all add: lock_init_def)
  then show ?thesis
    unfolding writing_example_def
    by (rule lock_next [OF _ write_go]) (simp_all add: lock_init_def)
qed

lemma writing_example_probe: "lock_step writing_example (goto 1 Probing writing_example)"
  by (rule probe) (simp add: writing_example_def lock_init_def)

theorem snapshot_exclusion_witness:
  "pcs writing_example 0 = Writing \<and> pcs writing_example 1 \<noteq> Reading"
proof -
  have "pcs writing_example 0 = Writing" by (simp add: writing_example_def)
  with snapshot_exclusion [OF writing_example_reachable writing_example_probe] show ?thesis by blast
qed

text \<open>
  The probe \<open>hasMapping\<close> is outside the protocol: a state is reachable in which one
  thread looks a path up in the dictionary while another one is changing it.
\<close>

theorem hasMapping_races:
  "\<exists>s. lock_reachable s \<and> pcs s 0 = Writing \<and> pcs s 1 = Probing"
proof (intro exI conjI)
  show "lock_reachable (goto 1 Probing writing_example)"
    by (rule lock_next [OF writing_example_reachable writing_example_probe])
qed (simp_all add: writing_example_def)

end
