(* ===== verification/Data_Info.thy ===== *)
theory Data_Info
  imports HFlat_Prelude
begin

section \<open>Data blocks\<close>

text \<open>
  The class DataInfo of data\_info.cc: the content of one block of a file together with the
  list of regions changed since the block was last written to the drive. When another client
  has written the block in the meantime, the regions are replayed on top of the fresh content.
  A region of size 0 stands for a truncation.
\<close>

subsection \<open>Model\<close>

record DataInfo =
  di_key :: string
  di_keyVersion :: string
  di_data :: string
  di_updates :: "(nat \<times> nat) list"

definition DataInfo_new :: "string \<Rightarrow> string \<Rightarrow> string \<Rightarrow> DataInfo" where
  "DataInfo_new key keyVersion content =
     \<lparr>di_key = key, di_keyVersion = keyVersion, di_data = content, di_updates = []\<rparr>"

abbreviation (input) max_block :: nat where "max_block \<equiv> 1024 * 1024"

text \<open>
  One round of the loop in mergeDataChanges. \<^verbatim>\<open>replace\<close> with a source region throws when
  either position is beyond the end of its string.
\<close>

definition merge_update :: "string \<Rightarrow> string \<Rightarrow> nat \<times> nat \<Rightarrow> stop + string" where
  "merge_update own fresh update = (case update of (first, second) \<Rightarrow>
     if second \<noteq> 0 then
       (case str_substr own first second of
          Inl s \<Rightarrow> Inl s
        | Inr t \<Rightarrow> str_replace fresh first second t)
     else Inr (str_resize fresh first))"

fun merge_updates :: "string \<Rightarrow> string \<Rightarrow> (nat \<times> nat) list \<Rightarrow> stop + string" where
  "merge_updates own fresh [] = Inr fresh"
| "merge_updates own fresh (u # us) = (case merge_update own fresh u of
     Inl s \<Rightarrow> Inl s | Inr fresh \<Rightarrow> merge_updates own fresh us)"

definition mergeDataChanges :: "string \<Rightarrow> DataInfo \<Rightarrow> stop + DataInfo" where
  "mergeDataChanges fresh di =
     (case merge_updates (di_data di) (str_resize fresh (max (length fresh) (length (di_data di)))) (di_updates di) of
        Inl s \<Rightarrow> Inl s
      | Inr fresh \<Rightarrow> if length fresh \<le> max_block then Inr (di\<lparr>di_data := fresh\<rparr>) else Inl Assertion)"

text \<open>
  \<^verbatim>\<open>updateData\<close> is called with \<open>sz\<close> bytes of \<open>buf\<close>. The string is long enough for the
  replacement, so the handler for the exception is never entered.
\<close>

definition updateData :: "string \<Rightarrow> nat \<Rightarrow> nat \<Rightarrow> DataInfo \<Rightarrow> stop + int \<times> DataInfo" where
  "updateData buf off sz di =
     (if \<not> off + sz \<le> max_block then Inl Assertion
      else let grown = str_resize (di_data di) (max (off + sz) (length (di_data di)))
           in case str_replace grown off sz (take sz buf) of
                Inl s \<Rightarrow> Inr (- EINVAL, di\<lparr>di_data := grown\<rparr>)
              | Inr content \<Rightarrow> Inr (0, di\<lparr>di_data := content, di_updates := di_updates di @ [(off, sz)]\<rparr>))"

definition truncate :: "nat \<Rightarrow> DataInfo \<Rightarrow> stop + DataInfo" where
  "truncate off di =
     (if \<not> off \<le> max_block then Inl Assertion
      else Inr (di\<lparr>di_data := str_resize (di_data di) off, di_updates := di_updates di @ [(off, 0)]\<rparr>))"

definition hasUpdates :: "DataInfo \<Rightarrow> bool" where
  "hasUpdates di \<longleftrightarrow> di_updates di \<noteq> []"

definition forgetUpdates :: "DataInfo \<Rightarrow> DataInfo" where
  "forgetUpdates di = di\<lparr>di_updates := []\<rparr>"

subsection \<open>Bytes\<close>

text \<open>A block read as a function on all positions, zero beyond its end.\<close>

definition byte_at :: "string \<Rightarrow> nat \<Rightarrow> char" where
  "byte_at s i = (if i < length s then s ! i else CHR 0x00)"

lemma byte_at_resize: "byte_at (str_resize s n) i = (if i < n then byte_at s i else CHR 0x00)"
  by (simp add: byte_at_def nth_str_resize)

lemma byte_at_grow: "length s \<le> n \<Longrightarrow> byte_at (str_resize s n) i = byte_at s i"
  by (auto simp: byte_at_resize) (simp add: byte_at_def)

lemma str_replace_fits:
  assumes "i + length t \<le> length s"
  shows "\<exists>r. str_replace s i (length t) t = Inr r \<and> length r = length s
     \<and> (\<forall>k. byte_at r k = (if i \<le> k \<and> k < i + length t then t ! (k - i) else byte_at s k))"
proof -
  let ?r = "take i s @ t @ drop (i + length t) s"
  have len: "length ?r = length s" using assms by simp
  have "byte_at ?r k = (if i \<le> k \<and> k < i + length t then t ! (k - i) else byte_at s k)" for k
    using assms by (auto simp: byte_at_def nth_append min_def)
  then show ?thesis using assms len by (simp add: str_replace_def)
qed

lemma updateData_effect:
  assumes "off + sz \<le> max_block" "sz \<le> length buf"
  shows "\<exists>di'. updateData buf off sz di = Inr (0, di')
     \<and> length (di_data di') = max (off + sz) (length (di_data di))
     \<and> (\<forall>i. byte_at (di_data di') i =
           (if off \<le> i \<and> i < off + sz then buf ! (i - off) else byte_at (di_data di) i))
     \<and> di_updates di' = di_updates di @ [(off, sz)]"
proof -
  let ?g = "str_resize (di_data di) (max (off + sz) (length (di_data di)))"
  have len: "length (take sz buf) = sz" using assms(2) by simp
  obtain r where r: "str_replace ?g off sz (take sz buf) = Inr r" "length r = length ?g"
    "\<forall>k. byte_at r k = (if off \<le> k \<and> k < off + sz then take sz buf ! (k - off)
                         else byte_at ?g k)"
    using str_replace_fits [of off "take sz buf" ?g] len by auto
  have "byte_at ?g i = byte_at (di_data di) i" for i
    by (simp add: byte_at_grow)
  moreover have "take sz buf ! (i - off) = buf ! (i - off)" if "off \<le> i" "i < off + sz" for i
    by (rule nth_take) (use that in arith)
  ultimately have "\<forall>i. byte_at r i = (if off \<le> i \<and> i < off + sz then buf ! (i - off) else byte_at (di_data di) i)"
    using r(3) by metis
  with r(1,2) assms show ?thesis by (simp add: updateData_def Let_def)
qed

text \<open>
  Writing \<open>sz\<close> bytes at an offset changes exactly those bytes of the block, extends the
  block with zeros when it is too short, never shortens it, and records the region.
\<close>

theorem updateData_bytes:
  assumes "off + sz \<le> max_block" "sz \<le> length buf"
  shows "\<exists>di'. updateData buf off sz di = Inr (0, di')
     \<and> length (di_data di') = max (off + sz) (length (di_data di))
     \<and> (\<forall>i. byte_at (di_data di') i =
           (if off \<le> i \<and> i < off + sz then buf ! (i - off) else byte_at (di_data di) i))
     \<and> di_updates di' = di_updates di @ [(off, sz)]"
  using assms by (rule updateData_effect)

theorem updateData_bytes_witness:
  "\<exists>di'. updateData ''xy'' 1 2 (DataInfo_new ''1_0'' '''' ''abcd'') = Inr (0, di')
     \<and> length (di_data di') = max (1 + 2) (length (di_data (DataInfo_new ''1_0'' '''' ''abcd'')))
     \<and> (\<forall>i. byte_at (di_data di') i =
           (if 1 \<le> i \<and> i < 1 + 2 then ''xy'' ! (i - 1)
            else byte_at (di_data (DataInfo_new ''1_0'' '''' ''abcd'')) i))
     \<and> di_updates di' = di_updates (DataInfo_new ''1_0'' '''' ''abcd'') @ [(1, 2)]"
  by (rule updateData_bytes) simp_all

subsection \<open>Merging concurrent changes\<close>

definition written :: "(nat \<times> nat) list \<Rightarrow> nat \<Rightarrow> bool" where
  "written us i \<longleftrightarrow> (\<exists>(first, second) \<in> set us. first \<le> i \<and> i < first + second)"

text \<open>Only writes since the last flush, all inside the block: what a sequence of writes leaves.\<close>

definition only_writes :: "DataInfo \<Rightarrow> bool" where
  "only_writes di \<longleftrightarrow> (\<forall>(first, second) \<in> set (di_updates di). 0 < second \<and> first + second \<le> length (di_data di))
     \<and> length (di_data di) \<le> max_block"

lemma written_Cons [simp]:
  "written ((first, second) # us) i \<longleftrightarrow> (first \<le> i \<and> i < first + second) \<or> written us i"
  by (auto simp: written_def)

lemma written_Nil [simp]: "\<not> written [] i"
  by (simp add: written_def)

lemma merge_update_write:
  assumes "0 < second" "first + second \<le> length own" "length own \<le> length fresh"
  shows "\<exists>r. merge_update own fresh (first, second) = Inr r \<and> length r = length fresh
     \<and> (\<forall>i. byte_at r i = (if first \<le> i \<and> i < first + second then byte_at own i else byte_at fresh i))"
proof -
  let ?t = "take second (drop first own)"
  have len: "length ?t = second" using assms by simp
  obtain r where "str_replace fresh first second ?t = Inr r" "length r = length fresh"
    "\<forall>k. byte_at r k = (if first \<le> k \<and> k < first + second then ?t ! (k - first) else byte_at fresh k)"
    using str_replace_fits [of first ?t fresh] len assms by auto
  moreover have "?t ! (k - first) = byte_at own k" if "first \<le> k \<and> k < first + second" for k
  proof -
    have "k - first < second" using that by arith
    then have "?t ! (k - first) = drop first own ! (k - first)" by (rule nth_take)
    also have "\<dots> = own ! k" using that assms by simp
    finally show ?thesis using that assms by (simp add: byte_at_def)
  qed
  ultimately show ?thesis using assms by (auto simp: merge_update_def str_substr_def)
qed

lemma merge_updates_writes:
  assumes "\<forall>(first, second) \<in> set us. 0 < second \<and> first + second \<le> length own"
    "length own \<le> length fresh"
  shows "\<exists>r. merge_updates own fresh us = Inr r \<and> length r = length fresh
     \<and> (\<forall>i. byte_at r i = (if written us i then byte_at own i else byte_at fresh i))"
  using assms
proof (induction us arbitrary: fresh)
  case (Cons u us)
  obtain first second where u: "u = (first, second)" by (cases u)
  obtain r where r: "merge_update own fresh (first, second) = Inr r" "length r = length fresh"
    "\<forall>i. byte_at r i = (if first \<le> i \<and> i < first + second then byte_at own i else byte_at fresh i)"
    using merge_update_write [of second first own fresh] Cons.prems u by auto
  obtain r' where "merge_updates own r us = Inr r'" "length r' = length r"
    "\<forall>i. byte_at r' i = (if written us i then byte_at own i else byte_at r i)"
    using Cons.IH [of r] Cons.prems r(2) by auto
  with r u show ?case by auto
qed simp

lemma merge_result:
  assumes ow: "only_writes di" and len: "length fresh \<le> max_block"
  shows "\<exists>di'. mergeDataChanges fresh di = Inr di'
     \<and> length (di_data di') = max (length fresh) (length (di_data di))
     \<and> (\<forall>i. byte_at (di_data di') i = (if written (di_updates di) i then byte_at (di_data di) i else byte_at fresh i))
     \<and> di_updates di' = di_updates di \<and> di_key di' = di_key di \<and> only_writes di'"
proof -
  let ?f = "str_resize fresh (max (length fresh) (length (di_data di)))"
  obtain r where r: "merge_updates (di_data di) ?f (di_updates di) = Inr r" "length r = length ?f"
    "\<forall>i. byte_at r i = (if written (di_updates di) i then byte_at (di_data di) i else byte_at ?f i)"
    using merge_updates_writes [of "di_updates di" "di_data di" ?f] ow by (auto simp: only_writes_def)
  have "byte_at ?f i = byte_at fresh i" for i
    by (simp add: byte_at_grow)
  moreover have "length r \<le> max_block" using r(2) ow len by (simp add: only_writes_def)
  moreover have "only_writes (di\<lparr>di_data := r\<rparr>)"
    using ow r(2) len by (auto simp: only_writes_def)
  ultimately show ?thesis using r by (simp add: mergeDataChanges_def)
qed

text \<open>
  C13. Writes of two clients to the same block are merged: when this client has changed its block
  since the last flush by writes alone, without a truncation, and the fresh content is not longer
  than a block can be, merging keeps every byte this client wrote and takes every other byte from
  the fresh content; it neither throws nor aborts, and the merged block can be merged again.
\<close>

theorem merge_keeps_both:
  assumes "only_writes di" and "length fresh \<le> max_block"
  shows "\<exists>di'. mergeDataChanges fresh di = Inr di'
     \<and> length (di_data di') = max (length fresh) (length (di_data di))
     \<and> (\<forall>i. byte_at (di_data di') i = (if written (di_updates di) i then byte_at (di_data di) i else byte_at fresh i))
     \<and> di_updates di' = di_updates di \<and> only_writes di'"
  using merge_result [OF assms] by blast

definition two_writers :: DataInfo where
  "two_writers = \<lparr>di_key = ''1_0'', di_keyVersion = ''v1'', di_data = ''abXY'', di_updates = [(2, 2)]\<rparr>"

theorem merge_keeps_both_witness:
  "\<exists>di'. mergeDataChanges ''PQcdef'' two_writers = Inr di'
     \<and> length (di_data di') = max (length ''PQcdef'') (length (di_data two_writers))
     \<and> (\<forall>i. byte_at (di_data di') i =
           (if written (di_updates two_writers) i then byte_at (di_data two_writers) i
            else byte_at ''PQcdef'' i))
     \<and> di_updates di' = di_updates two_writers \<and> only_writes di'"
  by (rule merge_keeps_both) (simp_all add: two_writers_def only_writes_def)

lemma only_writes_new: "length content \<le> max_block \<Longrightarrow> only_writes (DataInfo_new key v content)"
  by (simp add: only_writes_def DataInfo_new_def)

lemma only_writes_forget: "length (di_data di) \<le> max_block \<Longrightarrow> only_writes (forgetUpdates di)"
  by (simp add: only_writes_def forgetUpdates_def)

lemma only_writes_updateData:
  assumes "only_writes di" "updateData buf off sz di = Inr (e, di')" "0 < sz" "sz \<le> length buf"
  shows "only_writes di'"
proof -
  have "off + sz \<le> max_block" using assms(2) by (auto simp: updateData_def split: if_splits)
  then obtain di'' where "updateData buf off sz di = Inr (0, di'')"
    "length (di_data di'') = max (off + sz) (length (di_data di))" "di_updates di'' = di_updates di @ [(off, sz)]"
    using updateData_effect [OF _ assms(4)] by blast
  with assms \<open>off + sz \<le> max_block\<close> show ?thesis by (auto simp: only_writes_def)
qed

text \<open>
  With truncations among the recorded regions the merge can throw an exception that
  nobody catches: after truncating a block and writing behind the new end, the fresh content
  is cut first and the write position then lies beyond its end.
\<close>

theorem merge_after_truncate_throws:
  assumes "newsize < off" "off + length buf \<le> max_block" "buf \<noteq> ''''" "di_updates di = []"
  shows "\<exists>di1 di2. truncate newsize di = Inr di1 \<and> updateData buf off (length buf) di1 = Inr (0, di2)
     \<and> mergeDataChanges fresh di2 = Inl Uncaught_Exception"
proof -
  obtain di1 where di1: "truncate newsize di = Inr di1" "di_updates di1 = [(newsize, 0)]"
    using assms by (simp add: truncate_def)
  obtain di2 where "updateData buf off (length buf) di1 = Inr (0, di2)"
    "length (di_data di2) = max (off + length buf) (length (di_data di1))" "di_updates di2 = [(newsize, 0), (off, length buf)]"
    using updateData_effect [OF assms(2), of buf di1] di1(2) by auto
  with di1 assms show ?thesis
    by (auto simp: mergeDataChanges_def merge_update_def str_substr_def str_replace_def)
qed

theorem merge_after_truncate_throws_witness:
  "\<exists>di1 di2. truncate 2 (DataInfo_new ''1_0'' '''' ''abcdef'') = Inr di1
     \<and> updateData ''xy'' 4 (length ''xy'') di1 = Inr (0, di2)
     \<and> mergeDataChanges ''abcdef'' di2 = Inl Uncaught_Exception"
  by (rule merge_after_truncate_throws) (simp_all add: DataInfo_new_def)

end
