(* ===== verification/Metadata_Info.thy ===== *)
theory Metadata_Info
  imports HFlat_Prelude
begin

unbundle bit_operations_syntax

section \<open>Metadata and path permissions\<close>

text \<open>
  The message Metadata of metadata.proto, the class MetadataInfo of metadata\_info.cc and the
  code that computes with both: the restrictions a directory puts on everything below it
  (computePathPermissionChildren), their inheritance (file.cc), their check (lookup.cc) and
  the check of a file's own permission bits (permission.cc). A file system on flat keys never
  walks a path, so it keeps the restrictions of all ancestors with every file; the theorems
  of this theory say when that gives the answer a walk would have given.
\<close>

subsection \<open>Data\<close>

datatype InodeType = POSIX | HARDLINK_T | HARDLINK_S | FORCE_UPDATE

datatype ReachabilityType = UID | GID | UID_OR_GID | NOT_UID | NOT_GID | GID_REQ_UID

record ReachabilityEntry =
  re_type :: ReachabilityType
  re_gid :: "32 word"
  re_uid :: "32 word"

record Metadata =
  md_type :: InodeType
  atime :: "32 word"
  mtime :: "32 word"
  ctime :: "32 word"
  uid :: "32 word"
  gid :: "32 word"
  mode :: "32 word"
  inode_number :: "64 word"
  link_count :: "32 word"
  md_size :: "32 word"
  blocks :: "32 word"
  xattr :: "(string \<times> string) list"
  path_permission_verified :: int
  path_permission :: "ReachabilityEntry list"
  path_permission_children :: "ReachabilityEntry list"

text \<open>A freshly constructed message: every field has its declared default.\<close>

definition Metadata_default :: Metadata where
  "Metadata_default = \<lparr>md_type = POSIX, atime = 0, mtime = 0, ctime = 0, uid = 0, gid = 0, mode = 0,
     inode_number = 0, link_count = 1, md_size = 0, blocks = 0, xattr = [],
     path_permission_verified = 0, path_permission = [], path_permission_children = []\<rparr>"

text \<open>
  The data block with unflushed changes is a shared object; the record holds its address in
  the heap of DataInfo objects, or nothing.
\<close>

record MetadataInfo =
  systemPath :: string
  keyVersion :: string
  md :: Metadata
  dirty_data :: "nat option"

definition MetadataInfo_new :: "string \<Rightarrow> MetadataInfo" where
  "MetadataInfo_new key =
     \<lparr>systemPath = key, keyVersion = ''0'', md = Metadata_default, dirty_data = None\<rparr>"

text \<open>\<^verbatim>\<open>time_t\<close> is wider than the fields, which keep its low 32 bits.\<close>

definition updateACMtime :: "int \<Rightarrow> MetadataInfo \<Rightarrow> MetadataInfo" where
  "updateACMtime now mdi = mdi\<lparr>md := (md mdi)\<lparr>atime := word_of_int now, mtime := word_of_int now,
     ctime := word_of_int now\<rparr>\<rparr>"

definition updateACtime :: "int \<Rightarrow> MetadataInfo \<Rightarrow> MetadataInfo" where
  "updateACtime now mdi = mdi\<lparr>md := (md mdi)\<lparr>atime := word_of_int now, ctime := word_of_int now\<rparr>\<rparr>"

text \<open>
  \<open>has_updates\<close> tells of the data block at an address whether it has unflushed changes.
\<close>

definition setDirtyData :: "(nat \<Rightarrow> bool) \<Rightarrow> nat option \<Rightarrow> MetadataInfo \<Rightarrow> bool \<times> MetadataInfo" where
  "setDirtyData has_updates di mdi =
     (if dirty_data mdi = di then (True, mdi)
      else if (case dirty_data mdi of None \<Rightarrow> False | Some a \<Rightarrow> has_updates a) then (False, mdi)
      else (True, mdi\<lparr>dirty_data := di\<rparr>))"

definition setMD :: "Metadata \<Rightarrow> string \<Rightarrow> MetadataInfo \<Rightarrow> MetadataInfo" where
  "setMD m vc mdi = mdi\<lparr>md := m, keyVersion := vc\<rparr>"

text \<open>The bits of sys/stat.h.\<close>

abbreviation (input) S_IXUSR :: "32 word" where "S_IXUSR \<equiv> 0x40"
abbreviation (input) S_IXGRP :: "32 word" where "S_IXGRP \<equiv> 0x08"
abbreviation (input) S_IXOTH :: "32 word" where "S_IXOTH \<equiv> 0x01"
abbreviation (input) S_IFDIR :: "32 word" where "S_IFDIR \<equiv> 0x4000"
abbreviation (input) S_IFREG :: "32 word" where "S_IFREG \<equiv> 0x8000"
abbreviation (input) S_IFLNK :: "32 word" where "S_IFLNK \<equiv> 0xA000"
abbreviation (input) S_ISUID :: "32 word" where "S_ISUID \<equiv> 0x800"
abbreviation (input) S_ISGID :: "32 word" where "S_ISGID \<equiv> 0x400"
abbreviation (input) S_ISVTX :: "32 word" where "S_ISVTX \<equiv> 0x200"

definition S_ISDIR :: "32 word \<Rightarrow> bool" where "S_ISDIR m \<longleftrightarrow> m AND 0xF000 = S_IFDIR"
definition S_ISREG :: "32 word \<Rightarrow> bool" where "S_ISREG m \<longleftrightarrow> m AND 0xF000 = S_IFREG"
definition S_ISLNK :: "32 word \<Rightarrow> bool" where "S_ISLNK m \<longleftrightarrow> m AND 0xF000 = S_IFLNK"

subsection \<open>Restrictions\<close>

definition mk_entry :: "Metadata \<Rightarrow> ReachabilityType \<Rightarrow> ReachabilityEntry" where
  "mk_entry m t = \<lparr>re_type = t, re_gid = gid m, re_uid = uid m\<rparr>"

definition addEntry :: "Metadata \<Rightarrow> bool \<Rightarrow> ReachabilityType \<Rightarrow> stop + ReachabilityEntry list \<Rightarrow> stop + ReachabilityEntry list" where
  "addEntry m cond t acc = (case acc of Inl s \<Rightarrow> Inl s | Inr v \<Rightarrow>
     if cond then (if length v + 1 \<le> 2 then Inr (v @ [mk_entry m t]) else Inl Assertion) else Inr v)"

text \<open>The entries for the execute bits of a directory, in the order they are pushed.\<close>

definition restrictions :: "Metadata \<Rightarrow> stop + ReachabilityEntry list" where
  "restrictions m =
     (let user = (mode m AND S_IXUSR \<noteq> 0); grp = (mode m AND S_IXGRP \<noteq> 0); other = (mode m AND S_IXOTH \<noteq> 0) in
      addEntry m (\<not> grp \<and> user \<and> other) GID_REQ_UID
      (addEntry m (\<not> grp \<and> \<not> user) NOT_GID
      (addEntry m (\<not> user) NOT_UID
      (addEntry m (\<not> other \<and> \<not> user \<and> grp) GID
      (addEntry m (\<not> other \<and> user \<and> \<not> grp) UID
      (addEntry m (\<not> other \<and> user \<and> grp) UID_OR_GID (Inr [])))))))"

text \<open>
  The inner loop that drops duplicates: \<^verbatim>\<open>v.erase(it)\<close> leaves \<open>it\<close> at the following element,
  which the loop's own increment then skips. Erasing the last element leaves \<open>it\<close> at the end;
  the increment moves it past the end, the loop condition holds and the access is undefined.
\<close>

function erase_equal :: "ReachabilityEntry \<Rightarrow> nat \<Rightarrow> ReachabilityEntry list \<Rightarrow> stop + ReachabilityEntry list" where
  "erase_equal p i v =
     (if i = length v then Inr v
      else if i > length v then Inl Undefined_Behaviour
      else if p = v ! i then erase_equal p (Suc i) (take i v @ drop (Suc i) v)
      else erase_equal p (Suc i) v)"
  by auto
termination by (relation "measure (\<lambda>(p, i, v). length v - i)") auto

declare erase_equal.simps [simp del]

fun erase_all :: "ReachabilityEntry list \<Rightarrow> ReachabilityEntry list \<Rightarrow> stop + ReachabilityEntry list" where
  "erase_all [] v = Inr v"
| "erase_all (p # ps) v = (case erase_equal p 0 v of Inl s \<Rightarrow> Inl s | Inr v \<Rightarrow> erase_all ps v)"

definition computePathPermissionChildren :: "Metadata \<Rightarrow> stop + bool \<times> Metadata" where
  "computePathPermissionChildren m =
     (case restrictions m of Inl s \<Rightarrow> Inl s | Inr v \<Rightarrow>
      case erase_all (path_permission m) v of Inl s \<Rightarrow> Inl s | Inr v \<Rightarrow>
      let changed = (length (path_permission_children m) \<noteq> length v
                     \<or> (\<exists>e \<in> set v. e \<notin> set (path_permission_children m))) in
      Inr (changed, if changed then m\<lparr>path_permission_children := v\<rparr> else m))"

definition entry_denies :: "32 word \<Rightarrow> 32 word \<Rightarrow> ReachabilityEntry \<Rightarrow> bool" where
  "entry_denies u g e = (case re_type e of
     UID \<Rightarrow> u \<noteq> re_uid e
   | GID \<Rightarrow> g \<noteq> re_gid e
   | UID_OR_GID \<Rightarrow> u \<noteq> re_uid e \<and> g \<noteq> re_gid e
   | NOT_GID \<Rightarrow> g = re_gid e
   | NOT_UID \<Rightarrow> u = re_uid e
   | GID_REQ_UID \<Rightarrow> g = re_gid e \<and> u \<noteq> re_uid e)"

fun check_path_permissions :: "32 word \<Rightarrow> 32 word \<Rightarrow> ReachabilityEntry list \<Rightarrow> int" where
  "check_path_permissions u g [] = 0"
| "check_path_permissions u g (e # es) = (if entry_denies u g e then - EACCES else check_path_permissions u g es)"

definition inherit_path_permissions :: "Metadata \<Rightarrow> Metadata \<Rightarrow> stop + Metadata" where
  "inherit_path_permissions m parent =
     (let m = m\<lparr>path_permission := path_permission parent @ path_permission_children parent,
                path_permission_verified := path_permission_verified parent\<rparr> in
      if S_ISDIR (mode m) then map_sum id snd (computePathPermissionChildren m) else Inr m)"

abbreviation (input) F_OK :: "32 word" where "F_OK \<equiv> 0"
abbreviation (input) X_OK :: "32 word" where "X_OK \<equiv> 1"
abbreviation (input) W_OK :: "32 word" where "W_OK \<equiv> 2"
abbreviation (input) R_OK :: "32 word" where "R_OK \<equiv> 4"

definition check_access :: "32 word \<Rightarrow> 32 word \<Rightarrow> Metadata \<Rightarrow> 32 word \<Rightarrow> int" where
  "check_access u g m req =
     (if u = 0 then 0
      else if req = F_OK then 0
      else if uid m = u then (if req AND drop_bit 6 (mode m) = req then 0 else - EACCES)
      else if gid m = g then (if req AND drop_bit 3 (mode m) = req then 0 else - EACCES)
      else if req AND mode m = req then 0 else - EACCES)"

subsection \<open>What the restrictions mean\<close>

text \<open>The POSIX rule for searching a directory: the first class that applies decides.\<close>

definition may_search :: "32 word \<Rightarrow> 32 word \<Rightarrow> Metadata \<Rightarrow> bool" where
  "may_search u g m =
     (if u = uid m then mode m AND S_IXUSR \<noteq> 0
      else if g = gid m then mode m AND S_IXGRP \<noteq> 0
      else mode m AND S_IXOTH \<noteq> 0)"

definition some_search :: "Metadata \<Rightarrow> bool" where
  "some_search m \<longleftrightarrow> mode m AND S_IXUSR \<noteq> 0 \<or> mode m AND S_IXGRP \<noteq> 0 \<or> mode m AND S_IXOTH \<noteq> 0"

lemma x_bits:
  fixes x c :: "32 word"
  assumes "x AND 0x49 = c"
  shows "x AND S_IXUSR = c AND S_IXUSR" "x AND S_IXGRP = c AND S_IXGRP" "x AND S_IXOTH = c AND S_IXOTH"
  unfolding assms [symmetric] by (simp_all add: and.assoc)

lemma check_path_permissions_0 [simp]:
  "check_path_permissions u g es = 0 \<longleftrightarrow> (\<forall>e \<in> set es. \<not> entry_denies u g e)"
  by (induction es) auto

lemma check_path_permissions_values:
  "check_path_permissions u g es = 0 \<or> check_path_permissions u g es = - EACCES"
  by (induction es) auto

lemma addEntry_simps [simp]:
  "addEntry m False t acc = acc"
  "length v < 2 \<Longrightarrow> addEntry m True t (Inr v) = Inr (v @ [mk_entry m t])"
  by (auto simp: addEntry_def split: sum.splits)

lemma restrictions_cases:
  obtains v where "restrictions m = Inr v" "distinct v"
    "\<And>u g. (\<forall>e \<in> set v. \<not> entry_denies u g e) \<longleftrightarrow>
       (if some_search m then may_search u g m else u \<noteq> uid m \<and> g \<noteq> gid m)"
proof -
  have "\<exists>v. restrictions m = Inr v \<and> distinct v \<and>
     (\<forall>u g. (\<forall>e \<in> set v. \<not> entry_denies u g e) \<longleftrightarrow>
       (if some_search m then may_search u g m else u \<noteq> uid m \<and> g \<noteq> gid m))"
    unfolding restrictions_def some_search_def may_search_def Let_def
    by (cases "mode m AND S_IXUSR = 0"; cases "mode m AND S_IXGRP = 0"; cases "mode m AND S_IXOTH = 0")
       (auto simp: mk_entry_def entry_denies_def)
  with that show thesis by blast
qed

lemma erase_equal_hit:
  "i < length v \<Longrightarrow> erase_equal (v ! i) i v = erase_equal (v ! i) (Suc i) (take i v @ drop (Suc i) v)"
  by (subst erase_equal.simps) simp

lemma remove_nth_facts:
  assumes "i < length v"
  shows "set v = insert (v ! i) (set (take i v @ drop (Suc i) v))"
    "distinct v \<Longrightarrow> distinct (take i v @ drop (Suc i) v)"
proof -
  have split: "v = take i v @ v ! i # drop (Suc i) v" using assms by (rule id_take_nth_drop)
  show "set v = insert (v ! i) (set (take i v @ drop (Suc i) v))"
    by (subst split) simp
  assume "distinct v"
  then have "distinct (take i v @ v ! i # drop (Suc i) v)" using split by simp
  then show "distinct (take i v @ drop (Suc i) v)" by auto
qed

lemma erase_equal_set:
  "erase_equal p i v = Inr w \<Longrightarrow> set w \<subseteq> set v \<and> set v \<subseteq> insert p (set w) \<and> (distinct v \<longrightarrow> distinct w)"
proof (induction p i v arbitrary: w rule: erase_equal.induct)
  case (1 p i v)
  show ?case
  proof (cases "i < length v \<and> p = v ! i")
    case True
    then have "erase_equal p (Suc i) (take i v @ drop (Suc i) v) = Inr w"
      using "1.prems" erase_equal_hit [of i v] by simp
    with "1.IH"(1) [of w] True remove_nth_facts [of i v] show ?thesis by auto
  next
    case False
    then show ?thesis
      using "1.IH"(2) [of w] "1.prems" by (auto simp: erase_equal.simps [of p i v] split: if_splits)
  qed
qed

lemma erase_all_set:
  "erase_all ps v = Inr w \<Longrightarrow> set w \<subseteq> set v \<and> set v \<subseteq> set ps \<union> set w \<and> (distinct v \<longrightarrow> distinct w)"
proof (induction ps arbitrary: v)
  case (Cons p ps)
  then obtain x where x: "erase_equal p 0 v = Inr x" "erase_all ps x = Inr w"
    by (auto split: sum.splits)
  from Cons.IH [OF x(2)] erase_equal_set [OF x(1)] show ?case by auto
qed simp

text \<open>
  The precomputed restrictions of a directory say exactly what is new: together with the
  restrictions it inherited they are equivalent to the latter and its own execute bits.
\<close>

definition searchable :: "32 word \<Rightarrow> 32 word \<Rightarrow> Metadata \<Rightarrow> bool" where
  "searchable u g m = (if some_search m then may_search u g m else u \<noteq> uid m \<and> g \<noteq> gid m)"

lemma subset_same_card:
  assumes "distinct v" "length ps = length v" "set v \<subseteq> set ps"
  shows "set ps = set v"
proof -
  have "card (set ps) \<le> card (set v)" using assms by (metis card_length distinct_card)
  with assms(3) show ?thesis by (metis List.finite_set card_seteq)
qed

lemma computed_restrictions:
  assumes "computePathPermissionChildren m = Inr (ch, m')"
  shows "(\<forall>e \<in> set (path_permission m @ path_permission_children m'). \<not> entry_denies u g e) \<longleftrightarrow>
      (\<forall>e \<in> set (path_permission m). \<not> entry_denies u g e) \<and> searchable u g m"
    and "m' = m\<lparr>path_permission_children := path_permission_children m'\<rparr>"
proof -
  obtain v where v: "restrictions m = Inr v" "distinct v"
    "(\<forall>e \<in> set v. \<not> entry_denies u g e) \<longleftrightarrow> searchable u g m"
    using restrictions_cases [of m] unfolding searchable_def by metis
  obtain w where w: "erase_all (path_permission m) v = Inr w" "set w \<subseteq> set v"
    "set v \<subseteq> set (path_permission m) \<union> set w" "distinct w"
    using assms v erase_all_set by (auto simp: computePathPermissionChildren_def split: sum.splits)
  have "set (path_permission_children m') = set w"
    using assms v(1) w(1,4) subset_same_card [of w "path_permission_children m"]
    by (auto simp: computePathPermissionChildren_def Let_def split: if_splits)
  with v(3) w(2,3) show "(\<forall>e \<in> set (path_permission m @ path_permission_children m'). \<not> entry_denies u g e) \<longleftrightarrow>
      (\<forall>e \<in> set (path_permission m). \<not> entry_denies u g e) \<and> searchable u g m"
    by auto
  show "m' = m\<lparr>path_permission_children := path_permission_children m'\<rparr>"
    using assms v(1) w(1) by (auto simp: computePathPermissionChildren_def Let_def split: if_splits)
qed

subsection \<open>A path of directories\<close>

text \<open>
  Every object below the root inherits from its predecessor on the path, the way
  \<^verbatim>\<open>initialize_metadata\<close> and a stale \<^verbatim>\<open>lookup\<close> do it one step at a time.
\<close>

fun descend :: "Metadata \<Rightarrow> Metadata list \<Rightarrow> stop + Metadata" where
  "descend parent [] = Inr parent"
| "descend parent (m # ms) = (case inherit_path_permissions m parent of
     Inl s \<Rightarrow> Inl s | Inr m \<Rightarrow> descend m ms)"

definition enforced :: "32 word \<Rightarrow> 32 word \<Rightarrow> Metadata \<Rightarrow> bool" where
  "enforced u g m \<longleftrightarrow> (\<forall>e \<in> set (path_permission m @ path_permission_children m). \<not> entry_denies u g e)"

lemma searchable_cong [simp]:
  "searchable u g (m\<lparr>path_permission := a, path_permission_verified := b\<rparr>) = searchable u g m"
  "searchable u g (m\<lparr>path_permission_children := a\<rparr>) = searchable u g m"
  by (simp_all add: searchable_def some_search_def may_search_def)

lemma map_sum_Inr_conv: "map_sum id snd x = Inr b \<longleftrightarrow> (\<exists>a. x = Inr (a, b))"
  by (cases x) auto

lemma inherit_directory:
  assumes "inherit_path_permissions m parent = Inr m'" "S_ISDIR (mode m)"
  shows "enforced u g m' \<longleftrightarrow> enforced u g parent \<and> searchable u g m"
proof -
  let ?m = "m\<lparr>path_permission := path_permission parent @ path_permission_children parent,
              path_permission_verified := path_permission_verified parent\<rparr>"
  obtain ch where ch: "computePathPermissionChildren ?m = Inr (ch, m')"
    using assms by (auto simp: inherit_path_permissions_def Let_def map_sum_Inr_conv)
  have "path_permission m' = path_permission ?m"
    by (subst computed_restrictions(2) [OF ch]) simp
  with computed_restrictions(1) [OF ch, of u g] show ?thesis
    by (simp add: enforced_def)
qed

lemma inherit_file:
  assumes "inherit_path_permissions m parent = Inr m'" "\<not> S_ISDIR (mode m)"
  shows "(\<forall>e \<in> set (path_permission m'). \<not> entry_denies u g e) \<longleftrightarrow> enforced u g parent"
  using assms by (auto simp: inherit_path_permissions_def Let_def enforced_def)

lemma descend_enforced:
  assumes "\<forall>d \<in> set dirs. S_ISDIR (mode d)" "\<not> S_ISDIR (mode leaf)"
    "descend parent (dirs @ [leaf]) = Inr leaf'"
  shows "(\<forall>e \<in> set (path_permission leaf'). \<not> entry_denies u g e) \<longleftrightarrow>
     enforced u g parent \<and> (\<forall>d \<in> set dirs. searchable u g d)"
  using assms
proof (induction dirs arbitrary: parent)
  case Nil
  then show ?case by (auto simp: inherit_file split: sum.splits)
next
  case (Cons d dirs)
  then obtain d' where "inherit_path_permissions d parent = Inr d'" "descend d' (dirs @ [leaf]) = Inr leaf'"
    by (auto split: sum.splits)
  with Cons show ?case by (auto simp: inherit_directory)
qed

text \<open>
  C7. The stored restrictions answer like a walk from the root. For a file below a chain of
  directories, whose restrictions have been inherited step by step without undefined behaviour
  on the way, the check of the restrictions succeeds for a user and group exactly when every
  directory on the path lets them pass. A directory in which some search bit is set lets pass
  whom POSIX does, by the class the user falls into, where root is a user like any other; a
  directory with no search bit at all lets pass everybody who is neither its owner nor in its group.
\<close>

theorem path_permissions_like_walk:
  assumes "path_permission root = []" "computePathPermissionChildren root = Inr (ch, root')"
    "\<forall>d \<in> set dirs. S_ISDIR (mode d)" "\<not> S_ISDIR (mode leaf)" "descend root' (dirs @ [leaf]) = Inr leaf'"
  shows "check_path_permissions u g (path_permission leaf') = 0 \<longleftrightarrow>
     list_all (\<lambda>d. if some_search d then may_search u g d else u \<noteq> uid d \<and> g \<noteq> gid d) (root # dirs)"
proof -
  have "path_permission root' = path_permission root"
    by (subst computed_restrictions(2) [OF assms(2)]) simp
  then have "enforced u g root' \<longleftrightarrow> searchable u g root"
    using computed_restrictions(1) [OF assms(2), of u g] assms(1) by (simp add: enforced_def)
  with descend_enforced [OF assms(3-5), of u g] show ?thesis
    by (simp add: searchable_def list_all_iff)
qed

definition example_md :: "32 word \<Rightarrow> 32 word \<Rightarrow> 32 word \<Rightarrow> Metadata" where
  "example_md u g m = Metadata_default\<lparr>uid := u, gid := g, mode := m\<rparr>"

definition example_root :: Metadata where
  "example_root = (example_md 0 0 0x41ED)\<lparr>path_permission_children := []\<rparr>"

definition example_file :: Metadata where
  "example_file = (example_md 7 100 0x81A4)\<lparr>path_permission := [\<lparr>re_type = UID_OR_GID, re_gid = 100, re_uid = 7\<rparr>]\<rparr>"

lemmas example_simps = example_md_def Metadata_default_def example_root_def example_file_def
  computePathPermissionChildren_def inherit_path_permissions_def restrictions_def mk_entry_def
  addEntry_def S_ISDIR_def erase_equal.simps some_search_def

theorem path_permissions_like_walk_witness:
  "check_path_permissions 5 6 (path_permission example_file) = 0
     \<longleftrightarrow> list_all (\<lambda>d. if some_search d then may_search 5 6 d else 5 \<noteq> uid d \<and> 6 \<noteq> gid d) [example_root, example_md 7 100 0x41E8]"
  using path_permissions_like_walk [of example_root False example_root "[example_md 7 100 0x41E8]"
      "example_md 7 100 0x81A4" example_file 5 6]
  by (simp add: example_simps Let_def)

text \<open>
  C39. A directory that grants search permission to nobody is open to strangers: a user other
  than its owner and with another group passes the restrictions computed for it, while POSIX
  refuses. The case in which all three bits are clear has no entry that excludes everybody.
\<close>

theorem locked_directory_open_to_strangers:
  assumes "path_permission m = []" "computePathPermissionChildren m = Inr (ch, m')"
    "mode m AND 0x49 = 0" "u \<noteq> uid m" "g \<noteq> gid m"
  shows "check_path_permissions u g (path_permission_children m') = 0 \<and> \<not> may_search u g m"
proof -
  have none: "\<not> some_search m" "\<not> may_search u g m"
    using x_bits [OF assms(3)] by (simp_all add: some_search_def may_search_def)
  with computed_restrictions(1) [OF assms(2), of u g] assms(1,4,5) show ?thesis
    by (simp add: searchable_def)
qed

theorem locked_directory_open_to_strangers_witness:
  "check_path_permissions 5 6 (path_permission_children (example_md 7 100 S_IFDIR
       \<lparr>path_permission_children := [\<lparr>re_type = NOT_UID, re_gid = 100, re_uid = 7\<rparr>,
          \<lparr>re_type = NOT_GID, re_gid = 100, re_uid = 7\<rparr>]\<rparr>)) = 0
     \<and> \<not> may_search 5 6 (example_md 7 100 S_IFDIR)"
  by (rule locked_directory_open_to_strangers [of _ True]) (simp_all add: example_simps Let_def)

text \<open>
  Nesting two private directories is undefined behaviour: when a directory that only its
  owner may search is created below another one of the same owner and group, the restriction
  it would add is already inherited, the duplicate is the last element of the vector, and the
  loop that erases it steps past the end.
\<close>

theorem nested_private_directory_undefined:
  assumes "path_permission parent = []" "path_permission_children parent = []"
    "computePathPermissionChildren parent = Inr (ch, parent')"
    "mode parent AND 0x49 = 0x40" "mode m AND 0x49 = 0x40" "S_ISDIR (mode m)"
    "uid m = uid parent" "gid m = gid parent"
  shows "inherit_path_permissions m parent' = Inl Undefined_Behaviour"
proof -
  have r: "restrictions p = Inr [mk_entry p UID]" if "mode p AND 0x49 = 0x40" for p
    using x_bits [OF that] by (simp add: restrictions_def)
  have "path_permission parent' = [] \<and> path_permission_children parent' = [mk_entry parent UID]"
    using assms(1-3) r [OF assms(4)] by (auto simp: computePathPermissionChildren_def Let_def)
  moreover have "restrictions (m\<lparr>path_permission := ps, path_permission_verified := k\<rparr>) = Inr [mk_entry parent UID]"
    for ps k using r [of "m\<lparr>path_permission := ps, path_permission_verified := k\<rparr>"] assms(5,7,8)
    by (simp add: mk_entry_def)
  ultimately show ?thesis
    using assms(6) by (simp add: inherit_path_permissions_def computePathPermissionChildren_def Let_def
        erase_equal.simps)
qed

theorem nested_private_directory_undefined_witness:
  "inherit_path_permissions (example_md 7 100 0x41C0)
     (example_md 7 100 0x41C0\<lparr>path_permission_children := [\<lparr>re_type = UID, re_gid = 100, re_uid = 7\<rparr>]\<rparr>)
     = Inl Undefined_Behaviour"
  by (rule nested_private_directory_undefined [of "example_md 7 100 0x41C0" True])
     (simp_all add: example_simps Let_def)

text \<open>
  Root is exempt from the permission bits of a file but not from the restrictions of a path.
\<close>

lemma root_not_exempt:
  "re_type e = UID \<Longrightarrow> re_uid e \<noteq> 0 \<Longrightarrow>
     check_path_permissions 0 g [e] = - EACCES \<and> check_access 0 g m req = 0"
  by (simp add: entry_denies_def check_access_def)

lemma check_access_search:
  assumes "u \<noteq> 0"
  shows "check_access u g m X_OK = 0 \<longleftrightarrow> may_search u g m"
proof -
  have "1 AND drop_bit k x = 1 \<longleftrightarrow> x AND 2 ^ k \<noteq> 0" for k and x :: "32 word"
    by (simp add: and_exp_eq_0_iff_not_bit bit_iff_odd_drop_bit one_and_eq odd_iff_mod_2_eq_one)
  from this [of 6] this [of 3] this [of 0] assms show ?thesis
    by (auto simp: check_access_def may_search_def)
qed

end
