(* ===== verification/LRU_Cache.thy ===== *)
theory LRU_Cache
  imports HFlat_Prelude
begin

section \<open>The cache\<close>

text \<open>
  The class template LRUcache of lru\_cache.h. The list holds the most recently used element
  first; every node is written with the key under which the hash map \<^verbatim>\<open>lookup\<close> refers to it,
  so that \<^verbatim>\<open>lookup.count(k)\<close> asks for a node with this key. A key can be blocked while a client
  fetches its element; \<^verbatim>\<open>get\<close> waits for it to be unblocked. Every operation holds the cache's
  mutex, so operations are atomic; a wait for a key that the calling thread has blocked itself
  never ends. The functions \<open>getKey\<close> and \<open>dirty\<close> and the reading of the clock are arguments.
\<close>

subsection \<open>Model\<close>

record ('k, 'd) LRUcache =
  cache :: "('k \<times> 'd \<times> int) list"
  blocked_keys :: "'k set"
  expiration_time :: int
  capacity :: nat

definition LRUcache_new :: "int \<Rightarrow> nat \<Rightarrow> ('k, 'd) LRUcache" where
  "LRUcache_new expiration_milliseconds cap =
     \<lparr>cache = [], blocked_keys = {}, expiration_time = expiration_milliseconds, capacity = cap\<rparr>"

definition expired :: "('d \<Rightarrow> bool) \<Rightarrow> int \<Rightarrow> int \<Rightarrow> 'd \<times> int \<Rightarrow> bool" where
  "expired dirty now expiration e = (case e of (d, added) \<Rightarrow>
     if dirty d then False else expiration \<noteq> 0 \<and> now - added > expiration)"

text \<open>\<^verbatim>\<open>remove\<close> is called for keys that are present; \<^verbatim>\<open>lookup[k]\<close> of another key is no iterator.\<close>

fun index_of :: "'k \<Rightarrow> ('k \<times> 'd \<times> int) list \<Rightarrow> nat option" where
  "index_of k [] = None"
| "index_of k (e # es) = (if fst e = k then Some 0 else map_option Suc (index_of k es))"

definition remove_at :: "nat \<Rightarrow> 'a list \<Rightarrow> 'a list" where
  "remove_at j xs = take j xs @ drop (Suc j) xs"

definition lru_remove :: "'k \<Rightarrow> ('k \<times> 'd \<times> int) list \<Rightarrow> stop + nat \<times> ('k \<times> 'd \<times> int) list" where
  "lru_remove k xs = (case index_of k xs of
     None \<Rightarrow> Inl Undefined_Behaviour
   | Some j \<Rightarrow> Inr (j, remove_at j xs))"

definition lru_get ::
  "('d \<Rightarrow> bool) \<Rightarrow> int \<Rightarrow> 'k \<Rightarrow> ('k, 'd) LRUcache \<Rightarrow> stop + 'd option \<times> ('k, 'd) LRUcache" where
  "lru_get dirty now k c =
     (if k \<in> blocked_keys c then Inl Deadlock
      else case map_of (cache c) k of
        None \<Rightarrow> Inr (None, c)
      | Some (d, added) \<Rightarrow>
          (case lru_remove k (cache c) of
             Inl s \<Rightarrow> Inl s
           | Inr (j, xs) \<Rightarrow>
               if expired dirty now (expiration_time c) (d, added) then Inr (None, c\<lparr>cache := xs\<rparr>)
               else Inr (Some d, c\<lparr>cache := (k, d, added) # xs\<rparr>)))"

text \<open>
  The eviction loop runs a reverse iterator over a list it erases from. The iterator is its
  base, the position \<open>b\<close> behind the element it denotes. Erasing the node at position \<open>j\<close>
  moves the base when \<open>j < b\<close> and invalidates the iterator when \<open>j = b\<close>. The increment then
  skips the element in front of an erased one; when nothing is in front it moves before the
  beginning of the list, which is undefined.
\<close>

function evict ::
  "('d \<Rightarrow> 'k) \<Rightarrow> ('d \<Rightarrow> bool) \<Rightarrow> nat \<Rightarrow> nat \<Rightarrow> ('k \<times> 'd \<times> int) list \<Rightarrow> stop + ('k \<times> 'd \<times> int) list" where
  "evict getKey dirty cap b xs =
     (if b = 0 \<or> length xs < cap then Inr xs
      else case xs ! (b - 1) of (_, d, _) \<Rightarrow>
        if dirty d then evict getKey dirty cap (b - 1) xs
        else case lru_remove (getKey d) xs of
               Inl s \<Rightarrow> Inl s
             | Inr (j, ys) \<Rightarrow>
                 if j = b then Inl Undefined_Behaviour
                 else if (if j < b then b - 1 else b) = 0 then Inl Undefined_Behaviour
                 else evict getKey dirty cap ((if j < b then b - 1 else b) - 1) ys)"
  by pat_completeness auto
termination by (relation "measure (\<lambda>(g, f, cap, b, xs). b)") auto

declare evict.simps [simp del]

definition lru_add ::
  "('d \<Rightarrow> 'k) \<Rightarrow> ('d \<Rightarrow> bool) \<Rightarrow> int \<Rightarrow> 'k \<Rightarrow> 'd \<Rightarrow> ('k, 'd) LRUcache \<Rightarrow> stop + bool \<times> ('k, 'd) LRUcache" where
  "lru_add getKey dirty now k d c =
     (case (case map_of (cache c) k of
              None \<Rightarrow> Inr (Some (cache c))
            | Some e \<Rightarrow> if expired dirty now (expiration_time c) e
                        then map_sum id (Some \<circ> snd) (lru_remove k (cache c)) else Inr None) of
        Inl s \<Rightarrow> Inl s
      | Inr None \<Rightarrow> Inr (False, c)
      | Inr (Some xs) \<Rightarrow>
          (case evict getKey dirty (capacity c) (length xs) xs of
             Inl s \<Rightarrow> Inl s
           | Inr ys \<Rightarrow> Inr (True, c\<lparr>cache := (k, d, now) # ys, blocked_keys := blocked_keys c - {k}\<rparr>)))"

definition lru_block :: "'k \<Rightarrow> ('k, 'd) LRUcache \<Rightarrow> bool \<times> ('k, 'd) LRUcache" where
  "lru_block k c = (k \<notin> blocked_keys c, c\<lparr>blocked_keys := insert k (blocked_keys c)\<rparr>)"

definition revalidate :: "int \<Rightarrow> 'k \<Rightarrow> ('k, 'd) LRUcache \<Rightarrow> ('k, 'd) LRUcache" where
  "revalidate now k c = c\<lparr>cache := map (\<lambda>(k', d, added). (k', d, if k' = k then now else added)) (cache c)\<rparr>"

definition invalidate :: "'k \<Rightarrow> ('k, 'd) LRUcache \<Rightarrow> ('k, 'd) LRUcache" where
  "invalidate k c = c\<lparr>cache := (case lru_remove k (cache c) of Inl _ \<Rightarrow> cache c | Inr (_, xs) \<Rightarrow> xs),
     blocked_keys := blocked_keys c - {k}\<rparr>"

subsection \<open>Contract\<close>

text \<open>
  What the file system relies on. A cache is seen through the elements it can return and the
  keys that are blocked. It may forget an element at any time, but what it returns was put in
  under this key, and an element with unflushed changes stays until it is invalidated.
\<close>

locale blocking_cache =
  fixes valid :: "'c \<Rightarrow> bool"
    and contents :: "'c \<Rightarrow> 'k \<rightharpoonup> 'd"
    and waiting :: "'c \<Rightarrow> 'k set"
    and get :: "'k \<Rightarrow> 'c \<Rightarrow> stop + 'd option \<times> 'c"
    and add :: "'k \<Rightarrow> 'd \<Rightarrow> 'c \<Rightarrow> stop + bool \<times> 'c"
    and block :: "'k \<Rightarrow> 'c \<Rightarrow> bool \<times> 'c"
    and drop_key :: "'k \<Rightarrow> 'c \<Rightarrow> 'c"
    and key_of :: "'d \<Rightarrow> 'k"
    and pinned :: "'d \<Rightarrow> bool"
  assumes get_waits: "k \<in> waiting c \<Longrightarrow> get k c = Inl Deadlock"
    and get_returns: "valid c \<Longrightarrow> k \<notin> waiting c \<Longrightarrow> \<exists>r c'. get k c = Inr (r, c')"
    and get_result: "valid c \<Longrightarrow> get k c = Inr (r, c') \<Longrightarrow>
        valid c' \<and> waiting c' = waiting c \<and> contents c' k = r \<and> (\<forall>j. j \<noteq> k \<longrightarrow> contents c' j = contents c j)
        \<and> (\<forall>d. r = Some d \<longrightarrow> contents c k = Some d)
        \<and> (\<forall>d. contents c k = Some d \<and> pinned d \<longrightarrow> r = Some d)"
    and add_result: "valid c \<Longrightarrow> key_of d = k \<Longrightarrow> add k d c = Inr (ok, c') \<Longrightarrow>
        valid c' \<and> (ok \<longrightarrow> contents c' k = Some d \<and> waiting c' = waiting c - {k}
           \<and> (\<forall>j. j \<noteq> k \<longrightarrow> contents c' j = contents c j \<or> contents c' j = None)
           \<and> (\<forall>j e. j \<noteq> k \<longrightarrow> contents c j = Some e \<longrightarrow> pinned e \<longrightarrow> contents c' j = Some e))
        \<and> (\<not> ok \<longrightarrow> c' = c \<and> contents c k \<noteq> None)"
    and block_result: "block k c = (ok, c') \<Longrightarrow>
        (valid c' \<longleftrightarrow> valid c) \<and> (ok \<longleftrightarrow> k \<notin> waiting c) \<and> waiting c' = insert k (waiting c) \<and> contents c' = contents c"
    and drop_result: "valid c \<Longrightarrow>
        valid (drop_key k c) \<and> waiting (drop_key k c) = waiting c - {k} \<and> contents (drop_key k c) = (contents c)(k := None)"
begin

text \<open>
  The client's protocol: after a miss, block the key, fetch, then add the element or give the
  key up. Both ends leave the waiting keys as they were found.
\<close>

lemma miss_then_block:
  assumes "valid c" "get k c = Inr (None, c1)" "block k c1 = (ok, c2)"
  shows "ok" "valid c2" "contents c2 k = None" "waiting c2 = insert k (waiting c)" "k \<notin> waiting c"
proof -
  have "k \<notin> waiting c" using assms(2) get_waits by fastforce
  with get_result [OF assms(1,2)] block_result [OF assms(3)]
  show "ok" "valid c2" "contents c2 k = None" "waiting c2 = insert k (waiting c)" "k \<notin> waiting c" by simp_all
qed

lemma fetch_then_add:
  assumes "valid c" "get k c = Inr (None, c1)" "block k c1 = (ok, c2)" "key_of d = k"
    "add k d c2 = Inr (ok', c3)"
  shows "ok' \<and> valid c3 \<and> contents c3 k = Some d \<and> waiting c3 = waiting c"
proof -
  note m = miss_then_block [OF assms(1-3)]
  note r = add_result [OF m(2) assms(4,5)]
  have "ok'" using r m(3) by (cases ok') simp_all
  with r m(4,5) show ?thesis by simp
qed

lemma fetch_then_drop:
  assumes "valid c" "get k c = Inr (None, c1)" "block k c1 = (ok, c2)"
  shows "valid (drop_key k c2) \<and> contents (drop_key k c2) k = None \<and> waiting (drop_key k c2) = waiting c"
  using miss_then_block [OF assms] drop_result [of c2 k] by simp

lemma hit_after_add:
  assumes "valid c" "key_of d = k" "pinned d" "add k d c = Inr (True, c1)" "k \<notin> waiting c1"
  shows "\<exists>c2. get k c1 = Inr (Some d, c2)"
proof -
  have c1: "valid c1" "contents c1 k = Some d" using add_result [OF assms(1,2,4)] by simp_all
  obtain r c2 where r: "get k c1 = Inr (r, c2)" using get_returns [OF c1(1) assms(5)] by blast
  have "r = Some d" using get_result [OF c1(1) r] c1(2) assms(3) by blast
  with r show ?thesis by blast
qed

end

subsection \<open>The list fulfils the contract\<close>

definition lru_ok :: "('d \<Rightarrow> 'k) \<Rightarrow> ('k \<times> 'd \<times> int) list \<Rightarrow> bool" where
  "lru_ok getKey xs \<longleftrightarrow> distinct (map fst xs) \<and> (\<forall>(k, d, t) \<in> set xs. getKey d = k)"

definition lru_valid :: "('d \<Rightarrow> 'k) \<Rightarrow> ('k, 'd) LRUcache \<Rightarrow> bool" where
  "lru_valid getKey c \<longleftrightarrow> lru_ok getKey (cache c)"

definition lru_contents :: "('k, 'd) LRUcache \<Rightarrow> 'k \<Rightarrow> 'd option" where
  "lru_contents c k = map_option fst (map_of (cache c) k)"

lemma index_of_None: "index_of k xs = None \<longleftrightarrow> k \<notin> fst ` set xs"
  by (induction xs) auto

lemma index_of_Some: "index_of k xs = Some j \<Longrightarrow> j < length xs \<and> fst (xs ! j) = k"
  by (induction xs arbitrary: j) (auto split: if_splits)

lemma index_of_nth: "distinct (map fst xs) \<Longrightarrow> i < length xs \<Longrightarrow> index_of (fst (xs ! i)) xs = Some i"
proof (induction xs arbitrary: i)
  case (Cons x xs)
  then show ?case by (cases i) (auto simp: rev_image_eqI)
qed simp

lemma set_remove_at: "set (remove_at j xs) \<subseteq> set xs"
  using set_take_subset [of j xs] set_drop_subset [of "Suc j" xs] by (auto simp: remove_at_def)

lemma remove_at_split: "j < length xs \<Longrightarrow> \<exists>us vs. xs = us @ xs ! j # vs \<and> remove_at j xs = us @ vs \<and> length us = j"
  by (intro exI [of _ "take j xs"] exI [of _ "drop (Suc j) xs"]) (simp add: id_take_nth_drop [symmetric] remove_at_def)

lemma lru_remove_result:
  assumes "lru_ok getKey xs" "lru_remove k xs = Inr (j, ys)"
  shows "lru_ok getKey ys" "map_of ys = (map_of xs)(k := None)" "length ys = length xs - 1"
    "j < length xs" "index_of k xs = Some j" "ys = remove_at j xs"
proof -
  show j: "index_of k xs = Some j" "ys = remove_at j xs"
    using assms(2) by (auto simp: lru_remove_def split: option.splits)
  show len: "j < length xs" using index_of_Some [OF j(1)] by simp
  obtain us vs where s: "xs = us @ xs ! j # vs" "ys = us @ vs"
    using remove_at_split [OF len] j(2) by blast
  have k: "fst (xs ! j) = k" using index_of_Some [OF j(1)] by simp
  obtain d where xj: "xs ! j = (k, d)" using k by (cases "xs ! j") auto
  have ok: "lru_ok getKey (us @ (k, d) # vs)" using assms(1) s(1) xj by simp
  then show "lru_ok getKey ys" by (auto simp: lru_ok_def s(2))
  have "k \<notin> fst ` set us" "k \<notin> fst ` set vs" using ok by (auto simp: lru_ok_def)
  then have "map_of us k = None" "map_of vs k = None" by (simp_all add: map_of_eq_None_iff)
  then have "map_of (us @ vs) = (map_of (us @ (k, d) # vs))(k := None)"
    by (auto simp: map_add_def fun_eq_iff split: option.splits)
  then show "map_of ys = (map_of xs)(k := None)" using s xj by metis
  show "length ys = length xs - 1" using len j(2) by (simp add: remove_at_def)
qed

lemma lru_remove_present: "map_of xs k \<noteq> None \<Longrightarrow> \<exists>j ys. lru_remove k xs = Inr (j, ys)"
  using index_of_None [of k xs] by (auto simp: lru_remove_def map_of_eq_None_iff split: option.splits)

lemma lru_ok_Cons:
  "lru_ok getKey xs \<Longrightarrow> map_of xs k = None \<Longrightarrow> getKey d = k \<Longrightarrow> lru_ok getKey ((k, d, t) # xs)"
  by (auto simp: lru_ok_def map_of_eq_None_iff)

lemma lru_ok_key: "lru_ok getKey xs \<Longrightarrow> map_of xs k = Some (d, t) \<Longrightarrow> getKey d = k"
  by (auto simp: lru_ok_def dest: map_of_SomeD)

text \<open>Eviction only removes elements, and no element with unflushed changes.\<close>

lemma evict_result:
  assumes "lru_ok getKey xs" "b \<le> length xs" "evict getKey dirty cap b xs = Inr ys"
  shows "lru_ok getKey ys \<and> (\<forall>k. map_of ys k = map_of xs k \<or>
     (map_of ys k = None \<and> (\<forall>d t. map_of xs k = Some (d, t) \<longrightarrow> \<not> dirty d)))"
  using assms
proof (induction getKey dirty cap b xs rule: evict.induct)
  case (1 getKey dirty cap b xs)
  show ?case
  proof (cases "b = 0 \<or> length xs < cap")
    case True
    then show ?thesis using "1.prems" by (simp add: evict.simps)
  next
    case False
    obtain k d t where e: "xs ! (b - 1) = (k, d, t)" by (cases "xs ! (b - 1)")
    show ?thesis
    proof (cases "dirty d")
      case True
      then show ?thesis
        using "1.IH"(1) [OF False e [symmetric] refl True] "1.prems" False e by (simp add: evict.simps [of _ _ _ b])
    next
      case clean: False
      have "(k, d, t) \<in> set xs" using e False "1.prems"(2) by (metis One_nat_def Suc_le_eq Suc_pred neq0_conv nth_mem)
      then have key: "getKey d = k" and at: "map_of xs k = Some (d, t)"
        using "1.prems"(1) by (auto simp: lru_ok_def)
      obtain j zs where rm: "lru_remove k xs = Inr (j, zs)" using lru_remove_present [of xs k] at by auto
      note r = lru_remove_result [OF "1.prems"(1) rm]
      have "b - 1 < length xs" using False "1.prems"(2) by auto
      then have "j = b - 1"
        using index_of_nth [of xs "b - 1"] e r(5) "1.prems"(1) by (simp add: lru_ok_def)
      moreover have "b \<noteq> 1"
        using "1.prems"(3) False clean e key rm calculation by (auto simp: evict.simps [of _ _ _ b])
      ultimately have rec: "evict getKey dirty cap (b - 1 - 1) zs = Inr ys"
        using "1.prems"(3) False clean e key rm by (auto simp: evict.simps [of _ _ _ b] split: if_splits)
      have ineq: "b - Suc 0 < b" "b - Suc (Suc 0) \<le> length xs - Suc 0"
        using False "1.prems"(2) by auto
      have "lru_ok getKey ys \<and> (\<forall>k. map_of ys k = map_of zs k \<or>
          (map_of ys k = None \<and> (\<forall>d t. map_of zs k = Some (d, t) \<longrightarrow> \<not> dirty d)))"
        using "1.IH"(2) [OF False e [symmetric] refl clean, of "(j, zs)" j zs] rm key r(1,3) rec
          \<open>j = b - 1\<close> \<open>b \<noteq> 1\<close> False "1.prems"(2) ineq by simp
      then have zs: "lru_ok getKey ys" "\<And>k. map_of ys k = map_of zs k \<or>
          (map_of ys k = None \<and> (\<forall>d t. map_of zs k = Some (d, t) \<longrightarrow> \<not> dirty d))" by blast+
      have "map_of ys ka = map_of xs ka \<or>
          (map_of ys ka = None \<and> (\<forall>d t. map_of xs ka = Some (d, t) \<longrightarrow> \<not> dirty d))" for ka
        using zs(2) [of ka] r(2) at clean by (cases "ka = k") simp_all
      with zs(1) show ?thesis by blast
    qed
  qed
qed

lemma lru_get_cases:
  assumes "lru_ok getKey (cache c)" "lru_get dirty now k c = Inr (r, c')"
  obtains (absent) "k \<notin> blocked_keys c" "map_of (cache c) k = None" "r = None" "c' = c"
  | (old) e t xs where "k \<notin> blocked_keys c" "map_of (cache c) k = Some (e, t)" "\<not> dirty e" "r = None"
      "c' = c\<lparr>cache := xs\<rparr>" "lru_ok getKey xs" "map_of xs = (map_of (cache c))(k := None)"
  | (hit) e t xs where "k \<notin> blocked_keys c" "map_of (cache c) k = Some (e, t)" "r = Some e"
      "c' = c\<lparr>cache := (k, e, t) # xs\<rparr>" "lru_ok getKey ((k, e, t) # xs)" "map_of xs = (map_of (cache c))(k := None)"
proof -
  have nb: "k \<notin> blocked_keys c" using assms(2) by (auto simp: lru_get_def split: if_splits)
  show thesis
  proof (cases "map_of (cache c) k")
    case None
    with assms(2) nb show thesis by (intro absent) (simp_all add: lru_get_def)
  next
    case (Some et)
    obtain e t where et: "et = (e, t)" by (cases et)
    obtain i xs where rm: "lru_remove k (cache c) = Inr (i, xs)"
      using lru_remove_present [of "cache c" k] Some by auto
    note rr = lru_remove_result(1,2) [OF assms(1) rm]
    have at: "map_of (cache c) k = Some (e, t)" using Some et by simp
    have ok: "lru_ok getKey ((k, e, t) # xs)"
      using lru_ok_Cons [OF rr(1), of k e] rr(2) lru_ok_key [OF assms(1) at] by simp
    show thesis
    proof (cases "expired dirty now (expiration_time c) (e, t)")
      case True
      then have "\<not> dirty e" by (auto simp: expired_def split: if_splits)
      moreover have "r = None" "c' = c\<lparr>cache := xs\<rparr>"
        using True assms(2) nb rm at by (simp_all add: lru_get_def)
      ultimately show thesis using old [OF nb at] rr by blast
    next
      case False
      then have "r = Some e" "c' = c\<lparr>cache := (k, e, t) # xs\<rparr>"
        using assms(2) nb rm at by (simp_all add: lru_get_def)
      then show thesis using hit [OF nb at] ok rr(2) by blast
    qed
  qed
qed

lemma lru_get_result:
  assumes "lru_valid getKey c" "lru_get dirty now k c = Inr (r, c')"
  shows "lru_valid getKey c' \<and> blocked_keys c' = blocked_keys c \<and> lru_contents c' k = r
    \<and> (\<forall>j. j \<noteq> k \<longrightarrow> lru_contents c' j = lru_contents c j)
    \<and> (\<forall>d. r = Some d \<longrightarrow> lru_contents c k = Some d)
    \<and> (\<forall>d. lru_contents c k = Some d \<and> dirty d \<longrightarrow> r = Some d)"
proof -
  have ok: "lru_ok getKey (cache c)" using assms(1) by (simp add: lru_valid_def)
  show ?thesis
    using assms(1) ok by (cases rule: lru_get_cases [OF ok assms(2)]) (auto simp: lru_contents_def lru_valid_def)
qed

lemma lru_get_returns:
  assumes "lru_valid getKey c" "k \<notin> blocked_keys c"
  shows "\<exists>r c'. lru_get dirty now k c = Inr (r, c')"
  using assms lru_remove_present [of "cache c" k]
  by (cases "map_of (cache c) k") (auto simp: lru_get_def)

lemma lru_add_cases:
  assumes "lru_ok getKey (cache c)" "lru_add getKey dirty now k d c = Inr (ok, c')"
  obtains (present) e where "\<not> ok" "c' = c" "map_of (cache c) k = Some e"
  | (added) xs ys where "ok" "lru_ok getKey xs" "map_of xs = (map_of (cache c))(k := None)"
      "evict getKey dirty (capacity c) (length xs) xs = Inr ys"
      "c' = c\<lparr>cache := (k, d, now) # ys, blocked_keys := blocked_keys c - {k}\<rparr>"
proof (cases "map_of (cache c) k")
  case None
  then have "(map_of (cache c))(k := None) = map_of (cache c)" by (simp add: fun_upd_idem)
  with None assms added [of "cache c"] show thesis by (auto simp: lru_add_def split: sum.splits)
next
  case (Some e)
  then obtain i xs where rm: "lru_remove k (cache c) = Inr (i, xs)"
    using lru_remove_present [of "cache c" k] by auto
  note rr = lru_remove_result(1,2) [OF assms(1) rm]
  show thesis
  proof (cases "expired dirty now (expiration_time c) e")
    case True
    then obtain ys where "evict getKey dirty (capacity c) (length xs) xs = Inr ys"
      using assms(2) Some rm by (auto simp: lru_add_def split: sum.splits)
    with True assms(2) Some rm rr show thesis by (intro added [of xs ys]) (simp_all add: lru_add_def)
  next
    case False
    with assms(2) Some show thesis by (intro present) (simp_all add: lru_add_def)
  qed
qed

lemma lru_add_result:
  assumes "lru_valid getKey c" "getKey d = k" "lru_add getKey dirty now k d c = Inr (ok, c')"
  shows "lru_valid getKey c' \<and> (ok \<longrightarrow> lru_contents c' k = Some d \<and> blocked_keys c' = blocked_keys c - {k}
      \<and> (\<forall>j. j \<noteq> k \<longrightarrow> lru_contents c' j = lru_contents c j \<or> lru_contents c' j = None)
      \<and> (\<forall>j e. j \<noteq> k \<longrightarrow> lru_contents c j = Some e \<longrightarrow> dirty e \<longrightarrow> lru_contents c' j = Some e))
    \<and> (\<not> ok \<longrightarrow> c' = c \<and> lru_contents c k \<noteq> None)"
proof -
  have okc: "lru_ok getKey (cache c)" using assms(1) by (simp add: lru_valid_def)
  from okc assms(3) show ?thesis
  proof (cases rule: lru_add_cases)
    case present
    with assms(1) show ?thesis by (simp add: lru_contents_def)
  next
    case (added xs ys)
    note ev = evict_result [OF added(2) order_refl added(4)]
    have "map_of ys k = None" using ev [THEN conjunct2, THEN spec, of k] added(3) by simp
    then have "lru_ok getKey ((k, d, now) # ys)" using lru_ok_Cons [OF ev [THEN conjunct1] _ assms(2)] by simp
    moreover have "map_of ys j = map_of (cache c) j \<or> map_of ys j = None
        \<and> (\<forall>d t. map_of (cache c) j = Some (d, t) \<longrightarrow> \<not> dirty d)" if "j \<noteq> k" for j
      using ev [THEN conjunct2, THEN spec, of j] added(3) that by simp
        moreover have c': "cache c' = (k, d, now) # ys" "blocked_keys c' = blocked_keys c - {k}"
      using added(5) by simp_all
    ultimately have valid: "lru_valid getKey c'" "lru_contents c' k = Some d"
      and others: "\<And>j. j \<noteq> k \<Longrightarrow> lru_contents c' j = lru_contents c j \<or> lru_contents c' j = None
         \<and> (\<forall>e. lru_contents c j = Some e \<longrightarrow> \<not> dirty e)"
      by (simp_all add: lru_valid_def lru_contents_def) fastforce
    from valid others c'(2) added(1) show ?thesis by metis
  qed
qed

lemma lru_invalidate_result:
  assumes "lru_valid getKey c"
  shows "lru_valid getKey (invalidate k c)" "blocked_keys (invalidate k c) = blocked_keys c - {k}"
    "lru_contents (invalidate k c) = (lru_contents c)(k := None)"
proof (atomize(full), cases "map_of (cache c) k")
  case None
  then have "lru_remove k (cache c) = Inl Undefined_Behaviour"
    by (simp add: lru_remove_def index_of_None map_of_eq_None_iff split: option.splits)
  with assms None show "lru_valid getKey (invalidate k c) \<and> blocked_keys (invalidate k c) = blocked_keys c - {k}
    \<and> lru_contents (invalidate k c) = (lru_contents c)(k := None)"
    by (auto simp: invalidate_def lru_valid_def lru_contents_def fun_eq_iff)
next
  case (Some e)
  then obtain i xs where rm: "lru_remove k (cache c) = Inr (i, xs)"
    using lru_remove_present [of "cache c" k] by auto
  with assms lru_remove_result(1,2) [OF _ rm, of getKey]
  show "lru_valid getKey (invalidate k c) \<and> blocked_keys (invalidate k c) = blocked_keys c - {k}
    \<and> lru_contents (invalidate k c) = (lru_contents c)(k := None)"
    by (auto simp: invalidate_def lru_valid_def lru_contents_def fun_eq_iff)
qed

lemma lru_block_result:
  "lru_block k c = (ok, c') \<Longrightarrow> (lru_valid getKey c' \<longleftrightarrow> lru_valid getKey c) \<and> (ok \<longleftrightarrow> k \<notin> blocked_keys c)
     \<and> blocked_keys c' = insert k (blocked_keys c) \<and> lru_contents c' = lru_contents c"
  by (auto simp: lru_block_def lru_valid_def lru_contents_def fun_eq_iff)

interpretation lru: blocking_cache "lru_valid getKey" lru_contents blocked_keys "lru_get dirty now"
  "lru_add getKey dirty now" lru_block invalidate getKey dirty
  for getKey :: "'d \<Rightarrow> 'k" and dirty :: "'d \<Rightarrow> bool" and now :: int
proof unfold_locales
  show "lru_get dirty now k c = Inl Deadlock" if "k \<in> blocked_keys c" for k :: 'k and c
    using that by (simp add: lru_get_def)
qed (fact lru_get_returns lru_get_result lru_add_result lru_block_result
  | (intro conjI; rule lru_invalidate_result; assumption))+

subsection \<open>Properties\<close>

text \<open>
  C22. The protocol of a cache miss: when \<^verbatim>\<open>get\<close> misses, the key can be blocked by the caller;
  adding the fetched element then succeeds, leaves exactly the keys blocked that were blocked
  before, and unless the element has expired again the next \<^verbatim>\<open>get\<close> returns it. Giving up with
  \<^verbatim>\<open>invalidate\<close> restores the blocked keys too, so a fetch never leaves other threads waiting.
\<close>

theorem miss_block_add:
  assumes "lru_valid getKey c" "getKey d = k" "lru_get dirty now k c = Inr (None, c1)"
    "lru_block k c1 = (got, c2)" "lru_add getKey dirty now k d c2 = Inr (ok, c3)"
  shows "got \<and> ok \<and> lru_valid getKey c3 \<and> blocked_keys c3 = blocked_keys c
     \<and> lru_contents c3 k = Some d \<and> blocked_keys (invalidate k c2) = blocked_keys c
     \<and> (dirty d \<or> expiration_time c3 = 0 \<longrightarrow> (\<exists>c4. lru_get dirty now k c3 = Inr (Some d, c4)))"
proof -
  note m = lru.miss_then_block [OF assms(1,3,4)]
  note f = lru.fetch_then_add [OF assms(1,3,4,2,5)]
  note g = lru.fetch_then_drop [OF assms(1,3,4)]
  have nb: "k \<notin> blocked_keys c3" using f m(5) by simp
  have at: "\<exists>t. map_of (cache c3) k = Some (d, t)"
    using f by (auto simp: lru_contents_def)
  have "\<exists>c4. lru_get dirty now k c3 = Inr (Some d, c4)" if "dirty d \<or> expiration_time c3 = 0"
    using at nb that lru_remove_present [of "cache c3" k] by (auto simp: lru_get_def expired_def)
  with m f g show ?thesis by blast
qed

definition small_cache :: "(nat, nat) LRUcache" where
  "small_cache = \<lparr>cache = [(1, 1, 0), (2, 2, 0)], blocked_keys = {9}, expiration_time = 0, capacity = 2\<rparr>"

theorem miss_block_add_witness:
  "let c2 = small_cache\<lparr>blocked_keys := {5, 9}\<rparr>; c3 = small_cache\<lparr>cache := [(5, 5, 7), (1, 1, 0)]\<rparr> in
   True \<and> True \<and> lru_valid id c3 \<and> blocked_keys c3 = blocked_keys small_cache
     \<and> lru_contents c3 5 = Some 5 \<and> blocked_keys (invalidate 5 c2) = blocked_keys small_cache
     \<and> ((\<lambda>_. False) 5 \<or> expiration_time c3 = 0 \<longrightarrow> (\<exists>c4. lru_get (\<lambda>_. False) 7 5 c3 = Inr (Some 5, c4)))"
  unfolding Let_def
  by (rule miss_block_add [where c = small_cache and ?c1.0 = small_cache])
     (simp_all add: small_cache_def lru_valid_def lru_ok_def lru_get_def lru_block_def lru_add_def
        evict.simps lru_remove_def remove_at_def)

text \<open>
  The cache evicts the least recently used element: when it is exactly full and the
  element used longest ago has no unflushed changes, adding a new element removes that one and
  no other, so the number of elements stays at the capacity.
\<close>

theorem add_evicts_least_recent:
  assumes "lru_valid getKey c" "cache c = xs @ [(k0, d0, t0)]" "xs \<noteq> []"
    "length (cache c) = capacity c" "\<not> dirty d0" "lru_contents c k = None"
  shows "lru_add getKey dirty now k d c =
     Inr (True, c\<lparr>cache := (k, d, now) # xs, blocked_keys := blocked_keys c - {k}\<rparr>)"
proof -
  let ?n = "length xs"
  have ok: "lru_ok getKey (xs @ [(k0, d0, t0)])" using assms(1,2) by (simp add: lru_valid_def)
  then have key: "getKey d0 = k0" "k0 \<notin> fst ` set xs" by (auto simp: lru_ok_def)
  then have "index_of k0 (xs @ [(k0, d0, t0)]) = Some ?n"
    using index_of_nth [of "xs @ [(k0, d0, t0)]" ?n] ok by (simp add: lru_ok_def)
  then have rm: "lru_remove k0 (xs @ [(k0, d0, t0)]) = Inr (?n, xs)"
    by (simp add: lru_remove_def remove_at_def)
  have "evict getKey dirty (Suc ?n) (?n - 1) xs = Inr xs" by (simp add: evict.simps)
  then have "evict getKey dirty (Suc ?n) (Suc ?n) (xs @ [(k0, d0, t0)]) = Inr xs"
    using rm key(1) assms(3,5) by (subst evict.simps) (simp add: nth_append)
  moreover have "map_of (cache c) k = None" using assms(6) by (simp add: lru_contents_def)
  moreover have "capacity c = Suc ?n" using assms(2,4) by simp
  ultimately show ?thesis
    using assms(4) by (simp add: lru_add_def assms(2) [symmetric] del: map_of_append)
qed

theorem add_evicts_least_recent_witness:
  "lru_add id (\<lambda>_. False) 7 5 5 small_cache =
     Inr (True, small_cache\<lparr>cache := (5, 5, 7) # [(1, 1, 0)], blocked_keys := blocked_keys small_cache - {5}\<rparr>)"
  by (rule add_evicts_least_recent [of id small_cache "[(1, 1, 0)]" 2 2 0 "\<lambda>_. False" 5])
     (simp_all add: small_cache_def lru_valid_def lru_ok_def lru_contents_def)

text \<open>
  The capacity can be exceeded although every element is removable, which the comment on
  the constructor excludes: the reverse iterator steps over the element in front of each one
  it erases, so a cache that has outgrown its capacity (while elements were dirty) keeps some
  of them. Here four clean elements and a capacity of two become three elements.
\<close>

theorem capacity_exceeded_by_clean_elements:
  "lru_add id (\<lambda>_. False) 7 (5 :: nat) 5
     \<lparr>cache = [(1, 1, 0), (2, 2, 0), (3, 3, 0), (4, 4, 0)], blocked_keys = {}, expiration_time = 0, capacity = 2\<rparr>
   = Inr (True, \<lparr>cache = [(5, 5, 7), (1, 1, 0), (3, 3, 0)], blocked_keys = {}, expiration_time = 0, capacity = 2\<rparr>)"
  by (simp add: lru_add_def evict.simps lru_remove_def remove_at_def)

lemma map_of_restamp:
  "map_option fst (map_of (map (\<lambda>(k', d, added). (k', d, if k' = k then now else added)) xs) j)
     = map_option fst (map_of xs j)"
  by (induction xs) auto

lemma revalidate_simps [simp]:
  "lru_valid getKey (revalidate now k c) = lru_valid getKey c"
  "lru_contents (revalidate now k c) = lru_contents c"
  "blocked_keys (revalidate now k c) = blocked_keys c"
  "capacity (revalidate now k c) = capacity c" "expiration_time (revalidate now k c) = expiration_time c"
proof -
  have keys: "map fst (cache (revalidate now k c)) = map fst (cache c)"
    by (simp add: revalidate_def comp_def case_prod_unfold)
  show "lru_valid getKey (revalidate now k c) = lru_valid getKey c"
    unfolding lru_valid_def lru_ok_def keys by (auto simp: revalidate_def split: prod.splits)
  show "lru_contents (revalidate now k c) = lru_contents c"
    by (simp add: lru_contents_def revalidate_def fun_eq_iff map_of_restamp)
qed (simp_all add: revalidate_def)

end
