(* ===== verification/Float32.thy ===== *)
theory Float32
  imports HFlat_Prelude Complex_Main
begin

section \<open>Single precision numbers\<close>

text \<open>
  The used part of a drive is a \<^verbatim>\<open>float\<close>. A finite number is a rational; an operation computes the
  exact result and rounds it to the nearest number with a significand of 24 bits, ties to even,
  as IEEE 754 prescribes. The two zeros are not told apart.
\<close>

datatype float32 = Finite rat | PosInf | NegInf | NaN

fun ilog2 :: "nat \<Rightarrow> nat" where
  "ilog2 n = (if n < 2 then 0 else Suc (ilog2 (n div 2)))"

declare ilog2.simps [simp del]

definition pow2 :: "int \<Rightarrow> rat" where
  "pow2 k = (if 0 \<le> k then 2 ^ nat k else 1 / 2 ^ nat (- k))"

definition binary_exponent :: "rat \<Rightarrow> int" where
  "binary_exponent x = (case quotient_of x of (a, b) \<Rightarrow>
     let k = int (ilog2 (nat a)) - int (ilog2 (nat b)) in if pow2 k \<le> x then k else k - 1)"

definition round_even :: "rat \<Rightarrow> int" where
  "round_even x = (let f = \<lfloor>x\<rfloor>; d = x - of_int f in
     if d < 1 / 2 then f else if d > 1 / 2 then f + 1 else if even f then f else f + 1)"

text \<open>The distance of the numbers around \<open>x\<close>; numbers below \<open>pow2 (- 126)\<close> lose precision.\<close>

definition spacing :: "rat \<Rightarrow> rat" where
  "spacing x = pow2 (max (binary_exponent \<bar>x\<bar> - 23) (- 149))"

definition round32 :: "rat \<Rightarrow> float32" where
  "round32 x = (if x = 0 then Finite 0 else
     let y = of_int (round_even (x / spacing x)) * spacing x in
     if \<bar>y\<bar> < pow2 128 then Finite y else if 0 < y then PosInf else NegInf)"

definition f_of_nat :: "nat \<Rightarrow> float32" where
  "f_of_nat n = round32 (of_nat n)"

fun f_add :: "float32 \<Rightarrow> float32 \<Rightarrow> float32" where
  "f_add (Finite x) (Finite y) = round32 (x + y)"
| "f_add NaN y = NaN"
| "f_add x NaN = NaN"
| "f_add PosInf NegInf = NaN"
| "f_add NegInf PosInf = NaN"
| "f_add (Finite x) y = y"
| "f_add x y = x"

fun f_minus :: "float32 \<Rightarrow> float32" where
  "f_minus (Finite x) = Finite (- x)"
| "f_minus PosInf = NegInf"
| "f_minus NegInf = PosInf"
| "f_minus NaN = NaN"

definition f_sub :: "float32 \<Rightarrow> float32 \<Rightarrow> float32" where
  "f_sub x y = f_add x (f_minus y)"

fun f_negative :: "float32 \<Rightarrow> bool" where
  "f_negative (Finite x) = (x < 0)"
| "f_negative x = (x = NegInf)"

definition f_infinity :: "bool \<Rightarrow> float32" where
  "f_infinity neg = (if neg then NegInf else PosInf)"

fun f_mul :: "float32 \<Rightarrow> float32 \<Rightarrow> float32" where
  "f_mul (Finite x) (Finite y) = round32 (x * y)"
| "f_mul x y = (if x = NaN \<or> y = NaN \<or> x = Finite 0 \<or> y = Finite 0 then NaN else f_infinity (f_negative x \<noteq> f_negative y))"

fun f_div :: "float32 \<Rightarrow> float32 \<Rightarrow> float32" where
  "f_div (Finite x) (Finite y) = (if y \<noteq> 0 then round32 (x / y) else if x = 0 then NaN else f_infinity (x < 0))"
| "f_div x (Finite y) = (if x = NaN then NaN else f_infinity (f_negative x \<noteq> (y < 0)))"
| "f_div (Finite x) y = (if y = NaN then NaN else Finite 0)"
| "f_div x y = NaN"

text \<open>Conversion to an unsigned integer of 64 bits: towards zero, undefined outside the range.\<close>

fun f_to_uint64 :: "float32 \<Rightarrow> stop + 64 word" where
  "f_to_uint64 (Finite x) = (if - 1 < x \<and> x < 2 ^ 64 then Inr (word_of_int (if 0 \<le> x then \<lfloor>x\<rfloor> else 0)) else Inl Undefined_Behaviour)"
| "f_to_uint64 x = Inl Undefined_Behaviour"

subsection \<open>Rounding\<close>

lemma ilog2_bounds: "0 < n \<Longrightarrow> 2 ^ ilog2 n \<le> n \<and> n < 2 * 2 ^ ilog2 n"
proof (induction n rule: ilog2.induct)
  case (1 n)
  show ?case
  proof (cases "n < 2")
    case True
    with 1 have "n = 1" by simp
    then show ?thesis by (simp add: ilog2.simps)
  next
    case False
    with 1 have IH: "2 ^ ilog2 (n div 2) \<le> n div 2" "n div 2 < 2 * 2 ^ ilog2 (n div 2)" by simp_all
    have "ilog2 n = Suc (ilog2 (n div 2))" using False by (subst ilog2.simps) simp
    with IH show ?thesis by simp linarith
  qed
qed

lemma pow2_pos [simp]: "0 < pow2 k"
  by (simp add: pow2_def)

lemma pow2_powi: "pow2 k = 2 powi k"
  by (cases "0 \<le> k") (simp_all add: pow2_def power_int_def power_one_over inverse_eq_divide)

lemma pow2_add: "pow2 (i + j) = pow2 i * pow2 j"
  by (simp add: pow2_powi power_int_add)

lemma pow2_diff: "pow2 (i - j) = pow2 i / pow2 j"
  by (simp add: pow2_powi power_int_diff)

lemma pow2_of_nat [simp]: "pow2 (int n) = 2 ^ n"
  by (simp add: pow2_def)

lemma pow2_1 [simp]: "pow2 1 = 2"
  by (simp add: pow2_def)

lemma pow2_mono: "i \<le> j \<Longrightarrow> pow2 i \<le> pow2 j"
  by (simp add: pow2_powi power_int_increasing)

lemma binary_exponent_bounds:
  assumes "0 < x"
  shows "pow2 (binary_exponent x) \<le> x \<and> x < pow2 (binary_exponent x + 1)"
proof -
  obtain a b where q: "quotient_of x = (a, b)" by fastforce
  define A B where "A = nat a" and "B = nat b"
  have ab: "0 < b" "x = of_int a / of_int b" using quotient_of_denom_pos [OF q] quotient_of_div [OF q] by simp_all
  with assms have "0 < a" by (simp add: zero_less_divide_iff)
  with ab have AB: "0 < A" "0 < B" "x = of_nat A / of_nat B" by (simp_all add: A_def B_def)
  have bnd: "(2 :: rat) ^ ilog2 n \<le> of_nat n" "(of_nat n :: rat) < 2 * 2 ^ ilog2 n" if "0 < n" for n
  proof -
    have "(of_nat (2 ^ ilog2 n) :: rat) \<le> of_nat n" "(of_nat n :: rat) < of_nat (2 * 2 ^ ilog2 n)"
      using ilog2_bounds [OF that] by (simp_all only: of_nat_le_iff of_nat_less_iff)
    then show "(2 :: rat) ^ ilog2 n \<le> of_nat n" "(of_nat n :: rat) < 2 * 2 ^ ilog2 n" by simp_all
  qed
  let ?k = "int (ilog2 A) - int (ilog2 B)"
  have k: "pow2 ?k = 2 ^ ilog2 A / 2 ^ ilog2 B" by (simp add: pow2_diff)
  have up: "x < 2 * pow2 ?k"
  proof -
    have "x \<le> of_nat A / 2 ^ ilog2 B" unfolding AB(3) using bnd(1) [OF AB(2)] AB(2) by (intro divide_left_mono) simp_all
    also have "\<dots> < 2 * 2 ^ ilog2 A / 2 ^ ilog2 B" using bnd(2) [OF AB(1)] by (intro divide_strict_right_mono) simp_all
    finally show ?thesis by (simp add: k)
  qed
  have low: "pow2 ?k < 2 * x"
  proof -
    have "pow2 ?k \<le> of_nat A / 2 ^ ilog2 B" unfolding k using bnd(1) [OF AB(1)] by (intro divide_right_mono) simp_all
    also have "\<dots> < 2 * (of_nat A / of_nat B)" using bnd(2) [OF AB(2)] AB(1,2) by (simp add: field_simps)
    finally show ?thesis by (simp add: AB(3))
  qed
  have "binary_exponent x = (if pow2 ?k \<le> x then ?k else ?k - 1)" using q by (simp add: binary_exponent_def A_def B_def Let_def)
  then show ?thesis using up low by (auto simp: pow2_add pow2_diff ac_simps)
qed

lemma binary_exponent_eq:
  assumes "pow2 k \<le> x" "x < pow2 (k + 1)"
  shows "binary_exponent x = k"
proof -
  have "0 < x" using assms(1) pow2_pos [of k] by linarith
  note b = binary_exponent_bounds [OF this]
  have "\<not> binary_exponent x < k" using b assms(1) pow2_mono [of "binary_exponent x + 1" k] by fastforce
  moreover have "\<not> k < binary_exponent x" using b assms(2) pow2_mono [of "k + 1" "binary_exponent x"] by fastforce
  ultimately show ?thesis by simp
qed

lemma round_even_near: "\<bar>x - of_int k\<bar> < 1 / 2 \<Longrightarrow> round_even x = k"
proof -
  assume near: "\<bar>x - of_int k\<bar> < 1 / 2"
  have "\<lfloor>x\<rfloor> = k \<and> x - of_int k < 1 / 2 \<or> \<lfloor>x\<rfloor> = k - 1 \<and> x - of_int (k - 1) > 1 / 2"
  proof (cases "of_int k \<le> x")
    case True
    with near have "\<lfloor>x\<rfloor> = k" by (intro floor_unique) (auto simp: abs_if)
    with near True show ?thesis by (auto simp: abs_if)
  next
    case False
    with near have "\<lfloor>x\<rfloor> = k - 1" by (intro floor_unique) (auto simp: abs_if)
    with near False show ?thesis by (auto simp: abs_if)
  qed
  then show ?thesis by (elim disjE) (simp_all add: round_even_def Let_def)
qed

text \<open>A number with a significand of 24 bits, between 1/2 and 1.\<close>

definition upper_half :: "rat \<Rightarrow> bool" where
  "upper_half p \<longleftrightarrow> (\<exists>m :: int. p = of_int m / 2 ^ 24) \<and> 1 / 2 \<le> p \<and> p < 1"

lemma spacing_upper_half: "1 / 2 \<le> x \<Longrightarrow> x < 1 \<Longrightarrow> spacing x = 1 / 2 ^ 24"
proof -
  assume "1 / 2 \<le> x" "x < 1"
  then have "binary_exponent x = - 1" by (intro binary_exponent_eq) (simp_all add: pow2_def)
  with \<open>1 / 2 \<le> x\<close> show ?thesis by (simp add: spacing_def pow2_def)
qed

text \<open>An addend below half of the spacing is lost.\<close>

lemma f_add_absorbs:
  assumes "upper_half p" "0 \<le> c" "c < 1 / 2 ^ 25"
  shows "f_add (Finite p) (Finite c) = Finite p"
proof -
  obtain m :: int where m: "p = of_int m / 2 ^ 24" "1 / 2 \<le> p" "p < 1" using assms(1) by (auto simp: upper_half_def)
  have "(of_int m :: rat) < 2 ^ 24" using m(1,3) by simp
  then have "m \<le> 2 ^ 24 - 1" by simp
  then have "(of_int m :: rat) \<le> of_int (2 ^ 24 - 1)" by (simp only: of_int_le_iff)
  then have "p \<le> 1 - 1 / 2 ^ 24" using m(1) by simp
  then have less: "p + c < 1" using assms(3) by simp
  have sp: "spacing (p + c) = 1 / 2 ^ 24" using m(2) assms(2) less by (intro spacing_upper_half) linarith+
  have "round_even ((p + c) / spacing (p + c)) = m"
    unfolding sp by (rule round_even_near) (use m(1) assms(2,3) in \<open>simp add: field_simps abs_if\<close>)
  moreover have "p + c \<noteq> 0" "\<bar>p\<bar> < pow2 128" using m(2,3) assms(2) by (auto simp: pow2_def)
  ultimately show ?thesis unfolding f_add.simps round32_def Let_def sp by (simp add: m(1))
qed

end
