(* ===== verification/Kinetic_Namespace.thy ===== *)
theory Kinetic_Namespace
  imports Float32
begin

section \<open>The flat namespace\<close>

text \<open>
  The abstract class KineticNamespace is a record of operations over a state type that stands
  for everything on the other side of the network. SimpleKineticNamespace forwards to a
  connection of the kinetic client library; the library is a parameter, and what the file
  system relies on is stated as a locale: keys hold a value and a version, a write can demand
  that the version is the expected one, and a range of keys comes back in order.
\<close>

subsection \<open>Model\<close>

datatype StatusCode = OK | REMOTE_NOT_FOUND | REMOTE_VERSION_MISMATCH | REMOTE_CLUSTER_VERSION_MISMATCH
  | REMOTE_NOT_AUTHORIZED | REMOTE_REMOTE_CONNECTION_ERROR | REMOTE_OTHER_ERROR

datatype WriteMode = IGNORE_VERSION | REQUIRE_SAME_VERSION

record KineticRecord =
  kr_value :: string
  kr_version :: string

record Capacity =
  nominal_capacity_in_bytes :: "64 word"
  portion_full :: float32

text \<open>
  Out-parameters are results; a pointer the callee need not set is an option. A call may change
  the state even when it fails, and even when it reads.
\<close>

record 'n KineticNamespace =
  ns_Get :: "string \<Rightarrow> 'n \<Rightarrow> (StatusCode \<times> KineticRecord option) \<times> 'n"
  ns_Delete :: "string \<Rightarrow> string \<Rightarrow> WriteMode \<Rightarrow> 'n \<Rightarrow> StatusCode \<times> 'n"
  ns_Put :: "string \<Rightarrow> string \<Rightarrow> WriteMode \<Rightarrow> KineticRecord \<Rightarrow> 'n \<Rightarrow> StatusCode \<times> 'n"
  ns_GetVersion :: "string \<Rightarrow> 'n \<Rightarrow> (StatusCode \<times> string option) \<times> 'n"
  ns_GetKeyRange :: "string \<Rightarrow> string \<Rightarrow> nat \<Rightarrow> 'n \<Rightarrow> (StatusCode \<times> string list option) \<times> 'n"
  ns_GetCapacity :: "'n \<Rightarrow> (StatusCode \<times> Capacity option) \<times> 'n"
  ns_selfCheck :: "'n \<Rightarrow> bool \<times> 'n"

text \<open>The interface of a blocking connection of the client library, as far as it is called.\<close>

record 'n connection =
  con_NoOp :: "'n \<Rightarrow> StatusCode \<times> 'n"
  con_Get :: "string \<Rightarrow> 'n \<Rightarrow> (StatusCode \<times> KineticRecord option) \<times> 'n"
  con_Delete :: "string \<Rightarrow> string \<Rightarrow> WriteMode \<Rightarrow> 'n \<Rightarrow> StatusCode \<times> 'n"
  con_Put :: "string \<Rightarrow> string \<Rightarrow> WriteMode \<Rightarrow> KineticRecord \<Rightarrow> 'n \<Rightarrow> StatusCode \<times> 'n"
  con_GetVersion :: "string \<Rightarrow> 'n \<Rightarrow> (StatusCode \<times> string option) \<times> 'n"
  con_GetKeyRange :: "string \<Rightarrow> bool \<Rightarrow> string \<Rightarrow> bool \<Rightarrow> bool \<Rightarrow> nat \<Rightarrow> 'n \<Rightarrow> (StatusCode \<times> string list option) \<times> 'n"
  con_GetLog :: "'n \<Rightarrow> (StatusCode \<times> Capacity option) \<times> 'n"

definition Simple_selfCheck :: "'n connection \<Rightarrow> 'n \<Rightarrow> bool \<times> 'n" where
  "Simple_selfCheck con n = (case con_NoOp con n of (st, n') \<Rightarrow> (st = OK, n'))"

definition Simple_Get :: "'n connection \<Rightarrow> string \<Rightarrow> 'n \<Rightarrow> (StatusCode \<times> KineticRecord option) \<times> 'n" where
  "Simple_Get con key n = con_Get con key n"

definition Simple_Delete :: "'n connection \<Rightarrow> string \<Rightarrow> string \<Rightarrow> WriteMode \<Rightarrow> 'n \<Rightarrow> StatusCode \<times> 'n" where
  "Simple_Delete con key version mode n = con_Delete con key version mode n"

definition Simple_Put :: "'n connection \<Rightarrow> string \<Rightarrow> string \<Rightarrow> WriteMode \<Rightarrow> KineticRecord \<Rightarrow> 'n \<Rightarrow> StatusCode \<times> 'n" where
  "Simple_Put con key current_version mode rec n = con_Put con key current_version mode rec n"

definition Simple_GetVersion :: "'n connection \<Rightarrow> string \<Rightarrow> 'n \<Rightarrow> (StatusCode \<times> string option) \<times> 'n" where
  "Simple_GetVersion con key n = con_GetVersion con key n"

definition Simple_GetKeyRange ::
  "'n connection \<Rightarrow> string \<Rightarrow> string \<Rightarrow> nat \<Rightarrow> 'n \<Rightarrow> (StatusCode \<times> string list option) \<times> 'n" where
  "Simple_GetKeyRange con start_key end_key max_results n =
     con_GetKeyRange con start_key False end_key False False max_results n"

definition Simple_GetCapacity :: "'n connection \<Rightarrow> 'n \<Rightarrow> (StatusCode \<times> Capacity option) \<times> 'n" where
  "Simple_GetCapacity con n = (case con_GetLog con n of ((st, cap), n') \<Rightarrow>
     ((st, if st = OK then cap else None), n'))"

definition SimpleKineticNamespace :: "'n connection \<Rightarrow> 'n KineticNamespace" where
  "SimpleKineticNamespace con =
     \<lparr>ns_Get = Simple_Get con, ns_Delete = Simple_Delete con, ns_Put = Simple_Put con,
      ns_GetVersion = Simple_GetVersion con, ns_GetKeyRange = Simple_GetKeyRange con,
      ns_GetCapacity = Simple_GetCapacity con, ns_selfCheck = Simple_selfCheck con\<rparr>"

subsection \<open>The contract of a namespace\<close>

text \<open>Keys are compared byte by byte; a proper prefix comes first.\<close>

fun key_less :: "string \<Rightarrow> string \<Rightarrow> bool" where
  "key_less _ [] = False"
| "key_less [] (y # ys) = True"
| "key_less (x # xs) (y # ys) =
     (of_char x < (of_char y :: nat) \<or> (x = y \<and> key_less xs ys))"

definition version_matches :: "KineticRecord option \<Rightarrow> string \<Rightarrow> WriteMode \<Rightarrow> bool" where
  "version_matches r v wm = (wm = IGNORE_VERSION \<or> (case r of None \<Rightarrow> v = '''' | Some r \<Rightarrow> kr_version r = v))"

definition key_range :: "('k \<Rightarrow> bool) \<Rightarrow> ('k \<Rightarrow> 'k \<Rightarrow> bool) \<Rightarrow> 'k \<Rightarrow> 'k \<Rightarrow> nat \<Rightarrow> 'k list \<Rightarrow> bool" where
  "key_range present lt a b n ks \<longleftrightarrow>
     (\<exists>all. sorted_wrt lt all \<and> set all = {k. present k \<and> lt a k \<and> lt k b} \<and> ks = take n all)"

locale reliable_namespace =
  fixes ns :: "'n KineticNamespace"
    and store :: "'n \<Rightarrow> string \<Rightarrow> KineticRecord option"
  assumes Get_present: "store n key = Some r \<Longrightarrow> ns_Get ns key n = ((OK, Some r), n)"
    and Get_absent: "store n key = None \<Longrightarrow> ns_Get ns key n = ((REMOTE_NOT_FOUND, None), n)"
    and Put_matches: "version_matches (store n key) v wm \<Longrightarrow>
        \<exists>n'. ns_Put ns key v wm r n = (OK, n') \<and> store n' = (store n)(key \<mapsto> r)"
    and Put_mismatch: "\<not> version_matches (store n key) v wm \<Longrightarrow>
        ns_Put ns key v wm r n = (REMOTE_VERSION_MISMATCH, n)"
    and Delete_absent: "store n key = None \<Longrightarrow> ns_Delete ns key v wm n = (REMOTE_NOT_FOUND, n)"
    and Delete_matches: "store n key = Some r \<Longrightarrow> version_matches (Some r) v wm \<Longrightarrow>
        \<exists>n'. ns_Delete ns key v wm n = (OK, n') \<and> store n' = (store n)(key := None)"
    and Delete_mismatch: "store n key = Some r \<Longrightarrow> \<not> version_matches (Some r) v wm \<Longrightarrow>
        ns_Delete ns key v wm n = (REMOTE_VERSION_MISMATCH, n)"
    and GetVersion_present: "store n key = Some r \<Longrightarrow> ns_GetVersion ns key n = ((OK, Some (kr_version r)), n)"
    and GetVersion_absent: "store n key = None \<Longrightarrow> ns_GetVersion ns key n = ((REMOTE_NOT_FOUND, None), n)"
    and GetKeyRange: "\<exists>ks. ns_GetKeyRange ns a b m n = ((OK, Some ks), n)
        \<and> key_range (\<lambda>k. store n k \<noteq> None) key_less a b m ks"
begin

text \<open>What a write leaves to be read, under every outcome.\<close>

lemma get_after_put:
  assumes "ns_Put ns key v wm r n = (OK, n')"
  shows "ns_Get ns key n' = ((OK, Some r), n')"
proof -
  have "version_matches (store n key) v wm" using assms Put_mismatch by fastforce
  from Put_matches [OF this, of r] assms have "store n' key = Some r" by auto
  then show ?thesis by (rule Get_present)
qed

lemma other_keys_after_put:
  assumes "ns_Put ns key v wm r n = (st, n')" "key' \<noteq> key"
  shows "store n' key' = store n key'"
  using assms Put_matches [of n key v wm r] Put_mismatch [of n key v wm r]
  by (cases "version_matches (store n key) v wm") auto

lemma get_after_delete:
  assumes "ns_Delete ns key v wm n = (OK, n')"
  shows "ns_Get ns key n' = ((REMOTE_NOT_FOUND, None), n')"
proof -
  obtain r where "store n key = Some r" using assms Delete_absent [of n key] by (cases "store n key") auto
  then have "store n' key = None"
    using assms Delete_matches [of n key r v wm] Delete_mismatch [of n key r v wm]
    by (cases "version_matches (Some r) v wm") auto
  then show ?thesis by (rule Get_absent)
qed

text \<open>A key can be created once: the second writer that expects no version is told so.\<close>

lemma create_once:
  assumes "ns_Put ns key '''' REQUIRE_SAME_VERSION r n = (OK, n')" "kr_version r \<noteq> ''''"
  shows "ns_Put ns key '''' REQUIRE_SAME_VERSION r' n' = (REMOTE_VERSION_MISMATCH, n')"
proof -
  have "version_matches (store n key) '''' REQUIRE_SAME_VERSION" using assms Put_mismatch by fastforce
  from Put_matches [OF this, of r] assms(1) have "store n' key = Some r" by auto
  with assms(2) show ?thesis by (intro Put_mismatch) (simp add: version_matches_def)
qed

end

text \<open>The same contract for a connection gives the contract of the namespace on top of it.\<close>

locale reliable_connection =
  fixes con :: "'n connection"
    and store :: "'n \<Rightarrow> string \<Rightarrow> KineticRecord option"
  assumes con_Get_present: "store n key = Some r \<Longrightarrow> con_Get con key n = ((OK, Some r), n)"
    and con_Get_absent: "store n key = None \<Longrightarrow> con_Get con key n = ((REMOTE_NOT_FOUND, None), n)"
    and con_Put_matches: "version_matches (store n key) v wm \<Longrightarrow>
        \<exists>n'. con_Put con key v wm r n = (OK, n') \<and> store n' = (store n)(key \<mapsto> r)"
    and con_Put_mismatch: "\<not> version_matches (store n key) v wm \<Longrightarrow>
        con_Put con key v wm r n = (REMOTE_VERSION_MISMATCH, n)"
    and con_Delete_absent: "store n key = None \<Longrightarrow> con_Delete con key v wm n = (REMOTE_NOT_FOUND, n)"
    and con_Delete_matches: "store n key = Some r \<Longrightarrow> version_matches (Some r) v wm \<Longrightarrow>
        \<exists>n'. con_Delete con key v wm n = (OK, n') \<and> store n' = (store n)(key := None)"
    and con_Delete_mismatch: "store n key = Some r \<Longrightarrow> \<not> version_matches (Some r) v wm \<Longrightarrow>
        con_Delete con key v wm n = (REMOTE_VERSION_MISMATCH, n)"
    and con_GetVersion_present: "store n key = Some r \<Longrightarrow> con_GetVersion con key n = ((OK, Some (kr_version r)), n)"
    and con_GetVersion_absent: "store n key = None \<Longrightarrow> con_GetVersion con key n = ((REMOTE_NOT_FOUND, None), n)"
    and con_GetKeyRange: "\<exists>ks. con_GetKeyRange con a False b False False m n = ((OK, Some ks), n)
        \<and> key_range (\<lambda>k. store n k \<noteq> None) key_less a b m ks"

sublocale reliable_connection \<subseteq> simple: reliable_namespace "SimpleKineticNamespace con" store
  by unfold_locales
    (simp_all add: SimpleKineticNamespace_def Simple_Get_def Simple_Put_def Simple_Delete_def
      Simple_GetVersion_def Simple_GetKeyRange_def con_Get_present con_Get_absent con_Put_matches
      con_Put_mismatch con_Delete_absent con_Delete_matches con_Delete_mismatch
      con_GetVersion_present con_GetVersion_absent con_GetKeyRange del: not_None_eq)

subsection \<open>A drive in memory\<close>

text \<open>
  A connection that satisfies the contract: the drive is an association list. The examples of
  this development run on it.
\<close>

lemma key_less_irrefl [simp]: "\<not> key_less a a"
  by (induction a) simp_all

lemma key_less_trans: "key_less a b \<Longrightarrow> key_less b c \<Longrightarrow> key_less a c"
proof (induction a b arbitrary: c rule: key_less.induct)
  case (3 x xs y ys)
  then show ?case by (cases c) auto
next
  case (2 y ys)
  then show ?case by (cases c) auto
qed simp

lemma key_less_total: "a \<noteq> b \<Longrightarrow> key_less a b \<or> key_less b a"
proof (induction a b rule: key_less.induct)
  case (1 a)
  then show ?case by (cases a) auto
next
  case (3 x xs y ys)
  have "of_char x = (of_char y :: nat) \<longleftrightarrow> x = y" by (simp add: of_char_eq_iff)
  with 3 show ?case by (auto simp: not_less_iff_gr_or_eq)
qed simp

lemma key_less_append: "name \<noteq> [] \<Longrightarrow> key_less a (a @ name)"
proof (induction a)
  case Nil
  then show ?case by (cases name) simp_all
qed simp

lemma sorted_unique:
  "sorted_wrt key_less xs \<Longrightarrow> sorted_wrt key_less ys \<Longrightarrow> set xs = set ys \<Longrightarrow> xs = ys"
proof (induction xs arbitrary: ys)
  case (Cons x xs)
  then obtain y zs where ys: "ys = y # zs" by (cases ys) auto
  have asym: "\<not> key_less v u" if "key_less u v" for u v using key_less_trans [OF that] by fastforce
  have "x = y \<or> (x \<in> set zs \<and> y \<in> set xs)" using Cons.prems(3) ys by auto
  then have "x = y" using Cons.prems(1,2) ys asym by auto
  moreover have "x \<notin> set xs" "y \<notin> set zs" using Cons.prems(1,2) ys by auto
  ultimately have "set xs = set zs" using Cons.prems(3) ys by auto
  with Cons.IH [of zs] Cons.prems(1,2) ys \<open>x = y\<close> show ?case by simp
qed simp

lemma key_range_unique: "key_range P key_less a b m xs \<Longrightarrow> key_range P key_less a b m ys \<Longrightarrow> xs = ys"
  unfolding key_range_def using sorted_unique by metis

fun key_insert :: "string \<Rightarrow> string list \<Rightarrow> string list" where
  "key_insert k [] = [k]"
| "key_insert k (x # xs) = (if k = x then x # xs else if key_less k x then k # x # xs else x # key_insert k xs)"

definition key_sort :: "string list \<Rightarrow> string list" where
  "key_sort ks = foldr key_insert ks []"

lemma set_key_insert [simp]: "set (key_insert k xs) = insert k (set xs)"
  by (induction xs) auto

lemma sorted_key_insert: "sorted_wrt key_less xs \<Longrightarrow> sorted_wrt key_less (key_insert k xs)"
  by (induction xs) (auto intro: key_less_trans dest: key_less_total)

lemma key_sort_facts: "set (key_sort ks) = set ks" "sorted_wrt key_less (key_sort ks)"
  by (induction ks) (simp_all add: key_sort_def sorted_key_insert)

type_synonym drive = "(string \<times> KineticRecord) list"

definition drive_put :: "string \<Rightarrow> KineticRecord \<Rightarrow> drive \<Rightarrow> drive" where
  "drive_put key r n = (key, r) # filter (\<lambda>(k, _). k \<noteq> key) n"

definition drive_erase :: "string \<Rightarrow> drive \<Rightarrow> drive" where
  "drive_erase key n = filter (\<lambda>(k, _). k \<noteq> key) n"

definition drive_connection :: "drive connection" where
  "drive_connection =
     \<lparr>con_NoOp = (\<lambda>n. (OK, n)),
      con_Get = (\<lambda>key n. (case map_of n key of None \<Rightarrow> ((REMOTE_NOT_FOUND, None), n) | Some r \<Rightarrow> ((OK, Some r), n))),
      con_Delete = (\<lambda>key v wm n. (case map_of n key of
          None \<Rightarrow> (REMOTE_NOT_FOUND, n)
        | Some r \<Rightarrow> if version_matches (Some r) v wm then (OK, drive_erase key n) else (REMOTE_VERSION_MISMATCH, n))),
      con_Put = (\<lambda>key v wm r n. if version_matches (map_of n key) v wm then (OK, drive_put key r n)
                               else (REMOTE_VERSION_MISMATCH, n)),
      con_GetVersion = (\<lambda>key n. (case map_of n key of
          None \<Rightarrow> ((REMOTE_NOT_FOUND, None), n) | Some r \<Rightarrow> ((OK, Some (kr_version r)), n))),
      con_GetKeyRange = (\<lambda>a _ b _ _ m n.
          ((OK, Some (take m (filter (\<lambda>k. key_less a k \<and> key_less k b) (key_sort (map fst n))))), n)),
      con_GetLog = (\<lambda>n. ((OK, Some \<lparr>nominal_capacity_in_bytes = 4000000000000, portion_full = Finite 0\<rparr>), n))\<rparr>"

lemma map_of_drive_erase [simp]: "map_of (drive_erase key n) = (map_of n)(key := None)"
proof -
  have "map_of (filter (\<lambda>(k, _). k \<noteq> key) n) j = (if j = key then None else map_of n j)" for j
    by (induction n) auto
  then show ?thesis by (simp add: drive_erase_def fun_eq_iff)
qed

lemma map_of_drive_put [simp]: "map_of (drive_put key r n) = (map_of n)(key \<mapsto> r)"
  using map_of_drive_erase [of key n] by (simp add: drive_put_def drive_erase_def)

lemma drive_key_range:
  "key_range (\<lambda>k. map_of n k \<noteq> None) key_less a b m
     (take m (filter (\<lambda>k. key_less a k \<and> key_less k b) (key_sort (map fst n))))"
proof -
  let ?all = "filter (\<lambda>k. key_less a k \<and> key_less k b) (key_sort (map fst n))"
  have "set ?all = {k. map_of n k \<noteq> None \<and> key_less a k \<and> key_less k b}"
    by (auto simp: key_sort_facts map_of_eq_None_iff)
  then show ?thesis
    unfolding key_range_def using key_sort_facts(2) sorted_wrt_filter by blast
qed

interpretation drive: reliable_connection drive_connection map_of
  by unfold_locales (simp_all add: drive_connection_def drive_key_range del: not_None_eq)

end
