(* ===== verification/HFlat_State.thy ===== *)
theory HFlat_State
  imports Path_Map_DB Data_Info Metadata_Info LRU_Cache Kinetic_Namespace
begin

section \<open>The state of a client\<close>

text \<open>
  The struct hflat\_priv of main.h with the objects it refers to. MetadataInfo and DataInfo
  objects are shared between the caches and the operations that have looked them up, so they
  live in two heaps and the caches hold addresses; an object is never freed while an address
  is around, so a heap only grows. The environment of a call holds what the code takes from
  outside: the namespace, the encodings of the protobuf library, the identity of the caller
  (\<^verbatim>\<open>fuse_get_context\<close>), the clock and the generator of unique identifiers.
\<close>

subsection \<open>Model\<close>

datatype PosixMode = FULL | TIMERELAXED

record 'n hflat_priv =
  kinetic :: 'n
  lookup_cache :: "(string, nat) LRUcache"
  data_cache :: "(string, nat) LRUcache"
  pmap :: PathMapDB
  blocksize :: nat
  posix :: PosixMode
  inum_base :: int
  inum_counter :: "16 word"
  mdis :: "MetadataInfo list"
  dis :: "DataInfo list"
  uuids :: nat

record 'n env =
  ns :: "'n KineticNamespace"
  md_SerializeAsString :: "Metadata \<Rightarrow> string"
  md_ParseFromString :: "string \<Rightarrow> Metadata option"
  entry_SerializeAsString :: "db_entry \<Rightarrow> string"
  entry_ParseFromString :: "string \<Rightarrow> db_entry option"
  snapshot_SerializeAsString :: "db_snapshot \<Rightarrow> string"
  snapshot_ParseFromString :: "string \<Rightarrow> db_snapshot option"
  ctx_uid :: "32 word"
  ctx_gid :: "32 word"
  time_now :: int
  steady_now :: int
  uuid_generate :: "nat \<Rightarrow> string"

type_synonym ('n, 'a) fs = "('n hflat_priv, 'a) cmd"

definition hflat_priv_new :: "'n \<Rightarrow> int \<Rightarrow> nat \<Rightarrow> PosixMode \<Rightarrow> 'n hflat_priv" where
  "hflat_priv_new kn cache_expiration_ms block_size_bytes pmode =
     \<lparr>kinetic = kn,
      lookup_cache = LRUcache_new cache_expiration_ms 1000,
      data_cache = LRUcache_new cache_expiration_ms 500,
      pmap = PathMapDB_init, blocksize = block_size_bytes, posix = pmode,
      inum_base = 0, inum_counter = 0, mdis = [], dis = [], uuids = 0\<rparr>"

subsection \<open>Objects\<close>

text \<open>A null pointer or an address outside the heap cannot be dereferenced.\<close>

definition new_mdi :: "MetadataInfo \<Rightarrow> ('n, nat) fs" where
  "new_mdi m = (\<lambda>s. (Inr (length (mdis s)), s\<lparr>mdis := mdis s @ [m]\<rparr>))"

definition mdi_at :: "nat \<Rightarrow> ('n, MetadataInfo) fs" where
  "mdi_at r = (\<lambda>s. if r < length (mdis s) then (Inr (mdis s ! r), s) else (Inl Undefined_Behaviour, s))"

definition set_mdi :: "nat \<Rightarrow> (MetadataInfo \<Rightarrow> MetadataInfo) \<Rightarrow> ('n, unit) fs" where
  "set_mdi r f = (\<lambda>s. if r < length (mdis s) then (Inr (), s\<lparr>mdis := (mdis s)[r := f (mdis s ! r)]\<rparr>)
                      else (Inl Undefined_Behaviour, s))"

definition new_di :: "DataInfo \<Rightarrow> ('n, nat) fs" where
  "new_di d = (\<lambda>s. (Inr (length (dis s)), s\<lparr>dis := dis s @ [d]\<rparr>))"

definition di_at :: "nat \<Rightarrow> ('n, DataInfo) fs" where
  "di_at r = (\<lambda>s. if r < length (dis s) then (Inr (dis s ! r), s) else (Inl Undefined_Behaviour, s))"

definition set_di :: "nat \<Rightarrow> DataInfo \<Rightarrow> ('n, unit) fs" where
  "set_di r d = (\<lambda>s. if r < length (dis s) then (Inr (), s\<lparr>dis := (dis s)[r := d]\<rparr>)
                     else (Inl Undefined_Behaviour, s))"

abbreviation set_md :: "nat \<Rightarrow> (Metadata \<Rightarrow> Metadata) \<Rightarrow> ('n, unit) fs" where
  "set_md r f \<equiv> set_mdi r (\<lambda>m. m\<lparr>md := f (md m)\<rparr>)"

subsection \<open>Calls of the namespace and of the caches\<close>

definition run_ns :: "('n \<Rightarrow> 'a \<times> 'n) \<Rightarrow> ('n, 'a) fs" where
  "run_ns f = (\<lambda>s. case f (kinetic s) of (a, n) \<Rightarrow> (Inr a, s\<lparr>kinetic := n\<rparr>))"

text \<open>The two lambdas with which the caches are constructed.\<close>

definition di_hasUpdates :: "'n hflat_priv \<Rightarrow> nat \<Rightarrow> bool" where
  "di_hasUpdates s r \<longleftrightarrow> r < length (dis s) \<and> hasUpdates (dis s ! r)"

definition mdi_dirty :: "'n hflat_priv \<Rightarrow> nat \<Rightarrow> bool" where
  "mdi_dirty s r = (case dirty_data (mdis s ! r) of None \<Rightarrow> False | Some a \<Rightarrow> di_hasUpdates s a)"

definition mdi_key :: "'n hflat_priv \<Rightarrow> nat \<Rightarrow> string" where
  "mdi_key s r = systemPath (mdis s ! r)"

definition dat_key :: "'n hflat_priv \<Rightarrow> nat \<Rightarrow> string" where
  "dat_key s r = di_key (dis s ! r)"

definition on_cache :: "(('n hflat_priv) \<Rightarrow> 'c) \<Rightarrow> ('c \<Rightarrow> 'n hflat_priv \<Rightarrow> 'n hflat_priv)
    \<Rightarrow> ('n hflat_priv \<Rightarrow> 'c \<Rightarrow> stop + 'a \<times> 'c) \<Rightarrow> ('n, 'a) fs" where
  "on_cache sel upd f = (\<lambda>s. case f s (sel s) of Inl e \<Rightarrow> (Inl e, s) | Inr (a, c) \<Rightarrow> (Inr a, upd c s))"

definition lookup_get :: "'n env \<Rightarrow> string \<Rightarrow> ('n, nat option) fs" where
  "lookup_get E k = on_cache lookup_cache (\<lambda>c s. s\<lparr>lookup_cache := c\<rparr>) (\<lambda>s. lru_get (mdi_dirty s) (steady_now E) k)"

definition lookup_add :: "'n env \<Rightarrow> string \<Rightarrow> nat \<Rightarrow> ('n, bool) fs" where
  "lookup_add E k r = on_cache lookup_cache (\<lambda>c s. s\<lparr>lookup_cache := c\<rparr>)
     (\<lambda>s. lru_add (mdi_key s) (mdi_dirty s) (steady_now E) k r)"

definition lookup_block :: "string \<Rightarrow> ('n, bool) fs" where
  "lookup_block k = on_cache lookup_cache (\<lambda>c s. s\<lparr>lookup_cache := c\<rparr>) (\<lambda>s c. Inr (lru_block k c))"

definition lookup_invalidate :: "string \<Rightarrow> ('n, unit) fs" where
  "lookup_invalidate k = modify (\<lambda>s. s\<lparr>lookup_cache := invalidate k (lookup_cache s)\<rparr>)"

definition lookup_revalidate :: "'n env \<Rightarrow> string \<Rightarrow> ('n, unit) fs" where
  "lookup_revalidate E k = modify (\<lambda>s. s\<lparr>lookup_cache := revalidate (steady_now E) k (lookup_cache s)\<rparr>)"

definition data_get :: "'n env \<Rightarrow> string \<Rightarrow> ('n, nat option) fs" where
  "data_get E k = on_cache data_cache (\<lambda>c s. s\<lparr>data_cache := c\<rparr>) (\<lambda>s. lru_get (di_hasUpdates s) (steady_now E) k)"

definition data_add :: "'n env \<Rightarrow> string \<Rightarrow> nat \<Rightarrow> ('n, bool) fs" where
  "data_add E k r = on_cache data_cache (\<lambda>c s. s\<lparr>data_cache := c\<rparr>)
     (\<lambda>s. lru_add (dat_key s) (di_hasUpdates s) (steady_now E) k r)"

definition data_block :: "string \<Rightarrow> ('n, bool) fs" where
  "data_block k = on_cache data_cache (\<lambda>c s. s\<lparr>data_cache := c\<rparr>) (\<lambda>s c. Inr (lru_block k c))"

definition data_invalidate :: "string \<Rightarrow> ('n, unit) fs" where
  "data_invalidate k = modify (\<lambda>s. s\<lparr>data_cache := invalidate k (data_cache s)\<rparr>)"

definition data_revalidate :: "'n env \<Rightarrow> string \<Rightarrow> ('n, unit) fs" where
  "data_revalidate E k = modify (\<lambda>s. s\<lparr>data_cache := revalidate (steady_now E) k (data_cache s)\<rparr>)"

text \<open>\<^verbatim>\<open>util::generate_uuid\<close>: the n-th identifier drawn by this client.\<close>

definition generate_uuid :: "'n env \<Rightarrow> ('n, string) fs" where
  "generate_uuid E = (\<lambda>s. (Inr (uuid_generate E (uuids s)), s\<lparr>uuids := Suc (uuids s)\<rparr>))"

subsection \<open>What a client relies on\<close>

text \<open>
  The namespace is reliable, messages survive encoding, and unique identifiers are unique and
  not empty (the empty version stands for a key that does not exist).
\<close>

locale reliable_client = reliable_namespace "ns E" store
  for E :: "'n env" and store :: "'n \<Rightarrow> string \<Rightarrow> KineticRecord option" +
  assumes md_codec: "md_ParseFromString E (md_SerializeAsString E m) = Some m"
    and entry_codec: "entry_ParseFromString E (entry_SerializeAsString E en) = Some en"
    and snapshot_codec: "snapshot_ParseFromString E (snapshot_SerializeAsString E sn) = Some sn"
    and uuid_inject: "uuid_generate E i = uuid_generate E j \<longleftrightarrow> i = j"
    and uuid_not_empty: "uuid_generate E i \<noteq> ''''"

subsection \<open>Running the primitives\<close>

lemma object_apply [cmd_simps]:
  "call (new_mdi m) k s = k (length (mdis s)) (s\<lparr>mdis := mdis s @ [m]\<rparr>)"
  "r < length (mdis s) \<Longrightarrow> call (mdi_at r) h s = h (mdis s ! r) s"
  "r < length (mdis s) \<Longrightarrow> call (set_mdi r f) j s = j () (s\<lparr>mdis := (mdis s)[r := f (mdis s ! r)]\<rparr>)"
  "call (new_di d) k s = k (length (dis s)) (s\<lparr>dis := dis s @ [d]\<rparr>)"
  "r < length (dis s) \<Longrightarrow> call (di_at r) l s = l (dis s ! r) s"
  "r < length (dis s) \<Longrightarrow> call (set_di r d) j s = j () (s\<lparr>dis := (dis s)[r := d]\<rparr>)"
  by (simp_all add: call_def new_mdi_def mdi_at_def set_mdi_def new_di_def di_at_def set_di_def)

lemma effect_apply [cmd_simps]:
  "call (run_ns f) h s = (case f (kinetic s) of (a, n) \<Rightarrow> h a (s\<lparr>kinetic := n\<rparr>))"
  "call (generate_uuid E) k s = k (uuid_generate E (uuids s)) (s\<lparr>uuids := Suc (uuids s)\<rparr>)"
  "call (lookup_invalidate key) j s = j () (s\<lparr>lookup_cache := invalidate key (lookup_cache s)\<rparr>)"
  "call (lookup_revalidate E key) j s = j () (s\<lparr>lookup_cache := revalidate (steady_now E) key (lookup_cache s)\<rparr>)"
  "call (data_invalidate key) j s = j () (s\<lparr>data_cache := invalidate key (data_cache s)\<rparr>)"
  "call (data_revalidate E key) j s = j () (s\<lparr>data_cache := revalidate (steady_now E) key (data_cache s)\<rparr>)"
  by (simp_all add: call_def run_ns_def generate_uuid_def lookup_invalidate_def lookup_revalidate_def
      data_invalidate_def data_revalidate_def split: prod.splits)

end
