(* ===== verification/Kinetic_Helper.thy ===== *)
theory Kinetic_Helper
  imports HFlat_State
begin

section \<open>Metadata, data and database records on the drive\<close>

text \<open>
  namespace/kinetic\_helper.cc: every operation of the file system that touches a drive goes
  through these functions, apart from directory entries. Versions give optimistic locking:
  a client writes a record only if it still has the version it has read. Operations that
  start over after losing a race carry fuel for the number of attempts.
\<close>

subsection \<open>Metadata\<close>

text \<open>A successful status without a record would be dereferenced all the same.\<close>

definition get_metadata :: "'n env \<Rightarrow> nat \<Rightarrow> ('n, int) fs" where
  "get_metadata E mdi =
     call (mdi_at mdi) (\<lambda>m.
     call (run_ns (ns_Get (ns E) (systemPath m))) (\<lambda>(status, rec).
       if status \<noteq> OK then ret (if status = REMOTE_NOT_FOUND then - ENOENT else - EIO)
       else case rec of
          None \<Rightarrow> halt Undefined_Behaviour
        | Some r \<Rightarrow> (case md_ParseFromString E (kr_value r) of
              None \<Rightarrow> ret (- EINVAL)
            | Some x \<Rightarrow> call (set_mdi mdi (setMD x (kr_version r))) (\<lambda>_. ret 0))))"

definition put_metadata :: "'n env \<Rightarrow> nat \<Rightarrow> ('n, int) fs" where
  "put_metadata E mdi =
     call (generate_uuid E) (\<lambda>new_version.
     call (mdi_at mdi) (\<lambda>m.
     call (run_ns (ns_Put (ns E) (systemPath m) (keyVersion m) REQUIRE_SAME_VERSION
              \<lparr>kr_value = md_SerializeAsString E (md m), kr_version = new_version\<rparr>)) (\<lambda>status.
       if status \<noteq> OK then
         call (lookup_invalidate (systemPath m)) (\<lambda>_.
         ret (if status = REMOTE_VERSION_MISMATCH then - EAGAIN
              else if status = REMOTE_NOT_FOUND then - ENOENT else - EIO))
       else
         call (set_mdi mdi (\<lambda>m. m\<lparr>keyVersion := new_version\<rparr>)) (\<lambda>_.
         call (lookup_revalidate E (systemPath m)) (\<lambda>_. ret 0)))))"

fun put_metadata_forced :: "nat \<Rightarrow> 'n env \<Rightarrow> nat \<Rightarrow> ('n, unit) fs \<Rightarrow> ('n, int) fs" where
  "put_metadata_forced 0 E mdi update = halt OutOfFuel"
| "put_metadata_forced (Suc n) E mdi update =
     call update (\<lambda>_.
     call (put_metadata E mdi) (\<lambda>err.
       if err \<noteq> - EAGAIN then ret err
       else call (get_metadata E mdi) (\<lambda>err.
         if err \<noteq> 0 then ret err
         else put_metadata_forced n E mdi update)))"

definition create_metadata :: "'n env \<Rightarrow> nat \<Rightarrow> ('n, int) fs" where
  "create_metadata E mdi =
     call (generate_uuid E) (\<lambda>new_version.
     call (mdi_at mdi) (\<lambda>m.
     call (run_ns (ns_Put (ns E) (systemPath m) '''' REQUIRE_SAME_VERSION
              \<lparr>kr_value = md_SerializeAsString E (md m), kr_version = new_version\<rparr>)) (\<lambda>status.
       if status = REMOTE_VERSION_MISMATCH then ret (- EEXIST)
       else if status \<noteq> OK then ret (- EIO)
       else call (set_mdi mdi (\<lambda>m. m\<lparr>keyVersion := new_version\<rparr>)) (\<lambda>_. ret 0))))"

definition delete_metadata :: "'n env \<Rightarrow> nat \<Rightarrow> ('n, int) fs" where
  "delete_metadata E mdi =
     call (mdi_at mdi) (\<lambda>m.
     call (lookup_invalidate (systemPath m)) (\<lambda>_.
     call (run_ns (ns_Delete (ns E) (systemPath m) (keyVersion m) REQUIRE_SAME_VERSION)) (\<lambda>status.
       ret (if status = REMOTE_VERSION_MISMATCH then - EAGAIN
            else if status = REMOTE_NOT_FOUND then - ENOENT
            else if status \<noteq> OK then - EIO else 0))))"

subsection \<open>Data\<close>

definition get_data :: "'n env \<Rightarrow> string \<Rightarrow> ('n, int \<times> nat option) fs" where
  "get_data E key =
     call (run_ns (ns_Get (ns E) key)) (\<lambda>(status, rec).
       if status \<noteq> OK \<and> status \<noteq> REMOTE_NOT_FOUND then ret (- EIO, None)
       else if status = REMOTE_NOT_FOUND then
         call (new_di (DataInfo_new key '''' '''')) (\<lambda>di. ret (0, Some di))
       else case rec of
          None \<Rightarrow> halt Undefined_Behaviour
        | Some r \<Rightarrow> call (new_di (DataInfo_new key (kr_version r) (kr_value r))) (\<lambda>di. ret (0, Some di)))"

fun put_data :: "nat \<Rightarrow> 'n env \<Rightarrow> nat \<Rightarrow> ('n, int) fs" where
  "put_data 0 E di = halt OutOfFuel"
| "put_data (Suc n) E di =
     call (generate_uuid E) (\<lambda>new_version.
     call (di_at di) (\<lambda>d.
     call (run_ns (ns_Put (ns E) (di_key d) (di_keyVersion d) REQUIRE_SAME_VERSION
              \<lparr>kr_value = di_data d, kr_version = new_version\<rparr>)) (\<lambda>status.
       if status = REMOTE_VERSION_MISMATCH then
         call (run_ns (ns_Get (ns E) (di_key d))) (\<lambda>(status, rec).
           if status \<noteq> OK then ret (- EIO)
           else case rec of
              None \<Rightarrow> halt Undefined_Behaviour
            | Some r \<Rightarrow>
                call (lift (mergeDataChanges (kr_value r) d)) (\<lambda>d.
                call (set_di di (d\<lparr>di_keyVersion := kr_version r\<rparr>)) (\<lambda>_.
                put_data n E di)))
       else if status \<noteq> OK then ret (- EIO)
       else
         call (set_di di ((forgetUpdates d)\<lparr>di_keyVersion := new_version\<rparr>)) (\<lambda>_.
         call (data_revalidate E (di_key d)) (\<lambda>_. ret 0)))))"

definition delete_data :: "'n env \<Rightarrow> nat \<Rightarrow> ('n, int) fs" where
  "delete_data E di =
     call (di_at di) (\<lambda>d.
     call (run_ns (ns_Delete (ns E) (di_key d) '''' IGNORE_VERSION)) (\<lambda>status.
     call (data_invalidate (di_key d)) (\<lambda>_.
       ret (if status = REMOTE_NOT_FOUND then - ENOENT else if status \<noteq> OK then - EIO else 0))))"

subsection \<open>The database of path mappings\<close>

abbreviation (input) db_base_name :: string where "db_base_name \<equiv> ''pathmapDB_''"

definition db_version_key :: string where
  "db_version_key = db_base_name @ ''version''"

definition db_entry_key :: "int \<Rightarrow> string" where
  "db_entry_key version = db_base_name @ to_string version"

definition db_snapshot_key :: string where
  "db_snapshot_key = db_base_name @ ''SNAPSHOT''"

text \<open>\<^verbatim>\<open>util::to_int64\<close> of util.cc.\<close>

definition to_int64 :: "string \<Rightarrow> int" where
  "to_int64 version_string = (case stoll version_string of Inl _ \<Rightarrow> 0 | Inr v \<Rightarrow> v)"

definition put_db_entry :: "'n env \<Rightarrow> int \<Rightarrow> db_entry \<Rightarrow> ('n, int) fs" where
  "put_db_entry E version entry =
     call (run_ns (ns_Put (ns E) (db_entry_key version) '''' REQUIRE_SAME_VERSION
             \<lparr>kr_value = entry_SerializeAsString E entry, kr_version = to_string version\<rparr>)) (\<lambda>status.
       if status = REMOTE_VERSION_MISMATCH then ret (- EEXIST)
       else if status \<noteq> OK then ret (- EIO)
       else call (run_ns (ns_Put (ns E) db_version_key '''' IGNORE_VERSION
                    \<lparr>kr_value = '''', kr_version = to_string version\<rparr>)) (\<lambda>_. ret 0))"

definition get_db_entry :: "'n env \<Rightarrow> int \<Rightarrow> ('n, int + db_entry) fs" where
  "get_db_entry E version =
     call (run_ns (ns_Get (ns E) (db_entry_key version))) (\<lambda>(status, rec).
       if status = REMOTE_NOT_FOUND then ret (Inl (- ENOENT))
       else if status \<noteq> OK then ret (Inl (- EIO))
       else case rec of
          None \<Rightarrow> halt Undefined_Behaviour
        | Some r \<Rightarrow> ret (case entry_ParseFromString E (kr_value r) of
              None \<Rightarrow> Inl (- EINVAL) | Some entry \<Rightarrow> Inr entry))"

definition get_db_version :: "'n env \<Rightarrow> ('n, int + int) fs" where
  "get_db_version E =
     call (run_ns (ns_GetVersion (ns E) db_version_key)) (\<lambda>(status, v).
       if status = REMOTE_NOT_FOUND then ret (Inr 0)
       else if status \<noteq> OK then ret (Inl (- EIO))
       else case v of None \<Rightarrow> halt Undefined_Behaviour | Some v \<Rightarrow> ret (Inr (to_int64 v)))"

definition put_db_snapshot :: "'n env \<Rightarrow> db_snapshot \<Rightarrow> ('n, int) fs" where
  "put_db_snapshot E s =
     call (run_ns (ns_Put (ns E) db_snapshot_key '''' IGNORE_VERSION
             \<lparr>kr_value = snapshot_SerializeAsString E s, kr_version = ''''\<rparr>)) (\<lambda>status.
       ret (if status \<noteq> OK then - EIO else 0))"

definition get_db_snapshot :: "'n env \<Rightarrow> ('n, int + db_snapshot) fs" where
  "get_db_snapshot E =
     call (run_ns (ns_Get (ns E) db_snapshot_key)) (\<lambda>(status, rec).
       if status \<noteq> OK then ret (Inl (- EIO))
       else case rec of
          None \<Rightarrow> halt Undefined_Behaviour
        | Some r \<Rightarrow> ret (case snapshot_ParseFromString E (kr_value r) of
              None \<Rightarrow> Inl (- EINVAL) | Some s \<Rightarrow> Inr s))"

end
