(* ===== verification/Reference_Codec.thy ===== *)
theory Reference_Codec
  imports HFlat_State
begin

section \<open>A reference encoding\<close>

text \<open>
  The protobuf library is not part of the sources; the file system relies on it for one thing:
  parsing what has been serialized gives the message back. This theory has an encoding with
  that property for the three messages the file system stores. The examples run on it.
\<close>

definition codec :: "('a \<Rightarrow> string) \<Rightarrow> (string \<Rightarrow> ('a \<times> string) option) \<Rightarrow> bool" where
  "codec enc dec \<longleftrightarrow> (\<forall>a rest. dec (enc a @ rest) = Some (a, rest))"

lemma codecD: "codec enc dec \<Longrightarrow> dec (enc a @ rest) = Some (a, rest)"
  by (simp add: codec_def)

definition enc_nat :: "nat \<Rightarrow> string" where
  "enc_nat n = nat_to_string n @ '';''"

definition dec_nat :: "string \<Rightarrow> (nat \<times> string) option" where
  "dec_nat s = (case dropWhile is_digit s of [] \<Rightarrow> None | c # rest \<Rightarrow> Some (digits_val (takeWhile is_digit s), rest))"

lemma codec_nat: "codec enc_nat dec_nat"
proof -
  have "\<not> is_digit CHR '';''" by (simp add: is_digit_def)
  then show ?thesis
    using nat_to_string_digits by (simp add: codec_def enc_nat_def dec_nat_def takeWhile_append dropWhile_append)
qed

definition enc_pair :: "('a \<Rightarrow> string) \<Rightarrow> ('b \<Rightarrow> string) \<Rightarrow> 'a \<times> 'b \<Rightarrow> string" where
  "enc_pair e f p = e (fst p) @ f (snd p)"

definition dec_pair ::
  "(string \<Rightarrow> ('a \<times> string) option) \<Rightarrow> (string \<Rightarrow> ('b \<times> string) option) \<Rightarrow> string \<Rightarrow> (('a \<times> 'b) \<times> string) option" where
  "dec_pair d g s = (case d s of None \<Rightarrow> None | Some (a, s) \<Rightarrow>
     (case g s of None \<Rightarrow> None | Some (b, s) \<Rightarrow> Some ((a, b), s)))"

lemma codec_pair: "codec e d \<Longrightarrow> codec f g \<Longrightarrow> codec (enc_pair e f) (dec_pair d g)"
  by (simp add: codec_def enc_pair_def dec_pair_def)

text \<open>An encoding carried over along an injection.\<close>

definition dec_map :: "('a \<Rightarrow> 'b) \<Rightarrow> (string \<Rightarrow> ('a \<times> string) option) \<Rightarrow> string \<Rightarrow> ('b \<times> string) option" where
  "dec_map h d s = map_option (\<lambda>(a, rest). (h a, rest)) (d s)"

lemma codec_map: "codec e d \<Longrightarrow> (\<And>x. h (k x) = x) \<Longrightarrow> codec (\<lambda>x. e (k x)) (dec_map h d)"
  by (simp add: codec_def dec_map_def)

fun dec_many :: "nat \<Rightarrow> (string \<Rightarrow> ('a \<times> string) option) \<Rightarrow> string \<Rightarrow> ('a list \<times> string) option" where
  "dec_many 0 d s = Some ([], s)"
| "dec_many (Suc n) d s = (case d s of None \<Rightarrow> None | Some (a, s) \<Rightarrow>
     map_option (\<lambda>(as, s). (a # as, s)) (dec_many n d s))"

definition enc_list :: "('a \<Rightarrow> string) \<Rightarrow> 'a list \<Rightarrow> string" where
  "enc_list e xs = enc_nat (length xs) @ concat (map e xs)"

definition dec_list :: "(string \<Rightarrow> ('a \<times> string) option) \<Rightarrow> string \<Rightarrow> ('a list \<times> string) option" where
  "dec_list d s = (case dec_nat s of None \<Rightarrow> None | Some (n, s) \<Rightarrow> dec_many n d s)"

lemma codec_list:
  assumes "codec e d"
  shows "codec (enc_list e) (dec_list d)"
proof -
  have "dec_many (length xs) d (concat (map e xs) @ rest) = Some (xs, rest)" for xs rest
    using assms by (induction xs) (simp_all add: codec_def)
  then show ?thesis
    using codecD [OF codec_nat] by (simp add: codec_def [of "enc_list e"] enc_list_def dec_list_def)
qed

definition dec_char :: "string \<Rightarrow> (char \<times> string) option" where
  "dec_char s = (case s of [] \<Rightarrow> None | c # rest \<Rightarrow> Some (c, rest))"

lemma codec_char: "codec (\<lambda>c. [c]) dec_char"
  by (simp add: codec_def dec_char_def)

abbreviation (input) enc_str :: "string \<Rightarrow> string" where "enc_str \<equiv> enc_list (\<lambda>c. [c])"
abbreviation (input) dec_str :: "string \<Rightarrow> (string \<times> string) option" where "dec_str \<equiv> dec_list dec_char"

definition enc_int :: "int \<Rightarrow> string" where
  "enc_int i = enc_pair enc_nat enc_nat (nat i, nat (- i))"

definition dec_int :: "string \<Rightarrow> (int \<times> string) option" where
  "dec_int = dec_map (\<lambda>(p, m). int p - int m) (dec_pair dec_nat dec_nat)"

lemma codec_int: "codec enc_int dec_int"
  unfolding enc_int_def [abs_def] dec_int_def
  by (intro codec_map codec_pair codec_nat) simp

text \<open>Enumerations by their position.\<close>

definition type_code :: "InodeType \<Rightarrow> nat" where
  "type_code t = (case t of POSIX \<Rightarrow> 0 | HARDLINK_T \<Rightarrow> 1 | HARDLINK_S \<Rightarrow> 2 | FORCE_UPDATE \<Rightarrow> 3)"

definition type_decode :: "nat \<Rightarrow> InodeType" where
  "type_decode n = [POSIX, HARDLINK_T, HARDLINK_S, FORCE_UPDATE] ! n"

definition reach_code :: "ReachabilityType \<Rightarrow> nat" where
  "reach_code t = (case t of UID \<Rightarrow> 0 | GID \<Rightarrow> 1 | UID_OR_GID \<Rightarrow> 2 | NOT_UID \<Rightarrow> 3 | NOT_GID \<Rightarrow> 4 | GID_REQ_UID \<Rightarrow> 5)"

definition reach_decode :: "nat \<Rightarrow> ReachabilityType" where
  "reach_decode n = [UID, GID, UID_OR_GID, NOT_UID, NOT_GID, GID_REQ_UID] ! n"

lemma codes [simp]: "type_decode (type_code t) = t" "reach_decode (reach_code u) = u"
  by (cases t; simp add: type_code_def type_decode_def) (cases u; simp add: reach_code_def reach_decode_def)

definition reach_tuple :: "ReachabilityEntry \<Rightarrow> nat \<times> nat \<times> nat" where
  "reach_tuple e = (reach_code (re_type e), unat (re_gid e), unat (re_uid e))"

definition reach_of :: "nat \<times> nat \<times> nat \<Rightarrow> ReachabilityEntry" where
  "reach_of p = (case p of (t, g, u) \<Rightarrow>
     \<lparr>re_type = reach_decode t, re_gid = word_of_nat g, re_uid = word_of_nat u\<rparr>)"

definition enc_reach :: "ReachabilityEntry \<Rightarrow> string" where
  "enc_reach e = enc_pair enc_nat (enc_pair enc_nat enc_nat) (reach_tuple e)"

definition dec_reach :: "string \<Rightarrow> (ReachabilityEntry \<times> string) option" where
  "dec_reach = dec_map reach_of (dec_pair dec_nat (dec_pair dec_nat dec_nat))"

lemma codec_reach: "codec enc_reach dec_reach"
  unfolding enc_reach_def [abs_def] dec_reach_def
  by (intro codec_map codec_pair codec_nat) (simp add: reach_of_def reach_tuple_def)

subsection \<open>Metadata\<close>

type_synonym md_tuple =
  "nat list \<times> (string \<times> string) list \<times> int \<times> ReachabilityEntry list \<times> ReachabilityEntry list"

definition md_tuple_of :: "Metadata \<Rightarrow> md_tuple" where
  "md_tuple_of m =
     ([type_code (md_type m), unat (atime m), unat (mtime m), unat (ctime m), unat (uid m), unat (gid m),
       unat (mode m), unat (inode_number m), unat (link_count m), unat (md_size m), unat (blocks m)],
      xattr m, path_permission_verified m, path_permission m, path_permission_children m)"

definition md_of_tuple :: "md_tuple \<Rightarrow> Metadata" where
  "md_of_tuple t = (case t of (nums, xs, v, ps, cs) \<Rightarrow>
     \<lparr>md_type = type_decode (nums ! 0), atime = word_of_nat (nums ! 1), mtime = word_of_nat (nums ! 2),
      ctime = word_of_nat (nums ! 3), uid = word_of_nat (nums ! 4), gid = word_of_nat (nums ! 5),
      mode = word_of_nat (nums ! 6), inode_number = word_of_nat (nums ! 7), link_count = word_of_nat (nums ! 8),
      md_size = word_of_nat (nums ! 9), blocks = word_of_nat (nums ! 10), xattr = xs,
      path_permission_verified = v, path_permission = ps, path_permission_children = cs\<rparr>)"

definition enc_md :: "Metadata \<Rightarrow> string" where
  "enc_md m = enc_pair (enc_list enc_nat) (enc_pair (enc_list (enc_pair enc_str enc_str))
     (enc_pair enc_int (enc_pair (enc_list enc_reach) (enc_list enc_reach)))) (md_tuple_of m)"

definition dec_md :: "string \<Rightarrow> (Metadata \<times> string) option" where
  "dec_md = dec_map md_of_tuple (dec_pair (dec_list dec_nat) (dec_pair (dec_list (dec_pair dec_str dec_str))
     (dec_pair dec_int (dec_pair (dec_list dec_reach) (dec_list dec_reach)))))"

lemmas codec_intros = codec_map codec_pair codec_nat codec_list codec_char codec_int codec_reach

lemma md_of_tuple [simp]: "md_of_tuple (md_tuple_of m) = m"
  by (simp add: md_of_tuple_def md_tuple_of_def)

lemma codec_md: "codec enc_md dec_md"
  unfolding enc_md_def [abs_def] dec_md_def by (intro codec_intros) simp

subsection \<open>Database records\<close>

definition entry_code :: "db_entry_Type \<Rightarrow> int" where
  "entry_code t = (case t of db_entry_Type_MOVE \<Rightarrow> 1 | db_entry_Type_SYMLINK \<Rightarrow> 2 | db_entry_Type_NONE \<Rightarrow> 3
     | db_entry_Type_REMOVED \<Rightarrow> 4 | db_entry_Type_other k \<Rightarrow> if k \<ge> 0 then 5 + k else k)"

definition entry_decode :: "int \<Rightarrow> db_entry_Type" where
  "entry_decode i = (if i = 1 then db_entry_Type_MOVE else if i = 2 then db_entry_Type_SYMLINK
     else if i = 3 then db_entry_Type_NONE else if i = 4 then db_entry_Type_REMOVED
     else db_entry_Type_other (if i \<ge> 0 then i - 5 else i))"

definition enc_entry :: "db_entry \<Rightarrow> string" where
  "enc_entry e = enc_pair enc_str (enc_pair enc_int enc_str) (entry_origin e, entry_code (entry_type e), entry_target e)"

definition dec_entry :: "string \<Rightarrow> (db_entry \<times> string) option" where
  "dec_entry = dec_map (\<lambda>(a, t, b). \<lparr>entry_origin = a, entry_type = entry_decode t, entry_target = b\<rparr>)
     (dec_pair dec_str (dec_pair dec_int dec_str))"

lemma entry_decode_code [simp]: "entry_decode (entry_code t) = t"
  by (cases t) (auto simp: entry_code_def entry_decode_def)

lemma codec_entry: "codec enc_entry dec_entry"
  unfolding enc_entry_def [abs_def] dec_entry_def by (intro codec_intros) simp

definition mapping_code :: "MappingType \<Rightarrow> nat" where
  "mapping_code t = (case t of MOVE \<Rightarrow> 1 | SYMLINK \<Rightarrow> 2 | NONE \<Rightarrow> 3 | REUSE \<Rightarrow> 4 | UNSET \<Rightarrow> 0)"

definition mapping_decode :: "nat \<Rightarrow> MappingType" where
  "mapping_decode n = [UNSET, MOVE, SYMLINK, NONE, REUSE] ! n"

definition enc_snapshot_entry :: "db_snapshot_entry \<Rightarrow> string" where
  "enc_snapshot_entry e = enc_pair enc_str (enc_pair enc_nat (enc_pair (enc_list enc_str) enc_int))
     (se_origin e, mapping_code (se_type e), (case se_target e of None \<Rightarrow> [] | Some t \<Rightarrow> [t]), se_permissiontimestamp e)"

definition dec_snapshot_entry :: "string \<Rightarrow> (db_snapshot_entry \<times> string) option" where
  "dec_snapshot_entry = dec_map (\<lambda>(a, t, b, p). \<lparr>se_origin = a, se_type = mapping_decode t,
       se_target = (case b of [] \<Rightarrow> None | x # _ \<Rightarrow> Some x), se_permissiontimestamp = p\<rparr>)
     (dec_pair dec_str (dec_pair dec_nat (dec_pair (dec_list dec_str) dec_int)))"

lemma mapping_decode_code [simp]: "mapping_decode (mapping_code t) = t"
  by (cases t) (simp_all add: mapping_code_def mapping_decode_def)

lemma codec_snapshot_entry: "codec enc_snapshot_entry dec_snapshot_entry"
  unfolding enc_snapshot_entry_def [abs_def] dec_snapshot_entry_def
  by (intro codec_intros) (simp split: option.splits)

definition enc_snapshot :: "db_snapshot \<Rightarrow> string" where
  "enc_snapshot s = enc_pair enc_int (enc_list enc_snapshot_entry) (snapshot_version s, entries s)"

definition dec_snapshot :: "string \<Rightarrow> (db_snapshot \<times> string) option" where
  "dec_snapshot = dec_map (\<lambda>(v, es). \<lparr>snapshot_version = v, entries = es\<rparr>) (dec_pair dec_int (dec_list dec_snapshot_entry))"

lemma codec_snapshot: "codec enc_snapshot dec_snapshot"
  unfolding enc_snapshot_def [abs_def] dec_snapshot_def
  by (intro codec_intros codec_snapshot_entry) simp

subsection \<open>An environment\<close>

definition parse_all :: "(string \<Rightarrow> ('a \<times> string) option) \<Rightarrow> string \<Rightarrow> 'a option" where
  "parse_all d s = (case d s of Some (a, []) \<Rightarrow> Some a | _ \<Rightarrow> None)"

lemma parse_all_codec: "codec e d \<Longrightarrow> parse_all d (e a) = Some a"
  using codecD [of e d a "[]"] by (simp add: parse_all_def)

definition drive_env :: "32 word \<Rightarrow> 32 word \<Rightarrow> int \<Rightarrow> drive env" where
  "drive_env u g t =
     \<lparr>ns = SimpleKineticNamespace drive_connection,
      md_SerializeAsString = enc_md, md_ParseFromString = parse_all dec_md,
      entry_SerializeAsString = enc_entry, entry_ParseFromString = parse_all dec_entry,
      snapshot_SerializeAsString = enc_snapshot, snapshot_ParseFromString = parse_all dec_snapshot,
      ctx_uid = u, ctx_gid = g, time_now = t, steady_now = 1000 * t,
      uuid_generate = (\<lambda>n. ''u'' @ nat_to_string n)\<rparr>"

lemma drive_env_simps [simp]:
  "ns (drive_env u g t) = SimpleKineticNamespace drive_connection"
  "md_SerializeAsString (drive_env u g t) = enc_md" "md_ParseFromString (drive_env u g t) = parse_all dec_md"
  "entry_SerializeAsString (drive_env u g t) = enc_entry" "entry_ParseFromString (drive_env u g t) = parse_all dec_entry"
  "snapshot_SerializeAsString (drive_env u g t) = enc_snapshot"
  "snapshot_ParseFromString (drive_env u g t) = parse_all dec_snapshot"
  "ctx_uid (drive_env u g t) = u" "ctx_gid (drive_env u g t) = g" "time_now (drive_env u g t) = t"
  "steady_now (drive_env u g t) = 1000 * t" "uuid_generate (drive_env u g t) n = ''u'' @ nat_to_string n"
  by (simp_all add: drive_env_def)

interpretation example: reliable_client "drive_env u g t" map_of for u g t
  unfolding reliable_client_def reliable_client_axioms_def
  by (simp add: drive.simple.reliable_namespace_axioms parse_all_codec codec_md codec_entry codec_snapshot)

end
