(* ===== verification/Kinetic_Helper_Props.thy ===== *)
theory Kinetic_Helper_Props
  imports Kinetic_Helper Reference_Codec
begin

section \<open>Records on a reliable namespace\<close>

text \<open>
  The behaviour of the functions of kinetic\_helper.cc on a namespace that fulfils its
  contract: what is created can be read, a writer that has read an old version is told so and
  changes nothing, the forced update loses no other client's change, and a data block written
  by two clients ends up with the bytes of both.
\<close>

subsection \<open>Behaviour on every branch\<close>

context reliable_client
begin

lemma get_metadata_present:
  assumes "r < length (mdis s)" "store (kinetic s) (systemPath (mdis s ! r)) = Some rec"
    "md_ParseFromString E (kr_value rec) = Some x"
  shows "get_metadata E r s = (Inr 0, s\<lparr>mdis := (mdis s)[r := setMD x (kr_version rec) (mdis s ! r)]\<rparr>)"
  using assms by (simp add: get_metadata_def cmd_simps Get_present)

lemma get_metadata_absent:
  assumes "r < length (mdis s)" "store (kinetic s) (systemPath (mdis s ! r)) = None"
  shows "get_metadata E r s = (Inr (- ENOENT), s)"
  using assms by (simp add: get_metadata_def cmd_simps Get_absent)

lemma create_metadata_absent:
  assumes "r < length (mdis s)" "store (kinetic s) (systemPath (mdis s ! r)) = None"
  shows "\<exists>n'. create_metadata E r s = (Inr 0, s\<lparr>uuids := Suc (uuids s), kinetic := n',
       mdis := (mdis s)[r := (mdis s ! r)\<lparr>keyVersion := uuid_generate E (uuids s)\<rparr>]\<rparr>)
     \<and> store n' = (store (kinetic s))(systemPath (mdis s ! r) \<mapsto>
         \<lparr>kr_value = md_SerializeAsString E (md (mdis s ! r)), kr_version = uuid_generate E (uuids s)\<rparr>)"
proof -
  have "version_matches (store (kinetic s) (systemPath (mdis s ! r))) '''' REQUIRE_SAME_VERSION"
    using assms(2) by (simp add: version_matches_def)
  from Put_matches [OF this] obtain n' where
    "ns_Put (ns E) (systemPath (mdis s ! r)) '''' REQUIRE_SAME_VERSION
       \<lparr>kr_value = md_SerializeAsString E (md (mdis s ! r)), kr_version = uuid_generate E (uuids s)\<rparr> (kinetic s) = (OK, n')"
    "store n' = (store (kinetic s))(systemPath (mdis s ! r) \<mapsto>
       \<lparr>kr_value = md_SerializeAsString E (md (mdis s ! r)), kr_version = uuid_generate E (uuids s)\<rparr>)"
    by blast
  then show ?thesis using assms(1) by (intro exI [of _ n']) (simp add: create_metadata_def cmd_simps)
qed

lemma create_metadata_present:
  assumes "r < length (mdis s)" "store (kinetic s) (systemPath (mdis s ! r)) = Some rec" "kr_version rec \<noteq> ''''"
  shows "create_metadata E r s = (Inr (- EEXIST), s\<lparr>uuids := Suc (uuids s)\<rparr>)"
proof -
  have "\<not> version_matches (store (kinetic s) (systemPath (mdis s ! r))) '''' REQUIRE_SAME_VERSION"
    using assms(2,3) by (simp add: version_matches_def)
  from Put_mismatch [OF this] assms(1) show ?thesis by (simp add: create_metadata_def cmd_simps)
qed

lemma put_metadata_current:
  assumes "r < length (mdis s)"
    "version_matches (store (kinetic s) (systemPath (mdis s ! r))) (keyVersion (mdis s ! r)) REQUIRE_SAME_VERSION"
  shows "\<exists>n'. put_metadata E r s = (Inr 0, s\<lparr>uuids := Suc (uuids s), kinetic := n',
       mdis := (mdis s)[r := (mdis s ! r)\<lparr>keyVersion := uuid_generate E (uuids s)\<rparr>],
       lookup_cache := revalidate (steady_now E) (systemPath (mdis s ! r)) (lookup_cache s)\<rparr>)
     \<and> store n' = (store (kinetic s))(systemPath (mdis s ! r) \<mapsto>
         \<lparr>kr_value = md_SerializeAsString E (md (mdis s ! r)), kr_version = uuid_generate E (uuids s)\<rparr>)"
proof -
  from Put_matches [OF assms(2)] obtain n' where
    "ns_Put (ns E) (systemPath (mdis s ! r)) (keyVersion (mdis s ! r)) REQUIRE_SAME_VERSION
       \<lparr>kr_value = md_SerializeAsString E (md (mdis s ! r)), kr_version = uuid_generate E (uuids s)\<rparr> (kinetic s) = (OK, n')"
    "store n' = (store (kinetic s))(systemPath (mdis s ! r) \<mapsto>
       \<lparr>kr_value = md_SerializeAsString E (md (mdis s ! r)), kr_version = uuid_generate E (uuids s)\<rparr>)"
    by blast
  then show ?thesis using assms(1) by (intro exI [of _ n']) (simp add: put_metadata_def cmd_simps)
qed

lemma put_metadata_stale:
  assumes "r < length (mdis s)"
    "\<not> version_matches (store (kinetic s) (systemPath (mdis s ! r))) (keyVersion (mdis s ! r)) REQUIRE_SAME_VERSION"
  shows "put_metadata E r s = (Inr (- EAGAIN), s\<lparr>uuids := Suc (uuids s),
     lookup_cache := invalidate (systemPath (mdis s ! r)) (lookup_cache s)\<rparr>)"
  using Put_mismatch [OF assms(2)] assms(1) by (simp add: put_metadata_def cmd_simps)

lemma delete_metadata_current:
  assumes "r < length (mdis s)" "store (kinetic s) (systemPath (mdis s ! r)) = Some rec"
    "kr_version rec = keyVersion (mdis s ! r)"
  shows "\<exists>n'. delete_metadata E r s = (Inr 0, s\<lparr>lookup_cache := invalidate (systemPath (mdis s ! r)) (lookup_cache s),
       kinetic := n'\<rparr>)
     \<and> store n' = (store (kinetic s))(systemPath (mdis s ! r) := None)"
proof -
  have "version_matches (Some rec) (keyVersion (mdis s ! r)) REQUIRE_SAME_VERSION"
    using assms(3) by (simp add: version_matches_def)
  from Delete_matches [OF assms(2) this] assms(1) show ?thesis
    by (auto simp: delete_metadata_def cmd_simps)
qed

lemma put_metadata_forced_current:
  assumes r: "r < length (mdis s)"
    and st: "version_matches (store (kinetic s) (systemPath (mdis s ! r))) (keyVersion (mdis s ! r)) REQUIRE_SAME_VERSION"
  shows "\<exists>s'. put_metadata_forced (Suc n) E r (set_md r f) s = (Inr 0, s')
     \<and> store (kinetic s') = (store (kinetic s))(systemPath (mdis s ! r) \<mapsto>
         \<lparr>kr_value = md_SerializeAsString E (f (md (mdis s ! r))), kr_version = uuid_generate E (uuids s)\<rparr>)
     \<and> md (mdis s' ! r) = f (md (mdis s ! r))"
proof -
  let ?s1 = "s\<lparr>mdis := (mdis s)[r := (mdis s ! r)\<lparr>md := f (md (mdis s ! r))\<rparr>]\<rparr>"
  obtain s' where "put_metadata E r ?s1 = (Inr 0, s')"
    "store (kinetic s') = (store (kinetic s))(systemPath (mdis s ! r) \<mapsto>
         \<lparr>kr_value = md_SerializeAsString E (f (md (mdis s ! r))), kr_version = uuid_generate E (uuids s)\<rparr>)"
    "md (mdis s' ! r) = f (md (mdis s ! r))"
    using put_metadata_current [of r ?s1] r st by auto
  then show ?thesis using r by (simp add: cmd_simps)
qed

text \<open>
  A forced update on a namespace without interference needs at most two attempts: the first
  fails only when another client has written since this one has read, and then the update is
  applied to what that client wrote.
\<close>

lemma put_metadata_forced_stale:
  assumes r: "r < length (mdis s)" and st: "store (kinetic s) (systemPath (mdis s ! r)) = Some rec"
    and old: "kr_version rec \<noteq> keyVersion (mdis s ! r)" and parse: "md_ParseFromString E (kr_value rec) = Some x"
  shows "\<exists>s'. put_metadata_forced (Suc (Suc n)) E r (set_md r f) s = (Inr 0, s')
     \<and> store (kinetic s') = (store (kinetic s))(systemPath (mdis s ! r) \<mapsto>
         \<lparr>kr_value = md_SerializeAsString E (f x), kr_version = uuid_generate E (Suc (uuids s))\<rparr>)
     \<and> md (mdis s' ! r) = f x"
proof -
  let ?m1 = "(mdis s ! r)\<lparr>md := f (md (mdis s ! r))\<rparr>"
  let ?s1 = "s\<lparr>mdis := (mdis s)[r := ?m1]\<rparr>"
  obtain s2 where 1: "put_metadata E r ?s1 = (Inr (- EAGAIN), s2)"
    and s2: "mdis s2 = (mdis s)[r := ?m1]" "kinetic s2 = kinetic s" "uuids s2 = Suc (uuids s)"
    using put_metadata_stale [of r ?s1] r st old by (simp add: version_matches_def)
  let ?s3 = "s2\<lparr>mdis := (mdis s2)[r := setMD x (kr_version rec) (mdis s2 ! r)]\<rparr>"
  have 2: "get_metadata E r s2 = (Inr 0, ?s3)"
    using get_metadata_present [of r s2 rec x] r st parse s2 by simp
  have "put_metadata_forced (Suc (Suc n)) E r (set_md r f) s = put_metadata_forced (Suc n) E r (set_md r f) ?s3"
    using r 1 2 by (simp add: cmd_simps)
  moreover have "\<exists>s'. put_metadata_forced (Suc n) E r (set_md r f) ?s3 = (Inr 0, s')
     \<and> store (kinetic s') = (store (kinetic s))(systemPath (mdis s ! r) \<mapsto>
         \<lparr>kr_value = md_SerializeAsString E (f x), kr_version = uuid_generate E (Suc (uuids s))\<rparr>)
     \<and> md (mdis s' ! r) = f x"
    using put_metadata_forced_current [of r ?s3 n f] r st s2 by (simp add: version_matches_def setMD_def)
  ultimately show ?thesis by simp
qed

lemma put_data_current:
  assumes "r < length (dis s)"
    "version_matches (store (kinetic s) (di_key (dis s ! r))) (di_keyVersion (dis s ! r)) REQUIRE_SAME_VERSION"
  shows "\<exists>s'. put_data (Suc n) E r s = (Inr 0, s')
     \<and> store (kinetic s') = (store (kinetic s))(di_key (dis s ! r) \<mapsto>
         \<lparr>kr_value = di_data (dis s ! r), kr_version = uuid_generate E (uuids s)\<rparr>)
     \<and> dis s' ! r = (dis s ! r)\<lparr>di_updates := [], di_keyVersion := uuid_generate E (uuids s)\<rparr>"
proof -
  from Put_matches [OF assms(2)] obtain n' where
    "ns_Put (ns E) (di_key (dis s ! r)) (di_keyVersion (dis s ! r)) REQUIRE_SAME_VERSION
       \<lparr>kr_value = di_data (dis s ! r), kr_version = uuid_generate E (uuids s)\<rparr> (kinetic s) = (OK, n')"
    "store n' = (store (kinetic s))(di_key (dis s ! r) \<mapsto>
       \<lparr>kr_value = di_data (dis s ! r), kr_version = uuid_generate E (uuids s)\<rparr>)"
    by blast
  then show ?thesis using assms(1) by (simp add: cmd_simps forgetUpdates_def)
qed

lemma put_data_stale:
  assumes r: "r < length (dis s)" and st: "store (kinetic s) (di_key (dis s ! r)) = Some rec"
    and old: "kr_version rec \<noteq> di_keyVersion (dis s ! r)"
    and merge: "mergeDataChanges (kr_value rec) (dis s ! r) = Inr d'" "di_key d' = di_key (dis s ! r)"
  shows "\<exists>s'. put_data (Suc (Suc n)) E r s = (Inr 0, s')
     \<and> store (kinetic s') = (store (kinetic s))(di_key (dis s ! r) \<mapsto>
         \<lparr>kr_value = di_data d', kr_version = uuid_generate E (Suc (uuids s))\<rparr>)
     \<and> dis s' ! r = d'\<lparr>di_updates := [], di_keyVersion := uuid_generate E (Suc (uuids s))\<rparr>"
proof -
  have "\<not> version_matches (store (kinetic s) (di_key (dis s ! r))) (di_keyVersion (dis s ! r)) REQUIRE_SAME_VERSION"
    using st old by (simp add: version_matches_def)
  note mismatch = Put_mismatch [OF this]
  let ?s1 = "s\<lparr>uuids := Suc (uuids s), dis := (dis s)[r := d'\<lparr>di_keyVersion := kr_version rec\<rparr>]\<rparr>"
  have "put_data (Suc (Suc n)) E r s = put_data (Suc n) E r ?s1"
    using r mismatch Get_present [OF st] merge by (simp add: cmd_simps del: put_data.simps(2) add: put_data.simps(2) [of "Suc n"])
  moreover have "\<exists>s'. put_data (Suc n) E r ?s1 = (Inr 0, s')
     \<and> store (kinetic s') = (store (kinetic s))(di_key (dis s ! r) \<mapsto>
         \<lparr>kr_value = di_data d', kr_version = uuid_generate E (Suc (uuids s))\<rparr>)
     \<and> dis s' ! r = d'\<lparr>di_updates := [], di_keyVersion := uuid_generate E (Suc (uuids s))\<rparr>"
    using put_data_current [of r ?s1 n] r st merge(2) by (simp add: version_matches_def)
  ultimately show ?thesis by simp
qed

lemma put_db_entry_absent:
  assumes "store (kinetic s) (db_entry_key v) = None"
  shows "\<exists>n'. put_db_entry E v en s = (Inr 0, s\<lparr>kinetic := n'\<rparr>)
     \<and> store n' = (store (kinetic s))
         (db_entry_key v \<mapsto> \<lparr>kr_value = entry_SerializeAsString E en, kr_version = to_string v\<rparr>,
          db_version_key \<mapsto> \<lparr>kr_value = '''', kr_version = to_string v\<rparr>)"
proof -
  let ?r = "\<lparr>kr_value = entry_SerializeAsString E en, kr_version = to_string v\<rparr>"
  let ?e = "\<lparr>kr_value = '''', kr_version = to_string v\<rparr>"
  obtain n1 where n1: "ns_Put (ns E) (db_entry_key v) '''' REQUIRE_SAME_VERSION ?r (kinetic s) = (OK, n1)"
    "store n1 = (store (kinetic s))(db_entry_key v \<mapsto> ?r)"
    using Put_matches [of "kinetic s" "db_entry_key v" "''''" REQUIRE_SAME_VERSION ?r] assms
    by (auto simp: version_matches_def)
  obtain n2 where "ns_Put (ns E) db_version_key '''' IGNORE_VERSION ?e n1 = (OK, n2)"
    "store n2 = (store n1)(db_version_key \<mapsto> ?e)"
    using Put_matches [of n1 db_version_key "''''" IGNORE_VERSION ?e] by (auto simp: version_matches_def)
  with n1 show ?thesis by (intro exI [of _ n2]) (simp add: put_db_entry_def cmd_simps)
qed

lemma put_db_entry_present:
  assumes "store (kinetic s) (db_entry_key v) = Some rec" "kr_version rec \<noteq> ''''"
  shows "put_db_entry E v en s = (Inr (- EEXIST), s)"
proof -
  have "\<not> version_matches (store (kinetic s) (db_entry_key v)) '''' REQUIRE_SAME_VERSION"
    using assms by (simp add: version_matches_def)
  from Put_mismatch [OF this] show ?thesis by (simp add: put_db_entry_def cmd_simps)
qed

lemma get_db_entry_present:
  assumes "store (kinetic s) (db_entry_key v) = Some rec" "entry_ParseFromString E (kr_value rec) = Some en"
  shows "get_db_entry E v s = (Inr (Inr en), s)"
  using assms by (simp add: get_db_entry_def cmd_simps Get_present)

lemma get_db_entry_absent:
  "store (kinetic s) (db_entry_key v) = None \<Longrightarrow> get_db_entry E v s = (Inr (Inl (- ENOENT)), s)"
  by (simp add: get_db_entry_def cmd_simps Get_absent)

lemma get_db_version_present:
  "store (kinetic s) db_version_key = Some rec \<Longrightarrow> get_db_version E s = (Inr (Inr (to_int64 (kr_version rec))), s)"
  by (simp add: get_db_version_def cmd_simps GetVersion_present)

lemma get_db_version_absent:
  "store (kinetic s) db_version_key = None \<Longrightarrow> get_db_version E s = (Inr (Inr 0), s)"
  by (simp add: get_db_version_def cmd_simps GetVersion_absent)

end

lemma to_string_not_Nil [simp]: "to_string i \<noteq> ''''"
  by (simp add: to_string_def)

lemma to_string_hd: "to_string i = c # cs \<Longrightarrow> is_digit c \<or> c = CHR ''-''"
  using nat_to_string_digits [of "nat \<bar>i\<bar>"] by (auto simp: to_string_def split: if_splits)

lemma to_string_no_name: "to_string v \<noteq> ''version''" "to_string v \<noteq> ''SNAPSHOT''"
  using to_string_hd [of v] by (auto simp: is_digit_def)

lemma db_keys_distinct [simp]:
  "db_entry_key v \<noteq> db_version_key" "db_entry_key v \<noteq> db_snapshot_key" "db_snapshot_key \<noteq> db_version_key"
  "db_version_key \<noteq> db_entry_key v" "db_snapshot_key \<noteq> db_entry_key v" "db_version_key \<noteq> db_snapshot_key"
  using to_string_no_name [of v] to_string_no_name [of v, symmetric]
  by (simp_all add: db_entry_key_def db_version_key_def db_snapshot_key_def)

lemma db_entry_key_inject [simp]: "db_entry_key v = db_entry_key w \<longleftrightarrow> v = w"
  by (simp add: db_entry_key_def)

lemma to_int64_to_string [simp]: "- (2 ^ 63) \<le> i \<Longrightarrow> i < 2 ^ 63 \<Longrightarrow> to_int64 (to_string i) = i"
  by (simp add: to_int64_def)

subsection \<open>Properties\<close>

text \<open>
  Metadata survives the way to the drive and back: creating the metadata of an object
  under a key that is free succeeds, and any object with this key that is read afterwards has
  the same metadata.
\<close>

theorem create_then_get_metadata:
  assumes "reliable_client E store" "r < length (mdis s)" "r' < length (mdis s)"
    "systemPath (mdis s ! r') = systemPath (mdis s ! r)" "store (kinetic s) (systemPath (mdis s ! r)) = None"
  shows "\<exists>s1 s2. create_metadata E r s = (Inr 0, s1) \<and> get_metadata E r' s1 = (Inr 0, s2)
     \<and> md (mdis s2 ! r') = md (mdis s ! r) \<and> keyVersion (mdis s2 ! r') = keyVersion (mdis s1 ! r)"
proof -
  let ?rec = "\<lparr>kr_value = md_SerializeAsString E (md (mdis s ! r)), kr_version = uuid_generate E (uuids s)\<rparr>"
  obtain s1 where 1: "create_metadata E r s = (Inr 0, s1)"
    and s1: "store (kinetic s1) (systemPath (mdis s ! r)) = Some ?rec"
      "mdis s1 = (mdis s)[r := (mdis s ! r)\<lparr>keyVersion := uuid_generate E (uuids s)\<rparr>]"
    using reliable_client.create_metadata_absent [OF assms(1,2,5)] by auto
  have "systemPath (mdis s1 ! r') = systemPath (mdis s ! r)"
    unfolding s1(2) using assms(2,4) by (cases "r' = r") simp_all
  then have "get_metadata E r' s1 = (Inr 0, s1\<lparr>mdis := (mdis s1)[r' := setMD (md (mdis s ! r)) (uuid_generate E (uuids s)) (mdis s1 ! r')]\<rparr>)"
    using reliable_client.get_metadata_present [OF assms(1), of r' s1 ?rec] s1 assms(3)
      reliable_client.md_codec [OF assms(1)] by simp
  with 1 s1(2) assms(2,3) show ?thesis by (simp add: setMD_def)
qed

definition two_objects :: "drive hflat_priv" where
  "two_objects = (hflat_priv_new [] 0 1024 FULL)
     \<lparr>mdis := [(MetadataInfo_new ''/f'')\<lparr>md := example_md 7 100 0x81A4\<rparr>, MetadataInfo_new ''/f'']\<rparr>"

lemmas two_objects_simps = two_objects_def hflat_priv_new_def MetadataInfo_new_def

theorem create_then_get_metadata_witness:
  "\<exists>s1 s2. create_metadata (drive_env 7 100 5) 0 two_objects = (Inr 0, s1)
     \<and> get_metadata (drive_env 7 100 5) 1 s1 = (Inr 0, s2)
     \<and> md (mdis s2 ! 1) = md (mdis two_objects ! 0) \<and> keyVersion (mdis s2 ! 1) = keyVersion (mdis s1 ! 0)"
  by (rule create_then_get_metadata [OF example.reliable_client_axioms])
     (simp_all add: two_objects_simps)

text \<open>
  C16. No lost update: a client can overwrite metadata exactly when the version on the drive
  is the one it has read. Otherwise it gets \<open>-EAGAIN\<close>, the drive is as it was, and the stale
  object is gone from the lookup cache, so that the next lookup reads the drive.
\<close>

theorem put_metadata_no_lost_update:
  assumes "reliable_client E store" "r < length (mdis s)" "key = systemPath (mdis s ! r)"
    "lru_valid (mdi_key s) (lookup_cache s)" "store (kinetic s) key = Some rec"
  shows "\<exists>err s'. put_metadata E r s = (Inr err, s') \<and>
     (if kr_version rec = keyVersion (mdis s ! r)
      then err = 0 \<and> (\<exists>v. store (kinetic s') = (store (kinetic s))(key \<mapsto>
             \<lparr>kr_value = md_SerializeAsString E (md (mdis s ! r)), kr_version = v\<rparr>) \<and> keyVersion (mdis s' ! r) = v)
      else err = - EAGAIN \<and> kinetic s' = kinetic s \<and> lru_contents (lookup_cache s') key = None)"
proof (cases "kr_version rec = keyVersion (mdis s ! r)")
  case True
  then show ?thesis
    using reliable_client.put_metadata_current [OF assms(1,2)] assms(2,3,5) by (fastforce simp: version_matches_def)
next
  case False
  then show ?thesis
    using reliable_client.put_metadata_stale [OF assms(1,2)] assms(3,5) lru_invalidate_result(3) [OF assms(4), of key]
    by (simp add: version_matches_def)
qed

definition stale_object :: "drive hflat_priv" where
  "stale_object = (hflat_priv_new [(''/f'', \<lparr>kr_value = enc_md (example_md 8 100 0x81A4), kr_version = ''v2''\<rparr>)] 0 1024 FULL)
     \<lparr>mdis := [(MetadataInfo_new ''/f'')\<lparr>md := example_md 7 100 0x81A4, keyVersion := ''v1''\<rparr>]\<rparr>"

lemmas stale_object_simps = stale_object_def hflat_priv_new_def MetadataInfo_new_def LRUcache_new_def
  lru_valid_def lru_ok_def

theorem put_metadata_no_lost_update_witness:
  "\<exists>err s'. put_metadata (drive_env 7 100 5) 0 stale_object = (Inr err, s') \<and>
     (if kr_version \<lparr>kr_value = enc_md (example_md 8 100 0x81A4), kr_version = ''v2''\<rparr> = keyVersion (mdis stale_object ! 0)
      then err = 0 \<and> (\<exists>v. map_of (kinetic s') = (map_of (kinetic stale_object))(''/f'' \<mapsto>
             \<lparr>kr_value = md_SerializeAsString (drive_env 7 100 5) (md (mdis stale_object ! 0)), kr_version = v\<rparr>)
             \<and> keyVersion (mdis s' ! 0) = v)
      else err = - EAGAIN \<and> kinetic s' = kinetic stale_object \<and> lru_contents (lookup_cache s') ''/f'' = None)"
  by (rule put_metadata_no_lost_update [OF example.reliable_client_axioms])
     (simp_all add: stale_object_simps)

text \<open>
  A forced update survives a conflict and so does the other client's change, while the
  caller's own unsaved changes do not: when another client has written the metadata, the
  second attempt succeeds and stores the update applied to what the other client has written.
  Whatever else the caller had changed in its copy before the call is dropped, which is the
  case for the new path permissions that a change of permissions has just computed.
\<close>

theorem put_metadata_forced_rebases:
  assumes "reliable_client E store" "r < length (mdis s)"
    "store (kinetic s) (systemPath (mdis s ! r)) = Some \<lparr>kr_value = md_SerializeAsString E theirs, kr_version = v\<rparr>"
    "v \<noteq> keyVersion (mdis s ! r)"
  shows "\<exists>s'. put_metadata_forced 2 E r (set_md r f) s = (Inr 0, s')
     \<and> store (kinetic s') (systemPath (mdis s ! r)) =
         Some \<lparr>kr_value = md_SerializeAsString E (f theirs), kr_version = uuid_generate E (Suc (uuids s))\<rparr>
     \<and> md (mdis s' ! r) = f theirs"
  using reliable_client.put_metadata_forced_stale [OF assms(1-3), of theirs 0 f]
    reliable_client.md_codec [OF assms(1)] assms(4) by (auto simp: numeral_2_eq_2 simp del: put_metadata_forced.simps)

theorem put_metadata_forced_rebases_witness:
  "\<exists>s'. put_metadata_forced 2 (drive_env 7 100 5) 0 (set_md 0 (path_permission_verified_update (\<lambda>_. 9))) stale_object = (Inr 0, s')
     \<and> map_of (kinetic s') (systemPath (mdis stale_object ! 0)) =
         Some \<lparr>kr_value = md_SerializeAsString (drive_env 7 100 5) ((example_md 8 100 0x81A4)\<lparr>path_permission_verified := 9\<rparr>),
              kr_version = uuid_generate (drive_env 7 100 5) (Suc (uuids stale_object))\<rparr>
     \<and> md (mdis s' ! 0) = (example_md 8 100 0x81A4)\<lparr>path_permission_verified := 9\<rparr>"
  by (rule put_metadata_forced_rebases [OF example.reliable_client_axioms, where v = "''v2''"])
     (simp_all add: stale_object_simps)

text \<open>
  C27. Two clients that write different parts of one block both find their bytes on the drive:
  when the block has been written by somebody else since it was read, putting it merges and
  stores every byte this client has written and every other byte as the other client left it,
  within two attempts.
\<close>

theorem put_data_keeps_both_writers:
  assumes "reliable_client E store" "r < length (dis s)"
    "store (kinetic s) (di_key (dis s ! r)) = Some \<lparr>kr_value = theirs, kr_version = v\<rparr>"
    "v \<noteq> di_keyVersion (dis s ! r)" "only_writes (dis s ! r)" "length theirs \<le> max_block"
  shows "\<exists>s' content v'. put_data 2 E r s = (Inr 0, s')
     \<and> store (kinetic s') (di_key (dis s ! r)) = Some \<lparr>kr_value = content, kr_version = v'\<rparr>
     \<and> length content = max (length theirs) (length (di_data (dis s ! r)))
     \<and> (\<forall>i. byte_at content i = (if written (di_updates (dis s ! r)) i then byte_at (di_data (dis s ! r)) i else byte_at theirs i))
     \<and> \<not> hasUpdates (dis s' ! r) \<and> di_keyVersion (dis s' ! r) = v'"
proof -
  obtain d' where d': "mergeDataChanges theirs (dis s ! r) = Inr d'"
    "length (di_data d') = max (length theirs) (length (di_data (dis s ! r)))"
    "\<forall>i. byte_at (di_data d') i = (if written (di_updates (dis s ! r)) i then byte_at (di_data (dis s ! r)) i else byte_at theirs i)"
    "di_key d' = di_key (dis s ! r)"
    using merge_result [OF assms(5,6)] by blast
  show ?thesis
    using reliable_client.put_data_stale [OF assms(1-3), of d' 0] d' assms(4)
    by (auto simp: numeral_2_eq_2 hasUpdates_def simp del: put_data.simps)
qed

definition two_writers_state :: "drive hflat_priv" where
  "two_writers_state = (hflat_priv_new [(''1_0'', \<lparr>kr_value = ''PQcdef'', kr_version = ''v2''\<rparr>)] 0 1024 FULL)
     \<lparr>dis := [two_writers]\<rparr>"

theorem put_data_keeps_both_writers_witness:
  "\<exists>s' content v'. put_data 2 (drive_env 7 100 5) 0 two_writers_state = (Inr 0, s')
     \<and> map_of (kinetic s') (di_key (dis two_writers_state ! 0)) = Some \<lparr>kr_value = content, kr_version = v'\<rparr>
     \<and> length content = max (length ''PQcdef'') (length (di_data (dis two_writers_state ! 0)))
     \<and> (\<forall>i. byte_at content i = (if written (di_updates (dis two_writers_state ! 0)) i
          then byte_at (di_data (dis two_writers_state ! 0)) i else byte_at ''PQcdef'' i))
     \<and> \<not> hasUpdates (dis s' ! 0) \<and> di_keyVersion (dis s' ! 0) = v'"
  by (rule put_data_keeps_both_writers [OF example.reliable_client_axioms, where v = "''v2''"])
     (simp_all add: two_writers_state_def two_writers_def hflat_priv_new_def only_writes_def)

text \<open>
  The log of the path mapping database is a sequence of slots each of which is taken
  once: appending to a free slot succeeds and advances the version, the entry can be read, and
  a second client that appends to the same slot gets \<open>-EEXIST\<close> and changes nothing.
\<close>

theorem db_log_slot_taken_once:
  assumes "reliable_client E store" "store (kinetic s) (db_entry_key v) = None" "- (2 ^ 63) \<le> v" "v < 2 ^ 63"
  shows "\<exists>s1. put_db_entry E v en s = (Inr 0, s1)
     \<and> get_db_entry E v s1 = (Inr (Inr en), s1) \<and> get_db_version E s1 = (Inr (Inr v), s1)
     \<and> put_db_entry E v en' s1 = (Inr (- EEXIST), s1)"
proof -
  obtain s1 where 1: "put_db_entry E v en s = (Inr 0, s1)"
    and at: "store (kinetic s1) (db_entry_key v) = Some \<lparr>kr_value = entry_SerializeAsString E en, kr_version = to_string v\<rparr>"
      "store (kinetic s1) db_version_key = Some \<lparr>kr_value = '''', kr_version = to_string v\<rparr>"
    using reliable_client.put_db_entry_absent [OF assms(1,2), of en] by auto
  with reliable_client.get_db_entry_present [OF assms(1) at(1)] reliable_client.entry_codec [OF assms(1)]
    reliable_client.get_db_version_present [OF assms(1) at(2)] reliable_client.put_db_entry_present [OF assms(1) at(1)] assms(3,4)
  show ?thesis by auto
qed

theorem db_log_slot_taken_once_witness:
  "\<exists>s1. put_db_entry (drive_env 7 100 5) 3 \<lparr>entry_origin = ''/a'', entry_type = db_entry_Type_MOVE, entry_target = ''/b''\<rparr> two_objects = (Inr 0, s1)
     \<and> get_db_entry (drive_env 7 100 5) 3 s1 = (Inr (Inr \<lparr>entry_origin = ''/a'', entry_type = db_entry_Type_MOVE, entry_target = ''/b''\<rparr>), s1)
     \<and> get_db_version (drive_env 7 100 5) s1 = (Inr (Inr 3), s1)
     \<and> put_db_entry (drive_env 7 100 5) 3 \<lparr>entry_origin = ''/c'', entry_type = db_entry_Type_NONE, entry_target = ''''\<rparr> s1 = (Inr (- EEXIST), s1)"
  by (rule db_log_slot_taken_once [OF example.reliable_client_axioms]) (simp_all add: two_objects_simps)

end
