(* ===== verification/HFlat_Util.thy ===== *)
theory HFlat_Util
  imports Kinetic_Helper_Props Path_Map_Props
begin

section \<open>Inode numbers and the shared database\<close>

text \<open>
  util.cc. Inode numbers are handed out from ranges of 65535 numbers that a client reserves by
  advancing a counter on the drive. The database of path mappings is a log on the drive that
  every client replays into its own PathMapDB: \<^verbatim>\<open>database_update\<close> catches up with it and
  \<^verbatim>\<open>database_operation\<close> appends to it.
\<close>

subsection \<open>Model\<close>

definition inode_base_key :: string where
  "inode_base_key = ''inode_generation''"

abbreviation (input) UINT16_MAX :: int where "UINT16_MAX \<equiv> 65535"

fun grab_inode_generation_token :: "nat \<Rightarrow> 'n env \<Rightarrow> ('n, int) fs" where
  "grab_inode_generation_token 0 E = halt OutOfFuel"
| "grab_inode_generation_token (Suc n) E =
     call (run_ns (ns_GetVersion (ns E) inode_base_key)) (\<lambda>(status, v).
       if status \<noteq> OK \<and> status \<noteq> REMOTE_NOT_FOUND then ret (- EIO)
       else call (case (status, v) of
                    (OK, None) \<Rightarrow> halt Undefined_Behaviour
                  | (OK, Some v) \<Rightarrow> modify (\<lambda>s. s\<lparr>inum_base := to_int64 v\<rparr>)
                  | _ \<Rightarrow> modify (\<lambda>s. s\<lparr>inum_base := 0\<rparr>)) (\<lambda>_.
       call (reads inum_base) (\<lambda>b.
       call (run_ns (ns_Put (ns E) inode_base_key (if b \<noteq> 0 then to_string b else '''') REQUIRE_SAME_VERSION
                \<lparr>kr_value = '''', kr_version = to_string (b + UINT16_MAX)\<rparr>)) (\<lambda>status.
         if status = REMOTE_VERSION_MISMATCH then grab_inode_generation_token n E
         else if status \<noteq> OK then ret (- EIO)
         else ret 0))))"

text \<open>A failure to reserve a new range is logged; the counter starts over all the same.\<close>

definition generate_inode_number :: "nat \<Rightarrow> 'n env \<Rightarrow> ('n, 64 word) fs" where
  "generate_inode_number n E =
     call (modify (\<lambda>s. s\<lparr>inum_counter := inum_counter s + 1\<rparr>)) (\<lambda>_.
     call (reads inum_counter) (\<lambda>c.
     call (if c = of_int UINT16_MAX
           then call (grab_inode_generation_token n E) (\<lambda>_. modify (\<lambda>s. s\<lparr>inum_counter := 0\<rparr>))
           else ret ()) (\<lambda>_.
     reads (\<lambda>s. word_of_int (inum_base s + uint (inum_counter s))))))"

text \<open>With no separator \<^verbatim>\<open>npos + 1\<close> is 0 and the whole path is the name.\<close>

definition path_to_filename :: "string \<Rightarrow> string" where
  "path_to_filename path = (case find_last (\<lambda>c. is_slash c \<or> is_colon c) path of
     None \<Rightarrow> path | Some pos \<Rightarrow> drop (pos + 1) path)"

fun get_db_entries :: "'n env \<Rightarrow> int \<Rightarrow> nat \<Rightarrow> ('n, int + db_entry list) fs" where
  "get_db_entries E v 0 = ret (Inr [])"
| "get_db_entries E v (Suc k) =
     call (get_db_entry E v) (\<lambda>en. case en of
        Inl err \<Rightarrow> ret (Inl err)
      | Inr en \<Rightarrow> call (get_db_entries E (v + 1) k) (\<lambda>ens. case ens of
            Inl err \<Rightarrow> ret (Inl err) | Inr ens \<Rightarrow> ret (Inr (en # ens))))"

definition update_pmap :: "(PathMapDB \<Rightarrow> stop + 'a \<times> PathMapDB) \<Rightarrow> ('n, 'a) fs" where
  "update_pmap f = (\<lambda>s. case f (pmap s) of Inl e \<Rightarrow> (Inl e, s) | Inr (a, db) \<Rightarrow> (Inr a, s\<lparr>pmap := db\<rparr>))"

definition load_remote_snapshot :: "'n env \<Rightarrow> ('n, unit) fs" where
  "load_remote_snapshot E = call (get_db_snapshot E) (\<lambda>sn. case sn of
     Inl _ \<Rightarrow> ret ()
   | Inr sn \<Rightarrow> call (update_pmap (\<lambda>db. Inr (loadSnapshot sn db))) (\<lambda>_. ret ()))"

definition database_update :: "'n env \<Rightarrow> ('n, int) fs" where
  "database_update E =
     call (reads (\<lambda>s. getSnapshotVersion (pmap s))) (\<lambda>snapshotVersion.
     call (get_db_version E) (\<lambda>dbv. case dbv of
       Inl err \<Rightarrow> ret err
     | Inr dbVersion \<Rightarrow>
       call (check_assert (dbVersion \<ge> snapshotVersion)) (\<lambda>_.
       call (if dbVersion = snapshotVersion
             then call (get_db_entry E (dbVersion + 1)) (\<lambda>en. case en of
                     Inl _ \<Rightarrow> ret None | Inr _ \<Rightarrow> ret (Some (dbVersion + 1)))
             else ret (Some dbVersion)) (\<lambda>dbv. case dbv of
         None \<Rightarrow> ret (- EALREADY)
       | Some dbVersion \<Rightarrow>
         call (if dbVersion - snapshotVersion > 42 then load_remote_snapshot E else ret ()) (\<lambda>_.
         call (if dbVersion - snapshotVersion > 42 then reads (\<lambda>s. getSnapshotVersion (pmap s))
               else ret snapshotVersion) (\<lambda>snapshotVersion.
         call (get_db_entries E (snapshotVersion + 1) (nat (dbVersion - snapshotVersion))) (\<lambda>ens. case ens of
           Inl err \<Rightarrow> ret err
         | Inr ens \<Rightarrow> update_pmap (updateSnapshot ens snapshotVersion dbVersion))))))))"

fun database_operation :: "nat \<Rightarrow> 'n env \<Rightarrow> db_entry \<Rightarrow> ('n, int) fs" where
  "database_operation 0 E entry = halt OutOfFuel"
| "database_operation (Suc n) E entry =
     call (reads (\<lambda>s. getSnapshotVersion (pmap s))) (\<lambda>snapshotVersion.
     call (put_db_entry E (snapshotVersion + 1) entry) (\<lambda>err.
       if err = 0 then
         call (update_pmap (updateSnapshot [entry] snapshotVersion (snapshotVersion + 1))) (\<lambda>_.
         call (if snapshotVersion mod 42 = 0
               then call (reads (\<lambda>s. serializeSnapshot (pmap s))) (\<lambda>sn.
                    call (put_db_snapshot E sn) (\<lambda>_. ret ()))
               else ret ()) (\<lambda>_. ret 0))
       else if err \<noteq> - EEXIST then ret err
       else call (database_update E) (\<lambda>err.
              if err \<noteq> 0 then ret err else database_operation n E entry)))"

end
