(* ===== verification/HFlat_Lookup.thy ===== *)
theory HFlat_Lookup
  imports HFlat_Util
begin

section \<open>Lookup\<close>

text \<open>
  lookup.cc: from a path to a metadata object. The path is translated, the object is taken
  from the lookup cache or fetched from the drive (also when it does not exist: the cache then
  keeps an object without an inode number), hard links are followed, an object left behind by
  a directory move triggers an update of the database, and path permissions that are older
  than the database demands are inherited again from the parent. The reference parameter is
  threaded: a call that fails early leaves it as it was.
\<close>

definition get_metadata_userpath :: "nat \<Rightarrow> 'n env \<Rightarrow> string \<Rightarrow> nat option \<Rightarrow> ('n, int \<times> nat option) fs" where
  "get_metadata_userpath n E user_path mdi =
     call (reads pmap) (\<lambda>db.
     call (lift (toSystemPath n db user_path LOOKUP)) (\<lambda>(key, pathPermissionTimeStamp).
       if pathPermissionTimeStamp < 0 then ret (pathPermissionTimeStamp, mdi)
       else call (new_mdi (MetadataInfo_new key)) (\<lambda>r.
            call (get_metadata E r) (\<lambda>err. ret (err, Some r)))))"

text \<open>
  The loop around the cache: a miss is followed by an attempt to block the key. When another
  thread has blocked it, the next \<^verbatim>\<open>get\<close> waits for that thread. The value is an error, or
  whether the object was cached with its address.
\<close>

definition lookup_fetch :: "'n env \<Rightarrow> string \<Rightarrow> ('n, int \<times> nat + bool \<times> nat) fs" where
  "lookup_fetch E key =
     call (lookup_get E key) (\<lambda>hit. case hit of
       Some r \<Rightarrow> ret (Inr (True, r))
     | None \<Rightarrow>
         call (lookup_block key) (\<lambda>blocked.
         if \<not> blocked then halt Deadlock
         else
           call (new_mdi (MetadataInfo_new key)) (\<lambda>r.
           call (get_metadata E r) (\<lambda>err.
             if err = - ENOENT then call (REQ_TRUE (lookup_add E key r)) (\<lambda>_. ret (Inr (False, r)))
             else if err \<noteq> 0 then call (lookup_invalidate key) (\<lambda>_. ret (Inl (err, r)))
             else ret (Inr (False, r))))))"

definition inherit_from :: "nat \<Rightarrow> nat \<Rightarrow> ('n, unit) fs" where
  "inherit_from mdi mdi_parent =
     call (mdi_at mdi) (\<lambda>m.
     call (mdi_at mdi_parent) (\<lambda>p.
     call (lift (inherit_path_permissions (md m) (md p))) (\<lambda>x.
     set_md mdi (\<lambda>_. x))))"

definition hardlink_key :: "64 word \<Rightarrow> string" where
  "hardlink_key i = ''hardlink_'' @ to_string (uint i)"

definition HardlinkS_copy :: "string \<Rightarrow> 64 word \<Rightarrow> MetadataInfo" where
  "HardlinkS_copy key i = (MetadataInfo_new key)\<lparr>md := Metadata_default\<lparr>md_type := HARDLINK_S, inode_number := i\<rparr>\<rparr>"

definition parent_path :: "string \<Rightarrow> string option" where
  "parent_path path = (case find_last (\<lambda>c. is_slash c \<or> is_colon c) path of
     None \<Rightarrow> None | Some pos \<Rightarrow> Some (take (if pos = 0 then 1 else pos) path))"

text \<open>Both functions recur into each other; \<open>n\<close> bounds the depth.\<close>

fun lookup :: "nat \<Rightarrow> 'n env \<Rightarrow> string \<Rightarrow> nat option \<Rightarrow> ('n, int \<times> nat option) fs"
and lookup_parent :: "nat \<Rightarrow> 'n env \<Rightarrow> string \<Rightarrow> nat option \<Rightarrow> ('n, int \<times> nat option) fs" where
  "lookup 0 E user_path mdi = halt OutOfFuel"
| "lookup (Suc n) E user_path mdi =
     call (reads pmap) (\<lambda>db.
     call (lift (toSystemPath (Suc n) db user_path LOOKUP)) (\<lambda>(key, pathPermissionTimeStamp).
       if pathPermissionTimeStamp < 0 then ret (pathPermissionTimeStamp, mdi)
       else call (lookup_fetch E key) (\<lambda>fetched. case fetched of
         Inl (err, r) \<Rightarrow> ret (err, Some r)
       | Inr (cached, r) \<Rightarrow>
         call (mdi_at r) (\<lambda>m.
         if inode_number (md m) = 0 then ret (- ENOENT, Some r)
         else if md_type (md m) = HARDLINK_S then
           call (if cached then ret () else
                 call (new_mdi (HardlinkS_copy key (inode_number (md m)))) (\<lambda>mdi_source.
                 REQ_TRUE (lookup_add E key mdi_source))) (\<lambda>_.
           lookup n E (hardlink_key (inode_number (md m))) (Some r))
         else if md_type (md m) = FORCE_UPDATE then
           call (database_update E) (\<lambda>err.
           call (lookup_invalidate key) (\<lambda>_.
             if err \<noteq> 0 then ret (err, Some r) else lookup n E user_path (Some r)))
         else
           call (if cached then ret () else REQ_TRUE (lookup_add E key r)) (\<lambda>_.
           if path_permission_verified (md m) < pathPermissionTimeStamp then
             call (lookup_parent n E user_path None) (\<lambda>(err, mdi_parent).
               if err \<noteq> 0 \<and> err \<noteq> - EACCES then ret (err, Some r)
               else case mdi_parent of
                  None \<Rightarrow> halt Undefined_Behaviour
                | Some p \<Rightarrow>
                  call (inherit_from r p) (\<lambda>_.
                  call (put_metadata E r) (\<lambda>err.
                    if err = - EAGAIN then lookup n E user_path (Some r)
                    else if err \<noteq> 0 then ret (err, Some r)
                    else call (mdi_at r) (\<lambda>m.
                         ret (check_path_permissions (ctx_uid E) (ctx_gid E) (path_permission (md m)), Some r)))))
           else ret (check_path_permissions (ctx_uid E) (ctx_gid E) (path_permission (md m)), Some r))))))"
| "lookup_parent 0 E user_path mdi_parent = halt OutOfFuel"
| "lookup_parent (Suc n) E user_path mdi_parent =
     (case parent_path user_path of
        None \<Rightarrow> ret (- EINVAL, mdi_parent)
      | Some path \<Rightarrow>
        call (lookup n E path mdi_parent) (\<lambda>(err, mdi_parent).
          if err \<noteq> 0 then ret (err, mdi_parent)
          else case mdi_parent of
             None \<Rightarrow> halt Undefined_Behaviour
           | Some p \<Rightarrow>
             call (mdi_at p) (\<lambda>m.
               if \<not> S_ISDIR (mode (md m)) then ret (- ENOTDIR, mdi_parent)
               else ret (check_path_permissions (ctx_uid E) (ctx_gid E) (path_permission_children (md m)), mdi_parent))))"

end
