(* ===== verification/Fuse_Files.thy ===== *)
theory Fuse_Files
  imports HFlat_Lookup
begin

unbundle bit_operations_syntax

section \<open>Files and directories\<close>

text \<open>
  The operations of fuseops/directory.cc, fuseops/file.cc and fuseops/permission.cc that FUSE
  calls, apart from the flushing of data. A directory is the set of keys that start with its
  inode number; creating an entry is the point where clients that create the same name are
  serialized. Operations that start over after a lost race carry fuel.
\<close>

definition check_access_to :: "'n env \<Rightarrow> nat \<Rightarrow> 32 word \<Rightarrow> ('n, int) fs" where
  "check_access_to E mdi req = call (mdi_at mdi) (\<lambda>m. ret (check_access (ctx_uid E) (ctx_gid E) (md m) req))"

subsection \<open>Directory entries\<close>

definition direntry_key :: "64 word \<Rightarrow> string \<Rightarrow> string" where
  "direntry_key ino filename = to_string (uint ino) @ ''|'' @ filename"

definition touch_parent :: "nat \<Rightarrow> 'n env \<Rightarrow> nat \<Rightarrow> ('n, unit) fs" where
  "touch_parent n E mdi_parent =
     call (reads posix) (\<lambda>p.
       if p = FULL then
         call (put_metadata_forced n E mdi_parent (set_mdi mdi_parent (updateACMtime (time_now E)))) (\<lambda>_. ret ())
       else ret ())"

definition create_directory_entry :: "nat \<Rightarrow> 'n env \<Rightarrow> nat \<Rightarrow> string \<Rightarrow> ('n, int) fs" where
  "create_directory_entry n E mdi_parent filename =
     call (mdi_at mdi_parent) (\<lambda>p.
     call (run_ns (ns_Put (ns E) (direntry_key (inode_number (md p)) filename) '''' REQUIRE_SAME_VERSION
             \<lparr>kr_value = '''', kr_version = to_string 1\<rparr>)) (\<lambda>status.
       if status = REMOTE_VERSION_MISMATCH then ret (- EEXIST)
       else if status \<noteq> OK then ret (- EIO)
       else call (touch_parent n E mdi_parent) (\<lambda>_. ret 0)))"

definition delete_directory_entry :: "nat \<Rightarrow> 'n env \<Rightarrow> nat \<Rightarrow> string \<Rightarrow> ('n, int) fs" where
  "delete_directory_entry n E mdi_parent filename =
     call (mdi_at mdi_parent) (\<lambda>p.
     call (run_ns (ns_Delete (ns E) (direntry_key (inode_number (md p)) filename) (to_string 1) REQUIRE_SAME_VERSION)) (\<lambda>status.
       if status \<noteq> OK then ret (- EIO)
       else call (touch_parent n E mdi_parent) (\<lambda>_. ret 0)))"

subsection \<open>Creating\<close>

definition initialize_metadata :: "nat \<Rightarrow> 'n env \<Rightarrow> nat \<Rightarrow> nat \<Rightarrow> 32 word \<Rightarrow> ('n, unit) fs" where
  "initialize_metadata n E mdi mdi_parent fmode =
     call (set_mdi mdi (updateACMtime (time_now E))) (\<lambda>_.
     call (set_md mdi (\<lambda>m. m\<lparr>md_type := POSIX, gid := ctx_gid E, uid := ctx_uid E, mode := fmode\<rparr>)) (\<lambda>_.
     call (generate_inode_number n E) (\<lambda>ino.
     call (set_md mdi (\<lambda>m. m\<lparr>inode_number := ino\<rparr>)) (\<lambda>_.
     inherit_from mdi mdi_parent))))"

definition hflat_create :: "nat \<Rightarrow> 'n env \<Rightarrow> string \<Rightarrow> 32 word \<Rightarrow> ('n, int) fs" where
  "hflat_create n E user_path fmode =
     call (lookup n E user_path None) (\<lambda>(err, mdi).
       if err = 0 then ret (- EEXIST)
       else if err \<noteq> - ENOENT then ret err
       else
     call (lookup_parent n E user_path None) (\<lambda>(err, mdi_dir).
       if err = - ENOENT \<and> CHR '':'' \<in> set user_path then ret (- ENOTDIR)
       else if err \<noteq> 0 then ret err
       else
     deref mdi_dir (\<lambda>mdi_dir.
     call (check_access_to E mdi_dir W_OK) (\<lambda>err.
       if err \<noteq> 0 then ret err else
     call (create_directory_entry n E mdi_dir (path_to_filename user_path)) (\<lambda>err.
       if err \<noteq> 0 then ret err else
     deref mdi (\<lambda>mdi.
     call (initialize_metadata n E mdi mdi_dir fmode) (\<lambda>_.
     call (REQ_0 (create_metadata E mdi)) (\<lambda>_.
     ret 0))))))))"

definition hflat_fcreate :: "nat \<Rightarrow> 'n env \<Rightarrow> string \<Rightarrow> 32 word \<Rightarrow> ('n, int) fs" where
  "hflat_fcreate n E user_path fmode = hflat_create n E user_path fmode"

definition hflat_mknod :: "nat \<Rightarrow> 'n env \<Rightarrow> string \<Rightarrow> 32 word \<Rightarrow> ('n, int) fs" where
  "hflat_mknod n E user_path fmode = hflat_create n E user_path fmode"

definition hflat_mkdir :: "nat \<Rightarrow> 'n env \<Rightarrow> string \<Rightarrow> 32 word \<Rightarrow> ('n, int) fs" where
  "hflat_mkdir n E user_path fmode = hflat_create n E user_path (fmode OR S_IFDIR)"

subsection \<open>Opening and access\<close>

abbreviation (input) O_ACCMODE :: "32 word" where "O_ACCMODE \<equiv> 3"
abbreviation (input) O_RDONLY :: "32 word" where "O_RDONLY \<equiv> 0"
abbreviation (input) O_WRONLY :: "32 word" where "O_WRONLY \<equiv> 1"
abbreviation (input) O_RDWR :: "32 word" where "O_RDWR \<equiv> 2"
abbreviation (input) O_APPEND :: "32 word" where "O_APPEND \<equiv> 0x400"

definition hflat_open :: "nat \<Rightarrow> 'n env \<Rightarrow> string \<Rightarrow> 32 word \<Rightarrow> ('n, int) fs" where
  "hflat_open n E user_path flags =
     call (lookup n E user_path None) (\<lambda>(err, mdi).
       if err \<noteq> 0 then ret err else
     deref mdi (\<lambda>mdi.
       let access = flags AND O_ACCMODE in
       if access = O_RDONLY then check_access_to E mdi R_OK
       else if access = O_WRONLY then check_access_to E mdi W_OK
       else if access = O_RDWR then check_access_to E mdi (R_OK OR W_OK)
       else ret 0))"

definition hflat_access :: "nat \<Rightarrow> 'n env \<Rightarrow> string \<Rightarrow> 32 word \<Rightarrow> ('n, int) fs" where
  "hflat_access n E user_path req =
     (if length user_path = 1 then ret 0
      else if ctx_uid E = 0 then ret 0
      else call (lookup n E user_path None) (\<lambda>(err, mdi).
        if err \<noteq> 0 then ret err else deref mdi (\<lambda>mdi. check_access_to E mdi req)))"

subsection \<open>Removing\<close>

definition unlink_force_update :: "nat \<Rightarrow> 'n env \<Rightarrow> string \<Rightarrow> ('n, int) fs" where
  "unlink_force_update n E user_path =
     call (get_metadata_userpath n E user_path None) (\<lambda>(err, mdi_fu).
       if err = - ENOENT then ret 0
       else if err \<noteq> 0 then ret err
       else deref mdi_fu (\<lambda>mdi_fu.
            call (mdi_at mdi_fu) (\<lambda>m.
            call (check_assert (md_type (md m) = FORCE_UPDATE)) (\<lambda>_.
            delete_metadata E mdi_fu))))"

text \<open>Whether the sticky bit of a directory keeps the caller from touching an entry of it.\<close>

definition sticky_denies :: "'n env \<Rightarrow> Metadata \<Rightarrow> Metadata \<Rightarrow> bool" where
  "sticky_denies E dir m \<longleftrightarrow>
     ctx_uid E \<noteq> 0 \<and> mode dir AND S_ISVTX \<noteq> 0 \<and> ctx_uid E \<noteq> uid dir \<and> ctx_uid E \<noteq> uid m"

definition unlink_lookup :: "nat \<Rightarrow> 'n env \<Rightarrow> string \<Rightarrow> ('n, int \<times> nat option \<times> nat option) fs" where
  "unlink_lookup n E user_path =
     call (lookup n E user_path None) (\<lambda>(err, mdi).
       if err \<noteq> 0 then ret (err, mdi, None) else
     call (lookup_parent n E user_path None) (\<lambda>(err, mdi_dir).
       if err \<noteq> 0 then ret (err, mdi, mdi_dir) else
     deref mdi (\<lambda>r. deref mdi_dir (\<lambda>d.
     call (check_access_to E d (W_OK OR X_OK)) (\<lambda>err.
       if err \<noteq> 0 then ret (- EACCES, mdi, mdi_dir) else
     call (mdi_at r) (\<lambda>m. call (mdi_at d) (\<lambda>dir.
     ret (if sticky_denies E (md dir) (md m) then - EACCES else 0, mdi, mdi_dir))))))))"

definition unlink_hardlink :: "nat \<Rightarrow> 'n env \<Rightarrow> string \<Rightarrow> nat \<Rightarrow> ('n, int) fs" where
  "unlink_hardlink n E user_path mdiT =
     call (get_metadata_userpath n E user_path None) (\<lambda>(err, mdiS).
       if err \<noteq> 0 then ret err else
     deref mdiS (\<lambda>mdiS.
     call (mdi_at mdiS) (\<lambda>sm.
     call (check_assert (md_type (md sm) = HARDLINK_S)) (\<lambda>_.
       if link_count (md sm) = 0 then ret (- EINVAL) else
     call (set_md mdiS (\<lambda>m. m\<lparr>link_count := 0\<rparr>)) (\<lambda>_.
     call (put_metadata E mdiS) (\<lambda>err.
       if err \<noteq> 0 then ret err else
     call (set_md mdiT (\<lambda>m. m\<lparr>link_count := link_count m - 1\<rparr>)) (\<lambda>_.
     call (mdi_at mdiT) (\<lambda>tm.
     call (if link_count (md tm) = 0 then delete_metadata E mdiT
           else call (set_mdi mdiT (updateACtime (time_now E))) (\<lambda>_. put_metadata E mdiT)) (\<lambda>err.
       if err \<noteq> 0 then
         call (set_md mdiS (\<lambda>m. m\<lparr>link_count := 1\<rparr>)) (\<lambda>_.
         call (REQ_0 (put_metadata E mdiS)) (\<lambda>_. ret err))
       else call (REQ_0 (delete_metadata E mdiS)) (\<lambda>_. ret 0))))))))))"

text \<open>
  The loop of the background thread. Its parameters are of type \<^verbatim>\<open>int\<close>, so both the size and
  the inode number lose their upper bits.
\<close>

function datadelete_keys :: "int \<Rightarrow> int \<Rightarrow> nat \<Rightarrow> string list" where
  "datadelete_keys sz ino bs =
     (if sz \<le> 0 \<or> bs = 0 then []
      else (to_string ino @ ''_'' @ to_string (sz div int bs)) # datadelete_keys (sz - int bs) ino bs)"
  by pat_completeness auto
termination by (relation "measure (\<lambda>(sz, ino, bs). nat sz)") auto

declare datadelete_keys.simps [simp del]

fun delete_keys :: "'n env \<Rightarrow> string list \<Rightarrow> ('n, unit) fs" where
  "delete_keys E [] = ret ()"
| "delete_keys E (k # ks) = call (run_ns (ns_Delete (ns E) k '''' IGNORE_VERSION)) (\<lambda>_. delete_keys E ks)"

definition as_int32 :: "int \<Rightarrow> int" where
  "as_int32 i = sint (word_of_int i :: 32 word)"

definition datadelete :: "'n env \<Rightarrow> 32 word \<Rightarrow> 64 word \<Rightarrow> ('n, unit) fs" where
  "datadelete E sz ino =
     call (reads blocksize) (\<lambda>bs.
     delete_keys E (datadelete_keys (as_int32 (uint sz)) (as_int32 (uint ino)) bs))"

definition remove_mapping :: "nat \<Rightarrow> 'n env \<Rightarrow> string \<Rightarrow> ('n, int) fs" where
  "remove_mapping n E path =
     database_operation n E \<lparr>entry_origin = path, entry_type = db_entry_Type_REMOVED, entry_target = ''''\<rparr>"

text \<open>
  The detached thread is run where it is started, which is one of its possible schedules.
\<close>

fun hflat_unlink :: "nat \<Rightarrow> 'n env \<Rightarrow> string \<Rightarrow> ('n, int) fs" where
  "hflat_unlink 0 E user_path = halt OutOfFuel"
| "hflat_unlink (Suc n) E user_path =
     call (unlink_lookup n E user_path) (\<lambda>(err, mdi, mdi_dir).
       if err \<noteq> 0 then ret err else
     deref mdi (\<lambda>mdi. deref mdi_dir (\<lambda>mdi_dir.
     call (mdi_at mdi) (\<lambda>m.
     let hardlink = (md_type (md m) = HARDLINK_T); directory = S_ISDIR (mode (md m)) in
     call (if hardlink then unlink_hardlink n E user_path mdi else delete_metadata E mdi) (\<lambda>err.
       if err = - EAGAIN then hflat_unlink n E user_path
       else if err \<noteq> 0 then ret err
       else
     call (reads pmap) (\<lambda>db.
     call (if hasMapping db user_path then REQ_0 (remove_mapping n E user_path) else ret ()) (\<lambda>_.
     call (if directory then REQ_0 (unlink_force_update n E user_path) else ret ()) (\<lambda>_.
     call (REQ_0 (delete_directory_entry n E mdi_dir (path_to_filename user_path))) (\<lambda>_.
     call (mdi_at mdi) (\<lambda>m.
     call (if \<not> hardlink \<or> link_count (md m) = 0 then datadelete E (md_size (md m)) (inode_number (md m)) else ret ()) (\<lambda>_.
     call (reads pmap) (\<lambda>db.
     call (if hasMapping db (systemPath m)
           then call (hflat_create n E (systemPath m) S_IFREG) (\<lambda>err.
                  if err = 0 then call (hflat_unlink n E (systemPath m)) (\<lambda>_. ret ()) else ret ())
           else ret ()) (\<lambda>_.
     ret 0)))))))))))))"

definition dir_keyrange :: "64 word \<Rightarrow> char \<Rightarrow> string \<times> string" where
  "dir_keyrange ino c = (to_string (uint ino) @ ''|'', to_string (uint ino) @ ''|'' @ [c])"

text \<open>The status of \<^verbatim>\<open>GetKeyRange\<close> is not looked at; a failed call leaves the vector empty.\<close>

definition hflat_rmdir :: "nat \<Rightarrow> 'n env \<Rightarrow> string \<Rightarrow> ('n, int) fs" where
  "hflat_rmdir n E user_path =
     call (lookup n E user_path None) (\<lambda>(err, mdi).
       if err \<noteq> 0 then ret err else
     deref mdi (\<lambda>mdi. call (mdi_at mdi) (\<lambda>m.
     case dir_keyrange (inode_number (md m)) (CHR 0xFF) of (keystart, keyend) \<Rightarrow>
     call (run_ns (ns_GetKeyRange (ns E) keystart keyend 1)) (\<lambda>(status, keys).
       if (case keys of None \<Rightarrow> False | Some ks \<Rightarrow> ks \<noteq> []) then ret (- ENOTEMPTY)
       else call (database_update E) (\<lambda>_. hflat_unlink n E user_path)))))"

definition entry_name :: "string \<Rightarrow> string" where
  "entry_name element = (case find_first (\<lambda>c. c = CHR ''|'') element of
     None \<Rightarrow> element | Some i \<Rightarrow> drop (i + 1) element)"

fun readdir_loop :: "nat \<Rightarrow> 'n env \<Rightarrow> string \<Rightarrow> string \<Rightarrow> ('n, string list) fs" where
  "readdir_loop 0 E keystart keyend = halt OutOfFuel"
| "readdir_loop (Suc n) E keystart keyend =
     call (run_ns (ns_GetKeyRange (ns E) keystart keyend 100)) (\<lambda>(status, keys).
       let ks = (case keys of None \<Rightarrow> [] | Some ks \<Rightarrow> ks) in
       if length ks = 100 then call (readdir_loop n E (last ks) keyend) (\<lambda>rest. ret (map entry_name ks @ rest))
       else ret (map entry_name ks))"

definition hflat_readdir :: "nat \<Rightarrow> 'n env \<Rightarrow> string \<Rightarrow> ('n, int \<times> string list) fs" where
  "hflat_readdir n E user_path =
     call (lookup n E user_path None) (\<lambda>(err, mdi).
       if err \<noteq> 0 then ret (err, []) else
     deref mdi (\<lambda>mdi.
     call (check_access_to E mdi R_OK) (\<lambda>err.
       if err \<noteq> 0 then ret (- EACCES, []) else
     call (mdi_at mdi) (\<lambda>m.
     case dir_keyrange (inode_number (md m)) (CHR 0xFB) of (keystart, keyend) \<Rightarrow>
     call (readdir_loop n E keystart keyend) (\<lambda>names. ret (0, names))))))"

end
