(* ===== verification/Fuse_Data.thy ===== *)
theory Fuse_Data
  imports Fuse_Files
begin

unbundle bit_operations_syntax

section \<open>Reading, writing and flushing\<close>

text \<open>
  fuseops/sync.cc and fuseops/data.cc. A file is a sequence of blocks, each under its own key.
  A write changes the block in the data cache and remembers it with the metadata object; it is
  flushed when another block is written, when a block is full, or on fsync. Metadata and data
  are flushed together, the metadata first.
\<close>

definition block_key :: "64 word \<Rightarrow> nat \<Rightarrow> string" where
  "block_key ino blocknum = to_string (uint ino) @ ''_'' @ to_string (int blocknum)"

definition block_number :: "string \<Rightarrow> int" where
  "block_number key = as_int32 (to_int64 (case find_first (\<lambda>c. c = CHR ''_'') key of
     None \<Rightarrow> key | Some i \<Rightarrow> drop (i + 1) key))"

text \<open>The flags of an open file are absent when the operation is called without one.\<close>

fun hflat_fsync :: "nat \<Rightarrow> 'n env \<Rightarrow> string \<Rightarrow> 32 word option \<Rightarrow> ('n, int) fs" where
  "hflat_fsync 0 E user_path fi = halt OutOfFuel"
| "hflat_fsync (Suc n) E user_path fi =
     call (lookup n E user_path None) (\<lambda>(err, mdi).
       if err \<noteq> 0 then ret err else
     deref mdi (\<lambda>mdi.
     call (mdi_at mdi) (\<lambda>m.
     case dirty_data m of
       None \<Rightarrow> ret 0
     | Some di \<Rightarrow>
     call (di_at di) (\<lambda>d.
       if \<not> hasUpdates d then ret 0 else
     call (reads blocksize) (\<lambda>bs.
     call (reads posix) (\<lambda>p.
     let newsize = max (int bs * block_number (di_key d) + int (length (di_data d))) (uint (md_size (md m))) in
     if uint (md_size (md m)) < newsize \<or> p = FULL then
       call (set_md mdi (\<lambda>x. x\<lparr>md_size := word_of_int newsize, blocks := word_of_int (newsize div int bs + 1)\<rparr>)) (\<lambda>_.
       call (set_mdi mdi (updateACMtime (time_now E))) (\<lambda>_.
       call (put_metadata E mdi) (\<lambda>err.
         if err \<noteq> 0 \<and> (case fi of None \<Rightarrow> False | Some flags \<Rightarrow> flags AND O_APPEND \<noteq> 0) then
           call (data_invalidate (di_key d)) (\<lambda>_. ret err)
         else if err = - EAGAIN then hflat_fsync n E user_path fi
         else put_data n E di)))
     else put_data n E di))))))"

definition hflat_fsyncdir :: "('n, int) fs" where "hflat_fsyncdir = ret 0"
definition hflat_flush :: "('n, int) fs" where "hflat_flush = ret 0"

definition hflat_release :: "nat \<Rightarrow> 'n env \<Rightarrow> string \<Rightarrow> 32 word option \<Rightarrow> ('n, int) fs" where
  "hflat_release n E user_path fi = hflat_fsync n E user_path fi"

subsection \<open>Blocks\<close>

text \<open>
  The loop that gets a block into the data cache. A block that is written while the file
  grows is not fetched; the change is merged with what is on the drive when it is flushed.
\<close>

fun data_fetch :: "nat \<Rightarrow> 'n env \<Rightarrow> string \<Rightarrow> bool \<Rightarrow> ('n, int + nat) fs" where
  "data_fetch 0 E key growing = halt OutOfFuel"
| "data_fetch (Suc n) E key growing =
     call (data_get E key) (\<lambda>hit. case hit of
       Some di \<Rightarrow> ret (Inr di)
     | None \<Rightarrow> call (data_block key) (\<lambda>blocked.
         if \<not> blocked then data_fetch n E key growing
         else
           call (if growing then call (new_di (DataInfo_new key '''' '''')) (\<lambda>di. ret (0, Some di))
                 else get_data E key) (\<lambda>(err, di).
             if err \<noteq> 0 then call (data_invalidate key) (\<lambda>_. ret (Inl err))
             else deref di (\<lambda>di.
               call (REQ_TRUE (data_add E key di)) (\<lambda>_. data_fetch n E key growing)))))"

definition write_block :: "nat \<Rightarrow> string \<Rightarrow> nat \<Rightarrow> nat \<Rightarrow> ('n, unit) fs" where
  "write_block di buf inblockstart inblocksize =
     call (di_at di) (\<lambda>d.
     call (lift (updateData buf inblockstart inblocksize d)) (\<lambda>(_, d).
     set_di di d))"

definition read_block :: "string \<Rightarrow> nat \<Rightarrow> nat \<Rightarrow> nat \<Rightarrow> string" where
  "read_block content sz inblockstart inblocksize =
     str_resize (take inblocksize (drop inblockstart content)) sz"

text \<open>
  One call handles the part of a request that lies in the first block. The value is the number
  of bytes handled or a negative error number, the block, and for a read the buffer.
\<close>

definition do_write :: "nat \<Rightarrow> 'n env \<Rightarrow> string \<Rightarrow> nat \<Rightarrow> nat \<Rightarrow> nat \<Rightarrow> ('n, int \<times> nat option) fs" where
  "do_write n E buf sz offset mdi =
     call (reads blocksize) (\<lambda>bs.
     call (mdi_at mdi) (\<lambda>m.
     let blocknum = offset div bs; inblockstart = offset - blocknum * bs; inblocksize = min sz (bs - inblockstart) in
     call (data_fetch n E (block_key (inode_number (md m)) blocknum) (int offset + int sz > uint (md_size (md m)))) (\<lambda>r.
     case r of
       Inl err \<Rightarrow> ret (err, None)
     | Inr di \<Rightarrow> call (write_block di buf inblockstart inblocksize) (\<lambda>_. ret (int inblocksize, Some di)))))"

definition do_read :: "nat \<Rightarrow> 'n env \<Rightarrow> nat \<Rightarrow> nat \<Rightarrow> nat \<Rightarrow> ('n, int \<times> string) fs" where
  "do_read n E sz offset mdi =
     call (reads blocksize) (\<lambda>bs.
     call (mdi_at mdi) (\<lambda>m.
     let blocknum = offset div bs; inblockstart = offset - blocknum * bs; inblocksize = min sz (bs - inblockstart) in
     call (data_fetch n E (block_key (inode_number (md m)) blocknum) False) (\<lambda>r.
     case r of
       Inl err \<Rightarrow> ret (err, '''')
     | Inr di \<Rightarrow> call (di_at di) (\<lambda>d. ret (int inblocksize, read_block (di_data d) sz inblockstart inblocksize)))))"

definition hflat_read :: "nat \<Rightarrow> 'n env \<Rightarrow> string \<Rightarrow> nat \<Rightarrow> nat \<Rightarrow> ('n, int \<times> string) fs" where
  "hflat_read n E user_path sz offset =
     call (lookup n E user_path None) (\<lambda>(err, mdi).
       if err \<noteq> 0 then ret (err, '''') else deref mdi (\<lambda>mdi. do_read n E sz offset mdi))"

definition set_dirty :: "nat \<Rightarrow> nat option \<Rightarrow> ('n, bool) fs" where
  "set_dirty mdi di =
     call (reads di_hasUpdates) (\<lambda>has_updates.
     call (mdi_at mdi) (\<lambda>m.
     case setDirtyData has_updates di m of (ok, m) \<Rightarrow>
     call (set_mdi mdi (\<lambda>_. m)) (\<lambda>_. ret ok)))"

text \<open>
  The result of \<^verbatim>\<open>do_rw\<close> is assigned to the unsigned \<^verbatim>\<open>size\<close>: an error is not recognized by
  \<^verbatim>\<open>size <= 0\<close>, runs through the rest with an empty block and comes out as itself when the
  result is converted back.
\<close>

fun hflat_write :: "nat \<Rightarrow> 'n env \<Rightarrow> string \<Rightarrow> string \<Rightarrow> nat \<Rightarrow> nat \<Rightarrow> 32 word \<Rightarrow> ('n, int) fs" where
  "hflat_write 0 E user_path buf sz offset flags = halt OutOfFuel"
| "hflat_write (Suc n) E user_path buf sz offset flags =
     call (lookup n E user_path None) (\<lambda>(err, mdi).
       if err \<noteq> 0 then ret err else
     deref mdi (\<lambda>mdi.
     call (do_write n E buf sz offset mdi) (\<lambda>(done, di).
       if done = 0 then ret 0 else
     call (set_dirty mdi di) (\<lambda>ok.
     call (if ok then ret 0 else hflat_fsync n E user_path (Some flags)) (\<lambda>err.
       if err \<noteq> 0 then ret err else
     call (if ok then ret True else set_dirty mdi di) (\<lambda>_.
     call (reads blocksize) (\<lambda>bs.
       if flags AND O_APPEND \<noteq> 0 \<or> (int offset + done) mod 2 ^ 64 mod int bs = 0 then
         call (hflat_fsync n E user_path (Some flags)) (\<lambda>err.
           if err = - EAGAIN then hflat_write n E user_path buf (nat (done mod 2 ^ 64)) offset flags
           else if err \<noteq> 0 then ret err
           else ret done)
       else ret done)))))))"

subsection \<open>Truncating\<close>

definition truncate_block :: "nat \<Rightarrow> nat \<Rightarrow> ('n, unit) fs" where
  "truncate_block di offset =
     call (di_at di) (\<lambda>d. call (lift (Data_Info.truncate offset d)) (\<lambda>d. set_di di d))"

fun delete_blocks :: "'n env \<Rightarrow> 64 word \<Rightarrow> nat list \<Rightarrow> ('n, unit) fs" where
  "delete_blocks E ino [] = ret ()"
| "delete_blocks E ino (i # is) =
     call (data_get E (block_key ino i)) (\<lambda>hit.
     call (case hit of
             Some di \<Rightarrow> call (data_invalidate (block_key ino i)) (\<lambda>_. ret di)
           | None \<Rightarrow> new_di (DataInfo_new (block_key ino i) '''' '''')) (\<lambda>di.
     call (delete_data E di) (\<lambda>_. delete_blocks E ino is)))"

fun hflat_truncate :: "nat \<Rightarrow> 'n env \<Rightarrow> string \<Rightarrow> nat \<Rightarrow> ('n, int) fs" where
  "hflat_truncate 0 E user_path offset = halt OutOfFuel"
| "hflat_truncate (Suc n) E user_path offset =
     call (lookup n E user_path None) (\<lambda>(err, mdi).
     call (if err \<noteq> 0 then ret err else hflat_fsync n E user_path None) (\<lambda>err.
       if err \<noteq> 0 then ret err else
     deref mdi (\<lambda>mdi.
     call (check_access_to E mdi W_OK) (\<lambda>err.
       if err \<noteq> 0 then ret (- EACCES)
       else if int offset > 2 ^ 32 - 1 then ret (- EFBIG)
       else
     call (mdi_at mdi) (\<lambda>m.
     let sz = unat (md_size (md m)) in
     call (set_md mdi (\<lambda>x. x\<lparr>md_size := word_of_nat offset\<rparr>)) (\<lambda>_.
     call (set_mdi mdi (updateACMtime (time_now E))) (\<lambda>_.
     call (put_metadata E mdi) (\<lambda>err.
       if err = - EAGAIN then hflat_truncate n E user_path offset
       else if err \<noteq> 0 then ret err
       else
     call (reads blocksize) (\<lambda>bs.
     call (if offset < sz then
             call (data_fetch n E (block_key (inode_number (md m)) (offset div bs)) False) (\<lambda>r. case r of
                Inl err \<Rightarrow> ret err
              | Inr di \<Rightarrow> call (truncate_block di (offset mod bs)) (\<lambda>_.
                          call (put_data n E di) (\<lambda>_. ret 0)))
           else ret 0) (\<lambda>err.
       if err \<noteq> 0 then ret err else
     call (delete_blocks E (inode_number (md m)) [offset div bs + 1 ..< sz div bs + 1]) (\<lambda>_.
     ret 0)))))))))))"

definition hflat_ftruncate :: "nat \<Rightarrow> 'n env \<Rightarrow> string \<Rightarrow> nat \<Rightarrow> ('n, int) fs" where
  "hflat_ftruncate n E user_path offset = hflat_truncate n E user_path offset"

end
