(* ===== verification/Fuse_Attr.thy ===== *)
theory Fuse_Attr
  imports Fuse_Data
begin

unbundle bit_operations_syntax

section \<open>Attributes\<close>

text \<open>
  The rest of fuseops/permission.cc, fuseops/attr.cc and fuseops/xattr.cc: changing owner and
  permissions, reading attributes and time stamps, extended attributes, statistics.
\<close>

subsection \<open>Owner and permissions\<close>

abbreviation (input) unset :: "32 word" where "unset \<equiv> 0xFFFFFFFF"

definition permission_lookup :: "nat \<Rightarrow> 'n env \<Rightarrow> string \<Rightarrow> 32 word \<Rightarrow> ('n, int \<times> nat option) fs" where
  "permission_lookup n E user_path newgid =
     call (lookup n E user_path None) (\<lambda>(err, mdi).
       if err \<noteq> 0 then ret (err, mdi)
       else if ctx_uid E = 0 then ret (0, mdi)
       else deref mdi (\<lambda>r. call (mdi_at r) (\<lambda>m.
         ret (if ctx_uid E \<noteq> uid (md m) then - EPERM
              else if newgid \<noteq> unset \<and> newgid \<noteq> ctx_gid E then - EPERM
              else 0, mdi))))"

text \<open>
  The mode that is stored: a change by an ordinary user drops the set-group-id bit of a file
  of another group, a change of the owner drops both set-id bits of the mode the file has.
\<close>

definition clear_setgid :: "'n env \<Rightarrow> Metadata \<Rightarrow> 32 word \<Rightarrow> 32 word" where
  "clear_setgid E m fmode =
     (if ctx_uid E \<noteq> 0 \<and> fmode \<noteq> unset \<and> ctx_gid E \<noteq> gid m \<and> S_ISREG fmode
      then fmode AND NOT S_ISGID else fmode)"

fun do_permission_change :: "nat \<Rightarrow> 'n env \<Rightarrow> string \<Rightarrow> 32 word \<Rightarrow> 32 word \<Rightarrow> 32 word \<Rightarrow> ('n, int) fs" where
  "do_permission_change 0 E user_path fmode newuid newgid = halt OutOfFuel"
| "do_permission_change (Suc n) E user_path fmode newuid newgid =
     call (permission_lookup n E user_path newgid) (\<lambda>(err, mdi).
       if err \<noteq> 0 then ret err else
     deref mdi (\<lambda>mdi.
     call (mdi_at mdi) (\<lambda>m.
     let fmode = clear_setgid E (md m) fmode; chown = (ctx_uid E \<noteq> 0 \<and> (newuid \<noteq> unset \<or> newgid \<noteq> unset)) in
     call (check_assert (chown \<longrightarrow> fmode = unset)) (\<lambda>_.
     let fmode = (if chown then mode (md m) AND NOT S_ISUID AND NOT S_ISGID else fmode) in
     call (set_md mdi (\<lambda>x. x\<lparr>uid := if newuid \<noteq> unset then newuid else uid x,
                              gid := if newgid \<noteq> unset then newgid else gid x,
                              mode := if fmode \<noteq> unset then fmode else mode x\<rparr>)) (\<lambda>_.
     call (set_mdi mdi (updateACtime (time_now E))) (\<lambda>_.
     call (put_metadata E mdi) (\<lambda>err.
       if err = - EAGAIN then do_permission_change n E user_path fmode newuid newgid
       else if err \<noteq> 0 then ret err
       else
     call (mdi_at mdi) (\<lambda>m.
     call (if S_ISDIR (mode (md m)) then
             call (lift (computePathPermissionChildren (md m))) (\<lambda>(changed, x).
             call (set_md mdi (\<lambda>_. x)) (\<lambda>_. ret changed))
           else ret False) (\<lambda>changed.
       if \<not> changed then ret 0
       else
         call (REQ_0 (database_operation n E
                 \<lparr>entry_origin = user_path, entry_type = db_entry_Type_NONE, entry_target = ''''\<rparr>)) (\<lambda>_.
         call (reads (\<lambda>s. getSnapshotVersion (pmap s))) (\<lambda>snapshot_version.
         call (put_metadata_forced n E mdi (set_md mdi (\<lambda>x. x\<lparr>path_permission_verified := snapshot_version\<rparr>))) (\<lambda>err.
         call (check_assert (err = 0 \<or> err = - ENOENT)) (\<lambda>_.
         ret 0)))))))))))))"

definition hflat_chmod :: "nat \<Rightarrow> 'n env \<Rightarrow> string \<Rightarrow> 32 word \<Rightarrow> ('n, int) fs" where
  "hflat_chmod n E user_path fmode = do_permission_change n E user_path fmode unset unset"

definition hflat_chown :: "nat \<Rightarrow> 'n env \<Rightarrow> string \<Rightarrow> 32 word \<Rightarrow> 32 word \<Rightarrow> ('n, int) fs" where
  "hflat_chown n E user_path newuid newgid = do_permission_change n E user_path unset newuid newgid"

subsection \<open>Attributes and time stamps\<close>

record stat =
  st_ino :: "64 word"
  st_atime :: "32 word"
  st_mtime :: "32 word"
  st_ctime :: "32 word"
  st_uid :: "32 word"
  st_gid :: "32 word"
  st_mode :: "32 word"
  st_nlink :: "32 word"
  st_size :: "32 word"
  st_blocks :: "32 word"
  st_blksize :: nat

definition stat_of :: "nat \<Rightarrow> Metadata \<Rightarrow> stat" where
  "stat_of bs m = \<lparr>st_ino = inode_number m, st_atime = atime m, st_mtime = mtime m, st_ctime = ctime m,
     st_uid = uid m, st_gid = gid m, st_mode = mode m, st_nlink = link_count m, st_size = md_size m,
     st_blocks = blocks m, st_blksize = bs\<rparr>"

definition hflat_getattr :: "nat \<Rightarrow> 'n env \<Rightarrow> string \<Rightarrow> ('n, int \<times> stat option) fs" where
  "hflat_getattr n E user_path =
     call (lookup n E user_path None) (\<lambda>(err, mdi).
       if err \<noteq> 0 then ret (err, None) else
     deref mdi (\<lambda>mdi.
     call (mdi_at mdi) (\<lambda>m.
     call (reads di_hasUpdates) (\<lambda>has_updates.
     call (if (case dirty_data m of None \<Rightarrow> False | Some di \<Rightarrow> has_updates di)
           then hflat_fsync n E user_path None else ret 0) (\<lambda>_.
     call (mdi_at mdi) (\<lambda>m.
     call (reads blocksize) (\<lambda>bs.
     ret (0, Some (stat_of bs (md m))))))))))"

definition hflat_fgetattr :: "nat \<Rightarrow> 'n env \<Rightarrow> string \<Rightarrow> ('n, int \<times> stat option) fs" where
  "hflat_fgetattr n E user_path = hflat_getattr n E user_path"

fun hflat_utimens :: "nat \<Rightarrow> 'n env \<Rightarrow> string \<Rightarrow> int \<Rightarrow> int \<Rightarrow> ('n, int) fs" where
  "hflat_utimens 0 E user_path atv mtv = halt OutOfFuel"
| "hflat_utimens (Suc n) E user_path atv mtv =
     call (lookup n E user_path None) (\<lambda>(err, mdi).
       if err \<noteq> 0 then ret err else
     deref mdi (\<lambda>mdi.
     call (set_md mdi (\<lambda>x. x\<lparr>atime := word_of_int atv, mtime := word_of_int mtv\<rparr>)) (\<lambda>_.
     call (put_metadata E mdi) (\<lambda>err.
       if err = - EAGAIN then hflat_utimens n E user_path atv mtv else ret err))))"

subsection \<open>Extended attributes\<close>

abbreviation (input) XATTR_CREATE :: "32 word" where "XATTR_CREATE \<equiv> 1"
abbreviation (input) XATTR_REPLACE :: "32 word" where "XATTR_REPLACE \<equiv> 2"

fun xattr_find :: "string \<Rightarrow> (string \<times> string) list \<Rightarrow> nat option" where
  "xattr_find name [] = None"
| "xattr_find name (x # xs) = (if fst x = name then Some 0 else map_option Suc (xattr_find name xs))"

definition xattr_set :: "string \<Rightarrow> string \<Rightarrow> (string \<times> string) list \<Rightarrow> (string \<times> string) list" where
  "xattr_set name v xs = (case xattr_find name xs of
     None \<Rightarrow> xs @ [(name, v)] | Some i \<Rightarrow> xs[i := (name, v)])"

definition hflat_getxattr :: "nat \<Rightarrow> 'n env \<Rightarrow> string \<Rightarrow> string \<Rightarrow> nat \<Rightarrow> ('n, int \<times> string) fs" where
  "hflat_getxattr n E user_path attr_name attr_size =
     call (lookup n E user_path None) (\<lambda>(err, mdi).
       if err \<noteq> 0 then ret (err, '''') else
     deref mdi (\<lambda>mdi. call (mdi_at mdi) (\<lambda>m.
     ret (case xattr_find attr_name (xattr (md m)) of
        None \<Rightarrow> (- ENOATTR, '''')
      | Some i \<Rightarrow>
          let v = snd (xattr (md m) ! i) in
          if attr_size = 0 then (int (length v) + 1, '''')
          else if length v > attr_size then (- ERANGE, '''')
          else (int (length v), v)))))"

fun hflat_removexattr :: "nat \<Rightarrow> 'n env \<Rightarrow> string \<Rightarrow> string \<Rightarrow> ('n, int) fs" where
  "hflat_removexattr 0 E user_path attr_name = halt OutOfFuel"
| "hflat_removexattr (Suc n) E user_path attr_name =
     call (lookup n E user_path None) (\<lambda>(err, mdi).
       if err \<noteq> 0 then ret err else
     deref mdi (\<lambda>mdi. call (mdi_at mdi) (\<lambda>m.
     case xattr_find attr_name (xattr (md m)) of
       None \<Rightarrow> ret (- ENOATTR)
     | Some i \<Rightarrow>
     call (set_md mdi (\<lambda>x. x\<lparr>xattr := take i (xattr x) @ drop (Suc i) (xattr x)\<rparr>)) (\<lambda>_.
     call (put_metadata E mdi) (\<lambda>err.
       if err = - EAGAIN then hflat_removexattr n E user_path attr_name else ret err)))))"

text \<open>The names with their terminating NUL, as far as they fit the buffer.\<close>

fun list_names :: "nat \<Rightarrow> string list \<Rightarrow> nat \<Rightarrow> string \<Rightarrow> int \<times> string" where
  "list_names sz [] bytesize buffer = (int bytesize, buffer)"
| "list_names sz (x # xs) bytesize buffer =
     (let bytesize = bytesize + (length x + 1) in
      if sz \<noteq> 0 then
        if bytesize > sz then (- ERANGE, buffer)
        else list_names sz xs bytesize (buffer @ x @ [CHR 0x00])
      else list_names sz xs bytesize buffer)"

definition hflat_listxattr :: "nat \<Rightarrow> 'n env \<Rightarrow> string \<Rightarrow> nat \<Rightarrow> ('n, int \<times> string) fs" where
  "hflat_listxattr n E user_path sz =
     call (lookup n E user_path None) (\<lambda>(err, mdi).
       if err \<noteq> 0 then ret (err, '''') else
     deref mdi (\<lambda>mdi. call (mdi_at mdi) (\<lambda>m. ret (list_names sz (map fst (xattr (md m))) 0 ''''))))"

text \<open>On OS X a position in the value is passed, too.\<close>

definition hflat_getxattr_apple :: "nat \<Rightarrow> 'n env \<Rightarrow> string \<Rightarrow> string \<Rightarrow> nat \<Rightarrow> nat \<Rightarrow> ('n, int \<times> string) fs" where
  "hflat_getxattr_apple n E user_path attr_name attr_size position =
     call (check_assert (position \<le> attr_size)) (\<lambda>_. hflat_getxattr n E user_path attr_name (attr_size - position))"

subsection \<open>Statistics of the file system\<close>

record statvfs =
  f_frsize :: "64 word"
  f_bsize :: "64 word"
  f_blocks :: "64 word"
  f_bavail :: "64 word"
  f_bfree :: "64 word"
  f_namemax :: "64 word"
  f_files :: "64 word"
  f_ffree :: "64 word"

text \<open>The total is divided as an integer; the free space is computed in single precision.\<close>

definition free_blocks :: "Capacity \<Rightarrow> stop + 64 word" where
  "free_blocks cap =
     (let nominal = f_of_nat (unat (nominal_capacity_in_bytes cap)) in
      f_to_uint64 (f_div (f_sub nominal (f_mul nominal (portion_full cap))) (f_of_nat 4096)))"

definition hflat_statfs :: "'n env \<Rightarrow> string \<Rightarrow> ('n, int \<times> statvfs option) fs" where
  "hflat_statfs E user_path =
     call (run_ns (ns_GetCapacity (ns E))) (\<lambda>(status, cap).
       if status \<noteq> OK then ret (- EIO, None) else
     deref cap (\<lambda>cap.
     call (lift (free_blocks cap)) (\<lambda>bavail.
     call (reads blocksize) (\<lambda>bs.
     call (reads inum_base) (\<lambda>base.
     call (reads inum_counter) (\<lambda>counter.
     ret (0, Some \<lparr>f_frsize = 4096, f_bsize = word_of_nat bs, f_blocks = nominal_capacity_in_bytes cap div 4096,
        f_bavail = bavail, f_bfree = bavail, f_namemax = 255,
        f_files = word_of_int base + ucast counter, f_ffree = 65535\<rparr>)))))))"

end
