(* ===== verification/Fuse_Links.thy ===== *)
theory Fuse_Links
  imports Fuse_Attr
begin

unbundle bit_operations_syntax

section \<open>Links and renaming\<close>

text \<open>
  fuseops/link.cc and fuseops/rename.cc. A symbolic link is an entry of the path mapping
  database; a hard link is a metadata record of type HARDLINK\_S that names the record of type
  HARDLINK\_T holding the metadata. Renaming a file moves its metadata record; renaming a
  directory adds a mapping and leaves everything below it where it is.
\<close>

subsection \<open>Links\<close>

definition hflat_readlink :: "nat \<Rightarrow> 'n env \<Rightarrow> string \<Rightarrow> nat \<Rightarrow> ('n, int \<times> string) fs" where
  "hflat_readlink n E user_path sz =
     call (reads pmap) (\<lambda>db.
     call (lift (toSystemPath n db user_path READLINK)) (\<lambda>(link_destination, _).
       if length link_destination \<ge> sz then
         (if sz = 0 then halt Undefined_Behaviour else ret (0, take (sz - 1) link_destination))
       else ret (0, link_destination)))"

abbreviation (input) symlink_mode :: "32 word" where
  "symlink_mode \<equiv> S_IFLNK OR 0x1C0 OR 0x20 OR S_IXGRP OR S_IXOTH"

definition hflat_symlink :: "nat \<Rightarrow> 'n env \<Rightarrow> string \<Rightarrow> string \<Rightarrow> ('n, int) fs" where
  "hflat_symlink n E tgt origin =
     call (lookup n E origin None) (\<lambda>(err, mdi).
       if err = 0 then ret (- EEXIST)
       else if err \<noteq> - ENOENT then ret err
       else
     call (lookup_parent n E origin None) (\<lambda>(err, mdi_dir).
       if err \<noteq> 0 then ret err else
     deref mdi_dir (\<lambda>mdi_dir.
     call (check_access_to E mdi_dir W_OK) (\<lambda>err.
       if err \<noteq> 0 then ret err else
     call (create_directory_entry n E mdi_dir (path_to_filename origin)) (\<lambda>err.
       if err \<noteq> 0 then ret err else
     call (database_operation n E
             \<lparr>entry_origin = origin, entry_type = db_entry_Type_SYMLINK, entry_target = tgt\<rparr>) (\<lambda>err.
       if err \<noteq> 0 then ret err else
     deref mdi (\<lambda>mdi.
     call (initialize_metadata n E mdi mdi_dir symlink_mode) (\<lambda>_.
     call (REQ_0 (create_metadata E mdi)) (\<lambda>_.
     ret 0)))))))))"

definition toHardlinkT :: "'n env \<Rightarrow> nat \<Rightarrow> ('n, int) fs" where
  "toHardlinkT E mdi_target =
     call (mdi_at mdi_target) (\<lambda>t.
     call (check_assert (md_type (md t) = POSIX)) (\<lambda>_.
     call (new_mdi ((MetadataInfo_new (systemPath t))
             \<lparr>keyVersion := keyVersion t,
              md := Metadata_default\<lparr>md_type := HARDLINK_S, inode_number := inode_number (md t), link_count := 1\<rparr>\<rparr>)) (\<lambda>mdi_source.
     call (set_mdi mdi_target (\<lambda>t. t\<lparr>systemPath := hardlink_key (inode_number (md t)),
             md := (md t)\<lparr>md_type := HARDLINK_T\<rparr>\<rparr>)) (\<lambda>_.
     call (put_metadata E mdi_source) (\<lambda>err.
       if err \<noteq> 0 then ret err
       else call (REQ_0 (create_metadata E mdi_target)) (\<lambda>_. ret 0))))))"

text \<open>The tests that precede the change, with the objects found: target, origin, origin's parent.\<close>

definition hardlink_lookup :: "nat \<Rightarrow> 'n env \<Rightarrow> string \<Rightarrow> string \<Rightarrow> ('n, int \<times> nat option \<times> nat option \<times> nat option) fs" where
  "hardlink_lookup n E tgt origin =
     call (lookup n E tgt None) (\<lambda>(err, mdi_target).
       if err \<noteq> 0 then ret (err, mdi_target, None, None) else
     call (lookup_parent n E origin None) (\<lambda>(err, mdi_origin_dir).
       if err \<noteq> 0 then ret (err, mdi_target, None, mdi_origin_dir) else
     call (lookup_parent n E tgt None) (\<lambda>(err, mdi_target_dir).
       if err \<noteq> 0 then ret (err, mdi_target, None, mdi_origin_dir) else
     deref mdi_origin_dir (\<lambda>od. call (check_access_to E od W_OK) (\<lambda>err.
       if err \<noteq> 0 then ret (err, mdi_target, None, mdi_origin_dir) else
     deref mdi_target_dir (\<lambda>td. call (check_access_to E td W_OK) (\<lambda>err.
       if err \<noteq> 0 then ret (err, mdi_target, None, mdi_origin_dir) else
     call (lookup n E origin None) (\<lambda>(err, mdi_origin).
       ret (if err = 0 then - EEXIST else if err \<noteq> - ENOENT then err else 0, mdi_target, mdi_origin, mdi_origin_dir)))))))))"

fun hflat_hardlink :: "nat \<Rightarrow> 'n env \<Rightarrow> string \<Rightarrow> string \<Rightarrow> ('n, int) fs" where
  "hflat_hardlink 0 E tgt origin = halt OutOfFuel"
| "hflat_hardlink (Suc n) E tgt origin =
     call (hardlink_lookup n E tgt origin) (\<lambda>(err, mdi_target, mdi_origin, mdi_origin_dir).
       if err \<noteq> 0 then ret err else
     deref mdi_target (\<lambda>mdi_target. deref mdi_origin (\<lambda>mdi_origin. deref mdi_origin_dir (\<lambda>mdi_origin_dir.
     call (mdi_at mdi_target) (\<lambda>t.
     call (check_assert (\<not> S_ISDIR (mode (md t)))) (\<lambda>_.
     call (mdi_at mdi_origin) (\<lambda>om.
     call (lookup_invalidate (systemPath om)) (\<lambda>_.
     call (lookup_invalidate (systemPath t)) (\<lambda>_.
     call (create_directory_entry n E mdi_origin_dir (path_to_filename origin)) (\<lambda>err.
       if err \<noteq> 0 then ret err else
     let undo = (\<lambda>err. call (REQ_0 (delete_directory_entry n E mdi_origin_dir (path_to_filename origin))) (\<lambda>_.
                  if err = - EAGAIN then hflat_hardlink n E tgt origin else ret err)) in
     call (mdi_at mdi_target) (\<lambda>t.
     call (if md_type (md t) \<noteq> HARDLINK_T then toHardlinkT E mdi_target else ret 0) (\<lambda>err.
       if err \<noteq> 0 then undo err else
     call (set_mdi mdi_target (updateACtime (time_now E))) (\<lambda>_.
     call (set_md mdi_target (\<lambda>x. x\<lparr>link_count := link_count x + 1\<rparr>)) (\<lambda>_.
     call (put_metadata E mdi_target) (\<lambda>err.
       if err \<noteq> 0 then undo err else
     call (mdi_at mdi_target) (\<lambda>t.
     call (set_md mdi_origin (\<lambda>x. x\<lparr>md_type := HARDLINK_S, inode_number := inode_number (md t), link_count := 1\<rparr>)) (\<lambda>_.
     call (REQ_0 (create_metadata E mdi_origin)) (\<lambda>_.
     ret 0))))))))))))))))))"

subsection \<open>Renaming\<close>

text \<open>\<^verbatim>\<open>strncmp\<close> over the length of the first path: a prefix of the characters.\<close>

definition is_prefix :: "string \<Rightarrow> string \<Rightarrow> bool" where
  "is_prefix a b = (take (length a) b = a)"

definition rename_lookup :: "nat \<Rightarrow> 'n env \<Rightarrow> string \<Rightarrow> string
    \<Rightarrow> ('n, int \<times> nat option \<times> nat option \<times> nat option \<times> nat option) fs" where
  "rename_lookup n E user_path_from user_path_to =
     (if is_prefix user_path_from user_path_to then ret (- EINVAL, None, None, None, None) else
     call (lookup_parent n E user_path_from None) (\<lambda>(err, dir_mdifrom).
       if err \<noteq> 0 then ret (err, dir_mdifrom, None, None, None) else
     call (lookup_parent n E user_path_to None) (\<lambda>(err, dir_mdito).
       if err \<noteq> 0 then ret (err, dir_mdifrom, dir_mdito, None, None) else
     call (lookup n E user_path_from None) (\<lambda>(err, mdifrom).
       if err \<noteq> 0 then ret (err, dir_mdifrom, dir_mdito, mdifrom, None) else
     deref dir_mdifrom (\<lambda>df. deref mdifrom (\<lambda>f.
     call (mdi_at df) (\<lambda>dfm. call (mdi_at f) (\<lambda>fm.
       if sticky_denies E (md dfm) (md fm) then ret (- EACCES, dir_mdifrom, dir_mdito, mdifrom, None) else
     call (lookup n E user_path_to None) (\<lambda>(err, mdito).
       if err \<noteq> 0 \<and> err \<noteq> - ENOENT then ret (err, dir_mdifrom, dir_mdito, mdifrom, mdito) else
     deref dir_mdito (\<lambda>dt. deref mdito (\<lambda>t.
     call (mdi_at dt) (\<lambda>dtm. call (mdi_at t) (\<lambda>tm.
       if sticky_denies E (md dtm) (md tm) then ret (- EACCES, dir_mdifrom, dir_mdito, mdifrom, mdito) else
     call (check_access_to E dt W_OK) (\<lambda>err.
     call (if err \<noteq> 0 then ret err else check_access_to E df W_OK) (\<lambda>err.
     ret (err, dir_mdifrom, dir_mdito, mdifrom, mdito))))))))))))))))"

definition rename_regular :: "'n env \<Rightarrow> nat \<Rightarrow> nat \<Rightarrow> ('n, int) fs" where
  "rename_regular E mdito mdifrom =
     call (set_mdi mdifrom (updateACtime (time_now E))) (\<lambda>_.
     call (mdi_at mdifrom) (\<lambda>f.
     call (mdi_at mdito) (\<lambda>t.
     call (run_ns (ns_Put (ns E) (systemPath t) '''' REQUIRE_SAME_VERSION
             \<lparr>kr_value = md_SerializeAsString E (md f), kr_version = keyVersion t\<rparr>)) (\<lambda>status.
       if status \<noteq> OK then ret (- EIO) else
     call (run_ns (ns_Delete (ns E) (systemPath f) '''' IGNORE_VERSION)) (\<lambda>status.
     ret (if status \<noteq> OK then - EIO else 0))))))"

definition rename_softlink :: "nat \<Rightarrow> 'n env \<Rightarrow> string \<Rightarrow> string \<Rightarrow> nat \<Rightarrow> nat \<Rightarrow> ('n, int) fs" where
  "rename_softlink n E user_path_from user_path_to mdito mdifrom =
     call (hflat_readlink n E user_path_from PATH_MAX) (\<lambda>(err, buffer).
     call (REQ_0 (ret err)) (\<lambda>_.
     call (REQ_0 (remove_mapping n E user_path_from)) (\<lambda>_.
     call (REQ_0 (database_operation n E
             \<lparr>entry_origin = user_path_to, entry_type = db_entry_Type_SYMLINK, entry_target = buffer\<rparr>)) (\<lambda>_.
     rename_regular E mdito mdifrom))))"

definition rename_hardlink :: "nat \<Rightarrow> 'n env \<Rightarrow> string \<Rightarrow> nat \<Rightarrow> ('n, int) fs" where
  "rename_hardlink n E user_path_from mdito =
     call (get_metadata_userpath n E user_path_from None) (\<lambda>(err, mdifrom).
     call (REQ_0 (ret err)) (\<lambda>_.
     deref mdifrom (\<lambda>mdifrom.
     call (mdi_at mdifrom) (\<lambda>f.
     call (check_assert (md_type (md f) = HARDLINK_S)) (\<lambda>_.
     call (REQ_0 (rename_regular E mdito mdifrom)) (\<lambda>_.
     call (lookup_invalidate (systemPath f)) (\<lambda>_.
     ret 0)))))))"

definition rename_directory :: "nat \<Rightarrow> 'n env \<Rightarrow> string \<Rightarrow> string \<Rightarrow> nat \<Rightarrow> nat \<Rightarrow> nat \<Rightarrow> ('n, int) fs" where
  "rename_directory n E user_path_from user_path_to mdito mdifrom dir_mdifrom =
     call (REQ_0 (database_operation n E
             \<lparr>entry_origin = user_path_from, entry_type = db_entry_Type_MOVE, entry_target = user_path_to\<rparr>)) (\<lambda>_.
     call (mdi_at dir_mdifrom) (\<lambda>d.
     call (new_mdi (MetadataInfo_new
            ((if length (systemPath d) > 1 then systemPath d @ ''/'' else ''/'') @ path_to_filename user_path_from))) (\<lambda>mdi_fu.
     call (get_metadata E mdi_fu) (\<lambda>err.
     call (mdi_at mdi_fu) (\<lambda>fu.
     call (if err = 0 \<and> md_type (md fu) = FORCE_UPDATE then REQ_0 (delete_metadata E mdi_fu) else ret ()) (\<lambda>_.
     call (set_md mdito (\<lambda>x. x\<lparr>md_type := FORCE_UPDATE\<rparr>)) (\<lambda>_.
     call (generate_inode_number n E) (\<lambda>ino.
     call (set_md mdito (\<lambda>x. x\<lparr>inode_number := ino\<rparr>)) (\<lambda>_.
     call (REQ_0 (create_metadata E mdito)) (\<lambda>_.
     call (reads posix) (\<lambda>p.
     call (if p = FULL then REQ_0 (put_metadata_forced n E mdifrom (set_mdi mdifrom (updateACtime (time_now E))))
           else ret ()) (\<lambda>_.
     ret 0))))))))))))"

text \<open>Removing an existing target; afterwards a hard linked target is looked up again.\<close>

definition rename_remove_target :: "nat \<Rightarrow> 'n env \<Rightarrow> string \<Rightarrow> nat \<Rightarrow> ('n, int \<times> nat option) fs" where
  "rename_remove_target n E user_path_to mdito =
     call (mdi_at mdito) (\<lambda>t.
       if inode_number (md t) = 0 then ret (0, Some mdito) else
     call (if S_ISDIR (mode (md t)) then hflat_rmdir n E user_path_to else hflat_unlink n E user_path_to) (\<lambda>err.
       if err \<noteq> 0 then ret (err, Some mdito) else
     call (mdi_at mdito) (\<lambda>t.
       if md_type (md t) = HARDLINK_T then call (lookup n E user_path_to (Some mdito)) (\<lambda>(_, mdito). ret (0, mdito))
       else ret (0, Some mdito))))"

definition rename_move :: "nat \<Rightarrow> 'n env \<Rightarrow> string \<Rightarrow> string \<Rightarrow> nat \<Rightarrow> nat \<Rightarrow> nat \<Rightarrow> ('n, unit) fs" where
  "rename_move n E user_path_from user_path_to mdito mdifrom dir_mdifrom =
     call (mdi_at mdifrom) (\<lambda>f.
     let directory = S_ISDIR (mode (md f)); softlink = S_ISLNK (mode (md f)); hardlink = (md_type (md f) = HARDLINK_T) in
     call (if directory then REQ_0 (rename_directory n E user_path_from user_path_to mdito mdifrom dir_mdifrom) else ret ()) (\<lambda>_.
     call (if softlink then REQ_0 (rename_softlink n E user_path_from user_path_to mdito mdifrom) else ret ()) (\<lambda>_.
     call (if hardlink then REQ_0 (rename_hardlink n E user_path_from mdito) else ret ()) (\<lambda>_.
     if \<not> directory \<and> \<not> hardlink \<and> \<not> softlink then REQ_0 (rename_regular E mdito mdifrom) else ret ()))))"

definition hflat_rename :: "nat \<Rightarrow> 'n env \<Rightarrow> string \<Rightarrow> string \<Rightarrow> ('n, int) fs" where
  "hflat_rename n E user_path_from user_path_to =
     call (rename_lookup n E user_path_from user_path_to) (\<lambda>(err, dir_mdifrom, dir_mdito, mdifrom, mdito).
       if err \<noteq> 0 then ret err else
     deref mdito (\<lambda>mdito. deref dir_mdito (\<lambda>dir_mdito. deref dir_mdifrom (\<lambda>dir_mdifrom. deref mdifrom (\<lambda>mdifrom.
     call (rename_remove_target n E user_path_to mdito) (\<lambda>(err, mdito).
       if err \<noteq> 0 then ret err else
     call (create_directory_entry n E dir_mdito (path_to_filename user_path_to)) (\<lambda>err.
       if err \<noteq> 0 then ret err else
     let recovery_direntry = path_to_filename user_path_to @ ''|recovery|'' @ user_path_from in
     call (REQ_0 (create_directory_entry n E dir_mdito recovery_direntry)) (\<lambda>_.
     call (delete_directory_entry n E dir_mdifrom (path_to_filename user_path_from)) (\<lambda>err.
       if err \<noteq> 0 then
         call (REQ_0 (delete_directory_entry n E dir_mdito (path_to_filename user_path_to))) (\<lambda>_.
         call (REQ_0 (delete_directory_entry n E dir_mdito recovery_direntry)) (\<lambda>_. ret err))
       else
     deref mdito (\<lambda>mdito.
     call (rename_move n E user_path_from user_path_to mdito mdifrom dir_mdifrom) (\<lambda>_.
     call (REQ_0 (delete_directory_entry n E dir_mdito recovery_direntry)) (\<lambda>_.
     call (mdi_at mdito) (\<lambda>t. call (mdi_at mdifrom) (\<lambda>f.
     call (lookup_invalidate (systemPath t)) (\<lambda>_.
     call (lookup_invalidate (systemPath f)) (\<lambda>_.
     ret 0))))))))))))))))"

end
