(* ===== verification/Fsck.thy ===== *)
theory Fsck
  imports Fuse_Links
begin

unbundle bit_operations_syntax

section \<open>File system check and mounting\<close>

text \<open>
  fsck/fsck.cc: setting the extended attribute \<^verbatim>\<open>fsck\<close> of a directory makes the client look up
  every entry of it. An entry without metadata is the trace of an operation that was
  interrupted: a recovery entry of a rename is rolled back, any other entry is deleted.
\<close>

text \<open>The last entry looked at is left in \<open>entry\<close>; with no error all entries have metadata.\<close>

fun scan_keys :: "nat \<Rightarrow> 'n env \<Rightarrow> string \<Rightarrow> string list \<Rightarrow> string \<Rightarrow> ('n, int \<times> string) fs" where
  "scan_keys n E user_path [] entry = ret (0, entry)"
| "scan_keys n E user_path (k # ks) entry =
     call (lookup n E (user_path @ entry_name k) None) (\<lambda>(err, _).
       if err \<noteq> 0 then ret (err, entry_name k) else scan_keys n E user_path ks (entry_name k))"

fun scan_loop :: "nat \<Rightarrow> 'n env \<Rightarrow> string \<Rightarrow> string \<Rightarrow> string \<Rightarrow> string \<Rightarrow> ('n, int \<times> string) fs" where
  "scan_loop 0 E user_path keystart keyend entry = halt OutOfFuel"
| "scan_loop (Suc n) E user_path keystart keyend entry =
     call (run_ns (ns_GetKeyRange (ns E) keystart keyend 100)) (\<lambda>(status, keys).
     let ks = (case keys of None \<Rightarrow> [] | Some ks \<Rightarrow> ks) in
     call (scan_keys n E user_path ks entry) (\<lambda>(err, entry).
       if err \<noteq> 0 then ret (err, entry)
       else if length ks = 100 then scan_loop n E user_path (last ks) keyend entry
       else ret (0, entry)))"

definition scan_direntries :: "nat \<Rightarrow> 'n env \<Rightarrow> string \<Rightarrow> nat \<Rightarrow> string \<Rightarrow> ('n, int \<times> string) fs" where
  "scan_direntries n E user_path dir entry =
     call (mdi_at dir) (\<lambda>m.
     case dir_keyrange (inode_number (md m)) (CHR 0xFE) of (keystart, keyend) \<Rightarrow>
     scan_loop n E user_path keystart keyend entry)"

definition recovery_origin :: "string \<Rightarrow> string" where
  "recovery_origin entry = (case find_last (\<lambda>c. c = CHR ''|'') entry of
     None \<Rightarrow> entry | Some i \<Rightarrow> drop (i + 1) entry)"

definition recovery_target :: "string \<Rightarrow> string \<Rightarrow> string" where
  "recovery_target dir_path entry =
     (if dir_path \<noteq> '''' \<and> last dir_path = CHR ''/'' then dir_path else dir_path @ ''/'')
     @ (case find_first (\<lambda>c. c = CHR ''|'') entry of None \<Rightarrow> entry | Some i \<Rightarrow> take i entry)"

definition remove_if_mapped :: "nat \<Rightarrow> 'n env \<Rightarrow> string \<Rightarrow> ('n, int) fs" where
  "remove_if_mapped n E path =
     call (reads pmap) (\<lambda>db. if hasMapping db path then remove_mapping n E path else ret 0)"

definition both_of :: "'n env \<Rightarrow> nat \<Rightarrow> nat \<Rightarrow> (Metadata \<Rightarrow> bool) \<Rightarrow> ('n, bool) fs" where
  "both_of E t r P = call (mdi_at t) (\<lambda>tm. call (mdi_at r) (\<lambda>om.
     ret ((inode_number (md tm) \<noteq> 0 \<and> P (md tm)) \<or> (inode_number (md om) \<noteq> 0 \<and> P (md om)))))"

definition reread_both :: "nat \<Rightarrow> 'n env \<Rightarrow> string \<Rightarrow> string \<Rightarrow> nat \<Rightarrow> nat \<Rightarrow> ('n, nat option \<times> nat option) fs" where
  "reread_both n E tgt origin t r =
     call (get_metadata_userpath n E tgt (Some t)) (\<lambda>(_, t).
     call (get_metadata_userpath n E origin (Some r)) (\<lambda>(_, r). ret (t, r)))"

text \<open>The records and directory entries of the rolled back rename.\<close>

definition recover_records :: "nat \<Rightarrow> 'n env \<Rightarrow> string \<Rightarrow> string \<Rightarrow> nat \<Rightarrow> nat \<Rightarrow> nat option \<Rightarrow> nat \<Rightarrow> ('n, int) fs" where
  "recover_records n E origin entry t r origin_parent target_parent =
     call (mdi_at t) (\<lambda>tm. call (mdi_at r) (\<lambda>om.
     call (if inode_number (md om) = 0 then
             call (check_assert (inode_number (md tm) \<noteq> 0)) (\<lambda>_.
             call (check_assert (\<not> S_ISDIR (mode (md tm)))) (\<lambda>_.
             call (run_ns (ns_Put (ns E) (systemPath om) '''' REQUIRE_SAME_VERSION
                     \<lparr>kr_value = md_SerializeAsString E (md tm), kr_version = keyVersion tm\<rparr>)) (\<lambda>status.
             ret (if status \<noteq> OK then - EIO else 0))))
           else ret 0) (\<lambda>err.
       if err \<noteq> 0 then ret err else
     call (if inode_number (md tm) \<noteq> 0 then
             call (run_ns (ns_Delete (ns E) (systemPath tm) '''' IGNORE_VERSION)) (\<lambda>status.
             ret (if status \<noteq> OK then - EIO else 0))
           else ret 0) (\<lambda>err.
       if err \<noteq> 0 then ret err else
     deref origin_parent (\<lambda>op.
     call (create_directory_entry n E op (path_to_filename origin)) (\<lambda>err.
       if err \<noteq> 0 \<and> err \<noteq> - EEXIST then ret err
       else delete_directory_entry n E target_parent entry))))))"

definition recover_rename :: "nat \<Rightarrow> 'n env \<Rightarrow> string \<Rightarrow> nat \<Rightarrow> string \<Rightarrow> ('n, int) fs" where
  "recover_rename n E dir_path target_parent entry =
     (let origin = recovery_origin entry; tgt = recovery_target dir_path entry in
     call (lookup n E tgt None) (\<lambda>(_, t).
     call (lookup n E origin None) (\<lambda>(_, r).
     call (lookup_parent n E origin None) (\<lambda>(_, origin_parent).
     call (lookup_invalidate origin) (\<lambda>_.
     call (lookup_invalidate tgt) (\<lambda>_.
     deref t (\<lambda>t. deref r (\<lambda>r.
     call (both_of E t r (\<lambda>x. md_type x = HARDLINK_T)) (\<lambda>hardlink.
     call (if hardlink then reread_both n E tgt origin t r else ret (Some t, Some r)) (\<lambda>(t, r).
     deref t (\<lambda>t. deref r (\<lambda>r.
     call (both_of E t r (\<lambda>x. S_ISDIR (mode x))) (\<lambda>directory.
       if directory then
         call (remove_if_mapped n E tgt) (\<lambda>err.
           if err \<noteq> 0 then ret err else
         call (remove_if_mapped n E origin) (\<lambda>err.
           if err \<noteq> 0 then ret err else
         call (reread_both n E tgt origin t r) (\<lambda>(t, r).
         deref t (\<lambda>t. deref r (\<lambda>r.
         recover_records n E origin entry t r origin_parent target_parent)))))
       else recover_records n E origin entry t r origin_parent target_parent)))))))))))))"

text \<open>
  The loop of the check: every round repairs one entry. The path of an entry is the path of
  the directory with the name appended, without a separator in between.
\<close>

fun fsck_loop :: "nat \<Rightarrow> 'n env \<Rightarrow> string \<Rightarrow> nat \<Rightarrow> string \<Rightarrow> ('n, int) fs" where
  "fsck_loop 0 E user_path mdi entry = halt OutOfFuel"
| "fsck_loop (Suc n) E user_path mdi entry =
     call (scan_direntries n E user_path mdi entry) (\<lambda>(err, entry).
       if err = 0 then ret 0
       else if err \<noteq> - ENOENT then ret err
       else if CHR ''|'' \<in> set entry then
         call (recover_rename n E user_path mdi entry) (\<lambda>err.
           if err \<noteq> 0 then ret err else fsck_loop n E user_path mdi entry)
       else
         call (remove_if_mapped n E (user_path @ entry)) (\<lambda>err.
           if err \<noteq> 0 then ret err else
         call (delete_directory_entry n E mdi entry) (\<lambda>err.
           if err \<noteq> 0 then ret err else fsck_loop n E user_path mdi entry)))"

definition fsck_directory :: "nat \<Rightarrow> 'n env \<Rightarrow> string \<Rightarrow> nat \<Rightarrow> ('n, int) fs" where
  "fsck_directory n E user_path mdi =
     call (mdi_at mdi) (\<lambda>m.
     call (check_assert (S_ISDIR (mode (md m)))) (\<lambda>_.
     call (check_assert (ctx_uid E = 0)) (\<lambda>_.
     fsck_loop n E user_path mdi '''')))"

subsection \<open>Setting extended attributes\<close>

text \<open>
  Setting the attribute \<^verbatim>\<open>fsck\<close> starts a check of the directory and \<^verbatim>\<open>nsck\<close> a check of the
  namespace.
\<close>

fun hflat_setxattr :: "nat \<Rightarrow> 'n env \<Rightarrow> string \<Rightarrow> string \<Rightarrow> string \<Rightarrow> 32 word \<Rightarrow> ('n, int) fs" where
  "hflat_setxattr 0 E user_path attr_name attr_value flags = halt OutOfFuel"
| "hflat_setxattr (Suc n) E user_path attr_name attr_value flags =
     call (lookup n E user_path None) (\<lambda>(err, mdi).
       if err \<noteq> 0 then ret err else
     deref mdi (\<lambda>mdi.
       if attr_name = ''fsck'' then fsck_directory n E user_path mdi
       else if attr_name = ''nsck'' then
         call (run_ns (ns_selfCheck (ns E))) (\<lambda>ok. ret (if ok then 0 else - EHOSTDOWN))
       else
     call (mdi_at mdi) (\<lambda>m.
     let found = (xattr_find attr_name (xattr (md m)) \<noteq> None) in
       if found \<and> flags AND XATTR_CREATE \<noteq> 0 then ret (- EEXIST)
       else if \<not> found \<and> flags AND XATTR_REPLACE \<noteq> 0 then ret (- ENOATTR)
       else
     call (set_md mdi (\<lambda>x. x\<lparr>xattr := xattr_set attr_name attr_value (xattr x)\<rparr>)) (\<lambda>_.
     call (put_metadata E mdi) (\<lambda>err.
       if err = - EAGAIN then hflat_setxattr n E user_path attr_name attr_value flags else ret err)))))"

definition hflat_setxattr_apple :: "nat \<Rightarrow> 'n env \<Rightarrow> string \<Rightarrow> string \<Rightarrow> string \<Rightarrow> 32 word \<Rightarrow> nat \<Rightarrow> ('n, int) fs" where
  "hflat_setxattr_apple n E user_path attr_name attr_value flags position =
     call (check_assert (position \<le> length attr_value)) (\<lambda>_.
     hflat_setxattr n E user_path attr_name (drop position attr_value) flags)"

subsection \<open>Mounting\<close>

text \<open>
  hflat\_init of main.cc after the namespace has been set up: reserve inode numbers, create the
  root directory on a new drive, and load the database. The root inherits from itself. Errors
  are logged, nothing more.
\<close>

definition hflat_init :: "nat \<Rightarrow> 'n env \<Rightarrow> ('n, unit) fs" where
  "hflat_init n E =
     call (grab_inode_generation_token n E) (\<lambda>_.
     call (new_mdi (MetadataInfo_new ''/'')) (\<lambda>mdi.
     call (get_metadata E mdi) (\<lambda>err.
     call (if err = - ENOENT then
             call (initialize_metadata n E mdi mdi (S_IFDIR OR 0x1FF)) (\<lambda>_. create_metadata E mdi)
           else ret err) (\<lambda>_.
     call (database_update E) (\<lambda>_. ret ())))))"

end
