(* ===== verification/HFlat_Util_Props.thy ===== *)
theory HFlat_Util_Props
  imports HFlat_Util
begin

section \<open>Properties of inode numbers and the shared database\<close>

text \<open>
  Inode numbers are unique over all clients of a drive as long as ranges can be reserved;
  catching up with the log replays it; and the two places where a failure or a race breaks
  these promises.
\<close>

subsection \<open>Reserving ranges\<close>

definition token_at :: "('n \<Rightarrow> string \<Rightarrow> KineticRecord option) \<Rightarrow> 'n \<Rightarrow> int \<Rightarrow> bool" where
  "token_at store n t = (case store n inode_base_key of
     None \<Rightarrow> t = 0
   | Some r \<Rightarrow> 0 < t \<and> t < 2 ^ 63 \<and> kr_version r = to_string t)"

lemma grab_token:
  assumes "reliable_client E store" "token_at store (kinetic s) t" "0 \<le> t" "t + 65535 < 2 ^ 63"
  shows "\<exists>n'. grab_inode_generation_token (Suc n) E s = (Inr 0, s\<lparr>inum_base := t, kinetic := n'\<rparr>)
     \<and> token_at store n' (t + 65535)"
proof -
  have ns: "reliable_namespace (ns E) store" using assms(1) by (simp add: reliable_client_def)
  let ?r = "\<lparr>kr_value = '''', kr_version = to_string (t + 65535)\<rparr>"
  have vm: "version_matches (store (kinetic s) inode_base_key) (if t \<noteq> 0 then to_string t else '''') REQUIRE_SAME_VERSION"
    using assms(2) by (auto simp: token_at_def version_matches_def split: option.splits)
  obtain n' where put: "ns_Put (ns E) inode_base_key (if t \<noteq> 0 then to_string t else '''') REQUIRE_SAME_VERSION ?r (kinetic s) = (OK, n')"
    and st: "store n' = (store (kinetic s))(inode_base_key \<mapsto> ?r)"
    using reliable_namespace.Put_matches [OF ns vm, of ?r] by blast
  have tok: "token_at store n' (t + 65535)" using st assms(3,4) by (simp add: token_at_def)
  have "grab_inode_generation_token (Suc n) E s = (Inr 0, s\<lparr>inum_base := t, kinetic := n'\<rparr>)"
  proof (cases "store (kinetic s) inode_base_key")
    case None
    then have "t = 0" using assms(2) by (simp add: token_at_def)
    with put reliable_namespace.GetVersion_absent [OF ns None] show ?thesis by (simp add: cmd_simps)
  next
    case (Some r)
    then have "t \<noteq> 0" "to_int64 (kr_version r) = t" using assms(2,3) by (simp_all add: token_at_def)
    with put reliable_namespace.GetVersion_present [OF ns Some] show ?thesis by (simp add: cmd_simps)
  qed
  with tok show ?thesis by blast
qed

lemma generate_in_range:
  assumes "uint (inum_counter s) < 65534"
  shows "generate_inode_number n E s =
     (Inr (word_of_int (inum_base s + uint (inum_counter s) + 1)),
      s\<lparr>inum_counter := inum_counter s + 1\<rparr>)"
    and "uint (inum_counter s + 1) = uint (inum_counter s) + 1"
proof -
  show u: "uint (inum_counter s + 1) = uint (inum_counter s) + 1"
    using assms by (simp add: uint_word_ariths(1) uint_1)
  then have "inum_counter s + 1 \<noteq> of_int UINT16_MAX"
    using assms by (auto simp: word_uint_eq_iff)
  then have "generate_inode_number n E s =
     (Inr (word_of_int (inum_base s + uint (inum_counter s + 1))), s\<lparr>inum_counter := inum_counter s + 1\<rparr>)"
    by (simp add: generate_inode_number_def cmd_simps)
  then show "generate_inode_number n E s =
     (Inr (word_of_int (inum_base s + uint (inum_counter s) + 1)), s\<lparr>inum_counter := inum_counter s + 1\<rparr>)"
    by (simp only: u add.assoc)
qed

lemma generate_new_range:
  assumes "reliable_client E store" "uint (inum_counter s) = 65534"
    "token_at store (kinetic s) t" "0 \<le> t" "t + 65535 < 2 ^ 63"
  shows "\<exists>n'. generate_inode_number (Suc n) E s =
       (Inr (word_of_int t), s\<lparr>inum_counter := 0, inum_base := t, kinetic := n'\<rparr>)
     \<and> token_at store n' (t + 65535)"
proof -
  let ?s1 = "s\<lparr>inum_counter := inum_counter s + 1\<rparr>"
  have c: "inum_counter s + 1 = of_int UINT16_MAX"
    using assms(2) by (simp add: word_uint_eq_iff uint_word_ariths(1) uint_1)
  obtain n' where g: "grab_inode_generation_token (Suc n) E ?s1 = (Inr 0, ?s1\<lparr>inum_base := t, kinetic := n'\<rparr>)"
    "token_at store n' (t + 65535)"
    using grab_token [OF assms(1), of ?s1 t n] assms(3-5) by auto
  have "generate_inode_number (Suc n) E s = (Inr (word_of_int t), ?s1\<lparr>inum_base := t, kinetic := n', inum_counter := 0\<rparr>)"
    using c g(1) by (simp add: generate_inode_number_def cmd_simps del: grab_inode_generation_token.simps)
  then show ?thesis using g(2) by (intro exI [of _ n']) simp
qed

subsection \<open>Several clients on one drive\<close>

text \<open>
  A schedule of clients that mount and create files. Mounting reserves a range (hflat\_init);
  a client is its base and its counter, the drive is shared.
\<close>

datatype inode_op = Mount nat | Alloc nat

definition inode_client :: "'n \<Rightarrow> int \<times> 16 word \<Rightarrow> 'n hflat_priv" where
  "inode_client n bk = (hflat_priv_new n 0 1 FULL)\<lparr>inum_base := fst bk, inum_counter := snd bk\<rparr>"

fun inode_run :: "'n env \<Rightarrow> inode_op list \<Rightarrow> (nat \<rightharpoonup> int \<times> 16 word) \<Rightarrow> 'n \<Rightarrow> 64 word list" where
  "inode_run E [] cl n = []"
| "inode_run E (Mount c # ops) cl n =
     (case grab_inode_generation_token 1 E (inode_client n (0, 0)) of
        (Inr err, s) \<Rightarrow> inode_run E ops (cl(c \<mapsto> (inum_base s, inum_counter s))) (kinetic s)
      | (Inl e, s) \<Rightarrow> [])"
| "inode_run E (Alloc c # ops) cl n = (case cl c of
     None \<Rightarrow> inode_run E ops cl n
   | Some bk \<Rightarrow> (case generate_inode_number 1 E (inode_client n bk) of
        (Inr i, s) \<Rightarrow> i # inode_run E ops (cl(c \<mapsto> (inum_base s, inum_counter s))) (kinetic s)
      | (Inl e, s) \<Rightarrow> []))"

text \<open>The number of requests by clients that are mounted.\<close>

fun requests :: "inode_op list \<Rightarrow> nat set \<Rightarrow> nat" where
  "requests [] cs = 0"
| "requests (Mount c # ops) cs = requests ops (insert c cs)"
| "requests (Alloc c # ops) cs = (if c \<in> cs then 1 else 0) + requests ops cs"

definition ranges_ok :: "(nat \<rightharpoonup> int \<times> 16 word) \<Rightarrow> int \<Rightarrow> int set \<Rightarrow> bool" where
  "ranges_ok cl t issued \<longleftrightarrow> 0 \<le> t
     \<and> (\<forall>c b k. cl c = Some (b, k) \<longrightarrow> 0 \<le> b \<and> b + 65535 \<le> t \<and> uint k < 65535)
     \<and> (\<forall>c d b k b' k'. c \<noteq> d \<longrightarrow> cl c = Some (b, k) \<longrightarrow> cl d = Some (b', k') \<longrightarrow> b + 65535 \<le> b' \<or> b' + 65535 \<le> b)
     \<and> (\<forall>x \<in> issued. 0 < x \<and> x < t)
     \<and> (\<forall>x \<in> issued. \<forall>c b k. cl c = Some (b, k) \<longrightarrow> \<not> (b + uint k < x \<and> x < b + 65535))"

lemma ranges_okD:
  assumes "ranges_ok cl t issued" "cl c = Some (b, k)"
  shows "0 \<le> b" "b + 65535 \<le> t" "uint k < 65535" "0 \<le> t"
  using assms by (auto simp: ranges_ok_def)

lemma ranges_ok_new_range:
  assumes "ranges_ok cl t issued"
  shows "ranges_ok (cl(c \<mapsto> (t, 0))) (t + 65535) issued"
    and "0 < t \<Longrightarrow> ranges_ok (cl(c \<mapsto> (t, 0))) (t + 65535) (insert t issued)"
  using assms unfolding ranges_ok_def by (fastforce split: if_splits)+

lemma ranges_ok_next:
  assumes "ranges_ok cl t issued" "cl c = Some (b, k)" "uint k < 65534"
  shows "ranges_ok (cl(c \<mapsto> (b, k + 1))) t (insert (b + uint k + 1) issued)"
    and "b + uint k + 1 \<notin> issued" "0 < b + uint k + 1" "b + uint k + 1 < t"
proof -
  have u: "uint (k + 1) = uint k + 1" using assms(3) by (simp add: uint_word_ariths(1) uint_1)
  have rng: "0 \<le> b" "b + 65535 \<le> t" "0 \<le> uint k" using ranges_okD [OF assms(1,2)] by simp_all
  have "x \<notin> issued" if "b + uint k < x" "x < b + 65535" for x
    using assms(1,2) that unfolding ranges_ok_def by metis
  from this [of "b + uint k + 1"] assms(3) show "b + uint k + 1 \<notin> issued" by simp
  show "0 < b + uint k + 1" "b + uint k + 1 < t" using rng assms(3) by arith+
  have other: "\<not> (b' + uint k' < b + uint k + 1 \<and> b + uint k + 1 < b' + 65535)"
    if "d \<noteq> c" "cl d = Some (b', k')" for d b' k'
  proof -
    have "b + 65535 \<le> b' \<or> b' + 65535 \<le> b" using assms(1,2) that unfolding ranges_ok_def by metis
    with assms(3) show ?thesis using uint_ge_0 [of k'] rng(3) by arith
  qed
  show "ranges_ok (cl(c \<mapsto> (b, k + 1))) t (insert (b + uint k + 1) issued)"
    unfolding ranges_ok_def
  proof (intro conjI ballI allI impI)
    show "0 \<le> t" using ranges_okD(4) [OF assms(1,2)] .
  next
    fix d b' k' assume "(cl(c \<mapsto> (b, k + 1))) d = Some (b', k')"
    then show "0 \<le> b'" "b' + 65535 \<le> t" "uint k' < 65535"
      using assms rng u ranges_okD [OF assms(1), of d] by (auto split: if_splits)
  next
    fix d e b1 k1 b2 k2
    assume "d \<noteq> e" "(cl(c \<mapsto> (b, k + 1))) d = Some (b1, k1)" "(cl(c \<mapsto> (b, k + 1))) e = Some (b2, k2)"
    then have "\<exists>k1. cl d = Some (b1, k1)" "\<exists>k2. cl e = Some (b2, k2)" using assms(2) by (auto split: if_splits)
    then show "b1 + 65535 \<le> b2 \<or> b2 + 65535 \<le> b1" using assms(1) \<open>d \<noteq> e\<close> unfolding ranges_ok_def by metis
  next
    fix x assume "x \<in> insert (b + uint k + 1) issued"
    then show "0 < x" "x < t" using rng assms(1,3) by (auto simp: ranges_ok_def)
  next
    fix x d b' k'
    assume x: "x \<in> insert (b + uint k + 1) issued" and d: "(cl(c \<mapsto> (b, k + 1))) d = Some (b', k')"
    show "\<not> (b' + uint k' < x \<and> x < b' + 65535)"
    proof (cases "d = c")
      case True
      then have "b' = b" "k' = k + 1" using d by simp_all
      moreover have "x \<in> issued \<Longrightarrow> \<not> (b + uint k < x \<and> x < b + 65535)"
        using assms(1,2) by (simp add: ranges_ok_def)
      ultimately show ?thesis using x u by auto
    next
      case False
      then have "cl d = Some (b', k')" using d by simp
      with x other [OF False this] assms(1) show ?thesis by (auto simp: ranges_ok_def)
    qed
  qed
qed

lemma inode_client_simps [simp]:
  "kinetic (inode_client n bk) = n" "inum_base (inode_client n bk) = fst bk" "inum_counter (inode_client n bk) = snd bk"
  by (simp_all add: inode_client_def hflat_priv_new_def)

lemma inode_run_unique:
  assumes "reliable_client E store" "ranges_ok cl t issued" "token_at store n t"
    "t + 65535 * int (length ops) < 2 ^ 63"
  shows "\<exists>xs. inode_run E ops cl n = map word_of_int xs \<and> distinct xs \<and> set xs \<inter> issued = {}
     \<and> (\<forall>x \<in> set xs. 0 < x \<and> x < 2 ^ 63) \<and> length xs = requests ops (dom cl)"
  using assms(2-)
proof (induction ops arbitrary: cl t issued n)
  case Nil
  then show ?case by simp
next
  case (Cons op ops)
  have t0: "0 \<le> t" using Cons.prems(1) by (simp add: ranges_ok_def)
  have bound: "t + 65535 + 65535 * int (length ops) < 2 ^ 63" using Cons.prems(3) by simp
  show ?case
  proof (cases op)
    case (Mount c)
    obtain n' where g: "grab_inode_generation_token 1 E (inode_client n (0, 0)) =
        (Inr 0, (inode_client n (0, 0))\<lparr>inum_base := t, kinetic := n'\<rparr>)" "token_at store n' (t + 65535)"
      using grab_token [OF assms(1), of "inode_client n (0, 0)" t 0] Cons.prems(2) t0 bound by auto
    from Cons.IH [OF ranges_ok_new_range(1) [OF Cons.prems(1)] g(2) bound, of c] g(1) Mount
    show ?thesis by (simp add: insert_absorb2 del: grab_inode_generation_token.simps fun_upd_apply)
  next
    case (Alloc c)
    show ?thesis
    proof (cases "cl c")
      case None
      with Cons.IH [OF Cons.prems(1,2)] Cons.prems(3) Alloc show ?thesis by (simp add: domIff)
    next
      case (Some bk)
      obtain b k where bk: "cl c = Some (b, k)" using Some by (cases bk) auto
      note r = ranges_okD [OF Cons.prems(1) bk]
      have dom: "insert c (dom cl) = dom cl" using bk by auto
      consider "uint k < 65534" | "uint k = 65534" using r(3) by linarith
      then show ?thesis
      proof cases
        case 1
        note nx = ranges_ok_next [OF Cons.prems(1) bk 1]
        have gen: "generate_inode_number 1 E (inode_client n (b, k)) =
            (Inr (word_of_int (b + uint k + 1)), (inode_client n (b, k))\<lparr>inum_counter := k + 1\<rparr>)"
          using generate_in_range(1) [of "inode_client n (b, k)" 1 E] 1 by simp
        obtain xs where "inode_run E ops (cl(c \<mapsto> (b, k + 1))) n = map word_of_int xs" "distinct xs"
          "set xs \<inter> insert (b + uint k + 1) issued = {}" "\<forall>x \<in> set xs. 0 < x \<and> x < 2 ^ 63"
          "length xs = requests ops (dom cl)"
          using Cons.IH [OF nx(1) Cons.prems(2)] Cons.prems(3) dom by (auto simp del: fun_upd_apply)
        with gen nx(2-4) bk Alloc Cons.prems(3) dom show ?thesis
          by (intro exI [of _ "(b + uint k + 1) # xs"]) (auto simp del: of_int_add)
      next
        case 2
        have tpos: "0 < t" using r by arith
        obtain n' where gen: "generate_inode_number 1 E (inode_client n (b, k)) =
            (Inr (word_of_int t), (inode_client n (b, k))\<lparr>inum_counter := 0, inum_base := t, kinetic := n'\<rparr>)"
          and tok: "token_at store n' (t + 65535)"
          using generate_new_range [OF assms(1), of "inode_client n (b, k)" t 0] 2 Cons.prems(2) t0 bound by auto
        obtain xs where "inode_run E ops (cl(c \<mapsto> (t, 0))) n' = map word_of_int xs" "distinct xs"
          "set xs \<inter> insert t issued = {}" "\<forall>x \<in> set xs. 0 < x \<and> x < 2 ^ 63"
          "length xs = requests ops (dom cl)"
          using Cons.IH [OF ranges_ok_new_range(2) [OF Cons.prems(1) tpos] tok bound, of c] dom by (auto simp del: fun_upd_apply)
        moreover have "t \<notin> issued" using Cons.prems(1) by (auto simp: ranges_ok_def)
        ultimately show ?thesis using gen bk Alloc tpos bound dom
          by (intro exI [of _ "t # xs"]) auto
      qed
    qed
  qed
qed

lemma uint_of_int_eq_self: "0 \<le> x \<Longrightarrow> x < 2 ^ 63 \<Longrightarrow> uint (word_of_int x :: 64 word) = x"
  by (simp add: uint_word_of_int)

text \<open>
  C17. Inode numbers are unique: however many clients mount a drive and create files in
  whatever order, no number is given out twice, none is 0 (which stands for no inode), and
  every request of a mounted client is answered.
\<close>

theorem inode_numbers_unique:
  assumes "reliable_client E store" "store n inode_base_key = None" "length ops < 2 ^ 40"
  shows "distinct (inode_run E ops Map.empty n) \<and> 0 \<notin> set (inode_run E ops Map.empty n)
     \<and> length (inode_run E ops Map.empty n) = requests ops {}"
proof -
  have "ranges_ok Map.empty 0 {}" by (simp add: ranges_ok_def)
  moreover have "token_at store n 0" using assms(2) by (simp add: token_at_def)
  moreover have "0 + 65535 * int (length ops) < 2 ^ 63" using assms(3) by simp
  ultimately obtain xs where xs: "inode_run E ops Map.empty n = map word_of_int xs" "distinct xs"
    "\<forall>x \<in> set xs. 0 < x \<and> x < 2 ^ 63" "length xs = requests ops {}"
    using inode_run_unique [OF assms(1), of Map.empty 0 "{}" n ops] by auto
  have u: "uint (word_of_int x :: 64 word) = x" if "x \<in> set xs" for x
    using xs(3) that by (intro uint_of_int_eq_self) force+
  then have "inj_on (word_of_int :: int \<Rightarrow> 64 word) (set xs)" by (metis inj_onI)
  moreover have "(word_of_int x :: 64 word) \<noteq> 0" if "x \<in> set xs" for x
    using u [OF that] xs(3) that by auto
  ultimately show ?thesis using xs by (auto simp: distinct_map)
qed

theorem inode_numbers_unique_witness:
  "distinct (inode_run (drive_env 7 100 5) [Mount 0, Mount 1, Alloc 0, Alloc 1, Alloc 0] Map.empty [])
   \<and> 0 \<notin> set (inode_run (drive_env 7 100 5) [Mount 0, Mount 1, Alloc 0, Alloc 1, Alloc 0] Map.empty [])
   \<and> length (inode_run (drive_env 7 100 5) [Mount 0, Mount 1, Alloc 0, Alloc 1, Alloc 0] Map.empty [])
     = requests [Mount 0, Mount 1, Alloc 0, Alloc 1, Alloc 0] {}"
  by (rule inode_numbers_unique [OF example.reliable_client_axioms]) simp_all

text \<open>
  A failure to reserve a range makes a client give out numbers twice: when the range is
  used up and the drive cannot be reached, the error is only logged, the counter starts over,
  and the following requests return the numbers of the range that have been given out before.
\<close>

theorem inode_numbers_repeat_after_failure:
  assumes "uint (inum_counter s) = 65534" "ns_GetVersion (ns E) inode_base_key (kinetic s) = ((REMOTE_OTHER_ERROR, v), n')"
  shows "\<exists>s'. generate_inode_number 1 E s = (Inr (word_of_int (inum_base s)), s')
     \<and> inum_base s' = inum_base s \<and> inum_counter s' = 0
     \<and> fst (generate_inode_number 1 E s') = Inr (word_of_int (inum_base s + 1))"
proof -
  have c: "inum_counter s + 1 = of_int UINT16_MAX"
    using assms(1) by (simp add: word_uint_eq_iff uint_word_ariths(1) uint_1)
  let ?s' = "s\<lparr>inum_counter := 0, kinetic := n'\<rparr>"
  have "generate_inode_number 1 E s = (Inr (word_of_int (inum_base s)), ?s')"
    using c assms(2) by (simp add: generate_inode_number_def cmd_simps)
  then show ?thesis
    using generate_in_range(1) [of ?s' 1 E] by (intro exI [of _ ?s']) simp
qed

definition broken_env :: "drive env" where
  "broken_env = (drive_env 7 100 5)\<lparr>ns := (SimpleKineticNamespace drive_connection)
     \<lparr>ns_GetVersion := (\<lambda>key n. ((REMOTE_OTHER_ERROR, None), n))\<rparr>\<rparr>"

theorem inode_numbers_repeat_after_failure_witness:
  "\<exists>s'. generate_inode_number 1 broken_env (inode_client [] (65535, 65534)) =
       (Inr (word_of_int (inum_base (inode_client ([] :: drive) (65535, 65534)))), s')
     \<and> inum_base s' = inum_base (inode_client ([] :: drive) (65535, 65534)) \<and> inum_counter s' = 0
     \<and> fst (generate_inode_number 1 broken_env s') = Inr (word_of_int (inum_base (inode_client ([] :: drive) (65535, 65534)) + 1))"
  by (rule inode_numbers_repeat_after_failure [where v = None and n' = "[]"]) (simp_all add: broken_env_def)

subsection \<open>The shared log\<close>

definition log_version :: "('n \<Rightarrow> string \<Rightarrow> KineticRecord option) \<Rightarrow> 'n \<Rightarrow> int \<Rightarrow> bool" where
  "log_version store n w = (case store n db_version_key of None \<Rightarrow> w = 0 | Some r \<Rightarrow> to_int64 (kr_version r) = w)"

definition log_slot :: "'n env \<Rightarrow> ('n \<Rightarrow> string \<Rightarrow> KineticRecord option) \<Rightarrow> 'n \<Rightarrow> int \<Rightarrow> db_entry \<Rightarrow> bool" where
  "log_slot E store n v en \<longleftrightarrow> (\<exists>r. store n (db_entry_key v) = Some r
     \<and> entry_ParseFromString E (kr_value r) = Some en \<and> kr_version r \<noteq> '''')"

lemma get_db_version_log:
  assumes "reliable_client E store" "log_version store (kinetic s) w"
  shows "get_db_version E s = (Inr (Inr w), s)"
  using assms reliable_client.get_db_version_present [OF assms(1), of s] reliable_client.get_db_version_absent [OF assms(1), of s]
  by (auto simp: log_version_def split: option.splits)

lemma get_db_entry_log:
  assumes "reliable_client E store" "log_slot E store (kinetic s) v en"
  shows "get_db_entry E v s = (Inr (Inr en), s)"
  using assms reliable_client.get_db_entry_present [OF assms(1)] by (auto simp: log_slot_def)

lemma get_db_entries_log:
  assumes "reliable_client E store" "\<forall>i < length ens. log_slot E store (kinetic s) (v + int i) (ens ! i)"
  shows "get_db_entries E v (length ens) s = (Inr (Inr ens), s)"
  using assms(2)
proof (induction ens arbitrary: v)
  case (Cons en ens)
  have "get_db_entry E v s = (Inr (Inr en), s)"
    using get_db_entry_log [OF assms(1)] Cons.prems by force
  moreover have "get_db_entries E (v + 1) (length ens) s = (Inr (Inr ens), s)"
  proof (rule Cons.IH, intro allI impI)
    fix i assume "i < length ens"
    then show "log_slot E store (kinetic s) (v + 1 + int i) (ens ! i)"
      using Cons.prems [rule_format, of "Suc i"] by (simp add: algebra_simps)
  qed
  ultimately show ?case by (simp add: cmd_simps)
qed simp

text \<open>Catching up with a log that is ahead by at most 42 entries.\<close>

lemma database_update_catches_up:
  assumes rc: "reliable_client E store" and v: "snapshotVersion (pmap s) = v"
    and w: "log_version store (kinetic s) w" "w = v + int (length ens) \<or> (w = v \<and> length ens = 1)"
    and len: "0 < length ens" "length ens \<le> 42"
    and slots: "\<forall>i < length ens. log_slot E store (kinetic s) (v + 1 + int i) (ens ! i)"
    and db: "replay ens (pmap s) = Inr (Some db)"
  shows "database_update E s = (Inr 0, s\<lparr>pmap := db\<rparr>)"
proof -
  have us: "updateSnapshot ens v (v + int (length ens)) (pmap s) = Inr (0, db)"
    using updateSnapshot_replay [OF v, of ens] db len by simp
  have ge: "get_db_entries E (v + 1) (length ens) s = (Inr (Inr ens), s)"
    using get_db_entries_log [OF rc slots] .
  have first: "get_db_entry E (v + 1) s = (Inr (Inr (ens ! 0)), s)"
    using get_db_entry_log [OF rc] slots len(1) by fastforce
  have gv: "get_db_version E s = (Inr (Inr w), s)" by (rule get_db_version_log [OF rc w(1)])
  show ?thesis
  proof (cases "w = v")
    case True
    then have "length ens = 1" using w(2) len(1) by auto
    with True gv first ge us v show ?thesis
      by (simp add: database_update_def getSnapshotVersion_def cmd_simps update_pmap_def check_assert_def)
  next
    case False
    then have "w = v + int (length ens)" "w > v" using w(2) len(1) by auto
    with False gv ge us v len show ?thesis
      by (simp add: database_update_def getSnapshotVersion_def cmd_simps update_pmap_def check_assert_def)
  qed
qed

lemma database_update_current:
  assumes "reliable_client E store" "snapshotVersion (pmap s) = v" "log_version store (kinetic s) v"
    "store (kinetic s) (db_entry_key (v + 1)) = None"
  shows "database_update E s = (Inr (- EALREADY), s)"
  using get_db_version_log [OF assms(1,3)] reliable_client.get_db_entry_absent [OF assms(1,4)] assms(2)
  by (simp add: database_update_def getSnapshotVersion_def cmd_simps check_assert_def)

text \<open>Appending to a free slot.\<close>

lemma database_operation_store:
  assumes rc: "reliable_client E store" and v: "snapshotVersion (pmap s) = v"
    and free: "store (kinetic s) (db_entry_key (v + 1)) = None"
    and db: "apply_entry en (pmap s) = Inr (Some db)"
  shows "\<exists>n'. database_operation (Suc k) E en s = (Inr 0, s\<lparr>kinetic := n', pmap := db\<rparr>)
     \<and> store n' = (let m = (store (kinetic s))
         (db_entry_key (v + 1) \<mapsto> \<lparr>kr_value = entry_SerializeAsString E en, kr_version = to_string (v + 1)\<rparr>,
          db_version_key \<mapsto> \<lparr>kr_value = '''', kr_version = to_string (v + 1)\<rparr>) in
       if v mod 42 = 0 then m(db_snapshot_key \<mapsto> \<lparr>kr_value = snapshot_SerializeAsString E (serializeSnapshot db), kr_version = ''''\<rparr>) else m)"
proof -
  obtain n1 where n1: "put_db_entry E (v + 1) en s = (Inr 0, s\<lparr>kinetic := n1\<rparr>)"
    "store n1 = (store (kinetic s))
         (db_entry_key (v + 1) \<mapsto> \<lparr>kr_value = entry_SerializeAsString E en, kr_version = to_string (v + 1)\<rparr>,
          db_version_key \<mapsto> \<lparr>kr_value = '''', kr_version = to_string (v + 1)\<rparr>)"
    using reliable_client.put_db_entry_absent [OF rc free] by blast
  have us: "updateSnapshot [en] v (v + 1) (pmap s) = Inr (0, db)"
    using updateSnapshot_replay [OF v, of "[en]"] db by simp
  have ns: "reliable_namespace (ns E) store" using rc by (simp add: reliable_client_def)
  obtain n2 where n2: "ns_Put (ns E) db_snapshot_key '''' IGNORE_VERSION
      \<lparr>kr_value = snapshot_SerializeAsString E (serializeSnapshot db), kr_version = ''''\<rparr> n1 = (OK, n2)"
    "store n2 = (store n1)(db_snapshot_key \<mapsto>
       \<lparr>kr_value = snapshot_SerializeAsString E (serializeSnapshot db), kr_version = ''''\<rparr>)"
    using reliable_namespace.Put_matches [OF ns, of n1 db_snapshot_key "''''" IGNORE_VERSION]
    by (auto simp: version_matches_def)
  let ?n = "if v mod 42 = 0 then n2 else n1"
  have "database_operation (Suc k) E en s = (Inr 0, s\<lparr>kinetic := ?n, pmap := db\<rparr>)"
    using n1(1) n2(1) us v
    by (simp add: getSnapshotVersion_def cmd_simps update_pmap_def put_db_snapshot_def)
  with n1(2) n2(2) show ?thesis by (auto simp: Let_def)
qed

lemma database_operation_appends:
  assumes rc: "reliable_client E store" and v: "snapshotVersion (pmap s) = v" "0 \<le> v" "v + 1 < 2 ^ 63"
    and free: "store (kinetic s) (db_entry_key (v + 1)) = None"
    and db: "apply_entry en (pmap s) = Inr (Some db)"
  shows "\<exists>n'. database_operation (Suc k) E en s = (Inr 0, s\<lparr>kinetic := n', pmap := db\<rparr>)
     \<and> log_version store n' (v + 1) \<and> log_slot E store n' (v + 1) en
     \<and> (\<forall>w. w \<noteq> v + 1 \<longrightarrow> store n' (db_entry_key w) = store (kinetic s) (db_entry_key w))
     \<and> (\<forall>key. key \<in> {db_entry_key (v + 1), db_version_key, db_snapshot_key} \<or> store n' key = store (kinetic s) key)"
proof -
  obtain n' where n': "database_operation (Suc k) E en s = (Inr 0, s\<lparr>kinetic := n', pmap := db\<rparr>)"
    "store n' = (let m = (store (kinetic s))
         (db_entry_key (v + 1) \<mapsto> \<lparr>kr_value = entry_SerializeAsString E en, kr_version = to_string (v + 1)\<rparr>,
          db_version_key \<mapsto> \<lparr>kr_value = '''', kr_version = to_string (v + 1)\<rparr>) in
       if v mod 42 = 0 then m(db_snapshot_key \<mapsto> \<lparr>kr_value = snapshot_SerializeAsString E (serializeSnapshot db), kr_version = ''''\<rparr>) else m)"
    using database_operation_store [OF rc v(1) free db] by blast
  have "log_version store n' (v + 1)" "log_slot E store n' (v + 1) en"
    "\<forall>w. w \<noteq> v + 1 \<longrightarrow> store n' (db_entry_key w) = store (kinetic s) (db_entry_key w)"
    "\<forall>key. key \<in> {db_entry_key (v + 1), db_version_key, db_snapshot_key} \<or> store n' key = store (kinetic s) key"
    using n'(2) v(2,3) reliable_client.entry_codec [OF rc] by (simp_all add: log_version_def log_slot_def Let_def)
  with n'(1) show ?thesis by blast
qed

definition log_client :: "drive \<Rightarrow> drive hflat_priv" where
  "log_client n = hflat_priv_new n 0 1024 FULL"

abbreviation (input) chmod_c :: db_entry where
  "chmod_c \<equiv> \<lparr>entry_origin = ''/c'', entry_type = db_entry_Type_NONE, entry_target = ''''\<rparr>"

lemma log_client_simps [simp]:
  "pmap (log_client n) = PathMapDB_init" "kinetic (log_client n) = n"
  by (simp_all add: log_client_def hflat_priv_new_def)

text \<open>
  A client that loses the race for a slot is not lost: it replays the winner's entry
  first and then appends its own to the next slot, so that its snapshot is the one every other
  client gets from the log. This holds also when the winner has not yet advanced the version.
\<close>

theorem database_operation_after_lost_race:
  assumes "reliable_client E store" "v = snapshotVersion (pmap s)" "0 \<le> v" "v + 2 < 2 ^ 63"
    "log_slot E store (kinetic s) (v + 1) en1" "log_version store (kinetic s) v \<or> log_version store (kinetic s) (v + 1)"
    "store (kinetic s) (db_entry_key (v + 2)) = None"
    "apply_entry en1 (pmap s) = Inr (Some db1)" "apply_entry en db1 = Inr (Some db2)"
  shows "\<exists>s'. database_operation 2 E en s = (Inr 0, s') \<and> pmap s' = db2
     \<and> log_slot E store (kinetic s') (v + 1) en1 \<and> log_slot E store (kinetic s') (v + 2) en"
proof -
  obtain r where r: "store (kinetic s) (db_entry_key (v + 1)) = Some r" "kr_version r \<noteq> ''''"
    using assms(5) by (auto simp: log_slot_def)
  have taken: "put_db_entry E (v + 1) en s = (Inr (- EEXIST), s)"
    by (rule reliable_client.put_db_entry_present [OF assms(1) r])
  have upd: "database_update E s = (Inr 0, s\<lparr>pmap := db1\<rparr>)"
    using database_update_catches_up [OF assms(1) assms(2) [symmetric], of _ "[en1]"] assms(5,6,8) by auto
  have v1: "snapshotVersion db1 = v + 1"
    using replay_version [of "[en1]" "pmap s" db1] assms(2,8) by simp
  obtain n' where ap: "database_operation 1 E en (s\<lparr>pmap := db1\<rparr>) = (Inr 0, s\<lparr>pmap := db1\<rparr>\<lparr>kinetic := n', pmap := db2\<rparr>)"
    "log_slot E store n' (v + 2) en"
    "\<forall>w. w \<noteq> v + 2 \<longrightarrow> store n' (db_entry_key w) = store (kinetic s) (db_entry_key w)"
    using database_operation_appends [OF assms(1), of "s\<lparr>pmap := db1\<rparr>" "v + 1" en db2 0] v1 assms(3,4,7,9)
    by (auto simp: add.assoc)
  have "database_operation 2 E en s = database_operation 1 E en (s\<lparr>pmap := db1\<rparr>)"
    using taken upd assms(2) database_operation.simps(2) [of 1 E en]
    by (simp add: numeral_2_eq_2 getSnapshotVersion_def cmd_simps del: database_operation.simps)
  moreover have "log_slot E store n' (v + 1) en1" using ap(3) assms(5) by (simp add: log_slot_def)
  ultimately show ?thesis using ap(1,2) by auto
qed

definition raced_drive :: drive where
  "raced_drive = [(db_entry_key 1, \<lparr>kr_value = enc_entry chmod_c, kr_version = to_string 1\<rparr>)]"

theorem database_operation_after_lost_race_witness:
  "\<exists>s'. database_operation 2 (drive_env 0 0 1) chmod_c (log_client raced_drive) = (Inr 0, s')
     \<and> pmap s' = addPermissionChange ''/c'' (addPermissionChange ''/c'' PathMapDB_init)
     \<and> log_slot (drive_env 0 0 1) map_of (kinetic s') (0 + 1) chmod_c
     \<and> log_slot (drive_env 0 0 1) map_of (kinetic s') (0 + 2) chmod_c"
  by (rule database_operation_after_lost_race [OF example.reliable_client_axioms])
     (simp_all add: raced_drive_def log_slot_def log_version_def apply_entry_def parse_all_codec [OF codec_entry],
      simp_all add: PathMapDB_init_def db_entry_key_def db_version_key_def)

text \<open>
  The version of the log can go backwards and then kills clients: the version is written
  after the entry and without comparing, so the write of a slow client can arrive after a later
  one. Any client that has already replayed the later entry fails the assertion of
  \<^verbatim>\<open>database_update\<close>, for instance when it looks up a path that has been moved.
\<close>

theorem late_version_write_aborts:
  assumes "reliable_client E store" "0 \<le> w" "w < snapshotVersion (pmap s)" "w < 2 ^ 63"
    "ns_Put (ns E) db_version_key '''' IGNORE_VERSION \<lparr>kr_value = '''', kr_version = to_string w\<rparr> n = (OK, n')"
    "kinetic s = n'"
  shows "database_update E s = (Inl Assertion, s)"
proof -
  have ns: "reliable_namespace (ns E) store" using assms(1) by (simp add: reliable_client_def)
  have "store n' db_version_key = Some \<lparr>kr_value = '''', kr_version = to_string w\<rparr>"
    using reliable_namespace.Put_matches [OF ns, of n db_version_key "''''" IGNORE_VERSION
        "\<lparr>kr_value = '''', kr_version = to_string w\<rparr>"] assms(5)
    by (auto simp: version_matches_def)
  then have "log_version store (kinetic s) w" using assms(2,4,6) by (simp add: log_version_def)
  from get_db_version_log [OF assms(1) this] assms(3) show ?thesis
    by (simp add: database_update_def getSnapshotVersion_def cmd_simps check_assert_def)
qed

theorem late_version_write_aborts_witness:
  "database_update (drive_env 0 0 1)
     ((log_client [(db_version_key, \<lparr>kr_value = '''', kr_version = to_string 1\<rparr>)])\<lparr>pmap := \<lparr>snapshotVersion = 2, snapshot = []\<rparr>\<rparr>)
   = (Inl Assertion, (log_client [(db_version_key, \<lparr>kr_value = '''', kr_version = to_string 1\<rparr>)])
        \<lparr>pmap := \<lparr>snapshotVersion = 2, snapshot = []\<rparr>\<rparr>)"
  by (rule late_version_write_aborts [OF example.reliable_client_axioms, where w = 1 and n = "[]"])
     (simp_all add: SimpleKineticNamespace_def Simple_Put_def drive_connection_def version_matches_def drive_put_def)

end
