(* ===== verification/HFlat_Lookup_Props.thy ===== *)
theory HFlat_Lookup_Props
  imports HFlat_Lookup HFlat_Util_Props
begin

section \<open>Properties of lookup\<close>

text \<open>
  On any namespace, reliable or not, a lookup leaves no key blocked and waits for no key, apart
  from keys under which it has read a record with inode number 0; such a key it does leave
  blocked. On a reliable namespace a lookup returns what is on the drive.
\<close>

subsection \<open>No computation waits\<close>

named_theorems no_wait \<open>pure computations do not deadlock\<close>

lemma toSystemPath_no_wait [no_wait]: "toSystemPath n db path c \<noteq> Inl Deadlock"
proof -
  have "toSystemPath_loop n db p t fr fs k \<noteq> Inl Deadlock" for n p t fr fs k
    by (induction n arbitrary: p t fr k) (auto simp: Let_def split: prod.splits option.splits)
  then show ?thesis by (simp add: toSystemPath_def Let_def)
qed

lemma erase_all_no_wait: "erase_all ps v \<noteq> Inl Deadlock"
proof -
  have "erase_equal p i v \<noteq> Inl Deadlock" for p i v
    by (induction p i v rule: erase_equal.induct) (subst erase_equal.simps, auto)
  then show ?thesis by (induction ps arbitrary: v) (auto split: sum.splits)
qed

lemma compute_no_wait [no_wait]: "computePathPermissionChildren m \<noteq> Inl Deadlock"
proof -
  obtain v where "restrictions m = Inr v" using restrictions_cases [of m] by metis
  with erase_all_no_wait [of "path_permission m" v] show ?thesis
    by (auto simp: computePathPermissionChildren_def Let_def split: sum.splits)
qed

lemma inherit_no_wait [no_wait]: "inherit_path_permissions m p \<noteq> Inl Deadlock"
proof (cases "inherit_path_permissions m p")
  case (Inl e)
  let ?m = "m\<lparr>path_permission := path_permission p @ path_permission_children p,
              path_permission_verified := path_permission_verified p\<rparr>"
  have "computePathPermissionChildren ?m = Inl e"
    using Inl by (cases "computePathPermissionChildren ?m")
      (auto simp: inherit_path_permissions_def Let_def split: if_splits)
  with compute_no_wait [of ?m] Inl show ?thesis by simp
qed simp

lemma apply_entry_no_wait: "apply_entry en db \<noteq> Inl Deadlock"
proof -
  have "addDirectoryMove a b db \<noteq> Inl Deadlock" "addSoftLink a b db \<noteq> Inl Deadlock" for a b
    by (auto simp: addDirectoryMove_def addSoftLink_def Let_def split: option.splits if_splits sum.splits)
  then show ?thesis
    unfolding apply_entry_def
    by (cases "addDirectoryMove (entry_origin en) (entry_target en) db"; cases "addSoftLink (entry_origin en) (entry_target en) db")
       (auto split: db_entry_Type.splits) 
qed

lemma updateSnapshot_no_wait [no_wait]: "updateSnapshot ens v w db \<noteq> Inl Deadlock"
proof -
  have "updateSnapshot_loop ens c f db \<noteq> Inl Deadlock" for c f
    by (induction ens arbitrary: c db) (auto simp: Let_def apply_entry_no_wait split: sum.splits option.splits)
  then show ?thesis by (auto simp: updateSnapshot_def split: sum.splits option.splits)
qed

lemma lru_remove_no_wait: "lru_remove k xs \<noteq> Inl Deadlock"
  by (simp add: lru_remove_def split: option.splits)

lemma evict_no_wait: "evict g d cap b xs \<noteq> Inl Deadlock"
proof (induction b arbitrary: xs rule: less_induct)
  case (less b)
  obtain k e t where e: "xs ! (b - Suc 0) = (k, e, t)" by (cases "xs ! (b - Suc 0)")
  show ?case
    using less lru_remove_no_wait [of "g e" xs]
    by (subst evict.simps) (auto simp: e split: sum.splits if_splits)
qed

lemma lru_add_no_wait [no_wait]: "lru_add g d t k x c \<noteq> Inl Deadlock"
proof (cases "map_of (cache c) k")
  case None
  with evict_no_wait [of g d "capacity c" "length (cache c)" "cache c"] show ?thesis
    by (auto simp: lru_add_def split: sum.splits)
next
  case (Some e)
  then obtain j ys where "lru_remove k (cache c) = Inr (j, ys)" using lru_remove_present [of "cache c" k] by auto
  with Some evict_no_wait [of g d "capacity c" "length ys" ys] show ?thesis
    by (auto simp: lru_add_def split: sum.splits)
qed

subsection \<open>Blocked keys\<close>

abbreviation blocked :: "'n hflat_priv \<Rightarrow> string set" where
  "blocked s \<equiv> blocked_keys (lookup_cache s)"

text \<open>
  The file system keeps inode number 0 for objects that do not exist. A record with this number
  is a message like any other, so a namespace may hand one out. What the lookups need is that the
  namespace remembers under which keys it did: \<open>zeros\<close> grows, and it has every key for which a
  record with inode number 0 was returned.
\<close>

locale zero_watch =
  fixes E :: "'n env" and zeros :: "'n \<Rightarrow> string set"
  assumes grows: "zeros n \<subseteq> zeros (snd (ns_Get (ns E) key n))" "zeros n \<subseteq> zeros (snd (ns_Put (ns E) key v wm r n))"
      "zeros n \<subseteq> zeros (snd (ns_Delete (ns E) key v wm n))" "zeros n \<subseteq> zeros (snd (ns_GetVersion (ns E) key n))"
      "zeros n \<subseteq> zeros (snd (ns_GetKeyRange (ns E) a b c n))" "zeros n \<subseteq> zeros (snd (ns_GetCapacity (ns E) n))"
      "zeros n \<subseteq> zeros (snd (ns_selfCheck (ns E) n))"
    and reported: "ns_Get (ns E) key n = ((OK, Some r), n') \<Longrightarrow> md_ParseFromString E (kr_value r) = Some x
      \<Longrightarrow> inode_number x = 0 \<Longrightarrow> key \<in> zeros n'"

text \<open>The reason for a wait: a key is blocked under which such a record was read.\<close>

abbreviation zero_seen :: "('n \<Rightarrow> string set) \<Rightarrow> 'n hflat_priv \<Rightarrow> bool" where
  "zero_seen zeros s \<equiv> blocked s \<inter> zeros (kinetic s) \<noteq> {}"

text \<open>Apart from the keys in \<open>X\<close>, only keys with inode number 0 are blocked.\<close>

abbreviation blocks :: "('n \<Rightarrow> string set) \<Rightarrow> string set \<Rightarrow> 'n hflat_priv \<Rightarrow> bool" where
  "blocks zeros X s \<equiv> blocked s \<subseteq> X \<union> zeros (kinetic s)"

lemma live_run_ns [live_intros]: "(\<And>s a n. P s \<Longrightarrow> f (kinetic s) = (a, n) \<Longrightarrow> Q a (s\<lparr>kinetic := n\<rparr>)) \<Longrightarrow> live W P (run_ns f) Q"
  by (auto simp: live_def run_ns_def split: prod.splits)

lemma live_objects [live_intros]:
  "(\<And>s. P s \<Longrightarrow> Q (length (mdis s)) (s\<lparr>mdis := mdis s @ [m]\<rparr>)) \<Longrightarrow> live W P (new_mdi m) Q"
  "(\<And>s. P s \<Longrightarrow> r < length (mdis s) \<Longrightarrow> Q' (mdis s ! r) s) \<Longrightarrow> live W P (mdi_at r) Q'"
  "(\<And>s. P s \<Longrightarrow> r < length (mdis s) \<Longrightarrow> Q'' () (s\<lparr>mdis := (mdis s)[r := f (mdis s ! r)]\<rparr>)) \<Longrightarrow> live W P (set_mdi r f) Q''"
  "(\<And>s. P s \<Longrightarrow> R (uuid_generate E (uuids s)) (s\<lparr>uuids := Suc (uuids s)\<rparr>)) \<Longrightarrow> live W P (generate_uuid E) R"
  by (auto simp: live_def new_mdi_def mdi_at_def set_mdi_def generate_uuid_def split: if_splits)

lemma blocked_invalidate [simp]: "blocked_keys (invalidate k c) = blocked_keys c - {k}"
  by (simp add: invalidate_def)

lemma blocked_revalidate [simp]: "blocked_keys (revalidate t k c) = blocked_keys c"
  by (simp add: revalidate_def)

lemma live_invalidate [live_intros]:
  "live W (blocks zeros (insert k X)) (lookup_invalidate k) (\<lambda>_. blocks zeros X)"
  by (auto simp: lookup_invalidate_def intro!: live_intros)

lemma lru_get_no_wait: "k \<notin> blocked_keys c \<Longrightarrow> lru_get d t k c \<noteq> Inl Deadlock"
  using lru_remove_no_wait [of k "cache c"] by (auto simp: lru_get_def split: option.splits sum.splits)

lemma lru_get_blocked: "lru_get d t k c = Inr (r, c') \<Longrightarrow> blocked_keys c' = blocked_keys c"
  by (auto simp: lru_get_def split: option.splits sum.splits if_splits)

lemma lru_get_free: "lru_get d t k c = Inr (None, c') \<Longrightarrow> k \<notin> blocked_keys c'"
  by (auto simp: lru_get_def split: option.splits sum.splits if_splits)

lemma lru_add_blocked: "lru_add g d t k x c = Inr (ok, c') \<Longrightarrow> ok \<Longrightarrow> blocked_keys c' = blocked_keys c - {k}"
  by (auto simp: lru_add_def split: option.splits sum.splits if_splits)

lemma live_on_cache:
  assumes "\<And>s. P s \<Longrightarrow> f s (sel s) = Inl Deadlock \<Longrightarrow> W s" "\<And>s a c. P s \<Longrightarrow> f s (sel s) = Inr (a, c) \<Longrightarrow> Q a (upd c s)"
  shows "live W P (on_cache sel upd f) Q"
  using assms by (auto simp: live_def on_cache_def split: sum.splits prod.splits)

lemma live_lookup_get:
  fixes zeros :: "'n \<Rightarrow> string set"
  shows "live (zero_seen zeros) (blocks zeros {}) (lookup_get E k) (\<lambda>r s. blocks zeros {} s \<and> (r = None \<longrightarrow> k \<notin> blocked s))"
proof -
  have "zero_seen zeros s" if "blocks zeros {} s" "lru_get d t k (lookup_cache s) = Inl Deadlock" for s :: "'n hflat_priv" and d t
    using that lru_get_no_wait [of k "lookup_cache s" d t] by auto
  moreover have "blocks zeros {} (s\<lparr>lookup_cache := c\<rparr>)" if "blocks zeros {} s" "lru_get d t k (lookup_cache s) = Inr (a, c)"
    for s :: "'n hflat_priv" and d t a c
    using that lru_get_blocked [OF that(2)] by simp
  ultimately show ?thesis
    unfolding lookup_get_def by (intro live_on_cache) (auto dest: lru_get_free)
qed

lemma live_lookup_block:
  "live W (\<lambda>s. blocks zeros {} s \<and> k \<notin> blocked s) (lookup_block k) (\<lambda>b s. b \<and> blocks zeros {k} s)"
  unfolding lookup_block_def by (rule live_on_cache) (auto simp: lru_block_def)

lemma live_lookup_add:
  "live W (blocks zeros {k}) (lookup_add E k r) (\<lambda>b s. b \<longrightarrow> blocks zeros {} s)"
  unfolding lookup_add_def by (rule live_on_cache) (auto simp: no_wait dest: lru_add_blocked)

subsection \<open>Steps that do not touch the lookup cache\<close>

definition calm :: "('n \<Rightarrow> string set) \<Rightarrow> string set \<Rightarrow> ('n, 'a) fs \<Rightarrow> bool" where
  "calm zeros X m \<longleftrightarrow> live (zero_seen zeros) (blocks zeros X) m (\<lambda>_. blocks zeros X)"

named_theorems calm_intros \<open>commands that leave the blocked keys alone\<close>

lemma calm_call [calm_intros]: "calm z X m \<Longrightarrow> (\<And>a. calm z X (f a)) \<Longrightarrow> calm z X (call m f)"
  unfolding calm_def by (rule live_call)

lemma calm_basic [calm_intros]:
  "calm z X (ret a)" "e \<noteq> Deadlock \<Longrightarrow> calm z X (halt e)" "calm z X (reads g)" "r \<noteq> Inl Deadlock \<Longrightarrow> calm z X (lift r)"
  "calm z X (check_assert b)" "calm z X (mdi_at p)" "calm z X (new_mdi m)" "calm z X (set_mdi p k)" "calm z X (generate_uuid E)"
  unfolding calm_def by (auto intro!: live_intros)

lemma calm_cases [calm_intros]:
  "(b \<Longrightarrow> calm z X m) \<Longrightarrow> (\<not> b \<Longrightarrow> calm z X n) \<Longrightarrow> calm z X (if b then m else n)"
  "calm z X m \<Longrightarrow> (\<And>a. calm z X (f a)) \<Longrightarrow> calm z X (case x of None \<Rightarrow> m | Some a \<Rightarrow> f a)"
  "(\<And>a. calm z X (g a)) \<Longrightarrow> (\<And>a. calm z X (h a)) \<Longrightarrow> calm z X (case y of Inl a \<Rightarrow> g a | Inr a \<Rightarrow> h a)"
  "(\<And>a b. calm z X (k a b)) \<Longrightarrow> calm z X (case p of (a, b) \<Rightarrow> k a b)"
  by (simp_all split: option.splits sum.splits prod.splits)

lemma calm_update_pmap [calm_intros]: "(\<And>db. f db \<noteq> Inl Deadlock) \<Longrightarrow> calm z X (update_pmap f)"
  by (auto simp: calm_def live_def update_pmap_def split: sum.splits prod.splits)

lemma calmD: "calm z X m \<Longrightarrow> live (zero_seen z) (blocks z X) m (\<lambda>_. blocks z X)"
  by (simp add: calm_def)

lemma calm_invalidate [calm_intros]: "calm z {} (lookup_invalidate k)" "calm z {} (lookup_revalidate E k)"
  unfolding calm_def by (rule live_mono [OF live_invalidate]; auto) (auto simp: lookup_revalidate_def intro!: live_intros)

lemma calm_inherit_from [calm_intros]: "calm z X (inherit_from r p)"
  unfolding inherit_from_def by (intro calm_intros no_wait)

context zero_watch
begin

lemma calm_run_ns:
  assumes "\<And>n. zeros n \<subseteq> zeros (snd (f n))"
  shows "calm zeros X (run_ns f)"
  unfolding calm_def
proof (rule live_run_ns)
  fix s a n assume b: "blocks zeros X s" and run: "f (kinetic s) = (a, n)"
  have "zeros (kinetic s) \<subseteq> zeros n" using assms [of "kinetic s"] run by simp
  with b show "blocks zeros X (s\<lparr>kinetic := n\<rparr>)" by auto
qed

lemmas calm_requests [calm_intros] = grows [THEN calm_run_ns]

lemma calm_database_update [calm_intros]: "calm zeros X (database_update E)"
proof -
  have entry: "calm zeros X (get_db_entry E v)" for v
    unfolding get_db_entry_def by (intro calm_intros) simp_all
  have entries: "calm zeros X (get_db_entries E v k)" for v k
    by (induction k arbitrary: v) (auto intro!: calm_intros entry)
  have "calm zeros X (get_db_version E)" "calm zeros X (load_remote_snapshot E)"
    unfolding get_db_version_def load_remote_snapshot_def get_db_snapshot_def by (intro calm_intros; simp)+
  with entry entries show ?thesis
    unfolding database_update_def by (auto intro!: calm_intros simp: no_wait)
qed

lemma calm_put_metadata [calm_intros]: "calm zeros {} (put_metadata E r)"
  unfolding put_metadata_def by (intro calm_intros; simp)

text \<open>An object that has been read has an inode number, or its key is one with inode number 0.\<close>

lemma live_get_metadata:
  "live (zero_seen zeros) (\<lambda>s. blocks zeros X s \<and> systemPath (mdis s ! r) = key) (get_metadata E r)
     (\<lambda>err s. blocks zeros X s \<and> (err = 0 \<longrightarrow> inode_number (md (mdis s ! r)) \<noteq> 0 \<or> key \<in> zeros (kinetic s)))"
  unfolding live_def
proof (intro allI impI)
  fix s q s' assume pre: "blocks zeros X s \<and> systemPath (mdis s ! r) = key" and run: "get_metadata E r s = (q, s')"
  obtain st rec n' where g: "ns_Get (ns E) key (kinetic s) = ((st, rec), n')" by (metis surj_pair)
  have bl: "blocks zeros X (s\<lparr>kinetic := n'\<rparr>)" using pre grows(1) [of "kinetic s" key] g by auto
  show "(q = Inl Deadlock \<longrightarrow> zero_seen zeros s') \<and> (\<forall>a. q = Inr a \<longrightarrow> blocks zeros X s'
      \<and> (a = 0 \<longrightarrow> inode_number (md (mdis s' ! r)) \<noteq> 0 \<or> key \<in> zeros (kinetic s')))"
  proof (cases "r < length (mdis s)")
    case True
    then show ?thesis using run bl pre g reported [of key "kinetic s"]
      by (auto simp: get_metadata_def cmd_simps setMD_def split: if_splits option.splits)
  next
    case False
    then have "get_metadata E r s = (Inl Undefined_Behaviour, s)"
      by (simp add: get_metadata_def mdi_at_def call_def)
    with run show ?thesis by auto
  qed
qed

lemma live_lookup_fetch:
  "live (zero_seen zeros) (blocks zeros {}) (lookup_fetch E key)
     (\<lambda>res s. case res of Inl _ \<Rightarrow> blocks zeros {} s
        | Inr (cached, r) \<Rightarrow> if cached \<or> inode_number (md (mdis s ! r)) = 0 then blocks zeros {} s else blocks zeros {key} s)"
    (is "live _ _ _ ?Q")
proof -
  have add: "live (zero_seen zeros) (\<lambda>s. blocks zeros {key} s \<and> P s) (REQ_TRUE (lookup_add E key r)) (\<lambda>_. blocks zeros {})" for P r
    by (rule live_mono [OF live_REQ_TRUE [OF live_lookup_add]]) auto
  have block: "live (zero_seen zeros) (\<lambda>s. blocks zeros {} s \<and> (hit = None \<longrightarrow> key \<notin> blocked s)) (lookup_block key) (\<lambda>b s. b \<and> blocks zeros {key} s)"
    if "hit = None" for hit :: "nat option"
    by (rule live_mono [OF live_lookup_block]) (use that in auto)
  have drop: "live (zero_seen zeros) (\<lambda>s. blocks zeros {key} s \<and> P s) (lookup_invalidate key) (\<lambda>_. blocks zeros {})" for P
    by (rule live_mono [OF live_invalidate [where X = "{}"]]) auto
  show ?thesis
    unfolding lookup_fetch_def
    apply (rule live_call [OF live_lookup_get])
    apply (rule live_option)
     prefer 2
     apply (rule live_ret, simp)
    apply (rule live_call [OF block], assumption)
    apply (rule live_if)
     apply (auto simp: live_def)[1]
    apply (rule live_call [where R = "\<lambda>r s. blocks zeros {key} s \<and> systemPath (mdis s ! r) = key"])
     apply (rule live_objects(1), simp add: MetadataInfo_new_def)
    apply (rule live_call [OF live_get_metadata])
    apply (rule live_if)
     apply (rule live_call [OF add])
     apply (rule live_ret, auto)[1]
    apply (rule live_if)
     apply (rule live_call [OF drop])
     apply (rule live_ret, simp)
    apply (rule live_ret, auto)
    done
qed

text \<open>The part of a lookup behind the fetch starts with a test for an object that exists.\<close>

lemma live_existing:
  assumes "\<And>m. inode_number (md m) = 0 \<Longrightarrow> f m = ret (- ENOENT, Some r)"
    "\<And>m. inode_number (md m) \<noteq> 0 \<Longrightarrow>
       live W (\<lambda>s. if cached then blocks zeros {} s else blocks zeros {key} s) (f m) (\<lambda>_. blocks zeros {})"
  shows "live W (\<lambda>s. if cached \<or> inode_number (md (mdis s ! r)) = 0 then blocks zeros {} s else blocks zeros {key} s)
     (call (mdi_at r) f) (\<lambda>_. blocks zeros {})"
proof (rule live_call [where R = "\<lambda>m s. if cached \<or> inode_number (md m) = 0 then blocks zeros {} s else blocks zeros {key} s"])
  show "live W (\<lambda>s. if cached \<or> inode_number (md (mdis s ! r)) = 0 then blocks zeros {} s else blocks zeros {key} s) (mdi_at r)
    (\<lambda>m s. if cached \<or> inode_number (md m) = 0 then blocks zeros {} s else blocks zeros {key} s)"
    by (rule live_objects(2)) simp
  show "live W (\<lambda>s. if cached \<or> inode_number (md m) = 0 then blocks zeros {} s else blocks zeros {key} s) (f m) (\<lambda>_. blocks zeros {})" for m
    using assms(1) [of m] live_mono [OF assms(2) [of m]] by (cases "inode_number (md m) = 0") (auto intro!: live_ret)
qed

lemma live_lookup: "calm zeros {} (lookup n E path mdi) \<and> calm zeros {} (lookup_parent n E path mdi)"
proof (induction n arbitrary: path mdi)
  case 0
  show ?case unfolding lookup.simps(1) lookup_parent.simps(1) by (intro conjI calm_intros) simp_all
next
  case (Suc n)
  then have IH: "calm zeros {} (lookup n E p m)" "calm zeros {} (lookup_parent n E p m)" for p m by blast+
  note rules = calm_intros IH
  let ?P = "\<lambda>cached key s. if cached then blocks zeros {} s else blocks zeros {key} s"
  have parent: "calm zeros {} (lookup_parent (Suc n) E path mdi)"
    by (auto intro!: rules)
  have added: "live (zero_seen zeros) (blocks zeros {key}) (REQ_TRUE (lookup_add E key r)) (\<lambda>_. blocks zeros {})" for key r
    by (rule live_REQ_TRUE [OF live_lookup_add])
  have release: "live (zero_seen zeros) (?P cached key)
      (if cached then ret () else REQ_TRUE (lookup_add E key r)) (\<lambda>_. blocks zeros {})" for cached key r
    using added [of key r] by (cases cached) (simp_all add: live_ret)
  have release': "live (zero_seen zeros) (?P cached key)
      (if cached then ret () else call (new_mdi x) (\<lambda>p. REQ_TRUE (lookup_add E key p))) (\<lambda>_. blocks zeros {})" for cached key x
    by (rule live_if) (rule live_ret, simp, rule live_call [where R = "\<lambda>_. blocks zeros {key}"], rule live_objects(1), simp, rule added)
  have update: "live (zero_seen zeros) (?P cached key)
      (call (database_update E) (\<lambda>err. call (lookup_invalidate key) (\<lambda>_.
         if err \<noteq> 0 then ret (err, Some r) else lookup n E path (Some r)))) (\<lambda>_. blocks zeros {})" for cached key r
  proof (rule live_call [where R = "\<lambda>_. blocks zeros {key}"])
    show "live (zero_seen zeros) (?P cached key) (database_update E) (\<lambda>_. blocks zeros {key})"
      by (rule live_mono [OF calmD [OF calm_database_update [of "{key}"]]]) (auto split: if_splits)
    show "live (zero_seen zeros) (blocks zeros {key}) (call (lookup_invalidate key) (\<lambda>_.
         if err \<noteq> 0 then ret (err, Some r) else lookup n E path (Some r))) (\<lambda>_. blocks zeros {})" for err
      by (rule live_call [OF live_invalidate], rule calmD) (auto intro!: rules)
  qed
  have "calm zeros {} (lookup (Suc n) E path mdi)"
    unfolding lookup.simps
    apply (rule calm_call [OF calm_basic(3)], rule calm_call [OF calm_basic(4) [OF toSystemPath_no_wait]])
    apply (rule calm_cases(4), rule calm_cases(1), rule calm_basic(1))
    apply (unfold calm_def, rule live_call [OF live_lookup_fetch], rule live_sum)
     apply (rule live_prod, rule live_ret, simp)
    apply (rule live_prod)
    subgoal for db pair key stamp fetched pair' cached r
      apply (rule live_mono [OF live_existing [where cached = cached and key = key]], subst if_P, assumption, rule refl)
        apply (subst if_not_P, assumption, rule live_if)
         apply (rule live_call [OF release'], rule calmD, rule IH)
        apply (rule live_if, rule update)
        apply (rule live_call [OF release], rule calmD)
        apply (intro rules; simp)
       apply simp_all
      done
    done
  with parent show ?case by blast
qed

end

subsection \<open>What a lookup returns\<close>

definition has_room :: "('k, 'd) LRUcache \<Rightarrow> bool" where
  "has_room c \<longleftrightarrow> length (cache c) < capacity c"

lemma lru_add_room:
  "has_room c \<Longrightarrow> map_of (cache c) k = None \<Longrightarrow>
     lru_add g d t k x c = Inr (True, c\<lparr>cache := (k, x, t) # cache c, blocked_keys := blocked_keys c - {k}\<rparr>)"
  by (simp add: lru_add_def has_room_def evict.simps)

lemma lookup_get_miss:
  "map_of (cache (lookup_cache s)) k = None \<Longrightarrow> k \<notin> blocked s \<Longrightarrow> lookup_get E k s = (Inr None, s)"
  by (simp add: lookup_get_def on_cache_def lru_get_def)

lemma lookup_block_free:
  "k \<notin> blocked s \<Longrightarrow> lookup_block k s =
     (Inr True, s\<lparr>lookup_cache := (lookup_cache s)\<lparr>blocked_keys := insert k (blocked s)\<rparr>\<rparr>)"
  by (simp add: lookup_block_def on_cache_def lru_block_def)

lemma lookup_add_room:
  "has_room (lookup_cache s) \<Longrightarrow> map_of (cache (lookup_cache s)) k = None \<Longrightarrow> lookup_add E k r s =
     (Inr True, s\<lparr>lookup_cache := (lookup_cache s)\<lparr>cache := (k, r, steady_now E) # cache (lookup_cache s),
        blocked_keys := blocked s - {k}\<rparr>\<rparr>)"
  by (simp add: lookup_add_def on_cache_def lru_add_room)

text \<open>The state after an object has been put into the lookup cache under a key that was not there.\<close>

definition cached_new :: "'n env \<Rightarrow> string \<Rightarrow> MetadataInfo \<Rightarrow> 'n hflat_priv \<Rightarrow> 'n hflat_priv" where
  "cached_new E key m s = s\<lparr>mdis := mdis s @ [m],
     lookup_cache := (lookup_cache s)\<lparr>cache := (key, length (mdis s), steady_now E) # cache (lookup_cache s),
       blocked_keys := blocked s\<rparr>\<rparr>"

lemma lookup_absent:
  assumes rc: "reliable_client E store"
    and path: "toSystemPath (Suc n) (pmap s) path LOOKUP = Inr (key, stamp)" "0 \<le> stamp"
    and miss: "map_of (cache (lookup_cache s)) key = None" "key \<notin> blocked s" "has_room (lookup_cache s)"
    and st: "store (kinetic s) key = None"
  shows "lookup (Suc n) E path mdi s = (Inr (- ENOENT, Some (length (mdis s))), cached_new E key (MetadataInfo_new key) s)"
proof -
  let ?s1 = "s\<lparr>lookup_cache := (lookup_cache s)\<lparr>blocked_keys := insert key (blocked s)\<rparr>, mdis := mdis s @ [MetadataInfo_new key]\<rparr>"
  have "get_metadata E (length (mdis s)) ?s1 = (Inr (- ENOENT), ?s1)"
    using reliable_client.get_metadata_absent [OF rc, of "length (mdis s)" ?s1] st by (simp add: MetadataInfo_new_def)
  moreover have "lookup_add E key (length (mdis s)) ?s1 = (Inr True, cached_new E key (MetadataInfo_new key) s)"
    using lookup_add_room [of ?s1 key E "length (mdis s)"] miss by (simp add: has_room_def cached_new_def)
  ultimately have "lookup_fetch E key s = (Inr (Inr (False, length (mdis s))), cached_new E key (MetadataInfo_new key) s)"
    using miss by (simp add: lookup_fetch_def lookup_get_miss lookup_block_free REQ_TRUE_def cmd_simps)
  then show ?thesis
    using path by (simp add: cmd_simps cached_new_def MetadataInfo_new_def Metadata_default_def)
qed

lemma lookup_present:
  assumes rc: "reliable_client E store"
    and path: "toSystemPath (Suc n) (pmap s) path LOOKUP = Inr (key, stamp)" "0 \<le> stamp"
    and miss: "map_of (cache (lookup_cache s)) key = None" "key \<notin> blocked s" "has_room (lookup_cache s)"
    and st: "store (kinetic s) key = Some rec" "md_ParseFromString E (kr_value rec) = Some x"
    and x: "inode_number x \<noteq> 0" "md_type x \<in> {POSIX, HARDLINK_T}" "stamp \<le> path_permission_verified x"
  shows "lookup (Suc n) E path mdi s =
     (Inr (check_path_permissions (ctx_uid E) (ctx_gid E) (path_permission x), Some (length (mdis s))),
      cached_new E key (setMD x (kr_version rec) (MetadataInfo_new key)) s)"
proof -
  let ?r = "length (mdis s)"
  let ?s1 = "s\<lparr>lookup_cache := (lookup_cache s)\<lparr>blocked_keys := insert key (blocked s)\<rparr>, mdis := mdis s @ [MetadataInfo_new key]\<rparr>"
  let ?s2 = "s\<lparr>lookup_cache := (lookup_cache s)\<lparr>blocked_keys := insert key (blocked s)\<rparr>,
    mdis := mdis s @ [setMD x (kr_version rec) (MetadataInfo_new key)]\<rparr>"
  have "get_metadata E ?r ?s1 = (Inr 0, ?s2)"
    using reliable_client.get_metadata_present [OF rc, of ?r ?s1 rec x] st by (simp add: MetadataInfo_new_def)
  then have fetch: "lookup_fetch E key s = (Inr (Inr (False, ?r)), ?s2)"
    using miss by (simp add: lookup_fetch_def lookup_get_miss lookup_block_free cmd_simps)
  have add: "lookup_add E key ?r ?s2 = (Inr True, cached_new E key (setMD x (kr_version rec) (MetadataInfo_new key)) s)"
    using lookup_add_room [of ?s2 key E ?r] miss by (simp add: has_room_def cached_new_def)
  have md: "md (mdis ?s2 ! ?r) = x" by (simp add: setMD_def)
  show ?thesis
    using path x fetch add md by (auto simp: cmd_simps REQ_TRUE_def)
qed

text \<open>
  A record with inode number 0 blocks its key for good. The lookup that reads it gives the key
  back neither as present nor as absent, so that the next lookup of the path waits for a thread
  that has long returned.
\<close>

lemma blocked_waits:
  assumes "key \<in> blocked s" "toSystemPath (Suc n) (pmap s) path LOOKUP = Inr (key, stamp)" "0 \<le> stamp"
  shows "fst (lookup (Suc n) E path mdi s) = Inl Deadlock"
proof -
  have "lookup_get E key s = (Inl Deadlock, s)" using assms(1) by (simp add: lookup_get_def on_cache_def lru_get_def)
  then have "lookup_fetch E key s = (Inl Deadlock, s)" by (simp add: lookup_fetch_def call_def)
  with assms(2,3) show ?thesis by (simp add: cmd_simps call_def)
qed

theorem zero_inode_blocks_key:
  assumes path: "toSystemPath (Suc n) (pmap s) path LOOKUP = Inr (key, stamp)" "0 \<le> stamp"
    and miss: "map_of (cache (lookup_cache s)) key = None" "key \<notin> blocked s"
    and read: "ns_Get (ns E) key (kinetic s) = ((OK, Some rec), k)" "md_ParseFromString E (kr_value rec) = Some x" "inode_number x = 0"
  shows "\<exists>s'. lookup (Suc n) E path mdi s = (Inr (- ENOENT, Some (length (mdis s))), s') \<and> key \<in> blocked s'
     \<and> fst (lookup (Suc n) E' path mdi' s') = Inl Deadlock"
proof -
  let ?r = "length (mdis s)"
  let ?s1 = "s\<lparr>lookup_cache := (lookup_cache s)\<lparr>blocked_keys := insert key (blocked s)\<rparr>, mdis := mdis s @ [MetadataInfo_new key]\<rparr>"
  let ?s2 = "s\<lparr>lookup_cache := (lookup_cache s)\<lparr>blocked_keys := insert key (blocked s)\<rparr>,
    mdis := mdis s @ [setMD x (kr_version rec) (MetadataInfo_new key)], kinetic := k\<rparr>"
  have "get_metadata E ?r ?s1 = (Inr 0, ?s2)"
    using read by (simp add: get_metadata_def cmd_simps MetadataInfo_new_def)
  then have "lookup_fetch E key s = (Inr (Inr (False, ?r)), ?s2)"
    using miss by (simp add: lookup_fetch_def lookup_get_miss lookup_block_free cmd_simps)
  moreover have "inode_number (md (mdis ?s2 ! ?r)) = 0" using read(3) by (simp add: setMD_def)
  ultimately have "lookup (Suc n) E path mdi s = (Inr (- ENOENT, Some ?r), ?s2)" using path by (simp add: cmd_simps)
  moreover have "fst (lookup (Suc n) E' path mdi' ?s2) = Inl Deadlock" by (rule blocked_waits [where key = key]) (use path in simp_all)
  ultimately show ?thesis by simp
qed



end
