(* ===== verification/Fuse_Props.thy ===== *)
theory Fuse_Props
  imports Fsck HFlat_Lookup_Props
begin

unbundle bit_operations_syntax

section \<open>Properties of the file system operations\<close>

text \<open>
  What the operations that FUSE calls do to the drive, and where they do something else than
  their comments or POSIX promise.
\<close>

subsection \<open>Renaming\<close>

text \<open>
  A file cannot be renamed to a name that starts with its old name: the test that is to
  keep a directory from being moved into itself compares characters, not components, so
  renaming for instance \<open>/a\<close> to \<open>/ab\<close> fails with \<open>-EINVAL\<close> before anything is looked up.
\<close>

theorem rename_to_longer_name_refused:
  "hflat_rename n E from (from @ suffix) s = (Inr (- EINVAL), s)"
  by (simp add: hflat_rename_def rename_lookup_def is_prefix_def cmd_simps)

subsection \<open>Data blocks of a removed file\<close>

text \<open>
  The loop of the background thread starts with the block that contains the end of the file and
  stops when the remaining size is 0: it deletes all blocks from the last down to block 0 in
  general, but only down to block 1 when the size is a multiple of the block size.
\<close>

lemma datadelete_keys_blocks:
  assumes "r < bs"
  shows "datadelete_keys (int (k * bs + r)) ino bs =
     map (\<lambda>i. to_string ino @ ''_'' @ to_string (int i)) (rev [(if r = 0 then 1 else 0) ..< Suc k])"
proof (induction k)
  case 0
  have "datadelete_keys (int r - int bs) ino bs = []" using assms by (simp add: datadelete_keys.simps)
  moreover have "int r div int bs = 0" using assms by simp
  ultimately show ?case using assms by (subst datadelete_keys.simps) auto
next
  case (Suc k)
  have "int (Suc k * bs + r) - int bs = int (k * bs + r)" by simp
  moreover have "(Suc k * bs + r) div bs = Suc k" using assms by (subst div_mult_self3) simp_all
  then have "int (Suc k * bs + r) div int bs = int (Suc k)" by (metis zdiv_int)
  moreover have "0 < Suc k * bs + r" "bs \<noteq> 0" using assms by auto
  then have "\<not> int (Suc k * bs + r) \<le> 0" by linarith
  ultimately have "datadelete_keys (int (Suc k * bs + r)) ino bs =
      (to_string ino @ ''_'' @ to_string (int (Suc k))) # datadelete_keys (int (k * bs + r)) ino bs"
    using \<open>bs \<noteq> 0\<close> by (subst datadelete_keys.simps) (simp del: of_nat_add of_nat_mult of_nat_Suc mult_Suc)
  with Suc.IH show ?case by simp
qed

subsection \<open>Writing and reading\<close>

lemma as_int32_small: "0 \<le> i \<Longrightarrow> i < 2 ^ 31 \<Longrightarrow> as_int32 i = i"
  by (simp add: as_int32_def sint_sbintrunc' signed_take_bit_int_eq_self)

text \<open>
  The code computes the position in the block with variables of type \<^verbatim>\<open>int\<close>; the product overflows
  for offsets of 2 GiB and more. With wrap-around the result is the one of the model all the same.
\<close>

lemma position_in_block:
  assumes "0 < bs" "bs < 2 ^ 31"
  shows "as_int32 (int offset - as_int32 (as_int32 (int (offset div bs)) * int bs)) = int (offset - offset div bs * bs)"
proof -
  have "word_of_int (int offset - as_int32 (as_int32 (int (offset div bs)) * int bs)) = (word_of_int (int (offset mod bs)) :: 32 word)"
    by (simp add: as_int32_def wi_hom_syms flip: minus_div_mult_eq_mod)
  then have "as_int32 (int offset - as_int32 (as_int32 (int (offset div bs)) * int bs)) = as_int32 (int (offset mod bs))"
    by (simp add: as_int32_def)
  also have "\<dots> = int (offset mod bs)"
  proof (rule as_int32_small)
    have "offset mod bs < 2 ^ 31" using assms less_trans [OF mod_less_divisor] by blast
    then show "int (offset mod bs) < 2 ^ 31" by simp
  qed simp
  finally show ?thesis by (simp add: minus_div_mult_eq_mod)
qed

text \<open>The data cache: consistent, its addresses valid, and no key blocked.\<close>

definition refs_ok :: "'n hflat_priv \<Rightarrow> bool" where
  "refs_ok s \<longleftrightarrow> lru_valid (dat_key s) (data_cache s)
     \<and> (\<forall>k r. lru_contents (data_cache s) k = Some r \<longrightarrow> r < length (dis s))"

definition data_ok :: "'n hflat_priv \<Rightarrow> bool" where
  "data_ok s \<longleftrightarrow> refs_ok s \<and> blocked_keys (data_cache s) = {}"

lemma lru_valid_cong:
  assumes "lru_valid f c" "\<And>k r. lru_contents c k = Some r \<Longrightarrow> g r = f r"
  shows "lru_valid g c"
proof -
  have "g d = k" if "(k, d, t) \<in> set (cache c)" for k d t
    using assms that by (fastforce simp: lru_valid_def lru_ok_def lru_contents_def)
  with assms(1) show ?thesis by (auto simp: lru_valid_def lru_ok_def)
qed

lemma dat_key_same: "dis s' = dis s \<Longrightarrow> dat_key s' = dat_key s"
  by (simp add: dat_key_def fun_eq_iff)

lemma data_get_result:
  assumes "data_ok s" "data_get E key s = (Inr hit, s')"
  shows "data_ok s'" "lru_contents (data_cache s') key = hit" "mdis s' = mdis s" "blocksize s' = blocksize s"
    "dis s' = dis s"
proof -
  obtain c' where g: "lru_get (di_hasUpdates s) (steady_now E) key (data_cache s) = Inr (hit, c')" "s' = s\<lparr>data_cache := c'\<rparr>"
    using assms(2) by (auto simp: data_get_def on_cache_def split: sum.splits)
  have v: "lru_valid (dat_key s) (data_cache s)" using assms(1) by (simp add: data_ok_def refs_ok_def)
  note r = lru.get_result [OF v g(1)]
  have key: "dat_key s' = dat_key s" by (rule dat_key_same) (simp add: g(2))
  from r have valid: "lru_valid (dat_key s) c'" and keys: "blocked_keys c' = blocked_keys (data_cache s)"
    and hit: "lru_contents c' key = hit" by blast+
  have was: "lru_contents (data_cache s) k = Some q" if "lru_contents c' k = Some q" for k q
    using r that by (cases "k = key") metis+
  have "q < length (dis s)" if "lru_contents c' k = Some q" for k q
    using was [OF that] assms(1) unfolding data_ok_def refs_ok_def by blast
  with valid keys assms(1) key g(2) show "data_ok s'" by (simp add: data_ok_def refs_ok_def)
  from hit g(2) show "lru_contents (data_cache s') key = hit" "mdis s' = mdis s" "blocksize s' = blocksize s" "dis s' = dis s"
    by simp_all
qed

lemma data_get_dirty:
  assumes "data_ok s" "lru_contents (data_cache s) key = Some r" "di_hasUpdates s r"
  shows "\<exists>s'. data_get E key s = (Inr (Some r), s') \<and> dis s' = dis s"
proof -
  have v: "lru_valid (dat_key s) (data_cache s)" "key \<notin> blocked_keys (data_cache s)"
    using assms(1) by (simp_all add: data_ok_def refs_ok_def)
  obtain hit c' where g: "lru_get (di_hasUpdates s) (steady_now E) key (data_cache s) = Inr (hit, c')"
    using lru.get_returns [OF v] by blast
  then have "hit = Some r" using lru.get_result [OF v(1) g] assms(2,3) by blast
  with g show ?thesis by (simp add: data_get_def on_cache_def)
qed

lemma data_add_result:
  assumes "refs_ok s" "blocked_keys (data_cache s) \<subseteq> {key}" "di < length (dis s)" "di_key (dis s ! di) = key"
    "data_add E key di s = (Inr True, s')"
  shows "data_ok s'" "mdis s' = mdis s" "blocksize s' = blocksize s"
proof -
  obtain c' where a: "lru_add (dat_key s) (di_hasUpdates s) (steady_now E) key di (data_cache s) = Inr (True, c')" "s' = s\<lparr>data_cache := c'\<rparr>"
    using assms(5) by (auto simp: data_add_def on_cache_def split: sum.splits)
  have v: "lru_valid (dat_key s) (data_cache s)" using assms(1) by (simp add: refs_ok_def)
  have "dat_key s di = key" using assms(4) by (simp add: dat_key_def)
  note r = lru.add_result [OF v this a(1)]
  have key: "dat_key s' = dat_key s" by (rule dat_key_same) (simp add: a(2))
  from r have valid: "lru_valid (dat_key s) c'" and keys: "blocked_keys c' = blocked_keys (data_cache s) - {key}"
    and new: "lru_contents c' key = Some di"
    and old: "\<And>j. j \<noteq> key \<Longrightarrow> lru_contents c' j = lru_contents (data_cache s) j \<or> lru_contents c' j = None"
    by simp_all
  have bound: "q < length (dis s)" if "lru_contents (data_cache s) k = Some q" for k q
    using assms(1) that unfolding refs_ok_def by blast
  have "q < length (dis s)" if "lru_contents c' k = Some q" for k q
    using new old [of k] bound [of k q] assms(3) that by (cases "k = key") auto
  moreover have "blocked_keys c' = {}" using keys assms(2) by blast
  ultimately show "data_ok s'" using valid key a(2) by (simp add: data_ok_def refs_ok_def)
  from a(2) show "mdis s' = mdis s" "blocksize s' = blocksize s" by auto
qed

lemma refs_ok_new_di:
  assumes "refs_ok s"
  shows "refs_ok (s\<lparr>dis := dis s @ [d]\<rparr>)"
proof -
  have bound: "q < length (dis s)" if "lru_contents (data_cache s) k = Some q" for k q
    using assms that unfolding refs_ok_def by blast
  have "dat_key (s\<lparr>dis := dis s @ [d]\<rparr>) q = dat_key s q" if "lru_contents (data_cache s) k = Some q" for k q
    using bound [OF that] by (simp add: dat_key_def nth_append)
  moreover have "lru_valid (dat_key s) (data_cache s)" using assms by (simp add: refs_ok_def)
  ultimately have "lru_valid (dat_key (s\<lparr>dis := dis s @ [d]\<rparr>)) (data_cache s)"
    using lru_valid_cong by blast
  moreover have "q < Suc (length (dis s))" if "lru_contents (data_cache s) k = Some q" for k q
    using bound [OF that] by simp
  ultimately show ?thesis by (simp add: refs_ok_def)
qed

lemma get_data_new:
  assumes "get_data E key s = (Inr (0, Some di), s')"
  shows "\<exists>n' v content. s' = s\<lparr>kinetic := n', dis := dis s @ [DataInfo_new key v content]\<rparr> \<and> di = length (dis s)"
proof -
  obtain status rec n' where g: "ns_Get (ns E) key (kinetic s) = ((status, rec), n')" by (metis prod.exhaust)
  from assms g show ?thesis
    by (auto simp: get_data_def cmd_simps split: if_splits option.splits)
qed

text \<open>A block that a fetch brings: a new object for the key, in a state where only this key is blocked.\<close>

lemma fetch_new_block:
  assumes "refs_ok s" "(if growing then call (new_di (DataInfo_new key '''' '''')) (\<lambda>di. ret (0, Some di)) else get_data E key) s = (Inr (0, Some di), s')"
  shows "refs_ok s'" "blocked_keys (data_cache s') = blocked_keys (data_cache s)" "di < length (dis s')"
    "di_key (dis s' ! di) = key" "mdis s' = mdis s" "blocksize s' = blocksize s"
proof -
  obtain n' v content where s': "s' = s\<lparr>kinetic := n', dis := dis s @ [DataInfo_new key v content]\<rparr>" "di = length (dis s)"
  proof (cases growing)
    case True
    with assms(2) have "s' = s\<lparr>kinetic := kinetic s, dis := dis s @ [DataInfo_new key '''' '''']\<rparr>" "di = length (dis s)"
      by (simp_all add: cmd_simps)
    then show thesis by (rule that)
  next
    case False
    with assms(2) have "get_data E key s = (Inr (0, Some di), s')" by simp
    from get_data_new [OF this] show thesis using that by blast
  qed
  have "refs_ok (s\<lparr>kinetic := n'\<rparr>)" using assms(1) dat_key_same [of "s\<lparr>kinetic := n'\<rparr>" s] by (simp add: refs_ok_def)
  from refs_ok_new_di [OF this, of "DataInfo_new key v content"] s'(1) show "refs_ok s'" by simp
  from s' show "blocked_keys (data_cache s') = blocked_keys (data_cache s)" "di < length (dis s')"
    "di_key (dis s' ! di) = key" "mdis s' = mdis s" "blocksize s' = blocksize s"
    by (simp_all add: DataInfo_new_def)
qed

lemma data_fetch_result:
  "data_ok s \<Longrightarrow> data_fetch n E key growing s = (Inr (Inr di), s') \<Longrightarrow>
     data_ok s' \<and> lru_contents (data_cache s') key = Some di \<and> mdis s' = mdis s \<and> blocksize s' = blocksize s"
proof (induction n arbitrary: s)
  case 0
  then show ?case by simp
next
  case (Suc n)
  obtain hit s1 where get: "data_get E key s = (Inr hit, s1)"
    using Suc.prems(2) by (auto simp: call_Inr)
  note g = data_get_result [OF Suc.prems(1) get]
  show ?case
  proof (cases hit)
    case (Some d)
    with Suc.prems(2) get g show ?thesis by (simp add: cmd_simps)
  next
    case None
    let ?s2 = "s1\<lparr>data_cache := (data_cache s1)\<lparr>blocked_keys := {key}\<rparr>\<rparr>"
    have block: "data_block key s1 = (Inr True, ?s2)"
      using g(1) by (simp add: data_block_def on_cache_def lru_block_def data_ok_def)
    have s2: "refs_ok ?s2" using g(1) dat_key_same [of ?s2 s1]
      by (simp add: data_ok_def refs_ok_def lru_valid_def lru_contents_def)
    let ?fetch = "if growing then call (new_di (DataInfo_new key '''' '''')) (\<lambda>di. ret (0, Some di)) else get_data E key"
    have run: "call ?fetch (\<lambda>(err, di).
             if err \<noteq> 0 then call (data_invalidate key) (\<lambda>_. ret (Inl err))
             else deref di (\<lambda>di.
               call (REQ_TRUE (data_add E key di)) (\<lambda>_. data_fetch n E key growing))) ?s2 = (Inr (Inr di), s')"
      using Suc.prems(2) get None block by (simp add: cmd_simps)
    then obtain err r s3 where f: "?fetch ?s2 = (Inr (err, r), s3)"
      unfolding call_Inr by (metis prod.exhaust)
    with run obtain d where d: "err = 0" "r = Some d"
      by (cases r) (auto simp: cmd_simps deref_def split: if_splits)
    with run f have "call (REQ_TRUE (data_add E key d)) (\<lambda>_. data_fetch n E key growing) s3 = (Inr (Inr di), s')"
      by (simp add: cmd_simps deref_def)
    then obtain s4 where a: "data_add E key d s3 = (Inr True, s4)" "data_fetch n E key growing s4 = (Inr (Inr di), s')"
      by (auto simp: call_Inr REQ_TRUE_def split: if_splits)
    note b = fetch_new_block [OF s2 f [unfolded d]]
    have "blocked_keys (data_cache s3) \<subseteq> {key}" using b(2) by simp
    note c = data_add_result [OF b(1) this b(3,4) a(1)]
    from Suc.IH [OF c(1) a(2)] c(2,3) b(5,6) g(3,4) show ?thesis by simp
  qed
qed

text \<open>The bytes written are the bytes read, as long as the block is the one that was changed.\<close>

lemma read_block_updated:
  assumes "updateData buf off sz d = Inr (e, d')" "sz \<le> length buf" "sz \<le> bufsz"
  shows "hasUpdates d'" "di_key d' = di_key d" "take sz (read_block (di_data d') bufsz off sz) = take sz buf"
proof -
  have fits: "off + sz \<le> max_block" using assms(1) by (auto simp: updateData_def split: if_splits)
  from updateData_effect [OF this assms(2), of d] assms(1)
  have len: "length (di_data d') = max (off + sz) (length (di_data d))"
    and bytes: "\<And>i. byte_at (di_data d') i = (if off \<le> i \<and> i < off + sz then buf ! (i - off) else byte_at (di_data d) i)"
    and upd: "di_updates d' = di_updates d @ [(off, sz)]" by auto
  from upd show "hasUpdates d'" by (simp add: hasUpdates_def)
  from assms(1) show "di_key d' = di_key d" by (auto simp: updateData_def Let_def split: if_splits sum.splits)
  have at: "di_data d' ! (off + i) = buf ! i" if "i < sz" for i
    using bytes [of "off + i"] that len by (simp add: byte_at_def less_max_iff_disj)
  have "take sz (read_block (di_data d') bufsz off sz) = take sz (drop off (di_data d'))"
    using len assms(3) by (simp add: read_block_def str_resize_def)
  also have "\<dots> = take sz buf"
    using len assms(2) at by (intro nth_equalityI) simp_all
  finally show "take sz (read_block (di_data d') bufsz off sz) = take sz buf" .
qed

text \<open>A block that is replaced by a changed one stays in the cache, pinned by its changes.\<close>

lemma data_get_changed:
  assumes "data_ok s" "lru_contents (data_cache s) key = Some di" "di_key d = di_key (dis s ! di)" "hasUpdates d"
  shows "\<exists>s'. data_get E key (s\<lparr>dis := (dis s)[di := d]\<rparr>) = (Inr (Some di), s') \<and> dis s' = (dis s)[di := d]
     \<and> mdis s' = mdis s"
proof -
  let ?s = "s\<lparr>dis := (dis s)[di := d]\<rparr>"
  have di: "di < length (dis s)" using assms(1,2) unfolding data_ok_def refs_ok_def by blast
  have "dat_key ?s q = dat_key s q" for q
    using di assms(3) by (cases "q = di") (simp_all add: dat_key_def)
  then have "dat_key ?s = dat_key s" by (rule ext)
  then have v: "lru_valid (dat_key ?s) (data_cache s)" and b: "key \<notin> blocked_keys (data_cache s)"
    using assms(1) by (simp_all add: data_ok_def refs_ok_def)
  have dirty: "di_hasUpdates ?s di" using di assms(4) by (simp add: di_hasUpdates_def)
  obtain hit c' where g: "lru_get (di_hasUpdates ?s) (steady_now E) key (data_cache s) = Inr (hit, c')"
    using lru.get_returns [OF v b] by blast
  have "hit = Some di" using lru.get_result [OF v g] assms(2) dirty by blast
  with g show ?thesis by (simp add: data_get_def on_cache_def)
qed

text \<open>
  C12. What one call writes the next call reads: when the part of a write that lies in the
  first block has been taken over into the data cache, a read of the same region through the
  same client returns the bytes written, whatever the drive holds and whether or not the write
  extends the file; the changed block cannot have been evicted or have expired before.
\<close>

theorem write_then_read:
  assumes "data_ok s" "sz \<le> length buf" "do_write n E buf sz off mdi s = (Inr (w, Some di), s')"
  shows "\<exists>content s''. do_read (Suc m) E sz off mdi s' = (Inr (w, content), s'')
     \<and> take (nat w) content = take (nat w) buf"
proof -
  let ?bs = "blocksize s"
  let ?start = "off - off div ?bs * ?bs"
  let ?len = "min sz (?bs - ?start)"
  have mdi: "mdi < length (mdis s)"
    using assms(3) by (auto simp: do_write_def cmd_simps call_def mdi_at_def split: if_splits)
  let ?key = "block_key (inode_number (md (mdis s ! mdi))) (off div ?bs)"
  from assms(3) mdi obtain r s1 where f: "data_fetch n E ?key (int off + int sz > uint (md_size (md (mdis s ! mdi)))) s = (Inr r, s1)"
    and rest: "(case r of Inl err \<Rightarrow> ret (err, None)
       | Inr di \<Rightarrow> call (write_block di buf ?start ?len) (\<lambda>_. ret (int ?len, Some di))) s1 = (Inr (w, Some di), s')"
    by (auto simp: do_write_def Let_def cmd_simps call_Inr simp del: diff_diff_right)
  from rest have r: "r = Inr di" and w: "w = int ?len" and wb: "write_block di buf ?start ?len s1 = (Inr (), s')"
    by (auto simp: call_Inr split: sum.splits)
  have s1: "data_ok s1" "lru_contents (data_cache s1) ?key = Some di" "mdis s1 = mdis s" "blocksize s1 = ?bs"
    using data_fetch_result [OF assms(1) f [unfolded r]] by simp_all
  have di: "di < length (dis s1)" using s1(1,2) unfolding data_ok_def refs_ok_def by blast
  from wb di obtain e d' where u: "updateData buf ?start ?len (dis s1 ! di) = Inr (e, d')" "s' = s1\<lparr>dis := (dis s1)[di := d']\<rparr>"
    by (cases "updateData buf ?start ?len (dis s1 ! di)") (auto simp: write_block_def cmd_simps set_di_def)
  have le: "?len \<le> length buf" using assms(2) by simp
  note ub = read_block_updated [OF u(1) le, of sz]
  obtain s2 where g: "data_get E ?key s' = (Inr (Some di), s2)" "dis s2 = (dis s1)[di := d']" "mdis s2 = mdis s1"
    using data_get_changed [OF s1(1,2) ub(2,1), of E] u(2) by auto
  have "mdis s' = mdis s" "blocksize s' = ?bs" using s1 u(2) by simp_all
  then have "do_read (Suc m) E sz off mdi s' = (Inr (w, read_block (di_data d') sz ?start ?len), s2)"
    using mdi g di w by (simp add: do_read_def Let_def cmd_simps del: diff_diff_right)
  with ub(3) w show ?thesis by simp
qed

definition open_file_client :: "drive hflat_priv" where
  "open_file_client = (log_client [])\<lparr>mdis := [MetadataInfo_new ''/f'']\<rparr>"

lemma open_file_client_ok: "data_ok open_file_client"
  by (simp add: data_ok_def refs_ok_def open_file_client_def log_client_def hflat_priv_new_def LRUcache_new_def
      lru_valid_def lru_ok_def lru_contents_def)

lemma open_file_write:
  "do_write 2 (drive_env 7 100 5) ''hello'' 5 3 0 open_file_client =
     (Inr (5, Some 0), open_file_client\<lparr>dis := [\<lparr>di_key = block_key 0 0, di_keyVersion = '''',
        di_data = replicate 3 (CHR 0x00) @ ''hello'', di_updates = [(3, 5)]\<rparr>],
        data_cache := (data_cache open_file_client)\<lparr>cache := [(block_key 0 0, 0, 5000)]\<rparr>\<rparr>)"
  by (simp add: open_file_client_def log_client_def hflat_priv_new_def LRUcache_new_def do_write_def MetadataInfo_new_def
      Metadata_default_def cmd_simps numeral_2_eq_2 data_get_def data_block_def data_add_def on_cache_def lru_get_def
      lru_block_def lru_add_def evict.simps deref_def REQ_TRUE_def write_block_def updateData_def DataInfo_new_def
      str_resize_def str_replace_def dat_key_def di_hasUpdates_def lru_remove_def remove_at_def expired_def)

theorem write_then_read_witness:
  "\<exists>content s''. do_read (Suc 0) (drive_env 7 100 5) 5 3 0
        (snd (do_write 2 (drive_env 7 100 5) ''hello'' 5 3 0 open_file_client)) = (Inr (5, content), s'')
     \<and> take (nat 5) content = take (nat 5) ''hello''"
  by (rule write_then_read [where n = 2 and di = 0, OF open_file_client_ok]) (simp_all add: open_file_write)

end
