(* ===== verification/Fuse_Dir_Props.thy ===== *)
theory Fuse_Dir_Props
  imports Fuse_Props
begin

unbundle bit_operations_syntax

section \<open>Directories on a drive\<close>

text \<open>
  A directory is a range of keys. On a namespace that fulfils its contract a listing returns
  every entry of the directory once, however many requests it takes. The check of a directory,
  which builds the paths of the entries itself, removes entries of intact files.
\<close>

subsection \<open>Keys of directory entries\<close>

lemma key_less_common [simp]: "key_less (p @ x) (p @ y) = key_less x y"
  by (induction p) simp_all

lemma key_less_self [simp]: "key_less p (p @ x) \<longleftrightarrow> x \<noteq> []"
  using key_less_common [of p "[]" x] by (cases x) simp_all

lemma key_less_between:
  "key_less p k \<Longrightarrow> key_less k (p @ [c]) \<Longrightarrow> \<exists>x. k = p @ x \<and> x \<noteq> [] \<and> key_less x [c]"
proof (induction p arbitrary: k)
  case Nil
  then show ?case by (cases k) simp_all
next
  case (Cons b p)
  then show ?case by (cases k) auto
qed

lemma no_bar: "CHR ''|'' \<notin> set (to_string (uint w))"
  using nat_to_string_digits [of "nat (uint w)"] by (auto simp: to_string_def is_digit_def)

lemma entry_name_direntry [simp]: "entry_name (direntry_key ino name) = name"
proof -
  have "find_first (\<lambda>c. c = CHR ''|'') (to_string (uint ino)) = None" using no_bar [of ino] by (auto simp: find_first_None)
  then show ?thesis by (simp add: entry_name_def direntry_key_def)
qed

lemma direntry_key_inject [simp]: "direntry_key ino name = direntry_key ino name' \<longleftrightarrow> name = name'"
  by (simp add: direntry_key_def)

lemma dir_range:
  assumes "dir_keyrange ino c = (a, b)"
  shows "key_less a k \<and> key_less k b \<longleftrightarrow> (\<exists>name. k = direntry_key ino name \<and> name \<noteq> [] \<and> key_less name [c])"
proof -
  let ?p = "to_string (uint ino) @ ''|''"
  have ab: "a = ?p" "b = ?p @ [c]" using assms by (auto simp: dir_keyrange_def)
  have k: "direntry_key ino name = ?p @ name" for name by (simp add: direntry_key_def)
  show ?thesis unfolding k ab using key_less_between [of ?p k c] key_less_self [of ?p] key_less_common [of ?p] by blast
qed

subsection \<open>Listing\<close>

text \<open>A listing that continues behind the last key of a full answer.\<close>

lemma sorted_rest:
  assumes "sorted_wrt key_less all" "m < length all"
  shows "set (drop (Suc m) all) = {k \<in> set all. key_less (all ! m) k}"
proof -
  have asym: "\<not> key_less v u" if "key_less u v" for u v using key_less_trans [OF that] by fastforce
  have less: "key_less (all ! i) (all ! j) \<longleftrightarrow> i < j" if "i < length all" "j < length all" for i j
    using sorted_wrt_nth_less [OF assms(1)] that asym by (metis key_less_irrefl linorder_cases)
  show ?thesis
  proof (intro set_eqI iffI)
    fix k
    assume "k \<in> set (drop (Suc m) all)"
    then obtain j where "j < length all - Suc m" "k = all ! (Suc m + j)" by (auto simp: in_set_conv_nth)
    then show "k \<in> {k \<in> set all. key_less (all ! m) k}" using less [of m "Suc m + j"] assms(2) by auto
  next
    fix k
    assume "k \<in> {k \<in> set all. key_less (all ! m) k}"
    then obtain j where j: "j < length all" "k = all ! j" "m < j" using less assms(2) by (auto simp: in_set_conv_nth)
    then have "k = drop (Suc m) all ! (j - Suc m)" "j - Suc m < length (drop (Suc m) all)" by simp_all
    then show "k \<in> set (drop (Suc m) all)" by (metis nth_mem)
  qed
qed

context reliable_client
begin

lemma readdir_loop_result:
  assumes "sorted_wrt key_less all" "set all = {k. store (kinetic s) k \<noteq> None \<and> key_less a k \<and> key_less k b}" "length all < 100 * n"
  shows "readdir_loop n E a b s = (Inr (map entry_name all), s)"
  using assms
proof (induction n arbitrary: a all)
  case (Suc n)
  obtain ks where ks: "ns_GetKeyRange (ns E) a b 100 (kinetic s) = ((OK, Some ks), kinetic s)"
      "key_range (\<lambda>k. store (kinetic s) k \<noteq> None) key_less a b 100 ks" using GetKeyRange by blast
  have "ks = take 100 all"
    using key_range_unique [OF ks(2)] Suc.prems(1,2) unfolding key_range_def by blast
  note ks = ks(1) this
  show ?case
  proof (cases "100 \<le> length all")
    case False
    with ks show ?thesis by (simp add: cmd_simps Let_def)
  next
    case True
    then have "length ks = 100" "ks \<noteq> []" using ks(2) by auto
    with ks(2) have l: "last ks = all ! 99" "length ks = 100" by (simp_all add: last_conv_nth)
    have "all ! 99 \<in> set all" using True by simp
    then have after: "key_less a (all ! 99)" using Suc.prems(2) by simp
    have "set (drop 100 all) = {k \<in> set all. key_less (all ! 99) k}" using sorted_rest [OF Suc.prems(1), of 99] True by simp
    then have rest: "set (drop 100 all) = {k. store (kinetic s) k \<noteq> None \<and> key_less (all ! 99) k \<and> key_less k b}"
      unfolding Suc.prems(2) using key_less_trans [OF after] by blast
    have "readdir_loop n E (last ks) b s = (Inr (map entry_name (drop 100 all)), s)"
      unfolding l by (rule Suc.IH) (use Suc.prems rest True in \<open>auto simp: sorted_wrt_drop\<close>)
    with ks l show ?thesis by (simp add: call_def run_ns_def Let_def flip: map_append)
  qed
qed simp

end

text \<open>
  C20. A listing is complete up to names with high bytes: on a namespace whose range requests answer
  for all keys, as a single drive does, \<^verbatim>\<open>readdir\<close> returns the name of every entry of the directory
  that is not empty and starts with a byte below 0xFB, exactly once and in the order of the keys,
  in requests of at most 100 keys, when it is allowed enough of them. Other names are not listed.
\<close>

theorem readdir_complete:
  assumes "reliable_client E store" "lookup n E path None s = (Inr (0, Some r), s')" "r < length (mdis s')"
    "check_access (ctx_uid E) (ctx_gid E) (md (mdis s' ! r)) R_OK = 0"
    "card {name. store (kinetic s') (direntry_key (inode_number (md (mdis s' ! r))) name) \<noteq> None \<and> name \<noteq> '''' \<and> key_less name [CHR 0xFB]} < 100 * n"
  shows "\<exists>names. hflat_readdir n E path s = (Inr (0, names), s') \<and> sorted_wrt key_less names
     \<and> set names = {name. store (kinetic s') (direntry_key (inode_number (md (mdis s' ! r))) name) \<noteq> None \<and> name \<noteq> '''' \<and> key_less name [CHR 0xFB]}"
proof -
  let ?ino = "inode_number (md (mdis s' ! r))"
  let ?N = "{name. store (kinetic s') (direntry_key ?ino name) \<noteq> None \<and> name \<noteq> '''' \<and> key_less name [CHR 0xFB]}"
  obtain a b where ab: "dir_keyrange ?ino (CHR 0xFB) = (a, b)" by fastforce
  obtain all where all: "sorted_wrt key_less all" "set all = {k. store (kinetic s') k \<noteq> None \<and> key_less a k \<and> key_less k b}"
    using reliable_namespace.GetKeyRange [OF reliable_client.axioms(1) [OF assms(1)], of a b 0 "kinetic s'"] by (auto simp: key_range_def)
  have keys: "set all = direntry_key ?ino ` ?N" unfolding all(2) dir_range [OF ab] by blast
  obtain names where names: "all = map (direntry_key ?ino) names" "set names = ?N"
  proof
    show "all = map (direntry_key ?ino) (map entry_name all)"
      unfolding map_map by (rule map_idI [symmetric]) (use keys in auto)
    show "set (map entry_name all) = ?N" unfolding set_map keys image_image entry_name_direntry by simp
  qed
  have "sorted_wrt key_less names" using all(1) by (simp add: names(1) sorted_wrt_map direntry_key_def)
  moreover have "distinct names" using calculation by (induction names) auto
  then have "length all < 100 * n" using assms(5) names by (simp add: distinct_card [symmetric])
  then have "readdir_loop n E a b s' = (Inr (map entry_name all), s')"
    using reliable_client.readdir_loop_result [OF assms(1) all] by blast
  then have "hflat_readdir n E path s = (Inr (0, names), s')"
    using assms(2-4) ab by (simp add: hflat_readdir_def cmd_simps deref_def check_access_to_def names(1) comp_def)
  ultimately show ?thesis using names(2) by blast
qed

definition example_dir :: Metadata where
  "example_dir = (example_md 7 100 0x41FF)\<lparr>inode_number := 9\<rparr>"

text \<open>A drive with a directory \<open>/d\<close> that has one file, \<open>/d/a\<close>.\<close>

definition example_tree :: drive where
  "example_tree = [(''/d'', \<lparr>kr_value = enc_md example_dir, kr_version = ''v1''\<rparr>), (''9|a'', \<lparr>kr_value = '''', kr_version = ''1''\<rparr>),
     (''/d/a'', \<lparr>kr_value = enc_md (example_dir\<lparr>mode := 0x81FF, inode_number := 10\<rparr>), kr_version = ''v2''\<rparr>)]"

definition tree_client :: "drive hflat_priv" where
  "tree_client = hflat_priv_new example_tree 0 1024 TIMERELAXED"

lemmas tree_simps = tree_client_def hflat_priv_new_def LRUcache_new_def has_room_def PathMapDB_init_def
  toSystemPath_def iointercept_def searchPathRecursive.simps remapped_at_def max_stamp_def is_slash_def is_colon_def numeral_3_eq_3

lemma tree_lookup:
  "lookup (Suc n) (drive_env u 100 5) ''/d'' mdi tree_client =
     (Inr (0, Some 0), cached_new (drive_env u 100 5) ''/d'' (setMD example_dir ''v1'' (MetadataInfo_new ''/d'')) tree_client)"
  using lookup_present [OF example.reliable_client_axioms, where s = tree_client and path = "''/d''" and key = "''/d''" and stamp = 0
      and rec = "\<lparr>kr_value = enc_md example_dir, kr_version = ''v1''\<rparr>" and x = example_dir and n = n and mdi = mdi]
  by (simp add: tree_simps example_tree_def parse_all_codec [OF codec_md] example_dir_def example_md_def Metadata_default_def)

lemma direntry_key_9: "direntry_key 9 name = ''9|'' @ name"
proof -
  have "to_string 9 = ''9''" by code_simp
  then show ?thesis by (simp add: direntry_key_def)
qed

theorem readdir_complete_witness:
  "\<exists>names s'. hflat_readdir (Suc 2) (drive_env 7 100 5) ''/d'' tree_client = (Inr (0, names), s') \<and> set names = {''a''}"
proof -
  let ?E = "drive_env 7 100 5"
  let ?s = "cached_new ?E ''/d'' (setMD example_dir ''v1'' (MetadataInfo_new ''/d'')) tree_client"
  have ino: "inode_number (md (mdis ?s ! 0)) = 9" "kinetic ?s = example_tree"
    by (simp_all add: cached_new_def tree_client_def hflat_priv_new_def setMD_def example_dir_def)
  have names: "{name. map_of (kinetic ?s) (direntry_key (inode_number (md (mdis ?s ! 0))) name) \<noteq> None \<and> name \<noteq> '''' \<and> key_less name [CHR 0xFB]} = {''a''}"
    unfolding ino direntry_key_9 by (auto simp: example_tree_def)
  have "0 < length (mdis ?s)" "check_access (ctx_uid ?E) (ctx_gid ?E) (md (mdis ?s ! 0)) R_OK = 0"
    by (simp_all add: cached_new_def tree_client_def hflat_priv_new_def setMD_def example_dir_def example_md_def check_access_def)
  from readdir_complete [OF example.reliable_client_axioms tree_lookup [where n = 2] this, unfolded names] show ?thesis by auto
qed

subsection \<open>Checking\<close>

context reliable_client
begin

text \<open>The keys a scan of a directory with at most 99 entries gets.\<close>

lemma scan_request:
  assumes "set ks = direntry_key ino ` {name. store n (direntry_key ino name) \<noteq> None \<and> name \<noteq> '''' \<and> key_less name [CHR 0xFE]}"
    "sorted_wrt key_less ks" "dir_keyrange ino (CHR 0xFE) = (a, b)" "length ks < 100"
  shows "ns_GetKeyRange (ns E) a b 100 n = ((OK, Some ks), n)"
proof -
  obtain all where all: "ns_GetKeyRange (ns E) a b 100 n = ((OK, Some all), n)" "key_range (\<lambda>k. store n k \<noteq> None) key_less a b 100 all"
    using GetKeyRange by blast
  have "set ks = {k. store n k \<noteq> None \<and> key_less a k \<and> key_less k b}" unfolding assms(1) dir_range [OF assms(3)] by blast
  with assms(2,4) have "key_range (\<lambda>k. store n k \<noteq> None) key_less a b 100 ks" unfolding key_range_def by (intro exI [of _ ks]) simp
  with all show ?thesis using key_range_unique by blast
qed

lemma delete_direntry:
  assumes "r < length (mdis s)" "posix s \<noteq> FULL" "store (kinetic s) (direntry_key (inode_number (md (mdis s ! r))) name) = Some rec" "kr_version rec = to_string 1"
  shows "\<exists>k. delete_directory_entry n E r name s = (Inr 0, s\<lparr>kinetic := k\<rparr>)
     \<and> store k = (store (kinetic s))(direntry_key (inode_number (md (mdis s ! r))) name := None)"
proof -
  have "version_matches (Some rec) (to_string 1) REQUIRE_SAME_VERSION" using assms(4) by (simp add: version_matches_def)
  from Delete_matches [OF assms(3) this] obtain k where
    "ns_Delete (ns E) (direntry_key (inode_number (md (mdis s ! r))) name) (to_string 1) REQUIRE_SAME_VERSION (kinetic s) = (OK, k)"
    "store k = (store (kinetic s))(direntry_key (inode_number (md (mdis s ! r))) name := None)" by blast
  with assms(1,2) show ?thesis by (intro exI [of _ k]) (simp add: delete_directory_entry_def touch_parent_def cmd_simps)
qed

end

text \<open>
  C38. The check of a directory removes entries of intact files: the path of an entry is built
  without a slash between the directory and the name, so in every directory but the root the
  check looks up paths that do not exist. For a directory with one entry, in the relaxed mode,
  it succeeds and the entry is gone, while the metadata of the file is left on the drive.
\<close>

theorem fsck_drops_healthy_entry:
  assumes "reliable_client E store" "r < length (mdis s)" "S_ISDIR (mode (md (mdis s ! r)))" "ctx_uid E = 0" "posix s = TIMERELAXED"
    "{x. store (kinetic s) (direntry_key (inode_number (md (mdis s ! r))) x) \<noteq> None \<and> x \<noteq> '''' \<and> key_less x [CHR 0xFE]} = {name}"
    "CHR ''|'' \<notin> set name"
    "store (kinetic s) (direntry_key (inode_number (md (mdis s ! r))) name) = Some rec" "kr_version rec = to_string 1"
    "toSystemPath (Suc n) (pmap s) (path @ name) LOOKUP = Inr (key, stamp)" "0 \<le> stamp" "\<not> hasMapping (pmap s) (path @ name)"
    "map_of (cache (lookup_cache s)) key = None" "key \<notin> blocked_keys (lookup_cache s)" "has_room (lookup_cache s)"
    "store (kinetic s) key = None"
  shows "\<exists>s'. fsck_directory (Suc (Suc (Suc n))) E path r s = (Inr 0, s')
     \<and> store (kinetic s') = (store (kinetic s))(direntry_key (inode_number (md (mdis s ! r))) name := None)"
proof -
  let ?ino = "inode_number (md (mdis s ! r))"
  let ?s1 = "cached_new E key (MetadataInfo_new key) s"
  obtain a b where ab: "dir_keyrange ?ino (CHR 0xFE) = (a, b)" by fastforce
  have s1: "r < length (mdis ?s1)" "mdis ?s1 ! r = mdis s ! r" "posix ?s1 = TIMERELAXED" "kinetic ?s1 = kinetic s" "pmap ?s1 = pmap s"
    using assms(2,5) by (simp_all add: cached_new_def nth_append)
  have get: "ns_GetKeyRange (ns E) a b 100 (kinetic s) = ((OK, Some [direntry_key ?ino name]), kinetic s)"
    by (rule reliable_client.scan_request [OF assms(1) _ _ ab]) (unfold assms(6), simp_all)
  have "lookup (Suc n) E (path @ name) None s = (Inr (- ENOENT, Some (length (mdis s))), ?s1)"
    using lookup_absent [OF assms(1,10,11,13-16)] .
  then have keys: "scan_keys (Suc n) E path [direntry_key ?ino name] e s = (Inr (- ENOENT, name), ?s1)" for e
    by (simp add: call_def del: lookup.simps)
  have scan: "scan_direntries (Suc (Suc n)) E path r e s = (Inr (- ENOENT, name), ?s1)" for e
    using get ab assms(2) keys by (simp add: scan_direntries_def call_def run_ns_def mdi_at_def Let_def del: scan_keys.simps)
  obtain k where k: "delete_directory_entry (Suc (Suc n)) E r name ?s1 = (Inr 0, ?s1\<lparr>kinetic := k\<rparr>)"
      "store k = (store (kinetic s))(direntry_key ?ino name := None)"
    using reliable_client.delete_direntry [OF assms(1) s1(1), of name rec "Suc (Suc n)"] s1 assms(8,9) by auto
  let ?s2 = "?s1\<lparr>kinetic := k\<rparr>"
  have "{x. store k (direntry_key ?ino x) \<noteq> None \<and> x \<noteq> '''' \<and> key_less x [CHR 0xFE]} = {}"
    using assms(6) unfolding k(2) by auto
  then have get2: "ns_GetKeyRange (ns E) a b 100 k = ((OK, Some []), k)"
    by (intro reliable_client.scan_request [OF assms(1) _ _ ab]) simp_all
  have "scan_direntries (Suc n) E path r name ?s2 = (Inr (0, name), ?s2)"
    using get2 ab s1(1,2) by (simp add: scan_direntries_def cmd_simps call_def run_ns_def mdi_at_def)
  then have loop: "fsck_loop (Suc (Suc n)) E path r name ?s2 = (Inr 0, ?s2)" by (simp add: call_def)
  have "fsck_directory (Suc (Suc (Suc n))) E path r s = (Inr 0, ?s2)"
    using scan k(1) loop assms(2-4,7,12) s1(5)
    by (simp add: fsck_directory_def cmd_simps check_assert_def remove_if_mapped_def call_def mdi_at_def del: fsck_loop.simps(2)
      add: fsck_loop.simps(2) [of "Suc (Suc n)"])
  with k(2) show ?thesis by auto
qed

definition checked_client :: "drive hflat_priv" where
  "checked_client = tree_client\<lparr>mdis := [(MetadataInfo_new ''/d'')\<lparr>md := example_dir\<rparr>]\<rparr>"

theorem fsck_drops_healthy_entry_witness:
  "\<exists>s'. fsck_directory (Suc (Suc (Suc 2))) (drive_env 0 100 5) ''/d'' 0 checked_client = (Inr 0, s')
     \<and> map_of (kinetic s') ''9|a'' = None \<and> map_of (kinetic s') ''/d/a'' = map_of example_tree ''/d/a''"
proof -
  let ?s = checked_client
  have s: "mdis ?s ! 0 = (MetadataInfo_new ''/d'')\<lparr>md := example_dir\<rparr>" "length (mdis ?s) = 1" "kinetic ?s = example_tree" "posix ?s = TIMERELAXED"
    and ino: "inode_number (md (mdis ?s ! 0)) = 9"
    by (simp_all add: checked_client_def tree_client_def hflat_priv_new_def example_dir_def)
  have names: "{x. map_of (kinetic ?s) (direntry_key (inode_number (md (mdis ?s ! 0))) x) \<noteq> None \<and> x \<noteq> '''' \<and> key_less x [CHR 0xFE]} = {''a''}"
    unfolding ino s(3) direntry_key_9 by (auto simp: example_tree_def)
  have one: "to_string 1 = ''1''" by code_simp
  have "\<exists>s'. fsck_directory (Suc (Suc (Suc 2))) (drive_env 0 100 5) ''/d'' 0 ?s = (Inr 0, s')
     \<and> map_of (kinetic s') = (map_of (kinetic ?s))(direntry_key (inode_number (md (mdis ?s ! 0))) ''a'' := None)"
  proof (rule fsck_drops_healthy_entry [OF example.reliable_client_axioms _ _ _ _ names, where key = "''/da''" and stamp = 0 and n = 2])
    show "map_of (kinetic ?s) (direntry_key (inode_number (md (mdis ?s ! 0))) ''a'') = Some \<lparr>kr_value = '''', kr_version = ''1''\<rparr>"
      unfolding ino s(3) direntry_key_9 by (simp add: example_tree_def)
  qed (simp_all add: s one example_dir_def example_md_def example_tree_def checked_client_def tree_simps hasMapping_def S_ISDIR_def)
  then show ?thesis unfolding ino s(3) direntry_key_9 by auto
qed

subsection \<open>Creating\<close>

lemma lookup_parent_present:
  assumes "parent_path path = Some dir" "lookup n E dir None s = (Inr (0, Some p), s')" "p < length (mdis s')" "S_ISDIR (mode (md (mdis s' ! p)))"
  shows "lookup_parent (Suc n) E path None s =
     (Inr (check_path_permissions (ctx_uid E) (ctx_gid E) (path_permission_children (md (mdis s' ! p))), Some p), s')"
  using assms by (simp add: cmd_simps del: lookup.simps)

text \<open>The metadata of a file that is created below a directory.\<close>

definition created_file :: "'n env \<Rightarrow> 64 word \<Rightarrow> 32 word \<Rightarrow> Metadata \<Rightarrow> Metadata" where
  "created_file E ino fmode dir = Metadata_default\<lparr>atime := word_of_int (time_now E), mtime := word_of_int (time_now E), ctime := word_of_int (time_now E),
     md_type := POSIX, gid := ctx_gid E, uid := ctx_uid E, mode := fmode, inode_number := ino,
     path_permission := path_permission dir @ path_permission_children dir, path_permission_verified := path_permission_verified dir\<rparr>"

lemma initialize_metadata_result:
  assumes "r < length (mdis s)" "p < length (mdis s)" "r \<noteq> p" "md (mdis s ! r) = Metadata_default" "uint (inum_counter s) < 65534" "\<not> S_ISDIR fmode"
  shows "initialize_metadata n E r p fmode s =
     (Inr (), s\<lparr>inum_counter := inum_counter s + 1,
        mdis := (mdis s)[r := (mdis s ! r)\<lparr>md := created_file E (word_of_int (inum_base s + uint (inum_counter s) + 1)) fmode (md (mdis s ! p))\<rparr>]\<rparr>)"
proof -
  define ino :: "64 word" where "ino = word_of_int (inum_base s + uint (inum_counter s) + 1)"
  have gen: "call (generate_inode_number n E) f s0 = f ino (s0\<lparr>inum_counter := inum_counter s + 1\<rparr>)"
    if "inum_counter s0 = inum_counter s" "inum_base s0 = inum_base s" for s0 and f :: "64 word \<Rightarrow> ('a, unit) fs"
    using generate_in_range(1) [of s0 n E] assms(5) that by (simp only: call_def ino_def split: prod.splits sum.splits) simp
  have "initialize_metadata n E r p fmode s =
     (Inr (), s\<lparr>inum_counter := inum_counter s + 1, mdis := (mdis s)[r := (mdis s ! r)\<lparr>md := created_file E ino fmode (md (mdis s ! p))\<rparr>]\<rparr>)"
    using assms by (simp add: initialize_metadata_def cmd_simps gen updateACMtime_def inherit_from_def inherit_path_permissions_def Let_def)
      (simp add: created_file_def set_mdi_def)
  then show ?thesis by (simp only: ino_def)
qed

text \<open>
  C8. Creating a file stores exactly two keys: the entry in the directory above it, and the
  metadata with the requested mode, the caller as owner, the next inode number of the client
  and the path permissions the directory hands down. The caller must be allowed to pass and to
  write the directory. The file is one that does not exist, in the relaxed mode, looked up by a
  client that has neither the file nor the directory in its cache.
\<close>

theorem create_stores_file:
  assumes "reliable_client E store" "posix s = TIMERELAXED" "uint (inum_counter s) < 65534" "\<not> S_ISDIR fmode"
    "toSystemPath (Suc (Suc n)) (pmap s) path LOOKUP = Inr (key, stamp)" "0 \<le> stamp" "store (kinetic s) key = None"
    "parent_path path = Some dir" "toSystemPath (Suc n) (pmap s) dir LOOKUP = Inr (dirkey, stamp')" "0 \<le> stamp'"
    "store (kinetic s) dirkey = Some rec" "md_ParseFromString E (kr_value rec) = Some x" "inode_number x \<noteq> 0" "md_type x = POSIX"
    "S_ISDIR (mode x)" "stamp' \<le> path_permission_verified x"
    "check_path_permissions (ctx_uid E) (ctx_gid E) (path_permission x) = 0"
    "check_path_permissions (ctx_uid E) (ctx_gid E) (path_permission_children x) = 0" "check_access (ctx_uid E) (ctx_gid E) x W_OK = 0"
    "map_of (cache (lookup_cache s)) key = None" "map_of (cache (lookup_cache s)) dirkey = None"
    "blocked_keys (lookup_cache s) = {}" "length (cache (lookup_cache s)) + 1 < capacity (lookup_cache s)"
    "store (kinetic s) (direntry_key (inode_number x) (path_to_filename path)) = None" "direntry_key (inode_number x) (path_to_filename path) \<noteq> key"
  shows "\<exists>s'. hflat_create (Suc (Suc n)) E path fmode s = (Inr 0, s')
     \<and> store (kinetic s') = (store (kinetic s))
         (direntry_key (inode_number x) (path_to_filename path) \<mapsto> \<lparr>kr_value = '''', kr_version = to_string 1\<rparr>,
          key \<mapsto> \<lparr>kr_value = md_SerializeAsString E (created_file E (word_of_int (inum_base s + uint (inum_counter s) + 1)) fmode x),
                 kr_version = uuid_generate E (uuids s)\<rparr>)"
proof -
  let ?r = "length (mdis s)" and ?entry = "direntry_key (inode_number x) (path_to_filename path)"
  let ?y = "created_file E (word_of_int (inum_base s + uint (inum_counter s) + 1)) fmode x"
  let ?s1 = "cached_new E key (MetadataInfo_new key) s"
  let ?s2 = "cached_new E dirkey (setMD x (kr_version rec) (MetadataInfo_new dirkey)) ?s1"
  have ne: "dirkey \<noteq> key" using assms(7,11) by auto
  have l1: "lookup (Suc (Suc n)) E path None s = (Inr (- ENOENT, Some ?r), ?s1)"
    by (rule lookup_absent [OF assms(1,5,6,20)]) (use assms(7,22,23) in \<open>simp_all add: has_room_def\<close>)
  have "lookup (Suc n) E dir None ?s1 =
     (Inr (check_path_permissions (ctx_uid E) (ctx_gid E) (path_permission x), Some (length (mdis ?s1))), ?s2)"
    by (rule lookup_present [OF assms(1)]) (use assms ne in \<open>simp_all add: cached_new_def has_room_def\<close>)
  then have "lookup (Suc n) E dir None ?s1 = (Inr (0, Some (Suc ?r)), ?s2)" using assms(17) by (simp add: cached_new_def del: lookup.simps)
  from lookup_parent_present [OF assms(8) this] assms(15,18)
  have l2: "lookup_parent (Suc (Suc n)) E path None ?s1 = (Inr (0, Some (Suc ?r)), ?s2)"
    by (simp add: cached_new_def setMD_def nth_append del: lookup_parent.simps)
  have s2: "mdis ?s2 = mdis s @ [MetadataInfo_new key, setMD x (kr_version rec) (MetadataInfo_new dirkey)]" "kinetic ?s2 = kinetic s"
    "posix ?s2 = TIMERELAXED" "inum_counter ?s2 = inum_counter s" "inum_base ?s2 = inum_base s" "uuids ?s2 = uuids s"
    using assms(2) by (simp_all add: cached_new_def)
  have "version_matches (store (kinetic s) ?entry) '''' REQUIRE_SAME_VERSION" using assms(24) by (simp add: version_matches_def)
  from reliable_namespace.Put_matches [OF reliable_client.axioms(1) [OF assms(1)] this] obtain k where
    put: "ns_Put (ns E) ?entry '''' REQUIRE_SAME_VERSION \<lparr>kr_value = '''', kr_version = to_string 1\<rparr> (kinetic s) = (OK, k)"
    "store k = (store (kinetic s))(?entry \<mapsto> \<lparr>kr_value = '''', kr_version = to_string 1\<rparr>)" by blast
  let ?s3 = "?s2\<lparr>kinetic := k\<rparr>"
  have at: "mdis ?s2 ! Suc ?r = setMD x (kr_version rec) (MetadataInfo_new dirkey)" "Suc ?r < length (mdis ?s2)"
    by (simp_all add: s2(1) nth_append)
  have "create_directory_entry (Suc (Suc n)) E (Suc ?r) (path_to_filename path) ?s2 = (Inr 0, ?s3)"
    using at put(1) s2(2,3) by (simp add: create_directory_entry_def touch_parent_def cmd_simps setMD_def)
  moreover have "check_access_to E (Suc ?r) W_OK ?s2 = (Inr 0, ?s2)" using at assms(19) by (simp add: check_access_to_def cmd_simps setMD_def)
  moreover obtain s4 where s4: "initialize_metadata (Suc (Suc n)) E ?r (Suc ?r) fmode ?s3 = (Inr (), s4)" "kinetic s4 = k" "uuids s4 = uuids s"
    "mdis s4 = (mdis ?s2)[?r := (MetadataInfo_new key)\<lparr>md := ?y\<rparr>]"
    using initialize_metadata_result [of ?r ?s3 "Suc ?r" fmode "Suc (Suc n)" E] assms(3,4) s2
    by (simp add: nth_append setMD_def MetadataInfo_new_def)
  moreover have m4: "mdis s4 ! ?r = (MetadataInfo_new key)\<lparr>md := ?y\<rparr>" "?r < length (mdis s4)" by (simp_all add: s4(4) s2(1) nth_append)
  then have sp: "systemPath (mdis s4 ! ?r) = key" "md (mdis s4 ! ?r) = ?y" by (simp_all add: MetadataInfo_new_def)
  have "store (kinetic s4) key = None" using s4(2) put(2) assms(7,25) by simp
  with reliable_client.create_metadata_absent [OF assms(1) m4(2)] sp s4(2,3) obtain k' s' where
    "create_metadata E ?r s4 = (Inr 0, s')" "kinetic s' = k'"
    "store k' = (store k)(key \<mapsto> \<lparr>kr_value = md_SerializeAsString E ?y, kr_version = uuid_generate E (uuids s)\<rparr>)" by auto
  ultimately have "hflat_create (Suc (Suc n)) E path fmode s = (Inr 0, s')"
    using l1 l2 by (simp add: hflat_create_def call_def deref_def REQ_0_def del: lookup.simps lookup_parent.simps)
  with \<open>kinetic s' = k'\<close> \<open>store k' = _\<close> put(2) show ?thesis by auto
qed

theorem create_stores_file_witness:
  "\<exists>s'. hflat_create (Suc (Suc (Suc 0))) (drive_env 7 100 5) ''/d/b'' 0x81A4 tree_client = (Inr 0, s')
     \<and> map_of (kinetic s') = (map_of example_tree)
         (direntry_key (inode_number example_dir) (path_to_filename ''/d/b'') \<mapsto> \<lparr>kr_value = '''', kr_version = to_string 1\<rparr>,
          ''/d/b'' \<mapsto> \<lparr>kr_value = enc_md (created_file (drive_env 7 100 5) (word_of_int (inum_base tree_client + uint (inum_counter tree_client) + 1)) 0x81A4 example_dir),
                 kr_version = ''u'' @ nat_to_string 0\<rparr>)"
proof -
  have ino: "inode_number example_dir = 9" by (simp add: example_dir_def)
  have paths: "toSystemPath (Suc n) (pmap tree_client) ''/d'' LOOKUP = Inr (''/d'', 0)" "toSystemPath (Suc n) (pmap tree_client) ''/d/b'' LOOKUP = Inr (''/d/b'', 0)" for n
    by (simp_all add: tree_simps)
  have name: "path_to_filename ''/d/b'' = ''b''" by (simp add: path_to_filename_def is_slash_def is_colon_def)
  have "\<exists>s'. hflat_create (Suc (Suc (Suc 0))) (drive_env 7 100 5) ''/d/b'' 0x81A4 tree_client = (Inr 0, s')
     \<and> map_of (kinetic s') = (map_of (kinetic tree_client))
         (direntry_key (inode_number example_dir) (path_to_filename ''/d/b'') \<mapsto> \<lparr>kr_value = '''', kr_version = to_string 1\<rparr>,
          ''/d/b'' \<mapsto> \<lparr>kr_value = md_SerializeAsString (drive_env 7 100 5) (created_file (drive_env 7 100 5) (word_of_int (inum_base tree_client + uint (inum_counter tree_client) + 1)) 0x81A4 example_dir),
                 kr_version = uuid_generate (drive_env 7 100 5) (uuids tree_client)\<rparr>)"
    by (rule create_stores_file [OF example.reliable_client_axioms _ _ _ paths(2) _ _ _ paths(1), where rec = "\<lparr>kr_value = enc_md example_dir, kr_version = ''v1''\<rparr>"])
      (simp_all add: ino name direntry_key_9 paths tree_client_def hflat_priv_new_def LRUcache_new_def example_tree_def is_slash_def is_colon_def parse_all_codec [OF codec_md] parent_path_def
        S_ISDIR_def, simp_all add: example_dir_def example_md_def Metadata_default_def check_access_def)
  then show ?thesis by (simp add: tree_client_def hflat_priv_new_def del: uint_word_ariths)
qed

end
