(* ===== verification/Fuse_Rename_Props.thy ===== *)
theory Fuse_Rename_Props
  imports Fuse_Dir_Props
begin

section \<open>Renaming and removing\<close>

text \<open>
  What a rename and an unlink of a regular file leave on the drive, on a reliable namespace and
  in the relaxed mode, for the objects that the lookups at their beginning have found.
\<close>

lemma direntry_key_slash: "direntry_key ino name \<noteq> CHR ''/'' # key"
proof
  assume eq: "direntry_key ino name = CHR ''/'' # key"
  obtain c cs where "to_string (uint ino) = c # cs" "is_digit c"
    using nat_to_string_digits [of "nat (uint ino)"] by (cases "nat_to_string (nat (uint ino))") (auto simp: to_string_def)
  with eq digit_not_special [of c] show False by (simp add: direntry_key_def)
qed

context reliable_client
begin

lemma create_direntry:
  assumes "r < length (mdis s)" "posix s \<noteq> FULL" "store (kinetic s) (direntry_key (inode_number (md (mdis s ! r))) name) = None"
  shows "\<exists>k. create_directory_entry n E r name s = (Inr 0, s\<lparr>kinetic := k\<rparr>)
     \<and> store k = (store (kinetic s))(direntry_key (inode_number (md (mdis s ! r))) name \<mapsto> \<lparr>kr_value = '''', kr_version = to_string 1\<rparr>)"
proof -
  have "version_matches (store (kinetic s) (direntry_key (inode_number (md (mdis s ! r))) name)) '''' REQUIRE_SAME_VERSION"
    using assms(3) by (simp add: version_matches_def)
  from Put_matches [OF this] obtain k where
    "ns_Put (ns E) (direntry_key (inode_number (md (mdis s ! r))) name) '''' REQUIRE_SAME_VERSION \<lparr>kr_value = '''', kr_version = to_string 1\<rparr> (kinetic s) = (OK, k)"
    "store k = (store (kinetic s))(direntry_key (inode_number (md (mdis s ! r))) name \<mapsto> \<lparr>kr_value = '''', kr_version = to_string 1\<rparr>)" by blast
  with assms(1,2) show ?thesis by (intro exI [of _ k]) (simp add: create_directory_entry_def touch_parent_def cmd_simps)
qed

lemma rename_regular_moves:
  assumes "f < length (mdis s)" "t < length (mdis s)" "f \<noteq> t" "store (kinetic s) (systemPath (mdis s ! t)) = None"
    "store (kinetic s) (systemPath (mdis s ! f)) = Some rec"
  shows "\<exists>k. rename_regular E t f s = (Inr 0, s\<lparr>mdis := (mdis s)[f := updateACtime (time_now E) (mdis s ! f)], kinetic := k\<rparr>)
     \<and> store k = (store (kinetic s))(systemPath (mdis s ! t) \<mapsto>
           \<lparr>kr_value = md_SerializeAsString E (md (updateACtime (time_now E) (mdis s ! f))), kr_version = keyVersion (mdis s ! t)\<rparr>,
         systemPath (mdis s ! f) := None)"
proof -
  let ?r = "\<lparr>kr_value = md_SerializeAsString E (md (updateACtime (time_now E) (mdis s ! f))), kr_version = keyVersion (mdis s ! t)\<rparr>"
  have "version_matches (store (kinetic s) (systemPath (mdis s ! t))) '''' REQUIRE_SAME_VERSION"
    using assms(4) by (simp add: version_matches_def)
  from Put_matches [OF this, of ?r] obtain k where
    k: "ns_Put (ns E) (systemPath (mdis s ! t)) '''' REQUIRE_SAME_VERSION ?r (kinetic s) = (OK, k)"
    "store k = (store (kinetic s))(systemPath (mdis s ! t) \<mapsto> ?r)" by blast
  have ne: "systemPath (mdis s ! f) \<noteq> systemPath (mdis s ! t)" using assms(4,5) by auto
  then have "store k (systemPath (mdis s ! f)) = Some rec" using k(2) assms(5) by simp
  from Delete_matches [OF this, of "''''" IGNORE_VERSION] obtain k' where
    k': "ns_Delete (ns E) (systemPath (mdis s ! f)) '''' IGNORE_VERSION k = (OK, k')" "store k' = (store k)(systemPath (mdis s ! f) := None)"
    by (auto simp: version_matches_def)
  show ?thesis
    using assms(1-3) k k' by (intro exI [of _ k']) (simp add: rename_regular_def cmd_simps updateACtime_def)
qed

end

subsection \<open>Renaming a file\<close>

text \<open>
  What the lookups of a rename have found: a regular file \<open>f\<close> in a directory \<open>df\<close> that has an
  entry for it, and an object \<open>t\<close> for a name that does not exist in a directory \<open>dt\<close>.
\<close>

definition entry_of :: "'n hflat_priv \<Rightarrow> nat \<Rightarrow> string \<Rightarrow> string" where
  "entry_of s d name = direntry_key (inode_number (md (mdis s ! d))) name"

definition rename_ready :: "('n \<Rightarrow> string \<rightharpoonup> KineticRecord) \<Rightarrow> 'n hflat_priv \<Rightarrow> string \<Rightarrow> string \<Rightarrow> nat \<Rightarrow> nat \<Rightarrow> nat \<Rightarrow> nat
    \<Rightarrow> string \<Rightarrow> string \<Rightarrow> bool" where
  "rename_ready store s from to df dt f t key_from key_to \<longleftrightarrow>
     posix s = TIMERELAXED \<and> df < length (mdis s) \<and> dt < length (mdis s) \<and> f < length (mdis s) \<and> t < length (mdis s) \<and> f \<noteq> t \<and> f \<noteq> dt
   \<and> \<not> S_ISDIR (mode (md (mdis s ! f))) \<and> \<not> S_ISLNK (mode (md (mdis s ! f))) \<and> md_type (md (mdis s ! f)) = POSIX
   \<and> mdis s ! t = MetadataInfo_new key_to \<and> systemPath (mdis s ! f) = key_from \<and> take 1 key_from = ''/'' \<and> take 1 key_to = ''/''
   \<and> store (kinetic s) (entry_of s dt (path_to_filename to)) = None
   \<and> store (kinetic s) (entry_of s dt (path_to_filename to @ ''|recovery|'' @ from)) = None
   \<and> store (kinetic s) key_to = None \<and> store (kinetic s) key_from \<noteq> None
   \<and> map_option kr_version (store (kinetic s) (entry_of s df (path_to_filename from))) = Some (to_string 1)"

lemma rename_result:
  assumes rc: "reliable_client E store" and ready: "rename_ready store s1 from to df dt f t key_from key_to"
    and found: "rename_lookup n E from to s = (Inr (0, Some df, Some dt, Some f, Some t), s1)"
  shows "\<exists>s'. hflat_rename n E from to s = (Inr 0, s') \<and> store (kinetic s') = (store (kinetic s1))
     (entry_of s1 df (path_to_filename from) := None, entry_of s1 dt (path_to_filename to) \<mapsto> \<lparr>kr_value = '''', kr_version = to_string 1\<rparr>,
      key_from := None,
      key_to \<mapsto> \<lparr>kr_value = md_SerializeAsString E (md (updateACtime (time_now E) (mdis s1 ! f))), kr_version = ''0''\<rparr>)"
proof -
  let ?rname = "path_to_filename to @ ''|recovery|'' @ from" and ?ino = "inode_number (md (mdis s1 ! dt))"
  let ?rkey = "entry_of s1 dt ?rname" and ?to = "entry_of s1 dt (path_to_filename to)" and ?from = "entry_of s1 df (path_to_filename from)"
  let ?m = "updateACtime (time_now E) (mdis s1 ! f)" and ?e = "\<lparr>kr_value = '''', kr_version = to_string 1\<rparr>"
  have r: "posix s1 \<noteq> FULL" "df < length (mdis s1)" "dt < length (mdis s1)" "f < length (mdis s1)" "t < length (mdis s1)" "f \<noteq> t" "f \<noteq> dt"
    "\<not> S_ISDIR (mode (md (mdis s1 ! f)))" "\<not> S_ISLNK (mode (md (mdis s1 ! f)))" "md_type (md (mdis s1 ! f)) = POSIX"
    "mdis s1 ! t = MetadataInfo_new key_to" "systemPath (mdis s1 ! f) = key_from"
    "store (kinetic s1) ?to = None" "store (kinetic s1) ?rkey = None" "store (kinetic s1) key_to = None"
    using ready by (simp_all add: rename_ready_def)
  obtain rec erec where old: "store (kinetic s1) key_from = Some rec" "store (kinetic s1) ?from = Some erec" "kr_version erec = to_string 1"
    using ready by (auto simp: rename_ready_def)
  have slash: "entry_of s1 d x \<noteq> key_to" "entry_of s1 d x \<noteq> key_from" for d x
    using ready direntry_key_slash by (cases key_to; cases key_from; force simp: rename_ready_def entry_of_def)+
  have ne: "?to \<noteq> ?rkey" "?from \<noteq> ?to" "?from \<noteq> ?rkey" "key_from \<noteq> key_to"
    using r(13-15) old by (auto simp: entry_of_def)
  obtain k1 where k1: "create_directory_entry n E dt (path_to_filename to) s1 = (Inr 0, s1\<lparr>kinetic := k1\<rparr>)" "store k1 = (store (kinetic s1))(?to \<mapsto> ?e)"
    using reliable_client.create_direntry [OF rc r(3,1), of "path_to_filename to" n] r(13) by (auto simp: entry_of_def)
  obtain k2 where k2: "create_directory_entry n E dt ?rname (s1\<lparr>kinetic := k1\<rparr>) = (Inr 0, s1\<lparr>kinetic := k2\<rparr>)" "store k2 = (store k1)(?rkey \<mapsto> ?e)"
    using reliable_client.create_direntry [OF rc, of dt "s1\<lparr>kinetic := k1\<rparr>" ?rname n] r k1(2) ne(1) by (auto simp: entry_of_def)
  obtain k3 where k3: "delete_directory_entry n E df (path_to_filename from) (s1\<lparr>kinetic := k2\<rparr>) = (Inr 0, s1\<lparr>kinetic := k3\<rparr>)"
    "store k3 = (store k2)(?from := None)"
    using reliable_client.delete_direntry [OF rc, of df "s1\<lparr>kinetic := k2\<rparr>" "path_to_filename from" erec n] r(1,2) old k1(2) k2(2) ne
    by (auto simp: entry_of_def)
  have paths: "systemPath (mdis s1 ! t) = key_to" "keyVersion (mdis s1 ! t) = ''0''" "inode_number (md (mdis s1 ! t)) = 0"
    using r(11) by (simp_all add: MetadataInfo_new_def Metadata_default_def)
  obtain k4 where k4: "rename_regular E t f (s1\<lparr>kinetic := k3\<rparr>) = (Inr 0, s1\<lparr>mdis := (mdis s1)[f := ?m], kinetic := k4\<rparr>)"
    "store k4 = (store k3)(key_to \<mapsto> \<lparr>kr_value = md_SerializeAsString E (md ?m), kr_version = ''0''\<rparr>, key_from := None)"
    using reliable_client.rename_regular_moves [OF rc, of f "s1\<lparr>kinetic := k3\<rparr>" t rec] r old(1) paths k1(2) k2(2) k3(2) slash slash [symmetric] by auto
  let ?s5 = "s1\<lparr>mdis := (mdis s1)[f := ?m], kinetic := k4\<rparr>"
  obtain k5 where k5: "delete_directory_entry n E dt ?rname ?s5 = (Inr 0, ?s5\<lparr>kinetic := k5\<rparr>)" "store k5 = (store k4)(?rkey := None)"
    using reliable_client.delete_direntry [OF rc, of dt ?s5 ?rname ?e n] r(1,3,7) k4(2) k3(2) k2(2) ne slash by (auto simp: entry_of_def)
  have move: "rename_move n E from to t f df (s1\<lparr>kinetic := k3\<rparr>) = (Inr (), ?s5)"
    using r(4,8-10) k4(1) by (simp add: rename_move_def cmd_simps REQ_0_def Let_def)
  have keep: "rename_remove_target n E to t s1 = (Inr (0, Some t), s1)"
    using r(5) paths(3) by (simp add: rename_remove_target_def cmd_simps)
  have "\<exists>c. hflat_rename n E from to s = (Inr 0, s1\<lparr>mdis := (mdis s1)[f := ?m], kinetic := k5, lookup_cache := c\<rparr>)"
    using found r(4-6) keep k1(1) k2(1) k3(1) move k5(1)
    by (simp add: hflat_rename_def cmd_simps deref_def Let_def REQ_0_def) blast
  moreover have "store k5 = (store (kinetic s1))(?from := None, ?to \<mapsto> ?e, key_from := None,
      key_to \<mapsto> \<lparr>kr_value = md_SerializeAsString E (md ?m), kr_version = ''0''\<rparr>)"
    using ne slash r(14) unfolding k5(2) k4(2) k3(2) k2(2) k1(2) by (auto simp: fun_eq_iff)
  ultimately show ?thesis by auto
qed

text \<open>
  C10. A rename moves a file: for a regular file and a new name that does not exist, the
  directory entry of the old name and the metadata under the old path are gone, the directory
  entry of the new name is there, the metadata is under the new path with new time stamps, and
  no other key has changed; the entry that guards against a crash in the middle is gone, too.
  The moved record has the version that an object has that was never read from a drive.
\<close>

theorem rename_moves_file:
  assumes "reliable_client E store" "rename_ready store s1 from to df dt f t key_from key_to"
    "rename_lookup n E from to s = (Inr (0, Some df, Some dt, Some f, Some t), s1)"
  shows "\<exists>s'. hflat_rename n E from to s = (Inr 0, s') \<and> store (kinetic s') = (store (kinetic s1))
     (entry_of s1 df (path_to_filename from) := None, entry_of s1 dt (path_to_filename to) \<mapsto> \<lparr>kr_value = '''', kr_version = to_string 1\<rparr>,
      key_from := None,
      key_to \<mapsto> \<lparr>kr_value = md_SerializeAsString E (md (updateACtime (time_now E) (mdis s1 ! f))), kr_version = ''0''\<rparr>)"
  by (rule rename_result [OF assms])

text \<open>A second directory to move the file of the example into.\<close>

definition two_dirs :: drive where
  "two_dirs = (''/e'', \<lparr>kr_value = enc_md (example_dir\<lparr>inode_number := 11\<rparr>), kr_version = ''v3''\<rparr>) # example_tree"

definition two_dirs_client :: "drive hflat_priv" where
  "two_dirs_client = hflat_priv_new two_dirs 0 1024 TIMERELAXED"

abbreviation (input) d_found where "d_found \<equiv> cached_new (drive_env 7 100 5) ''/d'' (setMD example_dir ''v1'' (MetadataInfo_new ''/d'')) two_dirs_client"
abbreviation (input) e_found where "e_found \<equiv> cached_new (drive_env 7 100 5) ''/e'' (setMD (example_dir\<lparr>inode_number := 11\<rparr>) ''v3'' (MetadataInfo_new ''/e'')) d_found"
abbreviation (input) a_found where "a_found \<equiv> cached_new (drive_env 7 100 5) ''/d/a'' (setMD (example_dir\<lparr>mode := 0x81FF, inode_number := 10\<rparr>) ''v2'' (MetadataInfo_new ''/d/a'')) e_found"
abbreviation (input) b_missing where "b_missing \<equiv> cached_new (drive_env 7 100 5) ''/e/b'' (MetadataInfo_new ''/e/b'') a_found"

lemmas two_dirs_simps = two_dirs_client_def two_dirs_def cached_new_def example_tree_def hflat_priv_new_def LRUcache_new_def has_room_def

lemma two_dirs_paths:
  "toSystemPath (Suc n) (pmap two_dirs_client) ''/d'' LOOKUP = Inr (''/d'', 0)" "toSystemPath (Suc n) (pmap two_dirs_client) ''/e'' LOOKUP = Inr (''/e'', 0)"
  "toSystemPath (Suc n) (pmap two_dirs_client) ''/d/a'' LOOKUP = Inr (''/d/a'', 0)" "toSystemPath (Suc n) (pmap two_dirs_client) ''/e/b'' LOOKUP = Inr (''/e/b'', 0)"
  by (simp_all add: tree_simps two_dirs_client_def)

lemma two_dirs_lookups:
  "lookup (Suc n) (drive_env 7 100 5) ''/d'' None two_dirs_client = (Inr (0, Some 0), d_found)"
  "lookup (Suc n) (drive_env 7 100 5) ''/e'' None d_found = (Inr (0, Some 1), e_found)"
  "lookup (Suc n) (drive_env 7 100 5) ''/d/a'' None e_found = (Inr (0, Some 2), a_found)"
  "lookup (Suc n) (drive_env 7 100 5) ''/e/b'' None a_found = (Inr (- ENOENT, Some 3), b_missing)"
proof -
  note pr = lookup_present [OF example.reliable_client_axioms [of 7 100 5], where stamp = 0 and n = n and mdi = None]
  note defs = parse_all_codec [OF codec_md] example_dir_def example_md_def Metadata_default_def
  show "lookup (Suc n) (drive_env 7 100 5) ''/d'' None two_dirs_client = (Inr (0, Some 0), d_found)"
    using pr [where s = two_dirs_client and path = "''/d''" and key = "''/d''" and rec = "\<lparr>kr_value = enc_md example_dir, kr_version = ''v1''\<rparr>" and x = example_dir]
    using two_dirs_paths(1) by (simp add: two_dirs_simps defs del: lookup.simps)
  show "lookup (Suc n) (drive_env 7 100 5) ''/e'' None d_found = (Inr (0, Some 1), e_found)"
    using pr [where s = d_found and path = "''/e''" and key = "''/e''" and rec = "\<lparr>kr_value = enc_md (example_dir\<lparr>inode_number := 11\<rparr>), kr_version = ''v3''\<rparr>" and x = "example_dir\<lparr>inode_number := 11\<rparr>"]
    using two_dirs_paths(2) by (simp add: two_dirs_simps defs del: lookup.simps)
  show "lookup (Suc n) (drive_env 7 100 5) ''/d/a'' None e_found = (Inr (0, Some 2), a_found)"
    using pr [where s = e_found and path = "''/d/a''" and key = "''/d/a''" and rec = "\<lparr>kr_value = enc_md (example_dir\<lparr>mode := 0x81FF, inode_number := 10\<rparr>), kr_version = ''v2''\<rparr>" and x = "example_dir\<lparr>mode := 0x81FF, inode_number := 10\<rparr>"]
    using two_dirs_paths(3) by (simp add: two_dirs_simps defs del: lookup.simps)
  show "lookup (Suc n) (drive_env 7 100 5) ''/e/b'' None a_found = (Inr (- ENOENT, Some 3), b_missing)"
    using lookup_absent [OF example.reliable_client_axioms [of 7 100 5], where s = a_found and path = "''/e/b''" and key = "''/e/b''" and stamp = 0 and n = n and mdi = None]
    using two_dirs_paths(4) by (simp add: two_dirs_simps del: lookup.simps)
qed

lemma two_dirs_rename_lookup:
  "rename_lookup (Suc (Suc n)) (drive_env 7 100 5) ''/d/a'' ''/e/b'' two_dirs_client = (Inr (0, Some 0, Some 1, Some 2, Some 3), b_missing)"
proof -
  have dirs: "parent_path ''/d/a'' = Some ''/d''" "parent_path ''/e/b'' = Some ''/e''" by (simp_all add: parent_path_def is_slash_def is_colon_def)
  have objs: "mdis b_missing = [setMD example_dir ''v1'' (MetadataInfo_new ''/d''), setMD (example_dir\<lparr>inode_number := 11\<rparr>) ''v3'' (MetadataInfo_new ''/e''),
      setMD (example_dir\<lparr>mode := 0x81FF, inode_number := 10\<rparr>) ''v2'' (MetadataInfo_new ''/d/a''), MetadataInfo_new ''/e/b'']"
    by (simp add: two_dirs_simps)
  have p1: "lookup_parent (Suc (Suc n)) (drive_env 7 100 5) ''/d/a'' None two_dirs_client = (Inr (0, Some 0), d_found)"
    using lookup_parent_present [OF dirs(1) two_dirs_lookups(1) [of n]]
    by (simp add: two_dirs_simps setMD_def example_dir_def example_md_def Metadata_default_def S_ISDIR_def del: lookup_parent.simps)
  have p2: "lookup_parent (Suc (Suc n)) (drive_env 7 100 5) ''/e/b'' None d_found = (Inr (0, Some 1), e_found)"
    using lookup_parent_present [OF dirs(2) two_dirs_lookups(2) [of n]]
    by (simp add: two_dirs_simps setMD_def example_dir_def example_md_def Metadata_default_def S_ISDIR_def del: lookup_parent.simps)
  have at: "mdis a_found = [setMD example_dir ''v1'' (MetadataInfo_new ''/d''), setMD (example_dir\<lparr>inode_number := 11\<rparr>) ''v3'' (MetadataInfo_new ''/e''),
      setMD (example_dir\<lparr>mode := 0x81FF, inode_number := 10\<rparr>) ''v2'' (MetadataInfo_new ''/d/a'')]" by (simp add: two_dirs_simps)
  show ?thesis
    unfolding rename_lookup_def
    by (simp add: is_prefix_def cmd_simps p1 p2 two_dirs_lookups [of "Suc n"] deref_def at objs check_access_to_def del: lookup.simps lookup_parent.simps)
       (simp add: sticky_denies_def setMD_def example_dir_def example_md_def Metadata_default_def check_access_def)
qed

lemma two_dirs_ready: "rename_ready map_of b_missing ''/d/a'' ''/e/b'' 0 1 2 3 ''/d/a'' ''/e/b''"
proof -
  have key: "direntry_key 11 name = ''11|'' @ name" for name
  proof -
    have "to_string 11 = ''11''" by code_simp
    then show ?thesis by (simp add: direntry_key_def)
  qed
  have "to_string 1 = ''1''" by code_simp
  then show ?thesis
    by (simp add: rename_ready_def entry_of_def two_dirs_simps setMD_def MetadataInfo_new_def path_to_filename_def is_slash_def is_colon_def
        example_dir_def example_md_def Metadata_default_def S_ISDIR_def S_ISLNK_def key direntry_key_9)
qed

theorem rename_moves_file_witness:
  "\<exists>s'. hflat_rename (Suc (Suc 0)) (drive_env 7 100 5) ''/d/a'' ''/e/b'' two_dirs_client = (Inr 0, s')
     \<and> map_of (kinetic s') = (map_of two_dirs)
         (''9|a'' := None, ''11|b'' \<mapsto> \<lparr>kr_value = '''', kr_version = to_string 1\<rparr>, ''/d/a'' := None,
          ''/e/b'' \<mapsto> \<lparr>kr_value = enc_md (example_dir\<lparr>mode := 0x81FF, inode_number := 10, atime := 5, ctime := 5\<rparr>), kr_version = ''0''\<rparr>)"
proof -
  have "to_string 11 = ''11''" by code_simp
  then have names: "entry_of b_missing 0 (path_to_filename ''/d/a'') = ''9|a''" "entry_of b_missing 1 (path_to_filename ''/e/b'') = ''11|b''"
    using direntry_key_9 [of "''a''"]
    by (simp_all add: entry_of_def two_dirs_simps setMD_def example_dir_def path_to_filename_def is_slash_def is_colon_def direntry_key_def)
  have "md (updateACtime 5 (mdis b_missing ! 2)) = example_dir\<lparr>mode := 0x81FF, inode_number := 10, atime := 5, ctime := 5\<rparr>" "kinetic b_missing = two_dirs"
    by (simp_all add: two_dirs_simps setMD_def updateACtime_def)
  with rename_moves_file [OF example.reliable_client_axioms two_dirs_ready two_dirs_rename_lookup [of 0], unfolded names] show ?thesis by simp
qed

text \<open>
  C34. The constant version of renamed files defeats the protection against lost updates: a
  client that holds an object for the new name with this version, because another file had been
  renamed to the name before, overwrites the metadata of the file that has taken the name since,
  and is told that everything is fine.
\<close>

theorem renamed_file_overwritten:
  assumes "reliable_client E store" "reliable_client E' store" "rename_ready store s1 from to df dt f t key_from key_to"
    "rename_lookup n E from to s = (Inr (0, Some df, Some dt, Some f, Some t), s1)"
    "r < length (mdis sB)" "systemPath (mdis sB ! r) = key_to" "keyVersion (mdis sB ! r) = ''0''"
  shows "\<exists>s' sB'. hflat_rename n E from to s = (Inr 0, s') \<and> put_metadata E' r (sB\<lparr>kinetic := kinetic s'\<rparr>) = (Inr 0, sB')
     \<and> map_option kr_value (store (kinetic sB') key_to) = Some (md_SerializeAsString E' (md (mdis sB ! r)))"
proof -
  obtain s' v where s': "hflat_rename n E from to s = (Inr 0, s')" "store (kinetic s') key_to = Some \<lparr>kr_value = v, kr_version = ''0''\<rparr>"
    using rename_result [OF assms(1,3,4)] by auto
  let ?sB = "sB\<lparr>kinetic := kinetic s'\<rparr>"
  have "version_matches (store (kinetic ?sB) (systemPath (mdis ?sB ! r))) (keyVersion (mdis ?sB ! r)) REQUIRE_SAME_VERSION"
    using s'(2) assms(6,7) by (simp add: version_matches_def)
  from reliable_client.put_metadata_current [OF assms(2) _ this] assms(5,6) s'(1) show ?thesis by auto
qed

theorem renamed_file_overwritten_witness:
  "\<exists>s' sB'. hflat_rename (Suc (Suc 0)) (drive_env 7 100 5) ''/d/a'' ''/e/b'' two_dirs_client = (Inr 0, s')
     \<and> put_metadata (drive_env 8 100 6) 0 (two_dirs_client\<lparr>mdis := [(MetadataInfo_new ''/e/b'')\<lparr>md := example_md 8 100 0x81A4\<rparr>], kinetic := kinetic s'\<rparr>) = (Inr 0, sB')
     \<and> map_option kr_value (map_of (kinetic sB') ''/e/b'') = Some (enc_md (example_md 8 100 0x81A4))"
  using renamed_file_overwritten [OF example.reliable_client_axioms example.reliable_client_axioms [of 8 100 6] two_dirs_ready two_dirs_rename_lookup [of 0],
      of 0 "two_dirs_client\<lparr>mdis := [(MetadataInfo_new ''/e/b'')\<lparr>md := example_md 8 100 0x81A4\<rparr>]\<rparr>"]
  by (simp add: MetadataInfo_new_def)

end
