(* ===== verification/Fuse_Unlink_Props.thy ===== *)
theory Fuse_Unlink_Props
  imports Fuse_Rename_Props
begin

section \<open>Removing a file\<close>

text \<open>
  What an unlink leaves on the drive: the metadata, the entry of the directory and the blocks of
  the data, on a reliable namespace and in the relaxed mode.
\<close>

context reliable_client
begin

lemma delete_keys_result:
  "\<exists>k. delete_keys E ks s = (Inr (), s\<lparr>kinetic := k\<rparr>) \<and> store k = (\<lambda>x. if x \<in> set ks then None else store (kinetic s) x)"
proof (induction ks arbitrary: s)
  case Nil
  show ?case by (auto intro: exI [of _ "kinetic s"])
next
  case (Cons x ks)
  have "\<exists>st k. ns_Delete (ns E) x '''' IGNORE_VERSION (kinetic s) = (st, k) \<and> store k = (store (kinetic s))(x := None)"
  proof (cases "store (kinetic s) x")
    case None
    from Delete_absent [OF this] None show ?thesis by auto
  next
    case (Some rec)
    from Delete_matches [OF this, of "''''" IGNORE_VERSION] show ?thesis by (auto simp: version_matches_def)
  qed
  then obtain st k where k: "ns_Delete (ns E) x '''' IGNORE_VERSION (kinetic s) = (st, k)" "store k = (store (kinetic s))(x := None)" by blast
  with Cons.IH [of "s\<lparr>kinetic := k\<rparr>"] show ?case by (auto simp: cmd_simps fun_eq_iff)
qed

end

text \<open>
  The blocks that the background thread deletes: with a size that is not a multiple of the block
  size all blocks, otherwise all but the first, and in addition the block that would come next.
\<close>

definition deleted_blocks :: "nat \<Rightarrow> nat \<Rightarrow> nat list" where
  "deleted_blocks sz bs = [(if sz mod bs = 0 then 1 else 0) ..< Suc (sz div bs)]"

text \<open>
  The keys that the thread deletes. It gets the size and the inode number as \<^verbatim>\<open>int\<close>: a size of
  2 GiB or more is negative there and the loop is not entered, and the keys are built from the
  lower 32 bits of the inode number with a sign.
\<close>

definition removed_keys :: "32 word \<Rightarrow> 64 word \<Rightarrow> nat \<Rightarrow> string set" where
  "removed_keys sz ino bs = (\<lambda>i. to_string (as_int32 (uint ino)) @ ''_'' @ to_string (int i)) `
     (if uint sz < 2 ^ 31 then set (deleted_blocks (unat sz) bs) else {})"

lemma as_int32_large:
  assumes "2 ^ 31 \<le> uint (sz :: 32 word)"
  shows "as_int32 (uint sz) < 0"
proof -
  have u: "uint sz < 2 ^ 32" using uint_lt2p [of sz] by simp
  then have "uint sz div 2 ^ 31 = 1" using assms by simp
  then have "bit (uint sz) 31" by (simp add: bit_iff_odd)
  with u show ?thesis
    by (simp add: as_int32_def sint_uint signed_take_bit_eq_take_bit_minus take_bit_int_eq_self)
qed

lemma datadelete_keys_removed:
  assumes "0 < bs"
  shows "set (datadelete_keys (as_int32 (uint sz)) (as_int32 (uint ino)) bs) = removed_keys sz ino bs"
proof (cases "uint sz < 2 ^ 31")
  case True
  have "unat sz = unat sz div bs * bs + unat sz mod bs" by simp
  then have "datadelete_keys (int (unat sz)) i bs =
      map (\<lambda>k. to_string i @ ''_'' @ to_string (int k)) (rev [(if unat sz mod bs = 0 then 1 else 0) ..< Suc (unat sz div bs)])" for i
    using datadelete_keys_blocks [of "unat sz mod bs" bs "unat sz div bs" i] assms by simp
  with True show ?thesis by (simp add: as_int32_small deleted_blocks_def removed_keys_def)
next
  case False
  then have "as_int32 (uint sz) < 0" by (intro as_int32_large) simp
  then have "datadelete_keys (as_int32 (uint sz)) (as_int32 (uint ino)) bs = []" by (simp add: datadelete_keys.simps)
  with False show ?thesis by (simp add: removed_keys_def)
qed

lemma removed_keys_small:
  "uint ino < 2 ^ 31 \<Longrightarrow> removed_keys sz ino bs = (if uint sz < 2 ^ 31 then block_key ino ` set (deleted_blocks (unat sz) bs) else {})"
  by (simp add: removed_keys_def as_int32_small block_key_def)

text \<open>
  What the lookups of an unlink have found: an object \<open>r\<close> as it is stored, of a file with one
  name and no entry in the mapping database, and the directory \<open>d\<close> with an entry for it.
\<close>

definition unlink_ready :: "('n \<Rightarrow> string \<rightharpoonup> KineticRecord) \<Rightarrow> 'n hflat_priv \<Rightarrow> string \<Rightarrow> nat \<Rightarrow> nat \<Rightarrow> bool" where
  "unlink_ready store s path r d \<longleftrightarrow>
     posix s = TIMERELAXED \<and> 0 < blocksize s \<and> r < length (mdis s) \<and> d < length (mdis s)
   \<and> \<not> S_ISDIR (mode (md (mdis s ! r))) \<and> md_type (md (mdis s ! r)) \<noteq> HARDLINK_T
   \<and> \<not> hasMapping (pmap s) path \<and> \<not> hasMapping (pmap s) (systemPath (mdis s ! r)) \<and> take 1 (systemPath (mdis s ! r)) = ''/''
   \<and> map_option kr_version (store (kinetic s) (systemPath (mdis s ! r))) = Some (keyVersion (mdis s ! r))
   \<and> map_option kr_version (store (kinetic s) (entry_of s d (path_to_filename path))) = Some (to_string 1)"

text \<open>
  C9. An unlink removes a file with one name and without a path mapping: the metadata and the
  directory entry are gone and, when both its size and its inode number are below \<open>2 ^ 31\<close>, the
  blocks of the data, and no other key has changed. With a size that is a multiple of the block
  size, however, the first block stays: the thread that deletes the blocks starts with the one
  behind the end and stops when nothing of the size is left. A file of \<open>2 ^ 31\<close> bytes or more keeps
  all its blocks, and with an inode number that does not fit into 31 bits the thread deletes the keys
  of another one. The client is in the relaxed mode.
\<close>

theorem unlink_removes_file:
  assumes "reliable_client E store" "unlink_ready store s1 path r d" "unlink_lookup n E path s = (Inr (0, Some r, Some d), s1)"
    "ino = inode_number (md (mdis s1 ! r))" "sz = md_size (md (mdis s1 ! r))"
  shows "\<exists>s'. hflat_unlink (Suc n) E path s = (Inr 0, s')
     \<and> store (kinetic s') = (\<lambda>k. if k = systemPath (mdis s1 ! r) \<or> k = entry_of s1 d (path_to_filename path) \<or> k \<in> removed_keys sz ino (blocksize s1)
          then None else store (kinetic s1) k)
     \<and> (uint ino < 2 ^ 31 \<longrightarrow> removed_keys sz ino (blocksize s1) =
          (if uint sz < 2 ^ 31 then block_key ino ` set (deleted_blocks (unat sz) (blocksize s1)) else {}))"
proof -
  let ?m = "mdis s1 ! r" and ?e = "entry_of s1 d (path_to_filename path)"
  let ?ks = "datadelete_keys (as_int32 (uint (md_size (md ?m)))) (as_int32 (uint (inode_number (md ?m)))) (blocksize s1)"
  have r: "posix s1 \<noteq> FULL" "r < length (mdis s1)" "d < length (mdis s1)" "\<not> S_ISDIR (mode (md ?m))" "md_type (md ?m) \<noteq> HARDLINK_T"
    "\<not> hasMapping (pmap s1) path" "\<not> hasMapping (pmap s1) (systemPath ?m)"
    using assms(2) by (simp_all add: unlink_ready_def)
  obtain rec erec where old: "store (kinetic s1) (systemPath ?m) = Some rec" "kr_version rec = keyVersion ?m"
    "store (kinetic s1) ?e = Some erec" "kr_version erec = to_string 1" using assms(2) by (auto simp: unlink_ready_def)
  have ne: "?e \<noteq> systemPath ?m" using assms(2) direntry_key_slash by (cases "systemPath ?m"; force simp: unlink_ready_def entry_of_def)
  obtain k1 where k1: "delete_metadata E r s1 = (Inr 0, s1\<lparr>lookup_cache := invalidate (systemPath ?m) (lookup_cache s1), kinetic := k1\<rparr>)"
    "store k1 = (store (kinetic s1))(systemPath ?m := None)"
    using reliable_client.delete_metadata_current [OF assms(1) r(2) old(1,2)] by blast
  let ?s1 = "s1\<lparr>lookup_cache := invalidate (systemPath ?m) (lookup_cache s1), kinetic := k1\<rparr>"
  obtain k2 where k2: "delete_directory_entry n E d (path_to_filename path) ?s1 = (Inr 0, ?s1\<lparr>kinetic := k2\<rparr>)" "store k2 = (store k1)(?e := None)"
    using reliable_client.delete_direntry [OF assms(1), of d ?s1 "path_to_filename path" erec n] r(1,3) old(3,4) ne k1(2) by (auto simp: entry_of_def)
  let ?s2 = "s1\<lparr>lookup_cache := invalidate (systemPath ?m) (lookup_cache s1), kinetic := k2\<rparr>"
  obtain k3 where k3: "delete_keys E ?ks ?s2 = (Inr (), ?s1\<lparr>kinetic := k3\<rparr>)" "store k3 = (\<lambda>x. if x \<in> set ?ks then None else store k2 x)"
    using reliable_client.delete_keys_result [OF assms(1), of ?ks ?s2] by (auto cong: if_cong)
  have "hflat_unlink (Suc n) E path s = (Inr 0, ?s1\<lparr>kinetic := k3\<rparr>)"
    using assms(3) r k1(1) k2(1) k3(1) by (simp add: cmd_simps deref_def Let_def REQ_0_def datadelete_def)
  moreover have "set ?ks = removed_keys sz ino (blocksize s1)"
    using assms(2,4,5) datadelete_keys_removed [of "blocksize s1" sz ino] by (simp add: unlink_ready_def)
  ultimately show ?thesis using k1(2) k2(2) k3(2) removed_keys_small by (auto simp: fun_eq_iff)
qed

text \<open>The example: a file of one block and a half in a directory, and its two blocks.\<close>

definition small_file :: Metadata where
  "small_file = example_dir\<lparr>mode := 0x81FF, inode_number := 10, md_size := 1536\<rparr>"

definition file_tree :: drive where
  "file_tree = [(''/d'', \<lparr>kr_value = enc_md example_dir, kr_version = ''v1''\<rparr>), (''9|a'', \<lparr>kr_value = '''', kr_version = ''1''\<rparr>),
     (''/d/a'', \<lparr>kr_value = enc_md small_file, kr_version = ''v2''\<rparr>),
     (''10_0'', \<lparr>kr_value = ''x'', kr_version = ''v4''\<rparr>), (''10_1'', \<lparr>kr_value = ''y'', kr_version = ''v5''\<rparr>)]"

definition file_client :: "drive hflat_priv" where
  "file_client = hflat_priv_new file_tree 0 1024 TIMERELAXED"

abbreviation (input) file_found where "file_found \<equiv> cached_new (drive_env 7 100 5) ''/d/a'' (setMD small_file ''v2'' (MetadataInfo_new ''/d/a'')) file_client"
abbreviation (input) file_dir_found where "file_dir_found \<equiv> cached_new (drive_env 7 100 5) ''/d'' (setMD example_dir ''v1'' (MetadataInfo_new ''/d'')) file_found"

lemmas file_simps = file_client_def file_tree_def cached_new_def hflat_priv_new_def LRUcache_new_def has_room_def
lemmas small_file_simps = small_file_def example_dir_def example_md_def Metadata_default_def

lemma file_objects: "mdis file_dir_found = [setMD small_file ''v2'' (MetadataInfo_new ''/d/a''), setMD example_dir ''v1'' (MetadataInfo_new ''/d'')]"
  by (simp add: file_simps)

lemma file_unlink_lookup: "unlink_lookup (Suc (Suc n)) (drive_env 7 100 5) ''/d/a'' file_client = (Inr (0, Some 0, Some 1), file_dir_found)"
proof -
  note pr = lookup_present [OF example.reliable_client_axioms [of 7 100 5], where stamp = 0 and mdi = None]
  have paths: "toSystemPath (Suc n) (pmap file_client) ''/d/a'' LOOKUP = Inr (''/d/a'', 0)" "toSystemPath (Suc n) (pmap file_client) ''/d'' LOOKUP = Inr (''/d'', 0)" for n
    by (simp_all add: tree_simps file_client_def)
  have l1: "lookup (Suc n) (drive_env 7 100 5) ''/d/a'' None file_client = (Inr (0, Some 0), file_found)" for n
    using pr [where n = n and s = file_client and path = "''/d/a''" and key = "''/d/a''" and rec = "\<lparr>kr_value = enc_md small_file, kr_version = ''v2''\<rparr>" and x = small_file]
    using paths(1) by (simp add: file_simps parse_all_codec [OF codec_md] small_file_simps del: lookup.simps)
  have l2: "lookup (Suc n) (drive_env 7 100 5) ''/d'' None file_found = (Inr (0, Some 1), file_dir_found)"
    using pr [where n = n and s = file_found and path = "''/d''" and key = "''/d''" and rec = "\<lparr>kr_value = enc_md example_dir, kr_version = ''v1''\<rparr>" and x = example_dir]
    using paths(2) by (simp add: file_simps parse_all_codec [OF codec_md] example_dir_def example_md_def Metadata_default_def del: lookup.simps)
  have "parent_path ''/d/a'' = Some ''/d''" by (simp add: parent_path_def is_slash_def is_colon_def)
  from lookup_parent_present [OF this l2]
  have l3: "lookup_parent (Suc (Suc n)) (drive_env 7 100 5) ''/d/a'' None file_found = (Inr (0, Some 1), file_dir_found)"
    by (simp add: file_simps setMD_def example_dir_def example_md_def Metadata_default_def S_ISDIR_def del: lookup_parent.simps)
  show ?thesis
    unfolding unlink_lookup_def
    by (simp add: cmd_simps l1 l3 deref_def file_objects check_access_to_def del: lookup.simps lookup_parent.simps)
       (simp add: sticky_denies_def setMD_def example_dir_def example_md_def Metadata_default_def check_access_def)
qed

lemma file_entry: "entry_of file_dir_found 1 (path_to_filename ''/d/a'') = ''9|a''"
  unfolding entry_of_def file_objects
  using direntry_key_9 [of "''a''"] by (simp add: setMD_def example_dir_def path_to_filename_def is_slash_def is_colon_def)

lemma file_unlink_ready: "unlink_ready map_of file_dir_found ''/d/a'' 0 1"
proof -
  have "to_string 1 = ''1''" by code_simp
  then show ?thesis
    unfolding unlink_ready_def file_entry file_objects
    by (simp add: setMD_def MetadataInfo_new_def small_file_simps S_ISDIR_def)
       (simp add: file_simps PathMapDB_init_def hasMapping_def)
qed

theorem unlink_removes_file_witness:
  "\<exists>s'. hflat_unlink (Suc (Suc (Suc 0))) (drive_env 7 100 5) ''/d/a'' file_client = (Inr 0, s')
     \<and> map_of (kinetic s') = [''/d'' \<mapsto> \<lparr>kr_value = enc_md example_dir, kr_version = ''v1''\<rparr>]"
proof -
  have "to_string 10 = ''10''" "to_string 0 = ''0''" "to_string 1 = ''1''" by code_simp+
  then have keys: "removed_keys 1536 10 1024 = {''10_0'', ''10_1''}"
    by (auto simp: removed_keys_small block_key_def deleted_blocks_def)
  have start: "kinetic file_dir_found = file_tree" "blocksize file_dir_found = 1024"
    by (simp_all add: cached_new_def file_client_def hflat_priv_new_def)
  have obj: "systemPath (setMD small_file ''v2'' (MetadataInfo_new ''/d/a'')) = ''/d/a''" "inode_number (md (setMD small_file ''v2'' (MetadataInfo_new ''/d/a''))) = 10"
    "md_size (md (setMD small_file ''v2'' (MetadataInfo_new ''/d/a''))) = 1536"
    by (simp_all add: setMD_def MetadataInfo_new_def small_file_def)
  obtain s' where s': "hflat_unlink (Suc (Suc (Suc 0))) (drive_env 7 100 5) ''/d/a'' file_client = (Inr 0, s')"
    "map_of (kinetic s') = (\<lambda>k. if k = ''/d/a'' \<or> k = ''9|a'' \<or> k \<in> {''10_0'', ''10_1''} then None else map_of file_tree k)"
    using unlink_removes_file [OF example.reliable_client_axioms file_unlink_ready file_unlink_lookup [of 0] refl refl,
        unfolded file_entry file_objects nth_Cons_0 obj start keys] by blast
  moreover have "map_of (kinetic s') = [''/d'' \<mapsto> \<lparr>kr_value = enc_md example_dir, kr_version = ''v1''\<rparr>]"
    unfolding s'(2) by (rule ext) (simp add: file_tree_def)
  ultimately show ?thesis by blast
qed

end
