(* ===== verification/Fuse_Link_Props.thy ===== *)
theory Fuse_Link_Props
  imports Fuse_Rename_Props
begin

section \<open>Linking\<close>

text \<open>
  What a hard link leaves on the drive: the metadata of the file moves to a key of its own, and
  the old and the new name both refer to it.
\<close>

subsection \<open>The record behind a name\<close>

definition forwarding :: "64 word \<Rightarrow> Metadata" where
  "forwarding ino = Metadata_default\<lparr>md_type := HARDLINK_S, inode_number := ino, link_count := 1\<rparr>"

definition shared :: "MetadataInfo \<Rightarrow> MetadataInfo" where
  "shared m = m\<lparr>systemPath := hardlink_key (inode_number (md m)), md := (md m)\<lparr>md_type := HARDLINK_T\<rparr>\<rparr>"

lemma hardlink_key_slash: "hardlink_key ino \<noteq> CHR ''/'' # key" "hardlink_key ino \<noteq> direntry_key i name"
proof -
  show "hardlink_key ino \<noteq> CHR ''/'' # key" by (simp add: hardlink_key_def)
  show "hardlink_key ino \<noteq> direntry_key i name"
  proof
    assume eq: "hardlink_key ino = direntry_key i name"
    obtain c cs where "to_string (uint i) = c # cs" "is_digit c"
      using nat_to_string_digits [of "nat (uint i)"] by (cases "nat_to_string (nat (uint i))") (auto simp: to_string_def)
    moreover have "\<not> is_digit CHR ''h''" by code_simp
    ultimately show False using eq by (auto simp: direntry_key_def hardlink_key_def)
  qed
qed

context reliable_client
begin

lemma toHardlinkT_result:
  assumes t: "t < length (mdis s)" "md_type (md (mdis s ! t)) = POSIX" "systemPath (mdis s ! t) = key" "key \<noteq> hardlink_key (inode_number (md (mdis s ! t)))"
    and k: "version_matches (store (kinetic s) key) (keyVersion (mdis s ! t)) REQUIRE_SAME_VERSION"
      "store (kinetic s) (hardlink_key (inode_number (md (mdis s ! t)))) = None"
  shows "\<exists>k c m. toHardlinkT E t s = (Inr 0, s\<lparr>mdis := (mdis s)[t := (shared (mdis s ! t))\<lparr>keyVersion := uuid_generate E (Suc (uuids s))\<rparr>] @ [m],
       kinetic := k, lookup_cache := c, uuids := Suc (Suc (uuids s))\<rparr>)
     \<and> store k = (store (kinetic s))
         (key \<mapsto> \<lparr>kr_value = md_SerializeAsString E (forwarding (inode_number (md (mdis s ! t)))), kr_version = uuid_generate E (uuids s)\<rparr>,
          hardlink_key (inode_number (md (mdis s ! t))) \<mapsto>
            \<lparr>kr_value = md_SerializeAsString E (md (shared (mdis s ! t))), kr_version = uuid_generate E (Suc (uuids s))\<rparr>)"
proof -
  let ?m = "mdis s ! t" and ?r = "length (mdis s)"
  let ?src = "(MetadataInfo_new key)\<lparr>keyVersion := keyVersion ?m, md := forwarding (inode_number (md ?m))\<rparr>"
  let ?s1 = "s\<lparr>mdis := (mdis s)[t := shared ?m] @ [?src]\<rparr>"
  have src: "mdis ?s1 ! ?r = ?src" "systemPath ?src = key" "md ?src = forwarding (inode_number (md ?m))" "keyVersion ?src = keyVersion ?m" "?r < length (mdis ?s1)"
    by (simp_all add: nth_append MetadataInfo_new_def)
  obtain k1 where k1: "put_metadata E ?r ?s1 = (Inr 0, ?s1\<lparr>uuids := Suc (uuids s), kinetic := k1,
       mdis := (mdis ?s1)[?r := ?src\<lparr>keyVersion := uuid_generate E (uuids s)\<rparr>], lookup_cache := revalidate (steady_now E) key (lookup_cache s)\<rparr>)"
    "store k1 = (store (kinetic s))(key \<mapsto> \<lparr>kr_value = md_SerializeAsString E (forwarding (inode_number (md ?m))), kr_version = uuid_generate E (uuids s)\<rparr>)"
    using put_metadata_current [OF src(5)] k(1) src by auto
  let ?s2 = "?s1\<lparr>uuids := Suc (uuids s), kinetic := k1, mdis := (mdis ?s1)[?r := ?src\<lparr>keyVersion := uuid_generate E (uuids s)\<rparr>],
       lookup_cache := revalidate (steady_now E) key (lookup_cache s)\<rparr>"
  have t2: "t < length (mdis ?s2)" "mdis ?s2 ! t = shared ?m" "systemPath (shared ?m) = hardlink_key (inode_number (md ?m))"
    using t(1) by (simp_all add: nth_append shared_def)
  have "store (kinetic ?s2) (systemPath (mdis ?s2 ! t)) = None" using t2(2,3) k1(2) k(2) t(4) by simp
  from create_metadata_absent [OF t2(1) this] t2(2,3) obtain k2 where
    k2: "create_metadata E t ?s2 = (Inr 0, ?s2\<lparr>uuids := Suc (Suc (uuids s)), kinetic := k2,
       mdis := (mdis ?s2)[t := (shared ?m)\<lparr>keyVersion := uuid_generate E (Suc (uuids s))\<rparr>]\<rparr>)"
    "store k2 = (store k1)(hardlink_key (inode_number (md ?m)) \<mapsto> \<lparr>kr_value = md_SerializeAsString E (md (shared ?m)), kr_version = uuid_generate E (Suc (uuids s))\<rparr>)"
    by auto
  have "toHardlinkT E t s = (Inr 0, ?s2\<lparr>uuids := Suc (Suc (uuids s)), kinetic := k2,
       mdis := (mdis ?s2)[t := (shared ?m)\<lparr>keyVersion := uuid_generate E (Suc (uuids s))\<rparr>]\<rparr>)"
    unfolding toHardlinkT_def object_apply(2) [OF t(1)]
    using t(1-3) k1(1) k2(1)
    by (simp add: cmd_simps check_assert_def REQ_0_def shared_def forwarding_def list_update_append nth_append)
  then show ?thesis
    using k1(2) k2(2) t(1) by (intro exI [of _ k2] exI [of _ "lookup_cache ?s2"] exI [of _ "?src\<lparr>keyVersion := uuid_generate E (uuids s)\<rparr>"])
      (simp add: list_update_append)
qed

end

subsection \<open>Creating a hard link\<close>

text \<open>
  What the lookups have found: a regular file \<open>t\<close> that is linked for the first time, whose object
  is up to date, and an object \<open>om\<close> for a name that does not exist in the directory \<open>od\<close>.
\<close>

definition hardlink_ready :: "('n \<Rightarrow> string \<rightharpoonup> KineticRecord) \<Rightarrow> 'n hflat_priv \<Rightarrow> string \<Rightarrow> nat \<Rightarrow> nat \<Rightarrow> nat \<Rightarrow> string \<Rightarrow> string \<Rightarrow> bool" where
  "hardlink_ready store s origin t om od key_t key_o \<longleftrightarrow>
     posix s = TIMERELAXED \<and> od < length (mdis s) \<and> t < length (mdis s) \<and> om < length (mdis s) \<and> t \<noteq> om \<and> t \<noteq> od \<and> om \<noteq> od
   \<and> \<not> S_ISDIR (mode (md (mdis s ! t))) \<and> md_type (md (mdis s ! t)) = POSIX \<and> systemPath (mdis s ! t) = key_t
   \<and> mdis s ! om = MetadataInfo_new key_o \<and> take 1 key_t = ''/'' \<and> take 1 key_o = ''/''
   \<and> store (kinetic s) (entry_of s od (path_to_filename origin)) = None \<and> store (kinetic s) key_o = None
   \<and> store (kinetic s) (hardlink_key (inode_number (md (mdis s ! t)))) = None
   \<and> map_option kr_version (store (kinetic s) key_t) = Some (keyVersion (mdis s ! t))"

definition linked_once_more :: "'n env \<Rightarrow> MetadataInfo \<Rightarrow> Metadata" where
  "linked_once_more E m = (let x = md (updateACtime (time_now E) (shared m)) in x\<lparr>link_count := link_count x + 1\<rparr>)"

lemma hardlink_result:
  assumes rc: "reliable_client E store" and ready: "hardlink_ready store s1 origin t om od key_t key_o"
    and found: "hardlink_lookup n E tgt origin s = (Inr (0, Some t, Some om, Some od), s1)" and ino: "ino = inode_number (md (mdis s1 ! t))"
  shows "\<exists>s'. hflat_hardlink (Suc n) E tgt origin s = (Inr 0, s') \<and> store (kinetic s') = (store (kinetic s1))
     (entry_of s1 od (path_to_filename origin) \<mapsto> \<lparr>kr_value = '''', kr_version = to_string 1\<rparr>,
      key_t \<mapsto> \<lparr>kr_value = md_SerializeAsString E (forwarding ino), kr_version = uuid_generate E (uuids s1)\<rparr>,
      hardlink_key ino \<mapsto> \<lparr>kr_value = md_SerializeAsString E (linked_once_more E (mdis s1 ! t)), kr_version = uuid_generate E (uuids s1 + 2)\<rparr>,
      key_o \<mapsto> \<lparr>kr_value = md_SerializeAsString E (forwarding ino), kr_version = uuid_generate E (uuids s1 + 3)\<rparr>)"
proof -
  let ?name = "path_to_filename origin" and ?entry = "entry_of s1 od (path_to_filename origin)" and ?h = "hardlink_key ino" and ?m = "mdis s1 ! t" and ?u = "uuid_generate E"
  have r: "posix s1 \<noteq> FULL" "od < length (mdis s1)" "t < length (mdis s1)" "om < length (mdis s1)" "t \<noteq> om" "t \<noteq> od" "om \<noteq> od"
    "\<not> S_ISDIR (mode (md ?m))" "md_type (md ?m) = POSIX" "systemPath ?m = key_t" "mdis s1 ! om = MetadataInfo_new key_o"
    "store (kinetic s1) ?entry = None" "store (kinetic s1) key_o = None" "store (kinetic s1) ?h = None"
    using ready ino by (simp_all add: hardlink_ready_def)
  obtain rec where old: "store (kinetic s1) key_t = Some rec" "kr_version rec = keyVersion ?m" using ready by (auto simp: hardlink_ready_def)
  have ne: "?entry \<noteq> key_t" "?entry \<noteq> key_o" "?h \<noteq> key_t" "?h \<noteq> key_o" "?h \<noteq> ?entry" "key_t \<noteq> key_o"
    using ready old(1) r(13) direntry_key_slash hardlink_key_slash by (cases key_t; cases key_o; force simp: hardlink_ready_def entry_of_def)+
  let ?s2 = "s1\<lparr>lookup_cache := invalidate key_t (invalidate key_o (lookup_cache s1))\<rparr>"
  obtain k1 where k1: "create_directory_entry n E od ?name ?s2 = (Inr 0, ?s2\<lparr>kinetic := k1\<rparr>)" "store k1 = (store (kinetic s1))(?entry \<mapsto> \<lparr>kr_value = '''', kr_version = to_string 1\<rparr>)"
    using reliable_client.create_direntry [OF rc, of od ?s2 ?name n] r(1,2,12) by (auto simp: entry_of_def)
  let ?s3 = "?s2\<lparr>kinetic := k1\<rparr>"
  have v: "version_matches (store (kinetic ?s3) key_t) (keyVersion (mdis ?s3 ! t)) REQUIRE_SAME_VERSION" "store (kinetic ?s3) (hardlink_key (inode_number (md (mdis ?s3 ! t)))) = None"
    using old ne k1(2) r(14) ino by (simp_all add: version_matches_def)
  let ?m3 = "(shared ?m)\<lparr>keyVersion := ?u (Suc (uuids s1))\<rparr>"
  obtain k3 c3 x where k3: "toHardlinkT E t ?s3 = (Inr 0, s1\<lparr>mdis := (mdis s1)[t := ?m3] @ [x], kinetic := k3, lookup_cache := c3, uuids := Suc (Suc (uuids s1))\<rparr>)"
    "store k3 = (store k1)(key_t \<mapsto> \<lparr>kr_value = md_SerializeAsString E (forwarding ino), kr_version = ?u (uuids s1)\<rparr>,
       ?h \<mapsto> \<lparr>kr_value = md_SerializeAsString E (md (shared ?m)), kr_version = ?u (Suc (uuids s1))\<rparr>)"
    using reliable_client.toHardlinkT_result [OF rc, of t ?s3 key_t] r(3,9,10) ne(3) v ino by auto
  let ?s4 = "s1\<lparr>mdis := (mdis s1)[t := ?m3] @ [x], kinetic := k3, lookup_cache := c3, uuids := Suc (Suc (uuids s1))\<rparr>"
  let ?m5 = "?m3\<lparr>md := linked_once_more E ?m\<rparr>"
  let ?s5 = "?s4\<lparr>mdis := (mdis s1)[t := ?m5] @ [x]\<rparr>"
  have at5: "t < length (mdis ?s5)" "mdis ?s5 ! t = ?m5" "systemPath ?m5 = ?h" "keyVersion ?m5 = ?u (Suc (uuids s1))"
    using r(3) ino by (simp_all add: nth_append shared_def)
  have "version_matches (store (kinetic ?s5) (systemPath (mdis ?s5 ! t))) (keyVersion (mdis ?s5 ! t)) REQUIRE_SAME_VERSION"
    unfolding at5(2,3,4) using k3(2) by (simp add: version_matches_def)
  from reliable_client.put_metadata_current [OF rc at5(1) this] obtain k5 where
    k5: "put_metadata E t ?s5 = (Inr 0, ?s5\<lparr>uuids := Suc (Suc (Suc (uuids s1))), kinetic := k5,
       mdis := (mdis ?s5)[t := ?m5\<lparr>keyVersion := ?u (Suc (Suc (uuids s1)))\<rparr>], lookup_cache := revalidate (steady_now E) ?h c3\<rparr>)"
    "store k5 = (store k3)(?h \<mapsto> \<lparr>kr_value = md_SerializeAsString E (linked_once_more E ?m), kr_version = ?u (Suc (Suc (uuids s1)))\<rparr>)"
    unfolding at5(2,3,4) by auto
  let ?m6 = "?m5\<lparr>keyVersion := ?u (Suc (Suc (uuids s1)))\<rparr>" and ?o6 = "(MetadataInfo_new key_o)\<lparr>md := forwarding ino\<rparr>"
  let ?s6 = "s1\<lparr>uuids := Suc (Suc (Suc (uuids s1))), kinetic := k5, lookup_cache := revalidate (steady_now E) ?h c3, mdis := (mdis s1)[t := ?m6, om := ?o6] @ [x]\<rparr>"
  have at6: "om < length (mdis ?s6)" "mdis ?s6 ! om = ?o6" "systemPath ?o6 = key_o"
    using r(4,5) by (simp_all add: nth_append MetadataInfo_new_def)
  have "store (kinetic ?s6) (systemPath (mdis ?s6 ! om)) = None"
    unfolding at6(2,3) using k5(2) k3(2) k1(2) ne r(13) by simp
  from reliable_client.create_metadata_absent [OF rc at6(1) this] obtain k6 s' where
    k6: "create_metadata E om ?s6 = (Inr 0, s')" "kinetic s' = k6"
    "store k6 = (store k5)(key_o \<mapsto> \<lparr>kr_value = md_SerializeAsString E (forwarding ino), kr_version = ?u (uuids s1 + 3)\<rparr>)"
    unfolding at6(2,3) by (auto simp: numeral_3_eq_3)
  have obj: "systemPath (mdis s1 ! om) = key_o" "inode_number (md ?m6) = ino" "md (mdis s1 ! om)\<lparr>md_type := HARDLINK_S, inode_number := ino, link_count := 1\<rparr> = forwarding ino"
    using r(11) ino by (simp_all add: MetadataInfo_new_def linked_once_more_def shared_def updateACtime_def Let_def forwarding_def)
  have "hflat_hardlink (Suc n) E tgt origin s = (Inr 0, s')"
    using found r(2-11) k1(1) k3(1) k5(1) k6(1) obj
    by (simp add: cmd_simps deref_def check_assert_def REQ_0_def Let_def nth_append list_update_append linked_once_more_def updateACtime_def)
  moreover have "store k6 = (store (kinetic s1))
     (?entry \<mapsto> \<lparr>kr_value = '''', kr_version = to_string 1\<rparr>,
      key_t \<mapsto> \<lparr>kr_value = md_SerializeAsString E (forwarding ino), kr_version = ?u (uuids s1)\<rparr>,
      ?h \<mapsto> \<lparr>kr_value = md_SerializeAsString E (linked_once_more E ?m), kr_version = ?u (uuids s1 + 2)\<rparr>,
      key_o \<mapsto> \<lparr>kr_value = md_SerializeAsString E (forwarding ino), kr_version = ?u (uuids s1 + 3)\<rparr>)"
    unfolding k6(3) k5(2) k3(2) k1(2) by simp
  ultimately show ?thesis using k6(2) by blast
qed

text \<open>
  C11. A hard link makes two names share one file: when a file is linked for the first time, its
  metadata moves to a key made from the inode number, with a link more than before, the record
  under the old path and the record under the new path are the same and refer to the inode
  number, the new name has an entry in its directory, and no other key has changed.
\<close>

theorem hardlink_shares_file:
  assumes "reliable_client E store" "hardlink_ready store s1 origin t om od key_t key_o"
    "hardlink_lookup n E tgt origin s = (Inr (0, Some t, Some om, Some od), s1)" "ino = inode_number (md (mdis s1 ! t))"
  shows "\<exists>s'. hflat_hardlink (Suc n) E tgt origin s = (Inr 0, s') \<and> store (kinetic s') = (store (kinetic s1))
     (entry_of s1 od (path_to_filename origin) \<mapsto> \<lparr>kr_value = '''', kr_version = to_string 1\<rparr>,
      key_t \<mapsto> \<lparr>kr_value = md_SerializeAsString E (forwarding ino), kr_version = uuid_generate E (uuids s1)\<rparr>,
      hardlink_key ino \<mapsto> \<lparr>kr_value = md_SerializeAsString E (linked_once_more E (mdis s1 ! t)), kr_version = uuid_generate E (uuids s1 + 2)\<rparr>,
      key_o \<mapsto> \<lparr>kr_value = md_SerializeAsString E (forwarding ino), kr_version = uuid_generate E (uuids s1 + 3)\<rparr>)"
  by (rule hardlink_result [OF assms])

text \<open>The objects of the lookups when \<open>/d/a\<close> is linked as \<open>/e/b\<close>.\<close>

abbreviation (input) link_t where "link_t \<equiv> cached_new (drive_env 7 100 5) ''/d/a'' (setMD (example_dir\<lparr>mode := 0x81FF, inode_number := 10\<rparr>) ''v2'' (MetadataInfo_new ''/d/a'')) two_dirs_client"
abbreviation (input) link_od where "link_od \<equiv> cached_new (drive_env 7 100 5) ''/e'' (setMD (example_dir\<lparr>inode_number := 11\<rparr>) ''v3'' (MetadataInfo_new ''/e'')) link_t"
abbreviation (input) link_td where "link_td \<equiv> cached_new (drive_env 7 100 5) ''/d'' (setMD example_dir ''v1'' (MetadataInfo_new ''/d'')) link_od"
abbreviation (input) link_o where "link_o \<equiv> cached_new (drive_env 7 100 5) ''/e/b'' (MetadataInfo_new ''/e/b'') link_td"

lemma link_lookups:
  "lookup (Suc n) (drive_env 7 100 5) ''/d/a'' None two_dirs_client = (Inr (0, Some 0), link_t)"
  "lookup (Suc n) (drive_env 7 100 5) ''/e'' None link_t = (Inr (0, Some 1), link_od)"
  "lookup (Suc n) (drive_env 7 100 5) ''/d'' None link_od = (Inr (0, Some 2), link_td)"
  "lookup (Suc n) (drive_env 7 100 5) ''/e/b'' None link_td = (Inr (- ENOENT, Some 3), link_o)"
proof -
  note pr = lookup_present [OF example.reliable_client_axioms [of 7 100 5], where stamp = 0 and n = n and mdi = None]
  note defs = parse_all_codec [OF codec_md] example_dir_def example_md_def Metadata_default_def
  show "lookup (Suc n) (drive_env 7 100 5) ''/d/a'' None two_dirs_client = (Inr (0, Some 0), link_t)"
    using pr [where s = two_dirs_client and path = "''/d/a''" and key = "''/d/a''" and rec = "\<lparr>kr_value = enc_md (example_dir\<lparr>mode := 0x81FF, inode_number := 10\<rparr>), kr_version = ''v2''\<rparr>" and x = "example_dir\<lparr>mode := 0x81FF, inode_number := 10\<rparr>"]
    using two_dirs_paths(3) by (simp add: two_dirs_simps defs del: lookup.simps)
  show "lookup (Suc n) (drive_env 7 100 5) ''/e'' None link_t = (Inr (0, Some 1), link_od)"
    using pr [where s = link_t and path = "''/e''" and key = "''/e''" and rec = "\<lparr>kr_value = enc_md (example_dir\<lparr>inode_number := 11\<rparr>), kr_version = ''v3''\<rparr>" and x = "example_dir\<lparr>inode_number := 11\<rparr>"]
    using two_dirs_paths(2) by (simp add: two_dirs_simps defs del: lookup.simps)
  show "lookup (Suc n) (drive_env 7 100 5) ''/d'' None link_od = (Inr (0, Some 2), link_td)"
    using pr [where s = link_od and path = "''/d''" and key = "''/d''" and rec = "\<lparr>kr_value = enc_md example_dir, kr_version = ''v1''\<rparr>" and x = example_dir]
    using two_dirs_paths(1) by (simp add: two_dirs_simps defs del: lookup.simps)
  show "lookup (Suc n) (drive_env 7 100 5) ''/e/b'' None link_td = (Inr (- ENOENT, Some 3), link_o)"
    using lookup_absent [OF example.reliable_client_axioms [of 7 100 5], where s = link_td and path = "''/e/b''" and key = "''/e/b''" and stamp = 0 and n = n and mdi = None]
    using two_dirs_paths(4) by (simp add: two_dirs_simps del: lookup.simps)
qed

lemma link_lookup: "hardlink_lookup (Suc (Suc n)) (drive_env 7 100 5) ''/d/a'' ''/e/b'' two_dirs_client = (Inr (0, Some 0, Some 3, Some 1), link_o)"
proof -
  have dirs: "parent_path ''/d/a'' = Some ''/d''" "parent_path ''/e/b'' = Some ''/e''" by (simp_all add: parent_path_def is_slash_def is_colon_def)
  note dir_defs = two_dirs_simps setMD_def example_dir_def example_md_def Metadata_default_def S_ISDIR_def
  have p1: "lookup_parent (Suc (Suc n)) (drive_env 7 100 5) ''/e/b'' None link_t = (Inr (0, Some 1), link_od)"
    using lookup_parent_present [OF dirs(2) link_lookups(2) [of n]] by (simp add: dir_defs del: lookup_parent.simps)
  have p2: "lookup_parent (Suc (Suc n)) (drive_env 7 100 5) ''/d/a'' None link_od = (Inr (0, Some 2), link_td)"
    using lookup_parent_present [OF dirs(1) link_lookups(3) [of n]] by (simp add: dir_defs del: lookup_parent.simps)
  have at: "mdis link_td = [setMD (example_dir\<lparr>mode := 0x81FF, inode_number := 10\<rparr>) ''v2'' (MetadataInfo_new ''/d/a''),
      setMD (example_dir\<lparr>inode_number := 11\<rparr>) ''v3'' (MetadataInfo_new ''/e''), setMD example_dir ''v1'' (MetadataInfo_new ''/d'')]" by (simp add: two_dirs_simps)
  show ?thesis
    unfolding hardlink_lookup_def
    by (simp add: cmd_simps p1 p2 link_lookups [of "Suc n"] deref_def at check_access_to_def del: lookup.simps lookup_parent.simps)
       (simp add: setMD_def example_dir_def example_md_def Metadata_default_def check_access_def)
qed

lemma link_ready: "hardlink_ready map_of link_o ''/e/b'' 0 3 1 ''/d/a'' ''/e/b''"
proof -
  have key: "direntry_key 11 name = ''11|'' @ name" for name
  proof -
    have "to_string 11 = ''11''" by code_simp
    then show ?thesis by (simp add: direntry_key_def)
  qed
  show ?thesis
    by (simp add: hardlink_ready_def entry_of_def two_dirs_simps setMD_def MetadataInfo_new_def path_to_filename_def is_slash_def is_colon_def
        example_dir_def example_md_def Metadata_default_def S_ISDIR_def key hardlink_key_def)
qed

theorem hardlink_shares_file_witness:
  "\<exists>s'. hflat_hardlink (Suc (Suc (Suc 0))) (drive_env 7 100 5) ''/d/a'' ''/e/b'' two_dirs_client = (Inr 0, s')
     \<and> map_option kr_value (map_of (kinetic s') ''/d/a'') = Some (enc_md (forwarding 10)) \<and> map_option kr_value (map_of (kinetic s') ''/e/b'') = Some (enc_md (forwarding 10))
     \<and> map_option kr_value (map_of (kinetic s') (hardlink_key 10))
         = Some (enc_md (example_dir\<lparr>mode := 0x81FF, inode_number := 10, md_type := HARDLINK_T, atime := 5, ctime := 5, link_count := link_count example_dir + 1\<rparr>))"
proof -
  have m: "mdis link_o ! 0 = setMD (example_dir\<lparr>mode := 0x81FF, inode_number := 10\<rparr>) ''v2'' (MetadataInfo_new ''/d/a'')" by (simp add: two_dirs_simps)
  have ino: "10 = inode_number (md (mdis link_o ! 0))" and new: "linked_once_more (drive_env 7 100 5) (mdis link_o ! 0)
      = example_dir\<lparr>mode := 0x81FF, inode_number := 10, md_type := HARDLINK_T, atime := 5, ctime := 5, link_count := link_count example_dir + 1\<rparr>"
    unfolding m by (simp_all add: setMD_def linked_once_more_def shared_def updateACtime_def Let_def)
  show ?thesis
    using hardlink_shares_file [OF example.reliable_client_axioms link_ready link_lookup [of 0] ino] hardlink_key_slash(1) [of 10 "''e/b''"] hardlink_key_slash(1) [of 10 "''d/a''"]
    unfolding new by (auto simp del: hflat_hardlink.simps)
qed

end
