(* ===== verification/Fuse_Tree_Props.thy ===== *)
theory Fuse_Tree_Props
  imports Fuse_Rename_Props HFlat_Util_Props Path_Map_Props
begin

section \<open>Renaming a directory\<close>

text \<open>
  A directory is renamed without touching what is below it: the mapping that is added to the
  path database sends the new paths to the keys of the old ones.
\<close>

definition db_keys :: "int \<Rightarrow> string set" where
  "db_keys v = {db_entry_key v, db_version_key, db_snapshot_key}"

lemma db_keys_apart: "direntry_key ino name \<notin> db_keys v" "CHR ''/'' # key \<notin> db_keys v"
proof -
  obtain c cs where c: "to_string (uint ino) = c # cs" "is_digit c"
    using nat_to_string_digits [of "nat (uint ino)"] by (cases "nat_to_string (nat (uint ino))") (auto simp: to_string_def)
  moreover have "\<not> is_digit CHR ''p''" by code_simp
  ultimately show "direntry_key ino name \<notin> db_keys v"
    by (auto simp: db_keys_def direntry_key_def db_entry_key_def db_version_key_def db_snapshot_key_def)
  show "CHR ''/'' # key \<notin> db_keys v" by (simp add: db_keys_def db_entry_key_def db_version_key_def db_snapshot_key_def)
qed

text \<open>The record that makes clients look at the path database when they find it.\<close>

definition force_update :: "64 word \<Rightarrow> Metadata" where
  "force_update ino = Metadata_default\<lparr>md_type := FORCE_UPDATE, inode_number := ino\<rparr>"

definition child_key :: "string \<Rightarrow> string \<Rightarrow> string" where
  "child_key dir name = (if length dir > 1 then dir @ ''/'' else ''/'') @ name"

lemma rename_directory_result:
  assumes rc: "reliable_client E store" and r: "t < length (mdis s)" "df < length (mdis s)" "posix s \<noteq> FULL" "mdis s ! t = MetadataInfo_new key_to"
    and db: "snapshotVersion (pmap s) = v" "0 \<le> v" "v + 1 < 2 ^ 63" "store (kinetic s) (db_entry_key (v + 1)) = None" "addDirectoryMove from to (pmap s) = Inr db"
    and fu: "store (kinetic s) (child_key (systemPath (mdis s ! df)) (path_to_filename from)) = Some rec" "md_ParseFromString E (kr_value rec) = Some x" "md_type x \<noteq> FORCE_UPDATE"
      "child_key (systemPath (mdis s ! df)) (path_to_filename from) \<notin> db_keys (v + 1)"
    and ino: "uint (inum_counter s) < 65534" "ino = word_of_int (inum_base s + uint (inum_counter s) + 1)"
    and key: "store (kinetic s) key_to = None" "key_to \<notin> db_keys (v + 1)"
  shows "\<exists>k m m'. rename_directory (Suc n) E from to t f df s
       = (Inr 0, s\<lparr>pmap := db, inum_counter := inum_counter s + 1, uuids := Suc (uuids s), kinetic := k, mdis := (mdis s)[t := m] @ [m']\<rparr>)
     \<and> systemPath m = key_to
     \<and> store k key_to = Some \<lparr>kr_value = md_SerializeAsString E (force_update ino), kr_version = uuid_generate E (uuids s)\<rparr>
     \<and> (\<forall>j. j \<in> insert key_to (db_keys (v + 1)) \<or> store k j = store (kinetic s) j)"
proof -
  let ?en = "\<lparr>entry_origin = from, entry_type = db_entry_Type_MOVE, entry_target = to\<rparr>" and ?fu = "child_key (systemPath (mdis s ! df)) (path_to_filename from)"
  have "apply_entry ?en (pmap s) = Inr (Some db)" using db(5) by (simp add: apply_entry_def)
  from database_operation_appends [OF rc db(1-4) this, of n] obtain k1 where
    k1: "database_operation (Suc n) E ?en s = (Inr 0, s\<lparr>kinetic := k1, pmap := db\<rparr>)" "\<And>j. j \<in> db_keys (v + 1) \<or> store k1 j = store (kinetic s) j"
    unfolding db_keys_def by blast
  let ?s2 = "s\<lparr>kinetic := k1, pmap := db, mdis := mdis s @ [MetadataInfo_new ?fu]\<rparr>" and ?l = "length (mdis s)"
  have "store (kinetic ?s2) (systemPath (mdis ?s2 ! ?l)) = Some rec" using k1(2) [of ?fu] fu(1,4) by (simp add: MetadataInfo_new_def)
  from reliable_client.get_metadata_present [OF rc _ this fu(2)] obtain m' where
    get: "get_metadata E ?l ?s2 = (Inr 0, s\<lparr>kinetic := k1, pmap := db, mdis := mdis s @ [m']\<rparr>)" "md m' = x"
    by (auto simp: list_update_append setMD_def)
  let ?m = "(MetadataInfo_new key_to)\<lparr>md := force_update ino\<rparr>"
  let ?s3 = "s\<lparr>kinetic := k1, pmap := db, inum_counter := inum_counter s + 1, mdis := (mdis s)[t := ?m] @ [m']\<rparr>"
  have m: "systemPath ?m = key_to" by (simp add: MetadataInfo_new_def)
  have at: "t < length (mdis ?s3)" "mdis ?s3 ! t = ?m" using r(1) by (simp_all add: nth_append)
  have "store (kinetic ?s3) (systemPath (mdis ?s3 ! t)) = None" unfolding at(2) m using k1(2) [of key_to] key by simp
  from reliable_client.create_metadata_absent [OF rc at(1) this] obtain k where
    k: "create_metadata E t ?s3 = (Inr 0, ?s3\<lparr>uuids := Suc (uuids s), kinetic := k, mdis := (mdis ?s3)[t := ?m\<lparr>keyVersion := uuid_generate E (uuids s)\<rparr>]\<rparr>)"
    "store k = (store k1)(key_to \<mapsto> \<lparr>kr_value = md_SerializeAsString E (force_update ino), kr_version = uuid_generate E (uuids s)\<rparr>)"
    unfolding at(2) m by auto
  have md_t: "md (MetadataInfo_new key_to)\<lparr>md_type := FORCE_UPDATE, inode_number := ino\<rparr> = force_update ino" by (simp add: MetadataInfo_new_def force_update_def)
  have gen: "generate_inode_number (Suc n) E s' = (Inr ino, s'\<lparr>inum_counter := inum_counter s + 1\<rparr>)"
    if "inum_counter s' = inum_counter s" "inum_base s' = inum_base s" for s' :: "'a hflat_priv"
    using generate_in_range(1) [of s' "Suc n" E] that ino by simp
  have "rename_directory (Suc n) E from to t f df s
      = (Inr 0, s\<lparr>pmap := db, inum_counter := inum_counter s + 1, uuids := Suc (uuids s), kinetic := k, mdis := (mdis s)[t := ?m\<lparr>keyVersion := uuid_generate E (uuids s)\<rparr>] @ [m']\<rparr>)"
    unfolding rename_directory_def child_key_def [symmetric]
    using r k1(1) get fu(3) k(1) md_t
    by (simp add: cmd_simps REQ_0_def gen nth_append list_update_append del: database_operation.simps)
  moreover have "j \<in> insert key_to (db_keys (v + 1)) \<or> store k j = store (kinetic s) j" for j
    using k1(2) [of j] unfolding k(2) by auto
  ultimately show ?thesis
    using k(2) m by (intro exI [of _ k] exI [of _ "?m\<lparr>keyVersion := uuid_generate E (uuids s)\<rparr>"] exI [of _ m']) simp
qed

text \<open>
  What the lookups of a rename have found: a directory \<open>f\<close> in a directory \<open>df\<close> that has an entry for
  it, and an object \<open>t\<close> for a name that does not exist in a directory \<open>dt\<close>. The directory has not
  been renamed before, and the client knows all changes of the path database.
\<close>

definition tree_ready :: "'n env \<Rightarrow> ('n \<Rightarrow> string \<rightharpoonup> KineticRecord) \<Rightarrow> 'n hflat_priv \<Rightarrow> string \<Rightarrow> string \<Rightarrow> nat \<Rightarrow> nat \<Rightarrow> nat \<Rightarrow> nat \<Rightarrow> string \<Rightarrow> bool" where
  "tree_ready E store s from to df dt f t key_to \<longleftrightarrow>
     posix s = TIMERELAXED \<and> df < length (mdis s) \<and> dt < length (mdis s) \<and> f < length (mdis s) \<and> t < length (mdis s) \<and> t \<noteq> dt \<and> t \<noteq> f
   \<and> S_ISDIR (mode (md (mdis s ! f))) \<and> md_type (md (mdis s ! f)) = POSIX \<and> mdis s ! t = MetadataInfo_new key_to \<and> take 1 key_to = ''/''
   \<and> store (kinetic s) (entry_of s dt (path_to_filename to)) = None
   \<and> store (kinetic s) (entry_of s dt (path_to_filename to @ ''|recovery|'' @ from)) = None
   \<and> store (kinetic s) key_to = None
   \<and> map_option kr_version (store (kinetic s) (entry_of s df (path_to_filename from))) = Some (to_string 1)
   \<and> (let own = child_key (systemPath (mdis s ! df)) (path_to_filename from) in take 1 own = ''/'' \<and> (case store (kinetic s) own of None \<Rightarrow> False
        | Some rec \<Rightarrow> (case md_ParseFromString E (kr_value rec) of None \<Rightarrow> False | Some x \<Rightarrow> md_type x \<noteq> FORCE_UPDATE)))
   \<and> 0 \<le> snapshotVersion (pmap s) \<and> snapshotVersion (pmap s) + 1 < 2 ^ 63 \<and> store (kinetic s) (db_entry_key (snapshotVersion (pmap s) + 1)) = None
   \<and> uint (inum_counter s) < 65534"

lemma rename_tree_result:
  assumes rc: "reliable_client E store" and ready: "tree_ready E store s1 from to df dt f t key_to"
    and found: "rename_lookup (Suc n) E from to s = (Inr (0, Some df, Some dt, Some f, Some t), s1)"
    and move: "addDirectoryMove from to (pmap s1) = Inr db"
  shows "\<exists>s'. hflat_rename (Suc n) E from to s = (Inr 0, s') \<and> pmap s' = db
     \<and> store (kinetic s') (entry_of s1 df (path_to_filename from)) = None
     \<and> store (kinetic s') (entry_of s1 dt (path_to_filename to)) = Some \<lparr>kr_value = '''', kr_version = to_string 1\<rparr>
     \<and> map_option kr_value (store (kinetic s') key_to)
         = Some (md_SerializeAsString E (force_update (word_of_int (inum_base s1 + uint (inum_counter s1) + 1))))
     \<and> (\<forall>j. j \<in> {entry_of s1 df (path_to_filename from), entry_of s1 dt (path_to_filename to), key_to} \<union> db_keys (snapshotVersion (pmap s1) + 1)
          \<or> store (kinetic s') j = store (kinetic s1) j)"
proof -
  let ?rname = "path_to_filename to @ ''|recovery|'' @ from" and ?v = "snapshotVersion (pmap s1)"
  let ?rkey = "entry_of s1 dt ?rname" and ?to = "entry_of s1 dt (path_to_filename to)" and ?from = "entry_of s1 df (path_to_filename from)"
  let ?e = "\<lparr>kr_value = '''', kr_version = to_string 1\<rparr>" and ?own = "child_key (systemPath (mdis s1 ! df)) (path_to_filename from)"
  have r: "posix s1 \<noteq> FULL" "df < length (mdis s1)" "dt < length (mdis s1)" "f < length (mdis s1)" "t < length (mdis s1)" "t \<noteq> dt" "t \<noteq> f"
    "S_ISDIR (mode (md (mdis s1 ! f)))" "md_type (md (mdis s1 ! f)) = POSIX" "mdis s1 ! t = MetadataInfo_new key_to"
    "store (kinetic s1) ?to = None" "store (kinetic s1) ?rkey = None" "store (kinetic s1) key_to = None"
    "0 \<le> ?v" "?v + 1 < 2 ^ 63" "store (kinetic s1) (db_entry_key (?v + 1)) = None" "uint (inum_counter s1) < 65534"
    using ready by (simp_all add: tree_ready_def Let_def)
  obtain rec x where own: "store (kinetic s1) ?own = Some rec" "md_ParseFromString E (kr_value rec) = Some x" "md_type x \<noteq> FORCE_UPDATE"
    using ready by (auto simp: tree_ready_def Let_def split: option.splits)
  obtain erec where old: "store (kinetic s1) ?from = Some erec" "kr_version erec = to_string 1" using ready by (auto simp: tree_ready_def)
  obtain a b where heads: "?own = CHR ''/'' # a" "key_to = CHR ''/'' # b"
    using ready by (cases ?own; cases key_to) (auto simp: tree_ready_def Let_def)
  have slash: "entry_of s1 d y \<noteq> key_to" "entry_of s1 d y \<noteq> ?own" "entry_of s1 d y \<notin> db_keys w" "key_to \<notin> db_keys w" "?own \<notin> db_keys w" for d y w
    unfolding heads by (simp_all add: entry_of_def direntry_key_slash db_keys_apart)
  have ne: "?to \<noteq> ?rkey" "?from \<noteq> ?to" "?from \<noteq> ?rkey" using r(11,12) old by (auto simp: entry_of_def)
  obtain k1 where k1: "create_directory_entry (Suc n) E dt (path_to_filename to) s1 = (Inr 0, s1\<lparr>kinetic := k1\<rparr>)" "store k1 = (store (kinetic s1))(?to \<mapsto> ?e)"
    using reliable_client.create_direntry [OF rc r(3,1), of "path_to_filename to" "Suc n"] r(11) by (auto simp: entry_of_def)
  obtain k2 where k2: "create_directory_entry (Suc n) E dt ?rname (s1\<lparr>kinetic := k1\<rparr>) = (Inr 0, s1\<lparr>kinetic := k2\<rparr>)" "store k2 = (store k1)(?rkey \<mapsto> ?e)"
    using reliable_client.create_direntry [OF rc, of dt "s1\<lparr>kinetic := k1\<rparr>" ?rname "Suc n"] r k1(2) ne(1) by (auto simp: entry_of_def)
  obtain k3 where k3: "delete_directory_entry (Suc n) E df (path_to_filename from) (s1\<lparr>kinetic := k2\<rparr>) = (Inr 0, s1\<lparr>kinetic := k3\<rparr>)"
    "store k3 = (store k2)(?from := None)"
    using reliable_client.delete_direntry [OF rc, of df "s1\<lparr>kinetic := k2\<rparr>" "path_to_filename from" erec "Suc n"] r(1,2) old k1(2) k2(2) ne
    by (auto simp: entry_of_def)
  have st3: "store k3 j = (if j = ?from then None else if j = ?rkey \<or> j = ?to then Some ?e else store (kinetic s1) j)" for j
    using ne unfolding k3(2) k2(2) k1(2) by auto
  have keep: "rename_remove_target (Suc n) E to t s1 = (Inr (0, Some t), s1)"
    using r(5,10) by (simp add: rename_remove_target_def cmd_simps MetadataInfo_new_def Metadata_default_def)
  let ?ino = "word_of_int (inum_base s1 + uint (inum_counter s1) + 1)"
  have "db_entry_key (?v + 1) \<in> db_keys (?v + 1)" by (simp add: db_keys_def)
  then have "db_entry_key (?v + 1) \<noteq> entry_of s1 d y" for d y using slash(3) by metis
  then have st: "store k3 (db_entry_key (?v + 1)) = None" "store k3 ?own = Some rec" "store k3 key_to = None"
    using r(13,16) own(1) slash(1,2) [symmetric] by (simp_all add: st3)
  let ?s3 = "s1\<lparr>kinetic := k3\<rparr>"
  obtain k4 m m' where k4: "rename_directory (Suc n) E from to t f df ?s3
      = (Inr 0, s1\<lparr>pmap := db, inum_counter := inum_counter s1 + 1, uuids := Suc (uuids s1), kinetic := k4, mdis := (mdis s1)[t := m] @ [m']\<rparr>)"
    "store k4 key_to = Some \<lparr>kr_value = md_SerializeAsString E (force_update ?ino), kr_version = uuid_generate E (uuids s1)\<rparr>"
    "\<And>j. j \<in> insert key_to (db_keys (?v + 1)) \<or> store k4 j = store k3 j"
    using rename_directory_result [OF rc, of t ?s3 df key_to ?v "from" to db rec x ?ino n f, OF _ _ _ _ _ r(14,15)] r(1,2,5,10,17) own(2,3) move st slash(4,5)
    by (auto simp del: of_int_add)
  let ?s4 = "s1\<lparr>pmap := db, inum_counter := inum_counter s1 + 1, uuids := Suc (uuids s1), kinetic := k4, mdis := (mdis s1)[t := m] @ [m']\<rparr>"
  have "\<not> S_ISLNK (mode (md (mdis s1 ! f)))" using r(8) by (simp add: S_ISDIR_def S_ISLNK_def)
  then have move': "rename_move (Suc n) E from to t f df (s1\<lparr>kinetic := k3\<rparr>) = (Inr (), ?s4)"
    using r(4,8,9) k4(1) by (simp add: rename_move_def cmd_simps REQ_0_def Let_def)
  have dir: "dt < length (mdis ?s4)" "inode_number (md (mdis ?s4 ! dt)) = inode_number (md (mdis s1 ! dt))" "posix ?s4 \<noteq> FULL"
    using r(1,3,6) by (simp_all add: nth_append)
  have "store k4 ?rkey = Some ?e" using k4(3) [of ?rkey] slash(1) [of dt ?rname] slash(3) [of dt ?rname "?v + 1"] ne(3) by (auto simp: st3)
  then obtain k5 where k5: "delete_directory_entry (Suc n) E dt ?rname ?s4 = (Inr 0, ?s4\<lparr>kinetic := k5\<rparr>)" "store k5 = (store k4)(?rkey := None)"
    using reliable_client.delete_direntry [OF rc dir(1,3), of ?rname ?e "Suc n"] dir(2) by (auto simp: entry_of_def)
  obtain s' where s': "hflat_rename (Suc n) E from to s = (Inr 0, s')" "pmap s' = db" "kinetic s' = k5"
    using found r(4-7) keep k1(1) k2(1) k3(1) move' k5(1)
    by (simp add: hflat_rename_def cmd_simps deref_def Let_def REQ_0_def)
  have same: "store k4 (entry_of s1 d y) = store k3 (entry_of s1 d y)" for d y using k4(3) [of "entry_of s1 d y"] slash(1) [of d y] slash(3) [of d y] by auto
  have "store k5 ?from = None" "store k5 ?to = Some ?e" "map_option kr_value (store k5 key_to) = Some (md_SerializeAsString E (force_update ?ino))"
    using ne slash(1) [of dt ?rname, symmetric] same k4(2) unfolding k5(2) by (simp_all add: st3 del: of_int_add)
  moreover have "j \<in> {?from, ?to, key_to} \<union> db_keys (?v + 1) \<or> store k5 j = store (kinetic s1) j" for j
    using k4(3) [of j] r(12) unfolding k5(2) by (auto simp: st3)
  ultimately show ?thesis using s' by blast
qed

text \<open>
  C5. The central promise of the file system (README\_ARCH.md): renaming a directory moves the whole
  tree below it without moving a key. After the rename of the directory \<open>from\<close> to \<open>to\<close>, a path \<open>x\<close>
  below the new name leads to the key the same file had below the old name, and below the old name
  it leads to a fresh key. The entries in the two directories above have moved, a record that makes
  other clients look at the path database is under the new name, and besides these and the keys of
  the path database no key has changed. Neither name lies below the other and no other mapping is
  involved.
\<close>

theorem rename_directory_moves_tree:
  assumes "reliable_client E store" "tree_ready E store s1 from to df dt f t key_to"
    "rename_lookup (Suc n) E from to s = (Inr (0, Some df, Some dt, Some f, Some t), s1)"
    and plain: "CHR '':'' \<notin> set from" "CHR '':'' \<notin> set to" "CHR '':'' \<notin> set x" "relative x"
    and apart: "from \<notin> set (ancestors (to @ x))" "to \<notin> set (ancestors (from @ x))"
    and clear: "\<forall>a \<in> set (ancestors (to @ x)) \<union> set (ancestors (from @ x)). pm_at (pmap s1) a = None"
    and fresh: "\<forall>a \<in> set (ancestors (reuse_name (snapshotVersion (pmap s1) + 1) @ x)). pm_at (pmap s1) a = None \<and> a \<noteq> from \<and> a \<noteq> to"
    and names: "names_ok (to @ x)" "names_ok (from @ x)" "names_ok (reuse_name (snapshotVersion (pmap s1) + 1) @ x)"
    and short: "length (to @ x) \<le> PATH_MAX" "length (from @ x) \<le> PATH_MAX" and fuel: "2 \<le> fuel"
  shows "\<exists>s'. hflat_rename (Suc n) E from to s = (Inr 0, s')
     \<and> toSystemPath fuel (pmap s') (to @ x) ctype = Inr (from @ x, 0)
     \<and> toSystemPath fuel (pmap s') (from @ x) ctype = Inr (reuse_name (snapshotVersion (pmap s1) + 1) @ x, 0)
     \<and> store (kinetic s') (entry_of s1 df (path_to_filename from)) = None
     \<and> store (kinetic s') (entry_of s1 dt (path_to_filename to)) = Some \<lparr>kr_value = '''', kr_version = to_string 1\<rparr>
     \<and> map_option kr_value (store (kinetic s') key_to)
         = Some (md_SerializeAsString E (force_update (word_of_int (inum_base s1 + uint (inum_counter s1) + 1))))
     \<and> (\<forall>j. j \<in> {entry_of s1 df (path_to_filename from), entry_of s1 dt (path_to_filename to), key_to} \<union> db_keys (snapshotVersion (pmap s1) + 1)
          \<or> store (kinetic s') j = store (kinetic s1) j)"
proof -
  obtain db where "addDirectoryMove from to (pmap s1) = Inr db" "toSystemPath fuel db (to @ x) ctype = Inr (from @ x, 0)"
    "toSystemPath fuel db (from @ x) ctype = Inr (reuse_name (snapshotVersion (pmap s1) + 1) @ x, 0)"
    using directory_move_remaps [OF plain apart clear fresh names short fuel] by blast
  with rename_tree_result [OF assms(1-3), of db] show ?thesis by blast
qed

text \<open>The two directories of the earlier example, and a directory \<open>/d/s\<close> that becomes \<open>/e/u\<close>.\<close>

definition subdirs :: drive where
  "subdirs = (''/d/s'', \<lparr>kr_value = enc_md (example_dir\<lparr>inode_number := 12\<rparr>), kr_version = ''v4''\<rparr>) # (''9|s'', \<lparr>kr_value = '''', kr_version = ''1''\<rparr>) # two_dirs"

definition subdirs_client :: "drive hflat_priv" where
  "subdirs_client = hflat_priv_new subdirs 0 1024 TIMERELAXED"

abbreviation (input) sub_d where "sub_d \<equiv> cached_new (drive_env 7 100 5) ''/d'' (setMD example_dir ''v1'' (MetadataInfo_new ''/d'')) subdirs_client"
abbreviation (input) sub_e where "sub_e \<equiv> cached_new (drive_env 7 100 5) ''/e'' (setMD (example_dir\<lparr>inode_number := 11\<rparr>) ''v3'' (MetadataInfo_new ''/e'')) sub_d"
abbreviation (input) sub_s where "sub_s \<equiv> cached_new (drive_env 7 100 5) ''/d/s'' (setMD (example_dir\<lparr>inode_number := 12\<rparr>) ''v4'' (MetadataInfo_new ''/d/s'')) sub_e"
abbreviation (input) sub_u where "sub_u \<equiv> cached_new (drive_env 7 100 5) ''/e/u'' (MetadataInfo_new ''/e/u'') sub_s"

lemmas subdirs_simps = subdirs_client_def subdirs_def two_dirs_simps

lemma subdirs_paths:
  "toSystemPath (Suc n) (pmap subdirs_client) ''/d'' LOOKUP = Inr (''/d'', 0)" "toSystemPath (Suc n) (pmap subdirs_client) ''/e'' LOOKUP = Inr (''/e'', 0)"
  "toSystemPath (Suc n) (pmap subdirs_client) ''/d/s'' LOOKUP = Inr (''/d/s'', 0)" "toSystemPath (Suc n) (pmap subdirs_client) ''/e/u'' LOOKUP = Inr (''/e/u'', 0)"
  by (simp_all add: tree_simps subdirs_client_def)

lemma subdirs_lookups:
  "lookup (Suc n) (drive_env 7 100 5) ''/d'' None subdirs_client = (Inr (0, Some 0), sub_d)"
  "lookup (Suc n) (drive_env 7 100 5) ''/e'' None sub_d = (Inr (0, Some 1), sub_e)"
  "lookup (Suc n) (drive_env 7 100 5) ''/d/s'' None sub_e = (Inr (0, Some 2), sub_s)"
  "lookup (Suc n) (drive_env 7 100 5) ''/e/u'' None sub_s = (Inr (- ENOENT, Some 3), sub_u)"
proof -
  note pr = lookup_present [OF example.reliable_client_axioms [of 7 100 5], where stamp = 0 and n = n and mdi = None]
  note defs = parse_all_codec [OF codec_md] example_dir_def example_md_def Metadata_default_def
  show "lookup (Suc n) (drive_env 7 100 5) ''/d'' None subdirs_client = (Inr (0, Some 0), sub_d)"
    using pr [where s = subdirs_client and path = "''/d''" and key = "''/d''" and rec = "\<lparr>kr_value = enc_md example_dir, kr_version = ''v1''\<rparr>" and x = example_dir]
    using subdirs_paths(1) by (simp add: subdirs_simps defs del: lookup.simps)
  show "lookup (Suc n) (drive_env 7 100 5) ''/e'' None sub_d = (Inr (0, Some 1), sub_e)"
    using pr [where s = sub_d and path = "''/e''" and key = "''/e''" and rec = "\<lparr>kr_value = enc_md (example_dir\<lparr>inode_number := 11\<rparr>), kr_version = ''v3''\<rparr>" and x = "example_dir\<lparr>inode_number := 11\<rparr>"]
    using subdirs_paths(2) by (simp add: subdirs_simps defs del: lookup.simps)
  show "lookup (Suc n) (drive_env 7 100 5) ''/d/s'' None sub_e = (Inr (0, Some 2), sub_s)"
    using pr [where s = sub_e and path = "''/d/s''" and key = "''/d/s''" and rec = "\<lparr>kr_value = enc_md (example_dir\<lparr>inode_number := 12\<rparr>), kr_version = ''v4''\<rparr>" and x = "example_dir\<lparr>inode_number := 12\<rparr>"]
    using subdirs_paths(3) by (simp add: subdirs_simps defs del: lookup.simps)
  show "lookup (Suc n) (drive_env 7 100 5) ''/e/u'' None sub_s = (Inr (- ENOENT, Some 3), sub_u)"
    using lookup_absent [OF example.reliable_client_axioms [of 7 100 5], where s = sub_s and path = "''/e/u''" and key = "''/e/u''" and stamp = 0 and n = n and mdi = None]
    using subdirs_paths(4) by (simp add: subdirs_simps del: lookup.simps)
qed

lemma subdirs_rename_lookup:
  "rename_lookup (Suc (Suc n)) (drive_env 7 100 5) ''/d/s'' ''/e/u'' subdirs_client = (Inr (0, Some 0, Some 1, Some 2, Some 3), sub_u)"
proof -
  have dirs: "parent_path ''/d/s'' = Some ''/d''" "parent_path ''/e/u'' = Some ''/e''" by (simp_all add: parent_path_def is_slash_def is_colon_def)
  note dir_defs = subdirs_simps setMD_def example_dir_def example_md_def Metadata_default_def S_ISDIR_def
  have p1: "lookup_parent (Suc (Suc n)) (drive_env 7 100 5) ''/d/s'' None subdirs_client = (Inr (0, Some 0), sub_d)"
    using lookup_parent_present [OF dirs(1) subdirs_lookups(1) [of n]] by (simp add: dir_defs del: lookup_parent.simps)
  have p2: "lookup_parent (Suc (Suc n)) (drive_env 7 100 5) ''/e/u'' None sub_d = (Inr (0, Some 1), sub_e)"
    using lookup_parent_present [OF dirs(2) subdirs_lookups(2) [of n]] by (simp add: dir_defs del: lookup_parent.simps)
  have at: "mdis sub_s = [setMD example_dir ''v1'' (MetadataInfo_new ''/d''), setMD (example_dir\<lparr>inode_number := 11\<rparr>) ''v3'' (MetadataInfo_new ''/e''),
      setMD (example_dir\<lparr>inode_number := 12\<rparr>) ''v4'' (MetadataInfo_new ''/d/s'')]" by (simp add: subdirs_simps)
  have objs: "mdis sub_u = mdis sub_s @ [MetadataInfo_new ''/e/u'']" by (simp add: subdirs_simps)
  show ?thesis
    unfolding rename_lookup_def
    by (simp add: is_prefix_def cmd_simps p1 p2 subdirs_lookups [of "Suc n"] deref_def objs at check_access_to_def del: lookup.simps lookup_parent.simps)
       (simp add: sticky_denies_def setMD_def example_dir_def example_md_def Metadata_default_def check_access_def)
qed

lemma subdirs_ready: "tree_ready (drive_env 7 100 5) map_of sub_u ''/d/s'' ''/e/u'' 0 1 2 3 ''/e/u''"
proof -
  have key: "direntry_key 11 name = ''11|'' @ name" for name
  proof -
    have "to_string 11 = ''11''" by code_simp
    then show ?thesis by (simp add: direntry_key_def)
  qed
  have one: "to_string 1 = ''1''" by code_simp
  show ?thesis
    by (simp add: tree_ready_def entry_of_def child_key_def subdirs_simps setMD_def MetadataInfo_new_def path_to_filename_def is_slash_def is_colon_def
        key direntry_key_9 one db_entry_key_def parse_all_codec [OF codec_md] PathMapDB_init_def)
       (simp add: example_dir_def example_md_def Metadata_default_def S_ISDIR_def direntry_key_9)
qed

theorem rename_directory_moves_tree_witness:
  "\<exists>s'. hflat_rename (Suc (Suc 0)) (drive_env 7 100 5) ''/d/s'' ''/e/u'' subdirs_client = (Inr 0, s')
     \<and> toSystemPath 2 (pmap s') (''/e/u'' @ ''/f'') LOOKUP = Inr (''/d/s'' @ ''/f'', 0)
     \<and> map_of (kinetic s') ''9|s'' = None \<and> map_of (kinetic s') ''11|u'' = Some \<lparr>kr_value = '''', kr_version = ''1''\<rparr>
     \<and> map_of (kinetic s') ''/d/s'' = map_of subdirs ''/d/s'' \<and> map_of (kinetic s') ''/d/a'' = map_of subdirs ''/d/a''"
proof -
  have "to_string 11 = ''11''" and one: "to_string 1 = ''1''" by code_simp+
  then have entries: "entry_of sub_u 0 (path_to_filename ''/d/s'') = ''9|s''" "entry_of sub_u 1 (path_to_filename ''/e/u'') = ''11|u''"
    using direntry_key_9 [of "''s''"]
    by (simp_all add: entry_of_def subdirs_simps setMD_def example_dir_def path_to_filename_def is_slash_def is_colon_def direntry_key_def)
  have db: "pmap sub_u = PathMapDB_init" "kinetic sub_u = subdirs" by (simp_all add: subdirs_client_def cached_new_def hflat_priv_new_def)
  have clear: "pm_at PathMapDB_init a = None" for a by (simp add: PathMapDB_init_def)
  have slash: "''/d/s'' \<notin> db_keys v" "''/d/a'' \<notin> db_keys v" for v by (simp_all add: db_keys_apart)
  obtain s' where s': "hflat_rename (Suc (Suc 0)) (drive_env 7 100 5) ''/d/s'' ''/e/u'' subdirs_client = (Inr 0, s')"
    "toSystemPath 2 (pmap s') (''/e/u'' @ ''/f'') LOOKUP = Inr (''/d/s'' @ ''/f'', 0)"
    "map_of (kinetic s') ''9|s'' = None" "map_of (kinetic s') ''11|u'' = Some \<lparr>kr_value = '''', kr_version = to_string 1\<rparr>"
    "\<forall>j. j \<in> {''9|s'', ''11|u'', ''/e/u''} \<union> db_keys (snapshotVersion PathMapDB_init + 1) \<or> map_of (kinetic s') j = map_of subdirs j"
  proof -
    note w = rename_directory_moves_tree [OF example.reliable_client_axioms subdirs_ready subdirs_rename_lookup [of 0], unfolded db entries,
        where x = "''/f''" and fuel = 2 and ctype = LOOKUP]
    show thesis
      by (rule exE [OF w]) (rule that | simp add: clear relative_def; fail | code_simp; fail | blast)+
  qed
  have "map_of (kinetic s') ''/d/s'' = map_of subdirs ''/d/s''" "map_of (kinetic s') ''/d/a'' = map_of subdirs ''/d/a''"
    using s'(5) [rule_format, of "''/d/s''"] s'(5) [rule_format, of "''/d/a''"] slash by auto
  with s'(1-4) show ?thesis unfolding one by blast
qed

end
