(* ===== verification/Fuse_Statfs.thy ===== *)
theory Fuse_Statfs
  imports Fuse_Props
begin

section \<open>Statistics\<close>

text \<open>
  \<^verbatim>\<open>statfs\<close> divides the total exactly and computes the free space in single precision. The
  capacity of a drive has more digits than that, so the free space can be more than the total.
\<close>

subsection \<open>Rounding a capacity\<close>

lemma round32_scaled:
  assumes "pow2 e \<le> x" "x < pow2 (e + 1)" "- 126 \<le> e" "e < 127" "round_even (x / pow2 (e - 23)) = k" "0 < k" "k \<le> 2 ^ 24"
  shows "round32 x = Finite (of_int k * pow2 (e - 23))"
proof -
  have x: "0 < x" using assms(1) pow2_pos [of e] by linarith
  have "max (e - 23) (- 149) = e - 23" using assms(3) by simp
  then have "spacing x = pow2 (e - 23)" using binary_exponent_eq [OF assms(1,2)] x by (simp add: spacing_def)
  moreover have "of_int k * pow2 (e - 23) < pow2 128"
  proof -
    have "(of_int k :: rat) \<le> of_int (2 ^ 24)" using assms(7) by (simp only: of_int_le_iff)
    then have "of_int k * pow2 (e - 23) \<le> pow2 24 * pow2 (e - 23)" by (intro mult_right_mono) (simp_all add: pow2_def)
    also have "\<dots> = pow2 (e + 1)" by (simp add: add.commute flip: pow2_add)
    also have "\<dots> < pow2 128" unfolding pow2_powi using assms(4) by (intro power_int_strict_increasing) simp_all
    finally show ?thesis .
  qed
  ultimately show ?thesis using x assms(5,6) by (simp add: round32_def Let_def abs_mult abs_of_pos)
qed

lemma round_even_int: "round_even (of_int k) = k"
  by (simp add: round_even_def)

text \<open>A number with a significand of 24 bits is kept.\<close>

lemma round32_exact:
  assumes "2 ^ 23 \<le> k" "k \<le> 2 ^ 24" "- 100 \<le> q" "q \<le> 100"
  shows "round32 (of_int k * pow2 q) = Finite (of_int k * pow2 q)"
proof (cases "k < 2 ^ 24")
  case True
  have "(of_int (2 ^ 23) :: rat) \<le> of_int k" "(of_int k :: rat) < of_int (2 ^ 24)" using assms(1) True by (simp_all only: of_int_le_iff of_int_less_iff)
  then have "pow2 23 * pow2 q \<le> of_int k * pow2 q" "of_int k * pow2 q < pow2 24 * pow2 q"
    by (simp_all add: pow2_def [of 23] pow2_def [of 24])
  then have "pow2 (q + 23) \<le> of_int k * pow2 q" "of_int k * pow2 q < pow2 (q + 23 + 1)" by (simp_all add: pow2_add [symmetric] add_ac)
  moreover have "of_int k * pow2 q / pow2 (q + 23 - 23) = of_int k" using pow2_pos [of q] by (simp add: less_imp_neq [THEN not_sym])
  ultimately show ?thesis using round32_scaled [of "q + 23" "of_int k * pow2 q" k] assms by (simp add: round_even_int)
next
  case False
  with assms(2) have k: "k = 2 ^ 24" by simp
  have "of_int (2 ^ 23) * pow2 (q + 24 - 23) = pow2 23 * pow2 (q + 1)" by (simp add: pow2_def [of 23] add.commute)
  also have "\<dots> = pow2 (q + 24)" by (simp only: pow2_add [symmetric]) (simp add: add.commute)
  finally have p: "of_int (2 ^ 23) * pow2 (q + 24 - 23) = pow2 (q + 24)" .
  have "pow2 (q + 24) < pow2 (q + 24 + 1)" by (simp only: pow2_add [of "q + 24" 1] pow2_1) simp
  moreover have "pow2 (q + 24) / pow2 (q + 24 - 23) = of_int (2 ^ 23)" by (simp only: pow2_diff [symmetric]) (simp add: pow2_def)
  ultimately have "round32 (pow2 (q + 24)) = Finite (pow2 (q + 24))"
    using round32_scaled [of "q + 24" "pow2 (q + 24)" "2 ^ 23"] assms(3,4) round_even_int [of "2 ^ 23"] unfolding p by simp
  moreover have "of_int k * pow2 q = pow2 (q + 24)" by (simp add: k pow2_add pow2_def [of 24])
  ultimately show ?thesis by simp
qed

lemma round_even_bounds: "x - 1 / 2 \<le> of_int (round_even x)" "of_int (round_even x) \<le> x + 1 / 2"
proof -
  have f: "of_int \<lfloor>x\<rfloor> \<le> x" "x < of_int \<lfloor>x\<rfloor> + 1" using floor_correct [of x] by simp_all
  consider "round_even x = \<lfloor>x\<rfloor>" "x - of_int \<lfloor>x\<rfloor> \<le> 1 / 2" | "round_even x = \<lfloor>x\<rfloor> + 1" "1 / 2 \<le> x - of_int \<lfloor>x\<rfloor>"
  proof (cases "x - of_int \<lfloor>x\<rfloor> < 1 / 2")
    case True
    then have "round_even x = \<lfloor>x\<rfloor>" by (simp add: round_even_def)
    with True that(1) show ?thesis by simp
  next
    case False
    show ?thesis
    proof (cases "round_even x = \<lfloor>x\<rfloor>")
      case True
      then have "\<not> 1 / 2 < x - of_int \<lfloor>x\<rfloor>" by (auto simp: round_even_def Let_def)
      with True that(1) show ?thesis by simp
    next
      case False
      then have "round_even x = \<lfloor>x\<rfloor> + 1" by (auto simp: round_even_def Let_def split: if_splits)
      with \<open>\<not> x - of_int \<lfloor>x\<rfloor> < 1 / 2\<close> that(2) show ?thesis by simp
    qed
  qed
  then show "x - 1 / 2 \<le> of_int (round_even x)" "of_int (round_even x) \<le> x + 1 / 2" using f by (cases; linarith)+
qed

text \<open>
  A capacity between 32 GiB and 8 EiB is rounded to a multiple of 4096 bytes, and the quotient of
  the rounded capacity and 4096 is exact.
\<close>

lemma round_capacity:
  assumes "2 ^ 35 \<le> c" "c < 2 ^ 63"
  obtains b :: nat where "round32 (of_nat c) = Finite (of_nat b * 4096)" "round32 (of_nat b * 4096) = Finite (of_nat b * 4096)"
    "round32 (of_nat b) = Finite (of_nat b)" "b < 2 ^ 64"
proof -
  define x :: rat where "x = of_nat c"
  have x: "2 ^ 35 \<le> x" "x < 2 ^ 63" using assms unfolding x_def by (metis of_nat_le_iff of_nat_numeral of_nat_power, metis of_nat_less_iff of_nat_numeral of_nat_power)
  define e where "e = binary_exponent x"
  have e: "pow2 e \<le> x" "x < pow2 (e + 1)" using binary_exponent_bounds [of x] x(1) by (simp_all add: e_def)
  have "\<not> e < 35" using e(2) x(1) pow2_mono [of "e + 1" 35] by (auto simp: pow2_def [of 35])
  moreover have "\<not> 63 \<le> e" using e(1) x(2) pow2_mono [of 63 e] by (auto simp: pow2_def [of 63])
  ultimately have e': "35 \<le> e" "e \<le> 62" by simp_all
  define q where "q = e - 23"
  have q: "12 \<le> q" "q \<le> 39" using e' by (simp_all add: q_def)
  define k where "k = round_even (x / pow2 q)"
  have "pow2 23 \<le> x / pow2 q" "x / pow2 q < pow2 24"
    using e by (simp_all add: q_def field_simps pow2_add [symmetric])
  then have b: "2 ^ 23 \<le> x / pow2 q" "x / pow2 q < 2 ^ 24" by (simp_all add: pow2_def [of 23] pow2_def [of 24])
  have "(of_int (2 ^ 23) :: rat) < of_int k + 1" "(of_int k :: rat) < of_int (2 ^ 24) + 1"
    using b round_even_bounds [of "x / pow2 q"] unfolding k_def of_int_power of_int_numeral by linarith+
  then have "(of_int (2 ^ 23) :: rat) < of_int (k + 1)" "(of_int k :: rat) < of_int (2 ^ 24 + 1)" by simp_all
  then have k: "2 ^ 23 \<le> k" "k \<le> 2 ^ 24" unfolding of_int_less_iff by simp_all
  have r: "round32 x = Finite (of_int k * pow2 q)"
    using round32_scaled [OF e, of k] e' k by (simp add: q_def k_def)
  define m where "m = nat k * 2 ^ nat (q - 12)"
  have m: "(of_nat m :: rat) = of_int k * pow2 (q - 12)" using k q by (simp add: m_def pow2_def)
  have m': "(of_nat m :: rat) * 4096 = of_int k * pow2 q"
    using pow2_add [of "q - 12" 12] by (simp add: m pow2_def [of 12])
  have "m < 2 ^ 64"
  proof -
    have "m \<le> 2 ^ 24 * 2 ^ 27" unfolding m_def using k q by (intro mult_mono power_increasing) simp_all
    then show ?thesis by simp
  qed
  moreover have "round32 (of_nat m * 4096) = Finite (of_nat m * 4096)" unfolding m' by (rule round32_exact [OF k]) (use q in simp_all)
  moreover have "round32 (of_nat m) = Finite (of_nat m)" unfolding m by (rule round32_exact [OF k]) (use q in simp_all)
  ultimately show ?thesis using that [of m] r unfolding m' [symmetric] x_def by blast
qed

subsection \<open>Free blocks\<close>

text \<open>
  C40. How many free blocks an empty drive has depends on the rounding of its capacity: for a drive
  of at least 32 GiB and less than 8 EiB \<^verbatim>\<open>statfs\<close> reports as many free blocks as fit into the
  capacity rounded to single precision, and as many blocks as fit into the capacity. So there are
  more free blocks than blocks exactly when the capacity is rounded up.
\<close>

theorem statfs_free_exceeds_total:
  assumes "ns_GetCapacity (ns E) (kinetic s) = ((OK, Some \<lparr>nominal_capacity_in_bytes = c, portion_full = Finite 0\<rparr>), k)"
    "2 ^ 35 \<le> unat c" "unat c < 2 ^ 63"
  shows "\<exists>st y. hflat_statfs E path s = (Inr (0, Some st), s\<lparr>kinetic := k\<rparr>) \<and> f_of_nat (unat c) = Finite y
     \<and> unat (f_blocks st) = unat c div 4096 \<and> of_nat (unat (f_bavail st)) = y / 4096
     \<and> (f_blocks st < f_bavail st \<longleftrightarrow> of_nat (unat c) < y)"
proof -
  obtain b :: nat where b: "round32 (of_nat (unat c)) = Finite (of_nat b * 4096)" "round32 (of_nat b * 4096) = Finite (of_nat b * 4096)"
    "round32 (of_nat b) = Finite (of_nat b)" "b < 2 ^ 64"
    using round_capacity [OF assms(2,3)] by blast
  have "round32 4096 = Finite 4096" using round32_exact [of "2 ^ 23" "- 11"] by (simp add: pow2_def)
  then have "free_blocks \<lparr>nominal_capacity_in_bytes = c, portion_full = Finite 0\<rparr> = f_to_uint64 (Finite (of_nat b))"
    using b by (simp add: free_blocks_def f_of_nat_def f_sub_def Let_def round32_def [of 0])
  also have "\<dots> = Inr (of_nat b)"
  proof -
    have "(of_nat b :: rat) < 2 ^ 64" using b(4) by (metis of_nat_less_iff of_nat_numeral of_nat_power)
    moreover have "(- 1 :: rat) < of_nat b" by (rule less_le_trans [of _ 0]) simp_all
    ultimately show ?thesis by simp
  qed
  finally have free: "free_blocks \<lparr>nominal_capacity_in_bytes = c, portion_full = Finite 0\<rparr> = Inr (of_nat b)" .
  obtain st where st: "hflat_statfs E path s = (Inr (0, Some st), s\<lparr>kinetic := k\<rparr>)" "f_blocks st = c div 4096" "f_bavail st = of_nat b"
    using assms(1) free by (simp add: hflat_statfs_def cmd_simps deref_def)
  have blocks: "unat (f_blocks st) = unat c div 4096" "unat (f_bavail st) = b" using st b(4) by (simp_all add: unat_div unat_of_nat)
  have "unat c div 4096 < b \<longleftrightarrow> unat c < b * 4096" by (simp add: div_less_iff_less_mult)
  also have "\<dots> \<longleftrightarrow> (of_nat (unat c) :: rat) < of_nat (b * 4096)" by (rule of_nat_less_iff [symmetric])
  finally have "f_blocks st < f_bavail st \<longleftrightarrow> (of_nat (unat c) :: rat) < of_nat b * 4096"
    using blocks by (simp add: word_less_nat_alt)
  with st(1) blocks b(1) show ?thesis by (intro exI [of _ st] exI [of _ "of_nat b * 4096"]) (simp add: f_of_nat_def)
qed

text \<open>A drive of 16777219 blocks is rounded up to 16777220 blocks.\<close>

definition odd_drive_env :: "drive env" where
  "odd_drive_env = (drive_env 7 100 5)\<lparr>ns := (SimpleKineticNamespace drive_connection)
     \<lparr>ns_GetCapacity := \<lambda>n. ((OK, Some \<lparr>nominal_capacity_in_bytes = 68719489024, portion_full = Finite 0\<rparr>), n)\<rparr>\<rparr>"

lemma round_64GB: "f_of_nat 68719489024 = Finite 68719493120"
proof -
  have half: "round_even (16777219 / 2) = 8388610"
  proof -
    have "\<lfloor>16777219 / 2 :: rat\<rfloor> = 8388609" by (rule floor_unique) simp_all
    then show ?thesis by (simp add: round_even_def)
  qed
  show ?thesis
    using round32_scaled [where e = 36 and k = 8388610 and x = 68719489024] half by (simp add: f_of_nat_def pow2_def)
qed

theorem statfs_free_exceeds_total_witness:
  "\<exists>st. hflat_statfs odd_drive_env ''/'' (log_client []) = (Inr (0, Some st), (log_client [])\<lparr>kinetic := []\<rparr>)
     \<and> unat (f_blocks st) = 16777219 \<and> unat (f_bavail st) = 16777220"
proof -
  have "ns_GetCapacity (ns odd_drive_env) (kinetic (log_client [])) = ((OK, Some \<lparr>nominal_capacity_in_bytes = 68719489024, portion_full = Finite 0\<rparr>), [])"
    by (simp add: odd_drive_env_def)
  from statfs_free_exceeds_total [OF this, of "''/''"] obtain st y where
    st: "hflat_statfs odd_drive_env ''/'' (log_client []) = (Inr (0, Some st), (log_client [])\<lparr>kinetic := []\<rparr>)"
      "f_of_nat 68719489024 = Finite y" "unat (f_blocks st) = 16777219" "of_nat (unat (f_bavail st)) = y / 4096" by auto
  then have "(of_nat (unat (f_bavail st)) :: rat) = of_nat 16777220" by (simp add: round_64GB)
  then have "unat (f_bavail st) = 16777220" by (simp only: of_nat_eq_iff)
  with st(1,3) show ?thesis by blast
qed

end
