(* ===== verification/Fuse_Ops.thy ===== *)
theory Fuse_Ops
  imports Fsck
begin

section \<open>The table of operations\<close>

text \<open>
  init\_hflat\_ops of main.cc connects every request of FUSE with the function that serves it;
  several requests share one function. The requests are those of the table on Linux, each with
  the arguments its function looks at. The environment holds who makes a request and when, so
  a session is a list of requests, each with its own environment.
\<close>

subsection \<open>Model\<close>

datatype fuse_request =
    op_create string "32 word"
  | op_mknod string "32 word"
  | op_unlink string
  | op_open string "32 word"
  | op_release string "32 word"
  | op_mkdir string "32 word"
  | op_rmdir string
  | op_opendir string "32 word"
  | op_releasedir string "32 word"
  | op_readdir string
  | op_access string "32 word"
  | op_chown string "32 word" "32 word"
  | op_chmod string "32 word"
  | op_getattr string
  | op_fgetattr string
  | op_utimens string int int
  | op_statfs string
  | op_setxattr string string string "32 word"
  | op_getxattr string string nat
  | op_listxattr string nat
  | op_removexattr string string
  | op_symlink string string
  | op_readlink string nat
  | op_link string string
  | op_read string nat nat
  | op_write string string nat nat "32 word"
  | op_truncate string nat
  | op_ftruncate string nat
  | op_rename string string
  | op_fsync string "32 word"
  | op_fsyncdir string
  | op_flush string

datatype fuse_reply =
    reply_code int
  | reply_bytes int string
  | reply_names int "string list"
  | reply_stat int "stat option"
  | reply_statvfs int "statvfs option"

abbreviation code_of :: "('n, int) fs \<Rightarrow> ('n, fuse_reply) fs" where
  "code_of m \<equiv> call m (\<lambda>err. ret (reply_code err))"

fun hflat_ops :: "nat \<Rightarrow> 'n env \<Rightarrow> fuse_request \<Rightarrow> ('n, fuse_reply) fs" where
  "hflat_ops n E (op_create path fmode) = code_of (hflat_fcreate n E path fmode)"
| "hflat_ops n E (op_mknod path fmode) = code_of (hflat_mknod n E path fmode)"
| "hflat_ops n E (op_unlink path) = code_of (hflat_unlink n E path)"
| "hflat_ops n E (op_open path flags) = code_of (hflat_open n E path flags)"
| "hflat_ops n E (op_release path flags) = code_of (hflat_release n E path (Some flags))"
| "hflat_ops n E (op_mkdir path fmode) = code_of (hflat_mkdir n E path fmode)"
| "hflat_ops n E (op_rmdir path) = code_of (hflat_rmdir n E path)"
| "hflat_ops n E (op_opendir path flags) = code_of (hflat_open n E path flags)"
| "hflat_ops n E (op_releasedir path flags) = code_of (hflat_release n E path (Some flags))"
| "hflat_ops n E (op_readdir path) = call (hflat_readdir n E path) (\<lambda>(err, names). ret (reply_names err names))"
| "hflat_ops n E (op_access path req) = code_of (hflat_access n E path req)"
| "hflat_ops n E (op_chown path newuid newgid) = code_of (hflat_chown n E path newuid newgid)"
| "hflat_ops n E (op_chmod path fmode) = code_of (hflat_chmod n E path fmode)"
| "hflat_ops n E (op_getattr path) = call (hflat_getattr n E path) (\<lambda>(err, st). ret (reply_stat err st))"
| "hflat_ops n E (op_fgetattr path) = call (hflat_fgetattr n E path) (\<lambda>(err, st). ret (reply_stat err st))"
| "hflat_ops n E (op_utimens path atv mtv) = code_of (hflat_utimens n E path atv mtv)"
| "hflat_ops n E (op_statfs path) = call (hflat_statfs E path) (\<lambda>(err, st). ret (reply_statvfs err st))"
| "hflat_ops n E (op_setxattr path name v flags) = code_of (hflat_setxattr n E path name v flags)"
| "hflat_ops n E (op_getxattr path name sz) = call (hflat_getxattr n E path name sz) (\<lambda>(err, v). ret (reply_bytes err v))"
| "hflat_ops n E (op_listxattr path sz) = call (hflat_listxattr n E path sz) (\<lambda>(err, v). ret (reply_bytes err v))"
| "hflat_ops n E (op_removexattr path name) = code_of (hflat_removexattr n E path name)"
| "hflat_ops n E (op_symlink tgt origin) = code_of (hflat_symlink n E tgt origin)"
| "hflat_ops n E (op_readlink path sz) = call (hflat_readlink n E path sz) (\<lambda>(err, v). ret (reply_bytes err v))"
| "hflat_ops n E (op_link tgt origin) = code_of (hflat_hardlink n E tgt origin)"
| "hflat_ops n E (op_read path sz offset) = call (hflat_read n E path sz offset) (\<lambda>(err, v). ret (reply_bytes err v))"
| "hflat_ops n E (op_write path buf sz offset flags) = code_of (hflat_write n E path buf sz offset flags)"
| "hflat_ops n E (op_truncate path offset) = code_of (hflat_truncate n E path offset)"
| "hflat_ops n E (op_ftruncate path offset) = code_of (hflat_ftruncate n E path offset)"
| "hflat_ops n E (op_rename from to) = code_of (hflat_rename n E from to)"
| "hflat_ops n E (op_fsync path flags) = code_of (hflat_fsync n E path (Some flags))"
| "hflat_ops n E (op_fsyncdir path) = code_of hflat_fsyncdir"
| "hflat_ops n E (op_flush path) = code_of hflat_flush"

text \<open>A mounted file system serves one request after the other.\<close>

fun serve :: "nat \<Rightarrow> ('n env \<times> fuse_request) list \<Rightarrow> ('n, fuse_reply list) fs" where
  "serve n [] = ret []"
| "serve n ((E, req) # reqs) =
     call (hflat_ops n E req) (\<lambda>reply. call (serve n reqs) (\<lambda>replies. ret (reply # replies)))"

definition mount_and_serve :: "nat \<Rightarrow> 'n env \<Rightarrow> ('n env \<times> fuse_request) list \<Rightarrow> ('n, fuse_reply list) fs" where
  "mount_and_serve n E reqs = call (hflat_init n E) (\<lambda>_. serve n reqs)"

end
