(* ===== verification/Client_Invariant.thy ===== *)
theory Client_Invariant
  imports Fuse_Ops Fuse_Props
begin

section \<open>Invariants of a client\<close>

text \<open>
  What holds of the state of a client between two requests, whatever the requests are, whoever
  makes them and however the namespace answers. The laws that a predicate on states has to
  fulfil are stated once as a locale, and that every operation of the table keeps the predicate
  is proved there. A second predicate \<open>W\<close> describes the states in which a command may wait forever.
\<close>

subsection \<open>Commands that keep a predicate\<close>

definition kept :: "('s \<Rightarrow> bool) \<Rightarrow> ('s \<Rightarrow> bool) \<Rightarrow> ('s, 'a) cmd \<Rightarrow> bool" where
  "kept W I m \<longleftrightarrow> live W I m (\<lambda>_. I)"

named_theorems kept_intros \<open>commands that keep an invariant and wait forever only for a reason\<close>

lemma keptI: "(\<And>s r s'. I s \<Longrightarrow> m s = (r, s') \<Longrightarrow> (r = Inl Deadlock \<longrightarrow> W s') \<and> (\<forall>a. r = Inr a \<longrightarrow> I s')) \<Longrightarrow> kept W I m"
  by (auto simp: kept_def live_def)

lemma keptD: "kept W I m \<Longrightarrow> I s \<Longrightarrow> m s = (r, s') \<Longrightarrow> (r = Inl Deadlock \<longrightarrow> W s') \<and> (\<forall>a. r = Inr a \<longrightarrow> I s')"
  by (auto simp: kept_def live_def)

lemma kept_call [kept_intros]: "kept W I m \<Longrightarrow> (\<And>a. kept W I (f a)) \<Longrightarrow> kept W I (call m f)"
  unfolding kept_def by (rule live_call)

lemma kept_basic [kept_intros]:
  "kept W I (ret a)" "e \<noteq> Deadlock \<Longrightarrow> kept W I (halt e)" "kept W I (reads g)" "r \<noteq> Inl Deadlock \<Longrightarrow> kept W I (lift r)"
  "kept W I (check_assert b)"
  unfolding kept_def by (auto intro!: live_intros)

lemma kept_modify [kept_intros]: "(\<And>s. I s \<Longrightarrow> I (f s)) \<Longrightarrow> kept W I (modify f)"
  unfolding kept_def by (rule live_modify)

lemma kept_cases [kept_intros]:
  "(b \<Longrightarrow> kept W I m) \<Longrightarrow> (\<not> b \<Longrightarrow> kept W I n) \<Longrightarrow> kept W I (if b then m else n)"
  "kept W I m \<Longrightarrow> (\<And>a. kept W I (f a)) \<Longrightarrow> kept W I (case x of None \<Rightarrow> m | Some a \<Rightarrow> f a)"
  "(\<And>a. kept W I (g a)) \<Longrightarrow> (\<And>a. kept W I (h a)) \<Longrightarrow> kept W I (case y of Inl a \<Rightarrow> g a | Inr a \<Rightarrow> h a)"
  "(\<And>a b. kept W I (k a b)) \<Longrightarrow> kept W I (case z of (a, b) \<Rightarrow> k a b)"
  by (simp_all split: option.splits sum.splits prod.splits)

lemma kept_derived [kept_intros]:
  "(\<And>a. kept W I (f a)) \<Longrightarrow> kept W I (deref p f)" "kept W I m \<Longrightarrow> kept W I (REQ_0 m)" "kept W I n \<Longrightarrow> kept W I (REQ_TRUE n)"
  unfolding deref_def REQ_0_def REQ_TRUE_def by (intro kept_intros; simp)+

lemma kept_mdi_at [kept_intros]: "kept W I (mdi_at r)" "kept W I (di_at d)"
  by (auto simp: kept_def live_def mdi_at_def di_at_def split: if_splits)

lemma systemPath_simps [simp]:
  "systemPath (setMD x v m) = systemPath m" "systemPath (updateACMtime t m) = systemPath m"
  "systemPath (updateACtime t m) = systemPath m"
  by (simp_all add: setMD_def updateACMtime_def updateACtime_def)

text \<open>Two invariants together.\<close>

lemma kept_conj: "kept W I m \<Longrightarrow> kept W J m \<Longrightarrow> kept W (\<lambda>s. I s \<and> J s) m"
  unfolding kept_def live_def by blast

lemma kept_lift: "r \<noteq> Inl Deadlock \<Longrightarrow> (\<And>a. r = Inr a \<Longrightarrow> kept W I (f a)) \<Longrightarrow> kept W I (call (lift r) f)"
  by (cases r) (auto simp: kept_def live_def call_def)

text \<open>Changing the contents of a block does not wait and leaves the key of the block alone.\<close>

lemma block_no_wait [no_wait]:
  "mergeDataChanges fresh d \<noteq> Inl Deadlock" "updateData buf off sz d \<noteq> Inl Deadlock" "Data_Info.truncate off d \<noteq> Inl Deadlock"
proof -
  have "merge_updates own fresh us \<noteq> Inl Deadlock" for own fresh us
    by (induction us arbitrary: fresh)
       (auto simp: merge_update_def str_substr_def str_replace_def split: prod.splits sum.splits if_splits)
  then show "mergeDataChanges fresh d \<noteq> Inl Deadlock" "updateData buf off sz d \<noteq> Inl Deadlock" "Data_Info.truncate off d \<noteq> Inl Deadlock"
    by (auto simp: mergeDataChanges_def updateData_def Data_Info.truncate_def Let_def split: sum.splits)
qed

lemma free_blocks_no_wait [no_wait]: "free_blocks cap \<noteq> Inl Deadlock"
proof -
  have "f_to_uint64 f \<noteq> Inl Deadlock" for f by (cases f) auto
  then show ?thesis by (simp add: free_blocks_def Let_def)
qed

lemma uncached_invalidate: "lru_contents c k = None \<Longrightarrow> lru_contents (invalidate j c) k = None"
proof -
  have "fst ` set (cache (invalidate j c)) \<subseteq> fst ` set (cache c)"
    using set_remove_at by (fastforce simp: invalidate_def lru_remove_def split: option.splits)
  then show "lru_contents c k = None \<Longrightarrow> lru_contents (invalidate j c) k = None"
    by (auto simp: lru_contents_def map_of_eq_None_iff)
qed

lemma block_key_kept:
  "mergeDataChanges fresh d = Inr d' \<Longrightarrow> di_key d' = di_key d" "updateData buf off sz d = Inr (e, d') \<Longrightarrow> di_key d' = di_key d"
  "Data_Info.truncate off d = Inr d' \<Longrightarrow> di_key d' = di_key d"
  by (auto simp: mergeDataChanges_def updateData_def Data_Info.truncate_def Let_def split: sum.splits if_splits)

subsection \<open>Predicates on the objects of a client\<close>

text \<open>
  The first group of laws: what does not matter to the predicate, and that an object may be
  created or changed as long as its key stays.
\<close>

locale object_invariant =
  fixes E :: "'n env" and I :: "'n hflat_priv \<Rightarrow> bool"
  assumes requests:
      "I s \<Longrightarrow> I (s\<lparr>kinetic := snd (ns_Get (ns E) key (kinetic s))\<rparr>)"
      "I s \<Longrightarrow> I (s\<lparr>kinetic := snd (ns_Put (ns E) key v wm rec (kinetic s))\<rparr>)"
      "I s \<Longrightarrow> I (s\<lparr>kinetic := snd (ns_Delete (ns E) key v wm (kinetic s))\<rparr>)"
      "I s \<Longrightarrow> I (s\<lparr>kinetic := snd (ns_GetVersion (ns E) key (kinetic s))\<rparr>)"
      "I s \<Longrightarrow> I (s\<lparr>kinetic := snd (ns_GetKeyRange (ns E) x y z (kinetic s))\<rparr>)"
      "I s \<Longrightarrow> I (s\<lparr>kinetic := snd (ns_GetCapacity (ns E) (kinetic s))\<rparr>)"
      "I s \<Longrightarrow> I (s\<lparr>kinetic := snd (ns_selfCheck (ns E) (kinetic s))\<rparr>)"
    and outside: "I s \<Longrightarrow> I (s\<lparr>uuids := u\<rparr>)" "I s \<Longrightarrow> I (s\<lparr>pmap := db\<rparr>)"
      "I s \<Longrightarrow> I (s\<lparr>inum_base := b\<rparr>)" "I s \<Longrightarrow> I (s\<lparr>inum_counter := c\<rparr>)"
    and new_object: "I s \<Longrightarrow> I (s\<lparr>mdis := mdis s @ [m]\<rparr>)" "I s \<Longrightarrow> I (s\<lparr>dis := dis s @ [d]\<rparr>)"
    and same_key: "I s \<Longrightarrow> r < length (mdis s) \<Longrightarrow> systemPath m = systemPath (mdis s ! r) \<Longrightarrow> I (s\<lparr>mdis := (mdis s)[r := m]\<rparr>)"
      "I s \<Longrightarrow> r < length (dis s) \<Longrightarrow> di_key d = di_key (dis s ! r) \<Longrightarrow> I (s\<lparr>dis := (dis s)[r := d]\<rparr>)"
    and dropped: "I s \<Longrightarrow> I (s\<lparr>lookup_cache := invalidate k (lookup_cache s)\<rparr>)"
      "I s \<Longrightarrow> I (s\<lparr>data_cache := invalidate k (data_cache s)\<rparr>)"
    and refreshed: "I s \<Longrightarrow> I (s\<lparr>lookup_cache := revalidate t k (lookup_cache s)\<rparr>)"
      "I s \<Longrightarrow> I (s\<lparr>data_cache := revalidate t k (data_cache s)\<rparr>)"
begin

lemma kept_run_ns: "(\<And>s. I s \<Longrightarrow> I (s\<lparr>kinetic := snd (f (kinetic s))\<rparr>)) \<Longrightarrow> kept W I (run_ns f)"
  by (fastforce simp: kept_def live_def run_ns_def split: prod.splits)

lemmas kept_requests [kept_intros] = requests [THEN kept_run_ns]

lemma kept_generate_uuid [kept_intros]: "kept W I (generate_uuid E)"
  by (auto simp: kept_def live_def generate_uuid_def outside)

lemma kept_update_pmap [kept_intros]: "(\<And>db. f db \<noteq> Inl Deadlock) \<Longrightarrow> kept W I (update_pmap f)"
  by (auto simp: kept_def live_def update_pmap_def outside split: sum.splits prod.splits)

lemma kept_new [kept_intros]: "kept W I (new_mdi m)" "kept W I (new_di d)"
  by (auto simp: kept_def live_def new_mdi_def new_di_def new_object)

lemma kept_set_mdi [kept_intros]: "(\<And>m. systemPath (f m) = systemPath m) \<Longrightarrow> kept W I (set_mdi r f)"
  by (auto simp: kept_def live_def set_mdi_def same_key)

lemma kept_caches [kept_intros]: "kept W I (lookup_invalidate k)" "kept W I (data_invalidate k)" "kept W I (lookup_revalidate E k)" "kept W I (data_revalidate E k)"
  by (auto simp: kept_def live_def lookup_invalidate_def data_invalidate_def lookup_revalidate_def data_revalidate_def dropped refreshed)

text \<open>Metadata, data and the database of path mappings.\<close>

lemma kept_get_metadata [kept_intros]: "kept W I (get_metadata E r)"
  unfolding get_metadata_def by (intro kept_intros; simp)

lemma kept_put_metadata [kept_intros]: "kept W I (put_metadata E r)"
  unfolding put_metadata_def by (intro kept_intros; simp)

lemma kept_put_metadata_forced [kept_intros]: "kept W I update \<Longrightarrow> kept W I (put_metadata_forced n E r update)"
  by (induction n; unfold put_metadata_forced.simps; intro kept_intros; simp)

lemma kept_create_metadata [kept_intros]: "kept W I (create_metadata E r)"
  unfolding create_metadata_def by (intro kept_intros; simp)

lemma kept_delete_metadata [kept_intros]: "kept W I (delete_metadata E r)"
  unfolding delete_metadata_def by (intro kept_intros; simp)

lemma kept_get_data [kept_intros]: "kept W I (get_data E key)"
  unfolding get_data_def by (intro kept_intros; simp)

lemma kept_delete_data [kept_intros]: "kept W I (delete_data E r)"
  unfolding delete_data_def by (intro kept_intros; simp)

lemma kept_db_records [kept_intros]:
  "kept W I (put_db_entry E v en)" "kept W I (get_db_entry E v)" "kept W I (get_db_version E)" "kept W I (put_db_snapshot E sn)"
  "kept W I (get_db_snapshot E)"
  unfolding put_db_entry_def get_db_entry_def get_db_version_def put_db_snapshot_def get_db_snapshot_def
  by (intro kept_intros; simp)+

lemma kept_get_db_entries [kept_intros]: "kept W I (get_db_entries E v k)"
  by (induction k arbitrary: v; unfold get_db_entries.simps; intro kept_intros; simp)

lemma kept_database_update [kept_intros]: "kept W I (database_update E)"
  unfolding database_update_def load_remote_snapshot_def by (intro kept_intros; simp add: no_wait)

lemma kept_database_operation [kept_intros]: "kept W I (database_operation n E en)"
  by (induction n; unfold database_operation.simps; intro kept_intros; simp add: no_wait)

lemma kept_grab_token [kept_intros]: "kept W I (grab_inode_generation_token n E)"
  by (induction n; unfold grab_inode_generation_token.simps; intro kept_intros; auto split: StatusCode.splits option.splits intro!: kept_intros outside)

text \<open>While a command holds on to a block, the block keeps its place and its key.\<close>

lemma held_invariant:
  "object_invariant E (\<lambda>s. I s \<and> r < length (dis s) \<and> di_key (dis s ! r) = k)"
  by (unfold_locales; elim conjE; intro conjI;
      ((rule requests outside new_object same_key dropped refreshed; assumption) | simp add: nth_append nth_list_update))

lemma kept_put_data_held: "kept W (\<lambda>s. I s \<and> r < length (dis s) \<and> di_key (dis s ! r) = k) (put_data n E r)"
  (is "kept W ?J _")
proof (induction n)
  case 0
  show ?case unfolding put_data.simps by (intro kept_intros) simp
next
  case (Suc n)
  note rules = kept_intros object_invariant.kept_requests [OF held_invariant] object_invariant.kept_generate_uuid [OF held_invariant]
    object_invariant.kept_caches [OF held_invariant]
  have set: "kept W ?J (set_di r d)" if "di_key d = k" for d
  proof (rule keptI)
    fix s q s' assume J: "?J s" and run: "set_di r d s = (q, s')"
    then have "s' = s\<lparr>dis := (dis s)[r := d]\<rparr>" "q = Inr ()" by (simp_all add: set_di_def)
    with J that same_key(2) [of s r d] show "(q = Inl Deadlock \<longrightarrow> W s') \<and> (\<forall>a. q = Inr a \<longrightarrow> ?J s')" by simp
  qed
  have at: "kept W ?J (call (di_at r) f)" if "\<And>d. di_key d = k \<Longrightarrow> kept W ?J (f d)" for f :: "DataInfo \<Rightarrow> ('n, int) fs"
  proof (rule keptI)
    fix s q s' assume J: "?J s" and run: "call (di_at r) f s = (q, s')"
    then have "f (dis s ! r) s = (q, s')" by (simp add: cmd_simps)
    with J keptD [OF that [of "dis s ! r"]] show "(q = Inl Deadlock \<longrightarrow> W s') \<and> (\<forall>a. q = Inr a \<longrightarrow> ?J s')" by blast
  qed
  show ?case
    unfolding put_data.simps
    apply (rule kept_call [OF object_invariant.kept_generate_uuid [OF held_invariant]], rule at)
    apply (intro kept_lift rules set Suc)
    apply (simp_all add: no_wait block_key_kept forgetUpdates_def)
    done
qed

lemma kept_put_data [kept_intros]: "kept W I (put_data n E r)"
proof (rule keptI)
  fix s q s' assume I: "I s" and run: "put_data n E r s = (q, s')"
  show "(q = Inl Deadlock \<longrightarrow> W s') \<and> (\<forall>a. q = Inr a \<longrightarrow> I s')"
  proof (cases "r < length (dis s)")
    case True
    with I keptD [OF kept_put_data_held [where r = r and k = "di_key (dis s ! r)"] _ run] show ?thesis by blast
  next
    case False
    with run show ?thesis by (cases n) (auto simp: call_def generate_uuid_def di_at_def)
  qed
qed

text \<open>A block and a metadata object that are read and written back.\<close>

lemma kept_block_update:
  assumes "\<And>d. f d \<noteq> Inl Deadlock" "\<And>d d'. f d = Inr d' \<Longrightarrow> di_key (g d') = di_key d"
  shows "kept W I (call (di_at r) (\<lambda>d. call (lift (f d)) (\<lambda>d'. set_di r (g d'))))"
proof (rule keptI)
  fix s q s' assume I: "I s" and run: "call (di_at r) (\<lambda>d. call (lift (f d)) (\<lambda>d'. set_di r (g d'))) s = (q, s')"
  show "(q = Inl Deadlock \<longrightarrow> W s') \<and> (\<forall>a. q = Inr a \<longrightarrow> I s')"
  proof (cases "r < length (dis s)")
    case True
    show ?thesis
    proof (cases "f (dis s ! r)")
      case (Inr d')
      with True run I same_key(2) [OF I True assms(2) [OF Inr]] show ?thesis by (auto simp: cmd_simps set_di_def)
    qed (use True run assms(1) in \<open>auto simp: cmd_simps\<close>)
  qed (use run in \<open>auto simp: call_def di_at_def\<close>)
qed

lemma kept_write_block [kept_intros]: "kept W I (write_block r buf off sz)" "kept W I (truncate_block r off)"
  using kept_block_update [where f = "updateData buf off sz" and g = snd and r = r]
    kept_block_update [where f = "Data_Info.truncate off" and g = id and r = r]
  by (auto simp: write_block_def truncate_block_def no_wait block_key_kept split_def)

lemma kept_set_dirty [kept_intros]: "kept W I (set_dirty r di)"
proof (rule keptI)
  fix s q s' assume I: "I s" and run: "set_dirty r di s = (q, s')"
  have "systemPath (snd (setDirtyData h di m)) = systemPath m" for h m
    by (auto simp: setDirtyData_def split: option.splits)
  with I run show "(q = Inl Deadlock \<longrightarrow> W s') \<and> (\<forall>a. q = Inr a \<longrightarrow> I s')"
    by (auto simp: set_dirty_def call_def mdi_at_def set_mdi_def split: if_splits prod.splits intro!: same_key(1)) (metis snd_conv)
qed

text \<open>Directory entries and new files.\<close>

lemma kept_generate_inode_number [kept_intros]: "kept W I (generate_inode_number n E)"
  unfolding generate_inode_number_def by (intro kept_intros; simp add: outside)

lemma kept_touch_parent [kept_intros]: "kept W I (touch_parent n E p)"
  unfolding touch_parent_def by (intro kept_intros; simp)

lemma kept_directory_entry [kept_intros]: "kept W I (create_directory_entry n E p name)" "kept W I (delete_directory_entry n E p name)"
  unfolding create_directory_entry_def delete_directory_entry_def by (intro kept_intros; simp)+

lemma kept_inherit_from [kept_intros]: "kept W I (inherit_from r p)"
  unfolding inherit_from_def by (intro kept_intros; simp add: no_wait)

lemma kept_initialize_metadata [kept_intros]: "kept W I (initialize_metadata n E r p fmode)"
  unfolding initialize_metadata_def by (intro kept_intros; simp)

lemma kept_get_metadata_userpath [kept_intros]: "kept W I (get_metadata_userpath n E path r)"
  unfolding get_metadata_userpath_def by (intro kept_intros; simp add: no_wait)

lemma kept_check_access_to [kept_intros]: "kept W I (check_access_to E r req)"
  unfolding check_access_to_def by (intro kept_intros; simp)

lemma kept_remove_mapping [kept_intros]: "kept W I (remove_mapping n E path)" "kept W I (remove_if_mapped n E path)"
  unfolding remove_if_mapped_def remove_mapping_def by (intro kept_intros; simp)+

lemma kept_unlink_parts [kept_intros]: "kept W I (unlink_force_update n E path)" "kept W I (unlink_hardlink n E path r)"
  unfolding unlink_force_update_def unlink_hardlink_def by (intro kept_intros; simp)+

lemma kept_datadelete [kept_intros]: "kept W I (datadelete E sz ino)"
proof -
  have "kept W I (delete_keys E ks)" for ks
    by (induction ks; unfold delete_keys.simps; intro kept_intros; simp)
  then show ?thesis unfolding datadelete_def by (intro kept_intros)
qed

lemma kept_readdir_loop [kept_intros]: "kept W I (readdir_loop n E a b)"
  by (induction n arbitrary: a; unfold readdir_loop.simps Let_def; intro kept_intros; simp)

lemma kept_rename_parts [kept_intros]: "kept W I (rename_regular E t f)" "kept W I (rename_hardlink n E path t)"
  "kept W I (hflat_readlink n E path sz)"
  unfolding rename_regular_def rename_hardlink_def hflat_readlink_def by (intro kept_intros; simp add: no_wait)+

lemma kept_rename_move [kept_intros]: "kept W I (rename_move n E from to t f d)"
  unfolding rename_move_def rename_directory_def rename_softlink_def Let_def by (intro kept_intros; simp)

lemma kept_recover_records [kept_intros]: "kept W I (recover_records n E origin entry t r op tp)"
  unfolding recover_records_def by (intro kept_intros; simp)

end

subsection \<open>Predicates on a client\<close>

text \<open>
  The second group of laws: the functions that change what is in a cache, and that an object
  that is not in the cache under its key may get another key.
\<close>

locale client_invariant = object_invariant E I
  for E :: "'n env" and I :: "'n hflat_priv \<Rightarrow> bool" +
  fixes W :: "'n hflat_priv \<Rightarrow> bool"
  assumes kept_lookup [kept_intros]: "kept W I (lookup n E path p)" "kept W I (lookup_parent n E path p)"
    and kept_data_get [kept_intros]: "kept W I (data_get E key)"
    and kept_data_fetch [kept_intros]: "kept W I (data_fetch n E key growing)"
    and valid: "I s \<Longrightarrow> lru_valid (mdi_key s) (lookup_cache s)"
    and new_key: "I s \<Longrightarrow> r < length (mdis s) \<Longrightarrow> lru_contents (lookup_cache s) (systemPath (mdis s ! r)) = None
      \<Longrightarrow> I (s\<lparr>mdis := (mdis s)[r := m]\<rparr>)"
begin

lemma kept_create [kept_intros]:
  "kept W I (hflat_create n E path fmode)"
  unfolding hflat_create_def by (intro kept_intros; simp)

lemma kept_unlink [kept_intros]:
  "kept W I (hflat_unlink n E path)"
proof (induction n arbitrary: path)
  case (Suc n)
  have "kept W I (unlink_lookup n E p)" for p
    unfolding unlink_lookup_def by (intro kept_intros)
  then show ?case unfolding hflat_unlink.simps Let_def by (intro kept_intros Suc)
qed (unfold hflat_unlink.simps, intro kept_intros, simp)

lemma kept_rmdir [kept_intros]:
  "kept W I (hflat_rmdir n E path)"
  unfolding hflat_rmdir_def Let_def by (intro kept_intros)

lemma kept_fsync [kept_intros]:
  "kept W I (hflat_fsync n E path fi)"
  by (induction n; unfold hflat_fsync.simps Let_def; intro kept_intros; simp)

lemma kept_write [kept_intros]:
  "kept W I (hflat_write n E path buf sz off flags)"
proof (induction n arbitrary: sz)
  case (Suc n)
  have "kept W I (do_write n E buf sz off r)" for r
    unfolding do_write_def Let_def by (intro kept_intros)
  then show ?case unfolding hflat_write.simps by (intro kept_intros Suc)
qed (unfold hflat_write.simps, intro kept_intros, simp)

lemma kept_truncate [kept_intros]:
  "kept W I (hflat_truncate n E path off)"
proof (induction n)
  case (Suc n)
  have "kept W I (delete_blocks E ino is)" for ino "is"
    by (induction "is"; unfold delete_blocks.simps; intro kept_intros; simp)
  then show ?case unfolding hflat_truncate.simps Let_def by (intro kept_intros Suc; simp)
qed (unfold hflat_truncate.simps, intro kept_intros, simp)

lemma kept_permission_change [kept_intros]:
  "kept W I (do_permission_change n E path fmode newuid newgid)"
proof (induction n arbitrary: fmode)
  case (Suc n)
  have "kept W I (permission_lookup n E path g)" for g
    unfolding permission_lookup_def by (intro kept_intros)
  then show ?case unfolding do_permission_change.simps Let_def by (intro kept_intros Suc; simp add: no_wait)
qed (unfold do_permission_change.simps, intro kept_intros, simp)

lemma kept_attributes [kept_intros]:
  "kept W I (hflat_utimens n E path a t)" "kept W I (hflat_removexattr n E path name)"
  by (induction n; unfold hflat_utimens.simps hflat_removexattr.simps; intro kept_intros; simp)+

lemma kept_statfs [kept_intros]: "kept W I (hflat_statfs E path)"
  unfolding hflat_statfs_def by (intro kept_intros no_wait)

lemma kept_fsck [kept_intros]:
  "kept W I (fsck_directory n E path r)"
proof -
  have keys: "kept W I (scan_keys n E path ks entry)" for n ks entry
    by (induction ks arbitrary: entry; unfold scan_keys.simps; intro kept_intros; simp)
  have loop: "kept W I (scan_loop n E path a b entry)" for n a b entry
    by (induction n arbitrary: a entry; unfold scan_loop.simps Let_def; intro kept_intros keys; simp)
  have recover: "kept W I (recover_rename n E path r entry)" for n entry
    unfolding recover_rename_def Let_def both_of_def reread_both_def by (intro kept_intros)
  have "kept W I (fsck_loop n E path r entry)" for entry
    by (induction n arbitrary: entry; unfold fsck_loop.simps scan_direntries_def; intro kept_intros loop recover; simp)
  then show ?thesis unfolding fsck_directory_def by (intro kept_intros)
qed

lemma kept_setxattr [kept_intros]:
  "kept W I (hflat_setxattr n E path name v flags)"
  by (induction n; unfold hflat_setxattr.simps Let_def; intro kept_intros; simp)

lemma kept_rename [kept_intros]:
  "kept W I (hflat_rename n E from to)"
proof -
  have "kept W I (rename_lookup n E from to)" "kept W I (rename_remove_target n E to t)" for t
    unfolding rename_lookup_def rename_remove_target_def by (intro kept_intros)+
  then show ?thesis unfolding hflat_rename_def Let_def by (intro kept_intros)
qed

text \<open>
  The origin and the target of a new hard link are taken out of the cache before the target
  gets the key of a shared record. Creating the directory entry in between does not put them
  back, so the object that changes its key is not in the cache.
\<close>

lemma uncached_invariant:
  "object_invariant E (\<lambda>s. I s \<and> r < length (mdis s) \<and> systemPath (mdis s ! r) = k \<and> lru_contents (lookup_cache s) k = None)"
  by (unfold_locales; elim conjE; intro conjI;
      ((rule requests outside new_object same_key dropped refreshed; assumption) | simp add: nth_append nth_list_update uncached_invalidate))

lemma live_toHardlinkT:
  "live W (\<lambda>s. I s \<and> r < length (mdis s) \<and> systemPath (mdis s ! r) = k \<and> lru_contents (lookup_cache s) k = None) (toHardlinkT E r) (\<lambda>_. I)"
  (is "live W ?J _ _")
proof -
  have new: "live W ?J (new_mdi m) (\<lambda>_. ?J)" for m
    by (rule object_invariant.kept_new(1) [OF uncached_invariant, unfolded kept_def])
  have rekey: "live W ?J (set_mdi r f) (\<lambda>_. I)" for f
  proof -
    have "I (s\<lparr>mdis := (mdis s)[r := f (mdis s ! r)]\<rparr>)" if "?J s" for s
      using that new_key [of s r "f (mdis s ! r)"] by simp
    then show ?thesis by (auto simp: live_def set_mdi_def)
  qed
  have rest: "live W I (call (put_metadata E p) (\<lambda>err. if err \<noteq> 0 then ret err
       else call (REQ_0 (create_metadata E r)) (\<lambda>_. ret 0))) (\<lambda>_. I)" for p
    unfolding kept_def [symmetric] by (intro kept_intros)
  show ?thesis
    unfolding toHardlinkT_def
    by (rule live_call [OF kept_mdi_at(1) [unfolded kept_def]], rule live_call [OF kept_basic(5) [unfolded kept_def]],
        rule live_call [OF new], rule live_call [OF rekey], rule rest)
qed

lemma kept_hardlink [kept_intros]:
  "kept W I (hflat_hardlink n E tgt origin)"
proof (induction n)
  case (Suc n)
  have found: "kept W I (hardlink_lookup n E tgt origin)"
    unfolding hardlink_lookup_def by (intro kept_intros)
  let ?J = "\<lambda>r k s. I s \<and> r < length (mdis s) \<and> systemPath (mdis s ! r) = k"
  let ?U = "\<lambda>r k s. I s \<and> r < length (mdis s) \<and> systemPath (mdis s ! r) = k \<and> lru_contents (lookup_cache s) k = None"
  have at: "kept W I (call (mdi_at r) f)" if "\<And>m. live W (?J r (systemPath m)) (f m) (\<lambda>_. I)" for r and f :: "MetadataInfo \<Rightarrow> ('n, int) fs"
    unfolding kept_def by (rule live_call [where R = "\<lambda>m. ?J r (systemPath m)"])
      (simp add: live_def mdi_at_def split: if_splits, rule that)
  have other: "live W (?J r k) (lookup_invalidate j) (\<lambda>_. ?J r k)" for r k j
    using dropped(1) by (auto simp: live_def lookup_invalidate_def)
  have drop: "live W (?J r k) (lookup_invalidate k) (\<lambda>_. ?U r k)" for r k
    using dropped(1) lru_invalidate_result(3) [OF valid] by (auto simp: live_def lookup_invalidate_def)
  have entry: "live W (?U r k) (create_directory_entry n E p name) (\<lambda>_. ?U r k)" for r k p name
    by (rule object_invariant.kept_directory_entry(1) [OF uncached_invariant, unfolded kept_def])
  have turned: "live W (?U r k) (if b then toHardlinkT E r else ret 0) (\<lambda>_. I)" for r k b
    by (rule live_if) (rule live_toHardlinkT, rule live_ret, simp)
  show ?case
    unfolding hflat_hardlink.simps Let_def
    apply (rule kept_call [OF found], rule kept_cases(4), rule kept_cases(4), rule kept_cases(4), rule kept_cases(1), rule kept_basic(1))
    apply (rule kept_derived(1), rule kept_derived(1), rule kept_derived(1), rule at)
    apply (rule live_call [OF kept_basic(5) [unfolded kept_def]], rule live_call [OF kept_mdi_at(1) [unfolded kept_def]])
    apply (rule live_call [OF other], rule live_call [OF drop], rule live_call [OF entry])
    apply (rule live_if, rule live_ret, simp)
    apply (rule live_call [OF kept_mdi_at(1) [unfolded kept_def]], rule live_call [OF turned])
    apply (unfold kept_def [symmetric])
    apply (intro kept_intros Suc; simp)
    done
qed (unfold hflat_hardlink.simps, intro kept_intros, simp)

lemma kept_init [kept_intros]: "kept W I (hflat_init n E)"
  unfolding hflat_init_def by (intro kept_intros)

lemma kept_ops:
  "kept W I (hflat_ops n E req)"
proof -
  have read: "kept W I (hflat_read n E path sz off)" for path sz off
    unfolding hflat_read_def do_read_def Let_def by (intro kept_intros)
  have attr: "kept W I (hflat_getattr n E path)" "kept W I (hflat_readdir n E path)" for path
    unfolding hflat_getattr_def hflat_readdir_def by (intro kept_intros)+
  have xattr: "kept W I (hflat_getxattr n E path name sz)" "kept W I (hflat_listxattr n E path sz)" for path name sz
    unfolding hflat_getxattr_def hflat_listxattr_def by (intro kept_intros)+
  have access: "kept W I (hflat_open n E path req)" "kept W I (hflat_access n E path req)" for path req
    unfolding hflat_open_def hflat_access_def Let_def by (intro kept_intros)+
  have link: "kept W I (hflat_symlink n E tgt origin)" for tgt origin
    unfolding hflat_symlink_def by (intro kept_intros)
  show ?thesis
    by (cases req; hypsubst; unfold hflat_ops.simps hflat_fcreate_def hflat_mknod_def hflat_mkdir_def hflat_release_def hflat_chown_def
        hflat_chmod_def hflat_fgetattr_def hflat_ftruncate_def hflat_fsyncdir_def hflat_flush_def)
       (intro kept_intros read attr xattr access link)+
qed

end

text \<open>A session: every request finds the invariant of the request before it.\<close>

lemma kept_serve:
  assumes "\<forall>(E, req) \<in> set reqs. client_invariant E I W"
  shows "kept W I (serve n reqs)"
  using assms
proof (induction reqs)
  case (Cons r reqs)
  obtain E req where r: "r = (E, req)" by (cases r)
  have "kept W I (hflat_ops n E req)" 
    by (rule client_invariant.kept_ops) (use Cons.prems r in simp)
  moreover have "kept W I (serve n reqs)" using Cons by simp
  ultimately show ?case unfolding r serve.simps by (intro kept_intros)
qed (unfold serve.simps, intro kept_intros)

end
