(* ===== verification/Client_Simulation.thy ===== *)
theory Client_Simulation
  imports Fuse_Ops
begin

section \<open>Clients on different namespaces\<close>

text \<open>
  A client knows its drives only through the interface of a namespace, so two namespaces that
  give the same answers cannot be told apart by it. A relation between the states of two
  namespaces that all their operations preserve, with equal answers, is stated as a locale, in
  two steps: the operations on single keys, and range requests in addition. Every operation of
  the file system then gives the same result on both and leaves clients that differ in nothing
  but the state of the namespace.
\<close>

subsection \<open>The same client on another namespace\<close>

definition with_ns :: "'m KineticNamespace \<Rightarrow> 'n env \<Rightarrow> 'm env" where
  "with_ns N E = \<lparr>ns = N, md_SerializeAsString = md_SerializeAsString E, md_ParseFromString = md_ParseFromString E,
     entry_SerializeAsString = entry_SerializeAsString E, entry_ParseFromString = entry_ParseFromString E,
     snapshot_SerializeAsString = snapshot_SerializeAsString E, snapshot_ParseFromString = snapshot_ParseFromString E,
     ctx_uid = ctx_uid E, ctx_gid = ctx_gid E, time_now = time_now E, steady_now = steady_now E, uuid_generate = uuid_generate E\<rparr>"

definition with_kinetic :: "'m \<Rightarrow> 'n hflat_priv \<Rightarrow> 'm hflat_priv" where
  "with_kinetic k s = \<lparr>kinetic = k, lookup_cache = lookup_cache s, data_cache = data_cache s, pmap = pmap s, blocksize = blocksize s,
     posix = posix s, inum_base = inum_base s, inum_counter = inum_counter s, mdis = mdis s, dis = dis s, uuids = uuids s\<rparr>"

lemma with_ns_simps:
  "ns (with_ns N E) = N" "md_SerializeAsString (with_ns N E) = md_SerializeAsString E" "md_ParseFromString (with_ns N E) = md_ParseFromString E"
  "entry_SerializeAsString (with_ns N E) = entry_SerializeAsString E" "entry_ParseFromString (with_ns N E) = entry_ParseFromString E"
  "snapshot_SerializeAsString (with_ns N E) = snapshot_SerializeAsString E" "snapshot_ParseFromString (with_ns N E) = snapshot_ParseFromString E"
  "ctx_uid (with_ns N E) = ctx_uid E" "ctx_gid (with_ns N E) = ctx_gid E" "time_now (with_ns N E) = time_now E"
  "steady_now (with_ns N E) = steady_now E" "uuid_generate (with_ns N E) = uuid_generate E"
  by (simp_all add: with_ns_def)

lemma with_ns_same: "with_ns (ns E) E = E"
  by (simp add: with_ns_def)

lemma with_kinetic_simps [simp]:
  "kinetic (with_kinetic k s) = k" "lookup_cache (with_kinetic k s) = lookup_cache s" "data_cache (with_kinetic k s) = data_cache s"
  "pmap (with_kinetic k s) = pmap s" "blocksize (with_kinetic k s) = blocksize s" "posix (with_kinetic k s) = posix s"
  "inum_base (with_kinetic k s) = inum_base s" "inum_counter (with_kinetic k s) = inum_counter s" "mdis (with_kinetic k s) = mdis s"
  "dis (with_kinetic k s) = dis s" "uuids (with_kinetic k s) = uuids s"
  "(with_kinetic k s)\<lparr>lookup_cache := c\<rparr> = with_kinetic k (s\<lparr>lookup_cache := c\<rparr>)"
  "(with_kinetic k s)\<lparr>data_cache := c\<rparr> = with_kinetic k (s\<lparr>data_cache := c\<rparr>)" "(with_kinetic k s)\<lparr>pmap := db\<rparr> = with_kinetic k (s\<lparr>pmap := db\<rparr>)"
  "(with_kinetic k s)\<lparr>inum_base := b\<rparr> = with_kinetic k (s\<lparr>inum_base := b\<rparr>)"
  "(with_kinetic k s)\<lparr>inum_counter := i\<rparr> = with_kinetic k (s\<lparr>inum_counter := i\<rparr>)"
  "(with_kinetic k s)\<lparr>mdis := ms\<rparr> = with_kinetic k (s\<lparr>mdis := ms\<rparr>)" "(with_kinetic k s)\<lparr>dis := ds\<rparr> = with_kinetic k (s\<lparr>dis := ds\<rparr>)"
  "(with_kinetic k s)\<lparr>uuids := u\<rparr> = with_kinetic k (s\<lparr>uuids := u\<rparr>)" "(with_kinetic k s)\<lparr>kinetic := l\<rparr> = with_kinetic l s"
  "with_kinetic k (s\<lparr>kinetic := j\<rparr>) = with_kinetic k s"
  by (simp_all add: with_kinetic_def)

lemma with_kinetic_functions [simp]:
  "mdi_dirty (with_kinetic k s) = mdi_dirty s" "mdi_key (with_kinetic k s) = mdi_key s" "dat_key (with_kinetic k s) = dat_key s"
  "di_hasUpdates (with_kinetic k s) = di_hasUpdates s"
  by (simp_all add: fun_eq_iff mdi_dirty_def mdi_key_def dat_key_def di_hasUpdates_def split: option.splits)

subsection \<open>Commands that cannot tell the difference\<close>

definition sim :: "('n \<Rightarrow> 'm \<Rightarrow> bool) \<Rightarrow> ('n, 'a) fs \<Rightarrow> ('m, 'a) fs \<Rightarrow> bool" where
  "sim R c d \<longleftrightarrow> (\<forall>s k. R (kinetic s) k \<longrightarrow>
     (case c s of (r, t) \<Rightarrow> \<exists>l. d (with_kinetic k s) = (r, with_kinetic l t) \<and> R (kinetic t) l))"

named_theorems sim_intros \<open>commands that give the same results on related namespaces\<close>

lemma simI:
  "(\<And>s k r t. R (kinetic s) k \<Longrightarrow> c s = (r, t) \<Longrightarrow> \<exists>l. d (with_kinetic k s) = (r, with_kinetic l t) \<and> R (kinetic t) l) \<Longrightarrow> sim R c d"
  by (auto simp: sim_def split: prod.splits)

lemma simD: "sim R c d \<Longrightarrow> R (kinetic s) k \<Longrightarrow> c s = (r, t) \<Longrightarrow> \<exists>l. d (with_kinetic k s) = (r, with_kinetic l t) \<and> R (kinetic t) l"
  by (fastforce simp: sim_def)

lemma sim_call [sim_intros]:
  assumes "sim R c d" "\<And>a. sim R (f a) (g a)"
  shows "sim R (call c f) (call d g)"
proof (rule simI)
  fix s k r t assume R: "R (kinetic s) k" and run: "call c f s = (r, t)"
  obtain q s1 where c: "c s = (q, s1)" by fastforce
  from simD [OF assms(1) R c] obtain l where l: "d (with_kinetic k s) = (q, with_kinetic l s1)" "R (kinetic s1) l" by blast
  show "\<exists>l. call d g (with_kinetic k s) = (r, with_kinetic l t) \<and> R (kinetic t) l"
  proof (cases q)
    case (Inl e)
    with c l run show ?thesis by (auto simp: call_def)
  next
    case (Inr a)
    with c run have "f a s1 = (r, t)" by (simp add: call_def)
    from simD [OF assms(2) l(2) this] l(1) Inr show ?thesis by (simp add: call_def)
  qed
qed

lemma sim_basic [sim_intros]:
  "sim R (ret a) (ret a)" "sim R (halt e) (halt e)" "sim R (lift r) (lift r)" "sim R (check_assert b) (check_assert b)"
  by (auto simp: sim_def cmd_defs check_assert_def)

lemma sim_reads [sim_intros]: "(\<And>s k. h (with_kinetic k s) = g s) \<Longrightarrow> sim R (reads g) (reads h)"
  by (auto simp: sim_def reads_def)

lemma sim_modify [sim_intros]: "(\<And>s k. h (with_kinetic k s) = with_kinetic k (g s)) \<Longrightarrow> (\<And>s. kinetic (g s) = kinetic s) \<Longrightarrow> sim R (modify g) (modify h)"
  by (auto simp: sim_def modify_def)

lemma sim_cases [sim_intros]:
  "(b \<Longrightarrow> sim R c c') \<Longrightarrow> (\<not> b \<Longrightarrow> sim R d d') \<Longrightarrow> sim R (if b then c else d) (if b then c' else d')"
  "sim R c c' \<Longrightarrow> (\<And>a. sim R (f a) (f' a)) \<Longrightarrow> sim R (case x of None \<Rightarrow> c | Some a \<Rightarrow> f a) (case x of None \<Rightarrow> c' | Some a \<Rightarrow> f' a)"
  "(\<And>a. sim R (g a) (g' a)) \<Longrightarrow> (\<And>a. sim R (h a) (h' a)) \<Longrightarrow> sim R (case y of Inl a \<Rightarrow> g a | Inr a \<Rightarrow> h a) (case y of Inl a \<Rightarrow> g' a | Inr a \<Rightarrow> h' a)"
  "(\<And>a b. sim R (k a b) (k' a b)) \<Longrightarrow> sim R (case z of (a, b) \<Rightarrow> k a b) (case z of (a, b) \<Rightarrow> k' a b)"
  by (simp_all split: option.splits sum.splits prod.splits)

lemma sim_derived [sim_intros]:
  "(\<And>a. sim R (f a) (f' a)) \<Longrightarrow> sim R (deref p f) (deref p f')" "sim R c c' \<Longrightarrow> sim R (REQ_0 c) (REQ_0 c')" "sim R b b' \<Longrightarrow> sim R (REQ_TRUE b) (REQ_TRUE b')"
  unfolding deref_def REQ_0_def REQ_TRUE_def by (intro sim_intros; simp)+

lemma sim_objects [sim_intros]:
  "sim R (new_mdi m) (new_mdi m)" "sim R (mdi_at r) (mdi_at r)" "sim R (set_mdi r f) (set_mdi r f)"
  "sim R (new_di d) (new_di d)" "sim R (di_at r) (di_at r)" "sim R (set_di r d) (set_di r d)"
  by (auto simp: sim_def new_mdi_def mdi_at_def set_mdi_def new_di_def di_at_def set_di_def)

lemma sim_caches [sim_intros]:
  "sim R (lookup_get (with_ns N E) key) (lookup_get (with_ns N' E) key)" "sim R (lookup_add (with_ns N E) key r) (lookup_add (with_ns N' E) key r)"
  "sim R (lookup_block key) (lookup_block key)" "sim R (lookup_invalidate key) (lookup_invalidate key)"
  "sim R (lookup_revalidate (with_ns N E) key) (lookup_revalidate (with_ns N' E) key)"
  "sim R (data_get (with_ns N E) key) (data_get (with_ns N' E) key)" "sim R (data_add (with_ns N E) key r) (data_add (with_ns N' E) key r)"
  "sim R (data_block key) (data_block key)" "sim R (data_invalidate key) (data_invalidate key)"
  "sim R (data_revalidate (with_ns N E) key) (data_revalidate (with_ns N' E) key)"
  by (auto simp: sim_def lookup_get_def lookup_add_def lookup_block_def lookup_invalidate_def lookup_revalidate_def data_get_def data_add_def
      data_block_def data_invalidate_def data_revalidate_def on_cache_def modify_def with_ns_simps split: sum.splits prod.splits)

lemma sim_update_pmap [sim_intros]: "sim R (update_pmap f) (update_pmap f)"
  by (auto simp: sim_def update_pmap_def split: sum.splits prod.splits)

lemma sim_generate_uuid [sim_intros]: "sim R (generate_uuid (with_ns N E)) (generate_uuid (with_ns N' E))"
  by (auto simp: sim_def generate_uuid_def with_ns_simps)

lemma sim_local [sim_intros]:
  "sim R (inherit_from r p) (inherit_from r p)" "sim R (write_block r buf off sz) (write_block r buf off sz)"
  "sim R (truncate_block r off) (truncate_block r off)"
  "sim R (check_access_to (with_ns N E) r req) (check_access_to (with_ns N' E) r req)"
  unfolding inherit_from_def write_block_def truncate_block_def check_access_to_def with_ns_simps by (intro sim_intros; simp)+

lemma sim_set_dirty [sim_intros]: "sim R (set_dirty r di) (set_dirty r di)"
  unfolding set_dirty_def by (intro sim_intros; simp)


subsection \<open>Operations on single keys\<close>

definition agree :: "('n \<Rightarrow> 'm \<Rightarrow> bool) \<Rightarrow> 'a \<times> 'n \<Rightarrow> 'a \<times> 'm \<Rightarrow> bool" where
  "agree R p q \<longleftrightarrow> fst p = fst q \<and> R (snd p) (snd q)"

lemma sim_run_ns: "(\<And>n m. R n m \<Longrightarrow> agree R (f n) (g m)) \<Longrightarrow> sim R (run_ns f) (run_ns g)"
  by (fastforce simp: sim_def run_ns_def agree_def split: prod.splits)

locale store_simulation =
  fixes N :: "'n KineticNamespace" and N' :: "'m KineticNamespace" and R :: "'n \<Rightarrow> 'm \<Rightarrow> bool"
  assumes Get: "R n m \<Longrightarrow> agree R (ns_Get N key n) (ns_Get N' key m)"
    and Put: "R n m \<Longrightarrow> agree R (ns_Put N key v wm r n) (ns_Put N' key v wm r m)"
    and Delete: "R n m \<Longrightarrow> agree R (ns_Delete N key v wm n) (ns_Delete N' key v wm m)"
    and GetVersion: "R n m \<Longrightarrow> agree R (ns_GetVersion N key n) (ns_GetVersion N' key m)"
begin

lemma sim_keys [sim_intros]:
  "sim R (run_ns (ns_Get N key)) (run_ns (ns_Get N' key))" "sim R (run_ns (ns_Put N key v wm r)) (run_ns (ns_Put N' key v wm r))"
  "sim R (run_ns (ns_Delete N key v wm)) (run_ns (ns_Delete N' key v wm))" "sim R (run_ns (ns_GetVersion N key)) (run_ns (ns_GetVersion N' key))"
  by (rule sim_run_ns, rule Get Put Delete GetVersion, assumption)+

lemma sim_get_metadata [sim_intros]: "sim R (get_metadata (with_ns N E) r) (get_metadata (with_ns N' E) r)"
  unfolding get_metadata_def with_ns_simps by (intro sim_intros)

lemma sim_put_metadata [sim_intros]: "sim R (put_metadata (with_ns N E) r) (put_metadata (with_ns N' E) r)"
  unfolding put_metadata_def with_ns_simps by (intro sim_intros)

lemma sim_put_metadata_forced [sim_intros]:
  "sim R c d \<Longrightarrow> sim R (put_metadata_forced n (with_ns N E) r c) (put_metadata_forced n (with_ns N' E) r d)"
  by (induction n; unfold put_metadata_forced.simps with_ns_simps; intro sim_intros; simp)

lemma sim_metadata [sim_intros]:
  "sim R (create_metadata (with_ns N E) r) (create_metadata (with_ns N' E) r)" "sim R (delete_metadata (with_ns N E) r) (delete_metadata (with_ns N' E) r)"
  unfolding create_metadata_def delete_metadata_def with_ns_simps by (intro sim_intros)+

lemma sim_data [sim_intros]:
  "sim R (get_data (with_ns N E) key) (get_data (with_ns N' E) key)" "sim R (delete_data (with_ns N E) r) (delete_data (with_ns N' E) r)"
  unfolding get_data_def delete_data_def with_ns_simps by (intro sim_intros)+

lemma sim_put_data [sim_intros]: "sim R (put_data n (with_ns N E) r) (put_data n (with_ns N' E) r)"
  by (induction n; unfold put_data.simps with_ns_simps; intro sim_intros; simp)

lemma sim_db_records [sim_intros]:
  "sim R (put_db_entry (with_ns N E) v en) (put_db_entry (with_ns N' E) v en)" "sim R (get_db_entry (with_ns N E) v) (get_db_entry (with_ns N' E) v)"
  "sim R (get_db_version (with_ns N E)) (get_db_version (with_ns N' E))" "sim R (put_db_snapshot (with_ns N E) sn) (put_db_snapshot (with_ns N' E) sn)"
  "sim R (get_db_snapshot (with_ns N E)) (get_db_snapshot (with_ns N' E))"
  unfolding put_db_entry_def get_db_entry_def get_db_version_def put_db_snapshot_def get_db_snapshot_def with_ns_simps by (intro sim_intros)+

lemma sim_get_db_entries [sim_intros]: "sim R (get_db_entries (with_ns N E) v k) (get_db_entries (with_ns N' E) v k)"
  by (induction k arbitrary: v; unfold get_db_entries.simps; intro sim_intros; simp)

lemma sim_database_update [sim_intros]: "sim R (database_update (with_ns N E)) (database_update (with_ns N' E))"
  unfolding database_update_def load_remote_snapshot_def by (intro sim_intros; simp)

lemma sim_database_operation [sim_intros]: "sim R (database_operation n (with_ns N E) en) (database_operation n (with_ns N' E) en)"
  by (induction n; unfold database_operation.simps; intro sim_intros; simp)

lemma sim_grab_token [sim_intros]: "sim R (grab_inode_generation_token n (with_ns N E)) (grab_inode_generation_token n (with_ns N' E))"
  by (induction n; unfold grab_inode_generation_token.simps with_ns_simps; intro sim_intros;
      simp split: StatusCode.splits option.splits add: sim_intros)

text \<open>Looking up, creating and removing.\<close>

lemma sim_generate_inode_number [sim_intros]: "sim R (generate_inode_number n (with_ns N E)) (generate_inode_number n (with_ns N' E))"
  unfolding generate_inode_number_def by (intro sim_intros; simp)

lemma sim_lookup_fetch [sim_intros]: "sim R (lookup_fetch (with_ns N E) key) (lookup_fetch (with_ns N' E) key)"
  unfolding lookup_fetch_def by (intro sim_intros)

lemma sim_lookups:
  "sim R (lookup n (with_ns N E) path p) (lookup n (with_ns N' E) path p)
   \<and> sim R (lookup_parent n (with_ns N E) path p) (lookup_parent n (with_ns N' E) path p)"
proof (induction n arbitrary: path p)
  case (Suc n)
  note IH = Suc.IH [THEN conjunct1] Suc.IH [THEN conjunct2]
  show ?case
    unfolding lookup.simps lookup_parent.simps with_ns_simps by (intro conjI sim_intros IH; simp)
qed (unfold lookup.simps lookup_parent.simps, intro conjI sim_intros)

lemmas sim_lookup [sim_intros] = sim_lookups [THEN conjunct1] sim_lookups [THEN conjunct2]

lemma sim_get_metadata_userpath [sim_intros]: "sim R (get_metadata_userpath n (with_ns N E) path r) (get_metadata_userpath n (with_ns N' E) path r)"
  unfolding get_metadata_userpath_def by (intro sim_intros; simp)

lemma sim_touch_parent [sim_intros]: "sim R (touch_parent n (with_ns N E) p) (touch_parent n (with_ns N' E) p)"
  unfolding touch_parent_def with_ns_simps by (intro sim_intros; simp)

lemma sim_directory_entry [sim_intros]:
  "sim R (create_directory_entry n (with_ns N E) p name) (create_directory_entry n (with_ns N' E) p name)"
  "sim R (delete_directory_entry n (with_ns N E) p name) (delete_directory_entry n (with_ns N' E) p name)"
  unfolding create_directory_entry_def delete_directory_entry_def with_ns_simps by (intro sim_intros; simp)+

lemma sim_initialize_metadata [sim_intros]: "sim R (initialize_metadata n (with_ns N E) r p fmode) (initialize_metadata n (with_ns N' E) r p fmode)"
  unfolding initialize_metadata_def with_ns_simps by (intro sim_intros)

lemma sim_create [sim_intros]: "sim R (hflat_create n (with_ns N E) path fmode) (hflat_create n (with_ns N' E) path fmode)"
  unfolding hflat_create_def with_ns_simps by (intro sim_intros; simp)

lemma sim_remove_mapping [sim_intros]: "sim R (remove_mapping n (with_ns N E) path) (remove_mapping n (with_ns N' E) path)"
  unfolding remove_mapping_def by (intro sim_intros)

lemma sim_unlink_parts [sim_intros]:
  "sim R (unlink_force_update n (with_ns N E) path) (unlink_force_update n (with_ns N' E) path)"
  "sim R (unlink_hardlink n (with_ns N E) path r) (unlink_hardlink n (with_ns N' E) path r)"
  "sim R (unlink_lookup n (with_ns N E) path) (unlink_lookup n (with_ns N' E) path)"
  unfolding unlink_force_update_def unlink_hardlink_def unlink_lookup_def sticky_denies_def with_ns_simps by (intro sim_intros)+

lemma sim_datadelete [sim_intros]: "sim R (datadelete (with_ns N E) sz ino) (datadelete (with_ns N' E) sz ino)"
proof -
  have "sim R (delete_keys (with_ns N E) ks) (delete_keys (with_ns N' E) ks)" for ks
    by (induction ks; unfold delete_keys.simps with_ns_simps; intro sim_intros; simp)
  then show ?thesis unfolding datadelete_def by (intro sim_intros; simp)
qed

lemma sim_unlink [sim_intros]: "sim R (hflat_unlink n (with_ns N E) path) (hflat_unlink n (with_ns N' E) path)"
  by (induction n arbitrary: path; unfold hflat_unlink.simps Let_def with_ns_simps; intro sim_intros; simp)

lemma sim_open [sim_intros]:
  "sim R (hflat_open n (with_ns N E) path flags) (hflat_open n (with_ns N' E) path flags)"
  "sim R (hflat_access n (with_ns N E) path req) (hflat_access n (with_ns N' E) path req)"
  unfolding hflat_open_def hflat_access_def Let_def with_ns_simps by (intro sim_intros)+

text \<open>Data.\<close>

lemma sim_fsync [sim_intros]: "sim R (hflat_fsync n (with_ns N E) path fi) (hflat_fsync n (with_ns N' E) path fi)"
  by (induction n; unfold hflat_fsync.simps Let_def with_ns_simps; intro sim_intros; simp)

lemma sim_data_fetch [sim_intros]: "sim R (data_fetch n (with_ns N E) key growing) (data_fetch n (with_ns N' E) key growing)"
  by (induction n; unfold data_fetch.simps Let_def; intro sim_intros; simp)

lemma sim_do_rw [sim_intros]:
  "sim R (do_write n (with_ns N E) buf sz off r) (do_write n (with_ns N' E) buf sz off r)"
  "sim R (do_read n (with_ns N E) sz off r) (do_read n (with_ns N' E) sz off r)"
  unfolding do_write_def do_read_def Let_def with_ns_simps by (intro sim_intros; simp)+

lemma sim_read [sim_intros]: "sim R (hflat_read n (with_ns N E) path sz off) (hflat_read n (with_ns N' E) path sz off)"
  unfolding hflat_read_def by (intro sim_intros; simp)

lemma sim_write [sim_intros]: "sim R (hflat_write n (with_ns N E) path buf sz off flags) (hflat_write n (with_ns N' E) path buf sz off flags)"
  by (induction n arbitrary: sz; unfold hflat_write.simps with_ns_simps; intro sim_intros; simp)

lemma sim_truncate [sim_intros]: "sim R (hflat_truncate n (with_ns N E) path off) (hflat_truncate n (with_ns N' E) path off)"
proof -
  have blocks: "sim R (delete_blocks (with_ns N E) ino is) (delete_blocks (with_ns N' E) ino is)" for ino "is"
    by (induction "is"; unfold delete_blocks.simps with_ns_simps; intro sim_intros; simp)
  show ?thesis by (induction n; unfold hflat_truncate.simps Let_def with_ns_simps; intro sim_intros blocks; simp)
qed

text \<open>Attributes and permissions.\<close>

lemma sim_permission_change [sim_intros]:
  "sim R (do_permission_change n (with_ns N E) path fmode u g) (do_permission_change n (with_ns N' E) path fmode u g)"
proof (induction n arbitrary: fmode)
  case (Suc n)
  have "sim R (permission_lookup n (with_ns N E) path b) (permission_lookup n (with_ns N' E) path b)" for b
    unfolding permission_lookup_def with_ns_simps by (intro sim_intros)
  with Suc show ?case unfolding do_permission_change.simps clear_setgid_def Let_def with_ns_simps by (intro sim_intros; simp)
qed (unfold do_permission_change.simps, intro sim_intros)

lemma sim_attributes [sim_intros]:
  "sim R (hflat_utimens n (with_ns N E) path a t) (hflat_utimens n (with_ns N' E) path a t)"
  "sim R (hflat_removexattr n (with_ns N E) path name) (hflat_removexattr n (with_ns N' E) path name)"
  by (induction n; unfold hflat_utimens.simps hflat_removexattr.simps with_ns_simps; intro sim_intros; simp)+

lemma sim_getattr [sim_intros]:
  "sim R (hflat_getattr n (with_ns N E) path) (hflat_getattr n (with_ns N' E) path)"
  "sim R (hflat_getxattr n (with_ns N E) path name sz) (hflat_getxattr n (with_ns N' E) path name sz)"
  "sim R (hflat_listxattr n (with_ns N E) path sz) (hflat_listxattr n (with_ns N' E) path sz)"
  unfolding hflat_getattr_def hflat_getxattr_def hflat_listxattr_def by (intro sim_intros; simp)+

text \<open>Links and the parts of a rename.\<close>

lemma sim_links [sim_intros]:
  "sim R (hflat_readlink n (with_ns N E) path sz) (hflat_readlink n (with_ns N' E) path sz)"
  "sim R (hflat_symlink n (with_ns N E) tgt origin) (hflat_symlink n (with_ns N' E) tgt origin)"
  "sim R (toHardlinkT (with_ns N E) r) (toHardlinkT (with_ns N' E) r)"
  "sim R (hardlink_lookup n (with_ns N E) tgt origin) (hardlink_lookup n (with_ns N' E) tgt origin)"
  unfolding hflat_readlink_def hflat_symlink_def toHardlinkT_def hardlink_lookup_def with_ns_simps by (intro sim_intros; simp)+

lemma sim_hardlink [sim_intros]: "sim R (hflat_hardlink n (with_ns N E) tgt origin) (hflat_hardlink n (with_ns N' E) tgt origin)"
  by (induction n; unfold hflat_hardlink.simps Let_def with_ns_simps; intro sim_intros; simp)

lemma sim_rename_parts [sim_intros]:
  "sim R (rename_lookup n (with_ns N E) from to) (rename_lookup n (with_ns N' E) from to)"
  "sim R (rename_regular (with_ns N E) t f) (rename_regular (with_ns N' E) t f)"
  "sim R (rename_hardlink n (with_ns N E) from t) (rename_hardlink n (with_ns N' E) from t)"
  unfolding rename_lookup_def rename_regular_def rename_hardlink_def sticky_denies_def with_ns_simps by (intro sim_intros; simp)+

lemma sim_rename_move [sim_intros]: "sim R (rename_move n (with_ns N E) from to t f d) (rename_move n (with_ns N' E) from to t f d)"
  unfolding rename_move_def rename_directory_def rename_softlink_def Let_def with_ns_simps by (intro sim_intros; simp)

lemma sim_init [sim_intros]: "sim R (hflat_init n (with_ns N E)) (hflat_init n (with_ns N' E))"
  unfolding hflat_init_def with_ns_simps by (intro sim_intros; simp)

lemma sim_setxattr:
  assumes "name \<noteq> ''fsck''" "name \<noteq> ''nsck''"
  shows "sim R (hflat_setxattr n (with_ns N E) path name v flags) (hflat_setxattr n (with_ns N' E) path name v flags)"
  by (induction n; unfold hflat_setxattr.simps Let_def; intro sim_intros; simp add: assms)

end

text \<open>
  The requests that list keys, and those that ask the namespace for something else than keys:
  for its capacity or for a check of its drives.
\<close>

fun lists_keys :: "fuse_request \<Rightarrow> bool" where
  "lists_keys (op_rmdir path) = True"
| "lists_keys (op_readdir path) = True"
| "lists_keys (op_rename from to) = True"
| "lists_keys (op_setxattr path name v flags) = (name = ''fsck'')"
| "lists_keys _ = False"

fun asks_drives :: "fuse_request \<Rightarrow> bool" where
  "asks_drives (op_statfs path) = True"
| "asks_drives (op_setxattr path name v flags) = (name = ''nsck'')"
| "asks_drives _ = False"

lemmas thin_operations = hflat_fcreate_def hflat_mknod_def hflat_mkdir_def hflat_release_def hflat_chown_def hflat_chmod_def
  hflat_fgetattr_def hflat_ftruncate_def hflat_fsyncdir_def hflat_flush_def

context store_simulation
begin

lemma sim_key_request:
  assumes "\<not> lists_keys req" "\<not> asks_drives req"
  shows "sim R (hflat_ops n (with_ns N E) req) (hflat_ops n (with_ns N' E) req)"
  using assms by (cases req; hypsubst; unfold hflat_ops.simps thin_operations; simp only: lists_keys.simps asks_drives.simps not_True_eq_False)
    (intro sim_intros sim_setxattr; assumption)+

end

subsection \<open>Range requests\<close>

locale namespace_simulation = store_simulation N N' R
  for N :: "'n KineticNamespace" and N' :: "'m KineticNamespace" and R :: "'n \<Rightarrow> 'm \<Rightarrow> bool" +
  assumes GetKeyRange: "R n m \<Longrightarrow> agree R (ns_GetKeyRange N a b c n) (ns_GetKeyRange N' a b c m)"
begin

lemma sim_range [sim_intros]: "sim R (run_ns (ns_GetKeyRange N a b c)) (run_ns (ns_GetKeyRange N' a b c))"
  by (rule sim_run_ns) (rule GetKeyRange)

lemma sim_rmdir [sim_intros]: "sim R (hflat_rmdir n (with_ns N E) path) (hflat_rmdir n (with_ns N' E) path)"
  unfolding hflat_rmdir_def with_ns_simps by (intro sim_intros)

lemma sim_readdir [sim_intros]: "sim R (hflat_readdir n (with_ns N E) path) (hflat_readdir n (with_ns N' E) path)"
proof -
  have "sim R (readdir_loop n (with_ns N E) a b) (readdir_loop n (with_ns N' E) a b)" for a b
    by (induction n arbitrary: a; unfold readdir_loop.simps Let_def with_ns_simps; intro sim_intros; simp)
  then show ?thesis unfolding hflat_readdir_def by (intro sim_intros; simp)
qed

lemma sim_rename [sim_intros]: "sim R (hflat_rename n (with_ns N E) from to) (hflat_rename n (with_ns N' E) from to)"
  unfolding hflat_rename_def rename_remove_target_def Let_def by (intro sim_intros)

lemma sim_recover [sim_intros]:
  "sim R (recover_rename n (with_ns N E) path r entry) (recover_rename n (with_ns N' E) path r entry)"
  "sim R (remove_if_mapped n (with_ns N E) path) (remove_if_mapped n (with_ns N' E) path)"
  unfolding recover_rename_def recover_records_def remove_if_mapped_def both_of_def reread_both_def Let_def with_ns_simps by (intro sim_intros; simp)+

lemma sim_fsck [sim_intros]: "sim R (fsck_directory n (with_ns N E) path r) (fsck_directory n (with_ns N' E) path r)"
proof -
  have keys: "sim R (scan_keys n (with_ns N E) path ks entry) (scan_keys n (with_ns N' E) path ks entry)" for n ks entry
    by (induction ks arbitrary: entry; unfold scan_keys.simps; intro sim_intros; simp)
  have loop: "sim R (scan_loop n (with_ns N E) path a b entry) (scan_loop n (with_ns N' E) path a b entry)" for n a b entry
    by (induction n arbitrary: a entry; unfold scan_loop.simps Let_def with_ns_simps; intro sim_intros keys; simp)
  have "sim R (fsck_loop n (with_ns N E) path r entry) (fsck_loop n (with_ns N' E) path r entry)" for entry
    by (induction n arbitrary: entry; unfold fsck_loop.simps scan_direntries_def; intro sim_intros loop; simp)
  then show ?thesis unfolding fsck_directory_def with_ns_simps by (intro sim_intros; simp)
qed

lemma sim_setxattr_check:
  assumes "name \<noteq> ''nsck''"
  shows "sim R (hflat_setxattr n (with_ns N E) path name v flags) (hflat_setxattr n (with_ns N' E) path name v flags)"
  by (induction n; unfold hflat_setxattr.simps Let_def; intro sim_intros; simp add: assms)

lemma sim_request:
  assumes "\<not> asks_drives req"
  shows "sim R (hflat_ops n (with_ns N E) req) (hflat_ops n (with_ns N' E) req)"
proof (cases "lists_keys req")
  case True
  then show ?thesis
    using assms by (cases req; hypsubst; unfold hflat_ops.simps; simp only: lists_keys.simps asks_drives.simps)
      (intro sim_intros sim_setxattr_check; simp)+
qed (rule sim_key_request [OF _ assms])

end

text \<open>When the namespaces agree on everything, no request is excluded.\<close>

locale drive_simulation = namespace_simulation N N' R
  for N :: "'n KineticNamespace" and N' :: "'m KineticNamespace" and R :: "'n \<Rightarrow> 'm \<Rightarrow> bool" +
  assumes GetCapacity: "R n m \<Longrightarrow> agree R (ns_GetCapacity N n) (ns_GetCapacity N' m)"
    and selfCheck: "R n m \<Longrightarrow> agree R (ns_selfCheck N n) (ns_selfCheck N' m)"
begin

lemma sim_drives [sim_intros]: "sim R (run_ns (ns_GetCapacity N)) (run_ns (ns_GetCapacity N'))" "sim R (run_ns (ns_selfCheck N)) (run_ns (ns_selfCheck N'))"
  by (rule sim_run_ns, erule GetCapacity) (rule sim_run_ns, erule selfCheck)

lemma sim_any_request: "sim R (hflat_ops n (with_ns N E) req) (hflat_ops n (with_ns N' E) req)"
proof (cases "asks_drives req")
  case True
  have setxattr: "sim R (hflat_setxattr n (with_ns N E) path name v flags) (hflat_setxattr n (with_ns N' E) path name v flags)" for path name v flags
    by (induction n; unfold hflat_setxattr.simps Let_def with_ns_simps; intro sim_intros; simp)
  have statfs: "sim R (hflat_statfs (with_ns N E) path) (hflat_statfs (with_ns N' E) path)" for path
    unfolding hflat_statfs_def with_ns_simps by (intro sim_intros; simp)
  from True show ?thesis
    by (cases req; hypsubst; unfold hflat_ops.simps; simp only: asks_drives.simps) (intro sim_intros setxattr statfs)+
qed (rule sim_request)

end

text \<open>A session on two namespaces: the requests with their callers, put on either of them.\<close>

definition session_on :: "'m KineticNamespace \<Rightarrow> ('n env \<times> fuse_request) list \<Rightarrow> ('m env \<times> fuse_request) list" where
  "session_on N reqs = map (\<lambda>(E, req). (with_ns N E, req)) reqs"

lemma sim_serve:
  assumes "\<And>E req. (E, req) \<in> set reqs \<Longrightarrow> sim R (hflat_ops n (with_ns N E) req) (hflat_ops n (with_ns N' E) req)"
  shows "sim R (serve n (session_on N reqs)) (serve n (session_on N' reqs))"
  using assms
proof (induction reqs)
  case (Cons x reqs)
  then show ?case
    by (cases x) (simp only: session_on_def list.map prod.case serve.simps, intro sim_intros; simp add: session_on_def)
qed (simp add: session_on_def sim_basic)

lemma with_kinetic_new: "with_kinetic k (hflat_priv_new n ms bs pmode) = hflat_priv_new k ms bs pmode"
  by (simp add: with_kinetic_def hflat_priv_new_def)

end
