(* ===== verification/Client_Session.thy ===== *)
theory Client_Session
  imports Client_Invariant Client_Simulation
begin

section \<open>Sessions\<close>

text \<open>
  The predicates that every request keeps: the caches are coherent, and no key of a cache is
  blocked but those under which a record with inode number 0 has been read. A client has them
  when it has been mounted, so it has them between any two requests of a session.
\<close>

subsection \<open>Coherent caches\<close>

text \<open>
  A cache is coherent when no key occurs twice, every address in it is the address of an object
  and every object sits under its own key.
\<close>

definition cache_ok :: "(nat \<Rightarrow> string) \<Rightarrow> nat \<Rightarrow> (string, nat) LRUcache \<Rightarrow> bool" where
  "cache_ok key n c \<longleftrightarrow> lru_valid key c \<and> (\<forall>k r. lru_contents c k = Some r \<longrightarrow> r < n)"

definition coherent :: "'n hflat_priv \<Rightarrow> bool" where
  "coherent s \<longleftrightarrow> cache_ok (mdi_key s) (length (mdis s)) (lookup_cache s)
     \<and> cache_ok (dat_key s) (length (dis s)) (data_cache s)"

lemma cache_ok_less:
  assumes "cache_ok key n c" "lru_valid key c'" "\<And>k r. lru_contents c' k = Some r \<Longrightarrow> lru_contents c k = Some r"
  shows "cache_ok key n c'"
  using assms by (auto simp: cache_ok_def)

lemma cache_ok_step:
  "cache_ok key n c \<Longrightarrow> lru_get d t k c = Inr (q, c') \<Longrightarrow> cache_ok key n c'"
  "cache_ok key n c \<Longrightarrow> cache_ok key n (invalidate k c)" "cache_ok key n c \<Longrightarrow> cache_ok key n (revalidate t k c)"
  "cache_ok key n c \<Longrightarrow> lru_block k c = (b, c'') \<Longrightarrow> cache_ok key n c''"
proof -
  assume ok: "cache_ok key n c"
  then have v: "lru_valid key c" by (simp add: cache_ok_def)
  show "cache_ok key n c'" if "lru_get d t k c = Inr (q, c')"
  proof (rule cache_ok_less [OF ok])
    note r = lru_get_result [OF v that]
    show "lru_valid key c'" using r by blast
    show "lru_contents c j = Some x" if "lru_contents c' j = Some x" for j x
      using r that by (cases "j = k") metis+
  qed
  show "cache_ok key n (invalidate k c)"
    by (rule cache_ok_less [OF ok]) (simp_all add: lru_invalidate_result [OF v] split: if_splits)
  show "cache_ok key n (revalidate t k c)" by (rule cache_ok_less [OF ok]) (simp_all add: v)
  show "cache_ok key n c''" if "lru_block k c = (b, c'')"
    using lru_block_result [OF that, of key] v by (intro cache_ok_less [OF ok]) simp_all
qed

lemma cache_ok_add:
  assumes "cache_ok key n c" "key r = k" "r < n" "lru_add key d t k r c = Inr (b, c')"
  shows "cache_ok key n c'"
proof -
  have v: "lru_valid key c" using assms(1) by (simp add: cache_ok_def)
  note a = lru_add_result [OF v assms(2,4)]
  show ?thesis
  proof (cases b)
    case True
    with a have new: "lru_contents c' k = Some r"
      and old: "j \<noteq> k \<Longrightarrow> lru_contents c' j = lru_contents c j \<or> lru_contents c' j = None" for j by simp_all
    have "x < n" if "lru_contents c' j = Some x" for j x
    proof (cases "j = k")
      case False
      with old that have "lru_contents c j = Some x" by fastforce
      with assms(1) show ?thesis by (simp add: cache_ok_def)
    qed (use new that assms(3) in simp)
    with a show ?thesis by (simp add: cache_ok_def)
  qed (use a assms(1) in simp)
qed

lemma cache_ok_cong:
  assumes "cache_ok f m c" "m \<le> n" "\<And>r. r < m \<Longrightarrow> g r = f r"
  shows "cache_ok g n c"
  using assms lru_valid_cong [of f c g] by (fastforce simp: cache_ok_def)

text \<open>The predicates depend on the keys of the objects only.\<close>

lemma mdi_key_simps [simp]:
  "mdi_key (s\<lparr>kinetic := n\<rparr>) = mdi_key s" "mdi_key (s\<lparr>uuids := u\<rparr>) = mdi_key s" "mdi_key (s\<lparr>pmap := db\<rparr>) = mdi_key s"
  "mdi_key (s\<lparr>inum_base := b\<rparr>) = mdi_key s" "mdi_key (s\<lparr>inum_counter := i\<rparr>) = mdi_key s"
  "mdi_key (s\<lparr>dis := ds\<rparr>) = mdi_key s" "mdi_key (s\<lparr>lookup_cache := c\<rparr>) = mdi_key s" "mdi_key (s\<lparr>data_cache := c\<rparr>) = mdi_key s"
  by (simp_all add: mdi_key_def fun_eq_iff)

lemma dat_key_simps [simp]:
  "dat_key (s\<lparr>kinetic := n\<rparr>) = dat_key s" "dat_key (s\<lparr>uuids := u\<rparr>) = dat_key s" "dat_key (s\<lparr>pmap := db\<rparr>) = dat_key s"
  "dat_key (s\<lparr>inum_base := b\<rparr>) = dat_key s" "dat_key (s\<lparr>inum_counter := i\<rparr>) = dat_key s"
  "dat_key (s\<lparr>mdis := ms\<rparr>) = dat_key s" "dat_key (s\<lparr>lookup_cache := c\<rparr>) = dat_key s" "dat_key (s\<lparr>data_cache := c\<rparr>) = dat_key s"
  by (simp_all add: dat_key_def fun_eq_iff)

interpretation coherent: object_invariant E coherent for E
proof unfold_locales
  fix s :: "'n hflat_priv" and r m d k t
  assume c: "coherent s"
  show "coherent (s\<lparr>mdis := mdis s @ [m]\<rparr>)" "coherent (s\<lparr>dis := dis s @ [d]\<rparr>)"
    using c by (auto simp: coherent_def mdi_key_def dat_key_def nth_append elim!: cache_ok_cong)
  show "coherent (s\<lparr>mdis := (mdis s)[r := m]\<rparr>)" if "r < length (mdis s)" "systemPath m = systemPath (mdis s ! r)"
    using c that by (auto simp: coherent_def mdi_key_def nth_list_update elim!: cache_ok_cong)
  show "coherent (s\<lparr>dis := (dis s)[r := d]\<rparr>)" if "r < length (dis s)" "di_key d = di_key (dis s ! r)"
    using c that by (auto simp: coherent_def dat_key_def nth_list_update elim!: cache_ok_cong)
qed (simp_all add: coherent_def cache_ok_step(2,3))

subsection \<open>A client between two requests\<close>

text \<open>
  A client is settled when no key of the data cache is blocked and, in the lookup cache, only keys
  with inode number 0.
\<close>

definition settled :: "('n \<Rightarrow> string set) \<Rightarrow> 'n hflat_priv \<Rightarrow> bool" where
  "settled zeros s \<longleftrightarrow> blocked_keys (lookup_cache s) \<subseteq> zeros (kinetic s) \<and> blocked_keys (data_cache s) = {}"

text \<open>A lookup does not touch the data cache.\<close>

abbreviation data_cache_is :: "(string, nat) LRUcache \<Rightarrow> 'n hflat_priv \<Rightarrow> bool" where
  "data_cache_is c \<equiv> \<lambda>s. data_cache s = c"

lemma data_cache_primitives [keeps_intros]:
  "keeps (data_cache_is c) (run_ns f)" "keeps (data_cache_is c) (mdi_at r)" "keeps (data_cache_is c) (new_mdi m)"
  "keeps (data_cache_is c) (set_mdi r g)" "keeps (data_cache_is c) (generate_uuid E)" "keeps (data_cache_is c) (update_pmap h)"
  "keeps (data_cache_is c) (lookup_get E k)" "keeps (data_cache_is c) (lookup_add E k r)" "keeps (data_cache_is c) (lookup_block k)"
  "keeps (data_cache_is c) (lookup_invalidate k)" "keeps (data_cache_is c) (lookup_revalidate E k)"
  by (auto simp: keeps_def run_ns_def mdi_at_def new_mdi_def set_mdi_def generate_uuid_def update_pmap_def lookup_get_def
      lookup_add_def lookup_block_def on_cache_def lookup_invalidate_def lookup_revalidate_def split: prod.splits sum.splits)

lemma data_cache_metadata [keeps_intros]: "keeps (data_cache_is c) (get_metadata E r)" "keeps (data_cache_is c) (put_metadata E r)"
  "keeps (data_cache_is c) (inherit_from r p)" "keeps (data_cache_is c) (lookup_fetch E key)"
  unfolding get_metadata_def put_metadata_def inherit_from_def lookup_fetch_def by (intro keeps_intros)+

lemma data_cache_database_update [keeps_intros]: "keeps (data_cache_is c) (database_update E)"
proof -
  have entry: "keeps (data_cache_is c) (get_db_entry E v)" for v unfolding get_db_entry_def by (intro keeps_intros)
  have "keeps (data_cache_is c) (get_db_entries E v k)" for v k
    by (induction k arbitrary: v; unfold get_db_entries.simps; intro keeps_intros entry; simp)
  with entry show ?thesis
    unfolding database_update_def get_db_version_def load_remote_snapshot_def get_db_snapshot_def by (intro keeps_intros)
qed

lemma data_cache_lookup: "keeps (data_cache_is c) (lookup n E path r) \<and> keeps (data_cache_is c) (lookup_parent n E path r)"
  by (induction n arbitrary: path r; unfold lookup.simps lookup_parent.simps; intro conjI keeps_intros; simp)

context zero_watch
begin

lemma settled_lookup: "kept (zero_seen zeros) (settled zeros) (lookup n E path r)" "kept (zero_seen zeros) (settled zeros) (lookup_parent n E path r)"
proof -
  have "kept (zero_seen zeros) (settled zeros) m" if m: "calm zeros {} m" "\<And>c. keeps (data_cache_is c) m" for m :: "('n, int \<times> nat option) fs"
  proof (rule keptI)
    fix s q s' assume s: "settled zeros s" and run: "m s = (q, s')"
    have "data_cache s' = data_cache s" using keepsD [OF m(2) [of "data_cache s"] _ run] by simp
    moreover have "(q = Inl Deadlock \<longrightarrow> zero_seen zeros s') \<and> (\<forall>a. q = Inr a \<longrightarrow> blocks zeros {} s')"
      using calmD [OF m(1), unfolded live_def, rule_format, OF _ run] s by (simp add: settled_def)
    ultimately show "(q = Inl Deadlock \<longrightarrow> zero_seen zeros s') \<and> (\<forall>a. q = Inr a \<longrightarrow> settled zeros s')"
      using s by (simp add: settled_def)
  qed
  with live_lookup data_cache_lookup
  show "kept (zero_seen zeros) (settled zeros) (lookup n E path r)" "kept (zero_seen zeros) (settled zeros) (lookup_parent n E path r)"
    by blast+
qed

end

text \<open>What holds of the value and the state when a command returns.\<close>

definition okay :: "('s \<Rightarrow> bool) \<Rightarrow> ('s, 'a) cmd \<Rightarrow> ('a \<Rightarrow> 's \<Rightarrow> bool) \<Rightarrow> bool" where
  "okay P m Q \<longleftrightarrow> (\<forall>s a s'. P s \<longrightarrow> m s = (Inr a, s') \<longrightarrow> Q a s')"

lemma okay_kept: "kept W I m \<Longrightarrow> okay I m (\<lambda>_. I)"
  by (auto simp: okay_def kept_def live_def)

lemma okay_call: "okay P m R \<Longrightarrow> (\<And>a. okay (R a) (f a) Q) \<Longrightarrow> okay P (call m f) Q"
  unfolding okay_def call_Inr by blast

lemma okay_ret: "(\<And>s. P s \<Longrightarrow> Q a s) \<Longrightarrow> okay P (ret a) Q"
  by (simp add: okay_def)

lemma okay_mono: "okay P m Q \<Longrightarrow> (\<And>s. P' s \<Longrightarrow> P s) \<Longrightarrow> (\<And>a s. Q a s \<Longrightarrow> Q' a s) \<Longrightarrow> okay P' m Q'"
  unfolding okay_def by blast

lemma okay_cases:
  "(b \<Longrightarrow> okay P m Q) \<Longrightarrow> (\<not> b \<Longrightarrow> okay P n Q) \<Longrightarrow> okay P (if b then m else n) Q"
  "(x = None \<Longrightarrow> okay P m Q) \<Longrightarrow> (\<And>a. x = Some a \<Longrightarrow> okay P (f a) Q) \<Longrightarrow> okay P (case x of None \<Rightarrow> m | Some a \<Rightarrow> f a) Q"
  "(\<And>a. okay P (g a) Q) \<Longrightarrow> (\<And>a. okay P (h a) Q) \<Longrightarrow> okay P (case y of Inl a \<Rightarrow> g a | Inr a \<Rightarrow> h a) Q"
  "(\<And>a b. okay P (k a b) Q) \<Longrightarrow> okay P (case z of (a, b) \<Rightarrow> k a b) Q"
  by (simp_all split: option.splits sum.splits prod.splits)

lemma okay_halt: "okay P (halt e) Q"
  by (simp add: okay_def)

text \<open>A fetched object belongs to the key it was fetched for.\<close>

abbreviation (input) fetched :: "bool \<Rightarrow> nat \<Rightarrow> string \<Rightarrow> 'n hflat_priv \<Rightarrow> bool" where
  "fetched cached r key s \<equiv> coherent s \<and> (cached \<or> r < length (mdis s) \<and> systemPath (mdis s ! r) = key)"

lemma coherent_lookup_get: "okay coherent (lookup_get E key) (\<lambda>_. coherent)"
  by (auto simp: okay_def lookup_get_def on_cache_def coherent_def split: sum.splits elim: cache_ok_step)

lemma coherent_lookup_block: "okay coherent (lookup_block key) (\<lambda>_. coherent)"
  by (auto simp: okay_def lookup_block_def on_cache_def coherent_def split: sum.splits prod.splits elim: cache_ok_step)

lemma fetched_lookup_add: "okay (fetched False r key) (REQ_TRUE (lookup_add E key r)) (\<lambda>_. fetched False r key)"
proof -
  have "okay (fetched False r key) (lookup_add E key r) (\<lambda>_. fetched False r key)"
    by (auto simp: okay_def lookup_add_def on_cache_def coherent_def mdi_key_def split: sum.splits elim!: cache_ok_add)
  then show ?thesis unfolding REQ_TRUE_def by (rule okay_call) (auto intro!: okay_cases okay_ret okay_halt)
qed

lemma fetched_new_mdi: "okay coherent (new_mdi (MetadataInfo_new key)) (\<lambda>r. fetched False r key)"
  using coherent.new_object(1) by (fastforce simp: okay_def new_mdi_def MetadataInfo_new_def nth_append)

interpretation fetched: object_invariant E "\<lambda>s. fetched False r key s" for E r key
  by (unfold_locales; elim conjE; intro conjI;
      ((rule coherent.requests coherent.outside coherent.new_object coherent.same_key coherent.dropped coherent.refreshed; assumption)
       | simp add: nth_append nth_list_update))

lemma okay_lookup_fetch:
  "okay coherent (lookup_fetch E key) (\<lambda>res. case res of Inl _ \<Rightarrow> coherent | Inr (cached, r) \<Rightarrow> fetched cached r key)"
  unfolding lookup_fetch_def
  apply (rule okay_call [OF coherent_lookup_get], rule okay_cases(2))
   apply (rule okay_call [OF coherent_lookup_block], rule okay_cases(1), rule okay_halt)
   apply (rule okay_call [OF fetched_new_mdi], rule okay_call [OF okay_kept [OF fetched.kept_get_metadata]])
   apply (rule okay_cases(1))
    apply (rule okay_call [OF fetched_lookup_add], rule okay_ret, simp)
   apply (rule okay_cases(1))
    apply (rule okay_call [OF okay_kept [OF fetched.kept_caches(1)]])
    apply (rule okay_ret, simp)+
  done

lemma coherent_lookup: "okay coherent (lookup n E path p) (\<lambda>_. coherent) \<and> okay coherent (lookup_parent n E path p) (\<lambda>_. coherent)"
proof (induction n arbitrary: path p)
  case 0
  show ?case unfolding lookup.simps lookup_parent.simps by (intro conjI okay_halt)
next
  case (Suc n)
  then have IH: "okay coherent (lookup n E q m) (\<lambda>_. coherent)" "okay coherent (lookup_parent n E q m) (\<lambda>_. coherent)" for q m by blast+
  note kept = okay_kept [OF coherent.kept_put_metadata] okay_kept [OF coherent.kept_inherit_from]
    okay_kept [OF coherent.kept_database_update] okay_kept [OF coherent.kept_caches(1)] okay_kept [OF kept_mdi_at(1)]
  have add: "okay (fetched cached r key) (if cached then ret () else REQ_TRUE (lookup_add E key r)) (\<lambda>_. coherent)" for cached r key
    by (rule okay_cases(1)) (auto intro: okay_ret okay_mono [OF fetched_lookup_add])
  have add_copy: "okay (fetched cached r key) (if cached then ret () else call (new_mdi (HardlinkS_copy key i)) (\<lambda>q.
      REQ_TRUE (lookup_add E key q))) (\<lambda>_. coherent)" for cached r key i
  proof (rule okay_cases(1))
    have "okay (fetched cached r key) (new_mdi (HardlinkS_copy key i)) (\<lambda>q. fetched False q key)"
      using coherent.new_object(1) by (fastforce simp: okay_def new_mdi_def HardlinkS_copy_def MetadataInfo_new_def nth_append)
    then show "okay (fetched cached r key) (call (new_mdi (HardlinkS_copy key i)) (\<lambda>q. REQ_TRUE (lookup_add E key q))) (\<lambda>_. coherent)"
      by (rule okay_call) (rule okay_mono [OF fetched_lookup_add]; simp)
  qed (simp add: okay_ret)
  have split: "okay (case res of Inl _ \<Rightarrow> coherent | Inr (cached, r) \<Rightarrow> fetched cached r key) (case res of Inl a \<Rightarrow> g a | Inr b \<Rightarrow> h b) (\<lambda>_. coherent)"
    if "\<And>a. okay coherent (g a) (\<lambda>_. coherent)" "\<And>cached r. okay (fetched cached r key) (h (cached, r)) (\<lambda>_. coherent)"
    for res key and g :: "int \<times> nat \<Rightarrow> ('n, int \<times> nat option) fs" and h
    using that by (cases res) (auto split: prod.splits)
  have at: "okay (fetched cached r key) (mdi_at r) (\<lambda>_. fetched cached r key)" for cached r key
    by (rule okay_kept, rule kept_mdi_at)
  have parent: "okay coherent (lookup_parent (Suc n) E path p) (\<lambda>_. coherent)"
    unfolding lookup_parent.simps
    by (intro okay_cases okay_ret okay_halt okay_call [OF IH(1)] okay_call [OF kept(5)]; assumption)
  have verify: "okay coherent (if b then call (lookup_parent n E path None) (\<lambda>(err, mdi_parent).
               if err \<noteq> 0 \<and> err \<noteq> - EACCES then ret (err, Some r)
               else case mdi_parent of
                  None \<Rightarrow> halt Undefined_Behaviour
                | Some p \<Rightarrow>
                  call (inherit_from r p) (\<lambda>_.
                  call (put_metadata E r) (\<lambda>err.
                    if err = - EAGAIN then lookup n E path (Some r)
                    else if err \<noteq> 0 then ret (err, Some r)
                    else call (mdi_at r) (\<lambda>m.
                         ret (check_path_permissions (ctx_uid E) (ctx_gid E) (path_permission (md m)), Some r)))))
           else ret (x, Some r)) (\<lambda>_. coherent)" for b r x
    by (intro okay_cases okay_ret okay_halt okay_call [OF IH(2)] okay_call [OF kept(2)] okay_call [OF kept(1)] okay_call [OF kept(5)] IH; assumption)
  have "okay coherent (lookup (Suc n) E path p) (\<lambda>_. coherent)"
    unfolding lookup.simps
    apply (rule okay_call [OF okay_kept [OF kept_basic(3)]], rule okay_call [OF okay_kept [OF kept_basic(4) [OF toSystemPath_no_wait]]])
    apply (rule okay_cases(4), rule okay_cases(1), rule okay_ret, assumption)
    apply (rule okay_call [OF okay_lookup_fetch], rule split, rule okay_cases(4), rule okay_ret, assumption)
    apply (unfold prod.case)
    apply (rule okay_call [OF at], rule okay_cases(1), rule okay_ret, simp)
    apply (rule okay_cases(1), rule okay_call [OF add_copy], rule IH)
    apply (rule okay_cases(1))
     apply (rule okay_call [OF okay_mono [OF kept(3)]], simp, assumption, rule okay_call [OF kept(4)])
     apply (rule okay_cases(1), rule okay_ret, assumption, rule IH)
    apply (rule okay_call [OF add], rule verify)
    done
  with parent show ?case by blast
qed

text \<open>The same for a block that is fetched into the data cache.\<close>

lemma okay_data_get: "okay coherent (data_get E key) (\<lambda>_. coherent)"
  by (auto simp: okay_def data_get_def on_cache_def coherent_def split: sum.splits elim: cache_ok_step)

lemma okay_data_add:
  "okay (\<lambda>s. coherent s \<and> d < length (dis s) \<and> di_key (dis s ! d) = key) (REQ_TRUE (data_add E key d)) (\<lambda>_. coherent)"
proof -
  have "okay (\<lambda>s. coherent s \<and> d < length (dis s) \<and> di_key (dis s ! d) = key) (data_add E key d) (\<lambda>_. coherent)"
    by (auto simp: okay_def data_add_def on_cache_def coherent_def dat_key_def split: sum.splits elim!: cache_ok_add)
  then show ?thesis unfolding REQ_TRUE_def by (rule okay_call) (auto intro!: okay_cases okay_ret okay_halt)
qed

lemma coherent_refs_ok: "coherent s \<Longrightarrow> refs_ok s"
  by (simp add: coherent_def refs_ok_def cache_ok_def)

lemma okay_new_block:
  "okay coherent (if growing then call (new_di (DataInfo_new key '''' '''')) (\<lambda>di. ret (0, Some di)) else get_data E key)
     (\<lambda>(err, di) s. coherent s \<and> (err = 0 \<longrightarrow> (\<forall>d. di = Some d \<longrightarrow> d < length (dis s) \<and> di_key (dis s ! d) = key)))"
  (is "okay _ ?m _")
proof -
  have "kept (\<lambda>_. True) coherent ?m" by (intro kept_intros coherent.kept_new coherent.kept_get_data)
  then show ?thesis
    using fetch_new_block [OF coherent_refs_ok] unfolding kept_def live_def okay_def by (fastforce split: prod.splits)
qed

lemma coherent_data_fetch: "okay coherent (data_fetch n E key growing) (\<lambda>_. coherent)"
proof (induction n)
  case (Suc n)
  have block: "okay coherent (data_block key) (\<lambda>_. coherent)"
    by (auto simp: okay_def data_block_def on_cache_def coherent_def split: sum.splits prod.splits elim: cache_ok_step)
  let ?P = "\<lambda>err di s. coherent s \<and> (err = (0 :: int) \<longrightarrow> (\<forall>d. di = Some d \<longrightarrow> d < length (dis s) \<and> di_key (dis s ! d) = key))"
  have taken: "okay (?P err di) (if err \<noteq> 0 then call (data_invalidate key) (\<lambda>_. ret (Inl err))
      else case di of None \<Rightarrow> halt Undefined_Behaviour
       | Some di \<Rightarrow> call (REQ_TRUE (data_add E key di)) (\<lambda>_. data_fetch n E key growing)) (\<lambda>_. coherent)" for err di
    apply (rule okay_cases(1), rule okay_call [OF okay_mono [OF okay_kept [OF coherent.kept_caches(2)]]], simp, assumption, rule okay_ret, assumption)
    apply (rule okay_cases(2), rule okay_halt, rule okay_call [OF okay_mono [OF okay_data_add]], simp, assumption, rule Suc)
    done
  show ?case
    unfolding data_fetch.simps deref_def
    apply (rule okay_call [OF okay_data_get], rule okay_cases(2))
     apply (rule okay_call [OF block], rule okay_cases(1), rule Suc)
     apply (rule okay_call [OF okay_new_block])
    subgoal for hit blocked fetched by (cases fetched) (use taken in simp)
    apply (rule okay_ret, assumption)
    done
qed (unfold data_fetch.simps, rule okay_halt)

context zero_watch
begin

lemma settled_data_get: "kept W (settled zeros) (data_get E key)"
proof -
  have "lru_get d t key (data_cache s) \<noteq> Inl Deadlock" if "settled zeros s" for s d t
    using that lru_get_no_wait [of key "data_cache s" d t] by (simp add: settled_def)
  then show ?thesis
    unfolding kept_def data_get_def by (intro live_on_cache) (auto simp: settled_def dest: lru_get_blocked)
qed

lemma settled_data_fetch: "kept (zero_seen zeros) (settled zeros) (data_fetch n E key growing)"
proof (induction n)
  case (Suc n)
  let ?B = "\<lambda>s. blocked_keys (lookup_cache s) \<subseteq> zeros (kinetic s) \<and> blocked_keys (data_cache s) \<subseteq> {key}"
  note get = settled_data_get [unfolded kept_def]
  have block: "live (zero_seen zeros) (settled zeros) (data_block key) (\<lambda>b s. b \<and> ?B s)"
    unfolding data_block_def by (rule live_on_cache) (auto simp: lru_block_def settled_def)
  have add: "live (zero_seen zeros) ?B (REQ_TRUE (data_add E key d)) (\<lambda>_. settled zeros)" for d
    by (rule live_REQ_TRUE, unfold data_add_def, rule live_on_cache) (auto simp: no_wait settled_def dest: lru_add_blocked)
  have drop: "live (zero_seen zeros) ?B (data_invalidate key) (\<lambda>_. settled zeros)"
    unfolding data_invalidate_def by (auto simp: settled_def intro!: live_intros)
  have read: "live (zero_seen zeros) ?B (run_ns (ns_Get (ns E) key)) (\<lambda>_. ?B)"
  proof (rule live_run_ns)
    fix s a n assume B: "?B s" and run: "ns_Get (ns E) key (kinetic s) = (a, n)"
    have "zeros (kinetic s) \<subseteq> zeros n" using grows(1) [of "kinetic s" key] run by simp
    with B show "?B (s\<lparr>kinetic := n\<rparr>)" by auto
  qed
  have new: "live (zero_seen zeros) (\<lambda>s. b \<and> ?B s) (if growing then call (new_di (DataInfo_new key '''' '''')) (\<lambda>di. ret (0, Some di)) else get_data E key) (\<lambda>_. ?B)" for b
    unfolding get_data_def
    apply (rule live_if)
     apply (auto simp: live_def call_def new_di_def)[1]
    apply (rule live_call [where R = "\<lambda>_. ?B"], rule live_mono [OF read], simp, assumption)
    apply (auto simp: live_def call_def new_di_def split: prod.splits if_splits option.splits)
    done
  show ?case
    unfolding data_fetch.simps deref_def kept_def
    apply (rule live_call [OF get], rule live_option)
     apply (rule live_call [OF block], rule live_if)
      apply (simp add: live_def)
     apply (rule live_call [OF new], rule live_prod, rule live_if)
      apply (rule live_call [OF drop], rule live_ret, assumption)
     apply (rule live_option, rule live_halt, simp, rule live_call [OF add], rule Suc [unfolded kept_def])
    apply (rule live_ret, assumption)
    done
qed (unfold data_fetch.simps, rule kept_basic, simp)

end

subsection \<open>Every request keeps the invariant\<close>

lemma cache_ok_list:
  assumes "cache_ok key n c"
  shows "distinct (map fst (cache c))" "list_all (\<lambda>(k, r, _). r < n \<and> key r = k) (cache c)"
proof -
  from assms have d: "distinct (map fst (cache c))" and keys: "\<forall>(k, r, t) \<in> set (cache c). key r = k"
    by (simp_all add: cache_ok_def lru_valid_def lru_ok_def)
  have "r < n" if "(k, r, t) \<in> set (cache c)" for k r t
    using assms that d by (auto simp: cache_ok_def lru_contents_def)
  with keys show "list_all (\<lambda>(k, r, _). r < n \<and> key r = k) (cache c)" by (auto simp: list_all_iff)
qed (use assms in \<open>simp add: cache_ok_def lru_valid_def lru_ok_def\<close>)

lemma coherent_new: "coherent (hflat_priv_new kn cache_expiration_ms bs pmode)"
  by (simp add: coherent_def cache_ok_def hflat_priv_new_def LRUcache_new_def lru_valid_def lru_ok_def lru_contents_def)

lemma settled_new: "settled zeros (hflat_priv_new kn cache_expiration_ms bs pmode)"
  by (simp add: settled_def hflat_priv_new_def LRUcache_new_def)

lemma kinetic_new: "kinetic (hflat_priv_new kn cache_expiration_ms bs pmode) = kn"
  by (simp add: hflat_priv_new_def)

lemma serve_length: "serve n reqs s = (Inr replies, s') \<Longrightarrow> length replies = length reqs"
proof (induction reqs arbitrary: s replies)
  case (Cons r reqs)
  then show ?case by (cases r) (auto simp: call_Inr)
qed simp

lemma kept_coherent: "okay coherent m (\<lambda>_. coherent) \<Longrightarrow> kept (\<lambda>_. True) coherent m"
  unfolding kept_def live_def okay_def by blast

lemma coherent_new_key:
  assumes ok: "coherent s" and r: "r < length (mdis s)" "lru_contents (lookup_cache s) (systemPath (mdis s ! r)) = None"
  shows "coherent (s\<lparr>mdis := (mdis s)[r := m]\<rparr>)"
proof -
  have "mdi_key (s\<lparr>mdis := (mdis s)[r := m]\<rparr>) q = mdi_key s q" if "lru_contents (lookup_cache s) k = Some q" for k q
    using that r ok lru_ok_key [of "mdi_key s" "cache (lookup_cache s)" k q]
    by (cases "q = r") (auto simp: coherent_def cache_ok_def lru_valid_def lru_contents_def mdi_key_def)
  with ok show ?thesis
    using lru_valid_cong [of "mdi_key s" "lookup_cache s"] by (auto simp: coherent_def cache_ok_def)
qed

text \<open>Coherent caches are kept by all requests, whatever makes them wait.\<close>

interpretation caches: client_invariant E coherent "\<lambda>_. True" for E
proof unfold_locales
  show "kept (\<lambda>_. True) coherent (lookup n E path p)" "kept (\<lambda>_. True) coherent (lookup_parent n E path p)" for n path p
    using coherent_lookup by (blast intro: kept_coherent)+
  show "kept (\<lambda>_. True) coherent (data_get E key)" "kept (\<lambda>_. True) coherent (data_fetch n E key growing)" for n key growing
    using okay_data_get coherent_data_fetch by (blast intro: kept_coherent)+
qed (simp add: coherent_def cache_ok_def, rule coherent_new_key)

text \<open>
  That clients are settled follows from a namespace that remembers the records with inode number 0.
\<close>

definition client_ok :: "('n \<Rightarrow> string set) \<Rightarrow> 'n hflat_priv \<Rightarrow> bool" where
  "client_ok zeros s \<longleftrightarrow> coherent s \<and> settled zeros s"

lemma kept_client_ok: "kept W (settled zeros) m \<Longrightarrow> okay coherent m (\<lambda>_. coherent) \<Longrightarrow> kept W (client_ok zeros) m"
  unfolding kept_def live_def okay_def client_ok_def by blast

lemma settled_request: "settled zeros s \<Longrightarrow> zeros (kinetic s) \<subseteq> zeros k \<Longrightarrow> settled zeros (s\<lparr>kinetic := k\<rparr>)"
  by (auto simp: settled_def)

sublocale zero_watch \<subseteq> client: client_invariant E "client_ok zeros" "zero_seen zeros"
proof unfold_locales
  show "kept (zero_seen zeros) (client_ok zeros) (lookup n E path p)" "kept (zero_seen zeros) (client_ok zeros) (lookup_parent n E path p)" for n path p
    using settled_lookup coherent_lookup by (blast intro: kept_client_ok)+
  show "kept (zero_seen zeros) (client_ok zeros) (data_get E key)" "kept (zero_seen zeros) (client_ok zeros) (data_fetch n E key growing)" for n key growing
    using settled_data_get okay_data_get settled_data_fetch coherent_data_fetch by (blast intro: kept_client_ok)+
  show "client_ok zeros (s\<lparr>mdis := (mdis s)[r := m]\<rparr>)"
    if "client_ok zeros s" "r < length (mdis s)" "lru_contents (lookup_cache s) (systemPath (mdis s ! r)) = None" for s r m
    using coherent_new_key [of s r m] that by (simp add: client_ok_def settled_def)
qed (simp_all add: client_ok_def settled_request grows coherent.requests coherent.outside coherent.new_object coherent.same_key coherent.dropped coherent.refreshed,
     auto simp: settled_def coherent_def cache_ok_def)

subsection \<open>Watching a namespace\<close>

text \<open>
  Any namespace can be made to remember the keys under which it has handed out a record with inode
  number 0. It answers as before, so that a client cannot tell the difference.
\<close>

definition zero_inode :: "(string \<Rightarrow> Metadata option) \<Rightarrow> StatusCode \<times> KineticRecord option \<Rightarrow> bool" where
  "zero_inode parse a = (case a of
     (OK, Some r) \<Rightarrow> (case parse (kr_value r) of Some x \<Rightarrow> inode_number x = 0 | None \<Rightarrow> False)
   | _ \<Rightarrow> False)"

definition watching :: "(string \<Rightarrow> Metadata option) \<Rightarrow> 'n KineticNamespace \<Rightarrow> ('n \<times> string set) KineticNamespace" where
  "watching parse N = \<lparr>
     ns_Get = \<lambda>key (n, z). case ns_Get N key n of (a, n') \<Rightarrow> (a, n', if zero_inode parse a then insert key z else z),
     ns_Delete = \<lambda>key v wm (n, z). case ns_Delete N key v wm n of (a, n') \<Rightarrow> (a, n', z),
     ns_Put = \<lambda>key v wm r (n, z). case ns_Put N key v wm r n of (a, n') \<Rightarrow> (a, n', z),
     ns_GetVersion = \<lambda>key (n, z). case ns_GetVersion N key n of (a, n') \<Rightarrow> (a, n', z),
     ns_GetKeyRange = \<lambda>a b c (n, z). case ns_GetKeyRange N a b c n of (ks, n') \<Rightarrow> (ks, n', z),
     ns_GetCapacity = \<lambda>(n, z). case ns_GetCapacity N n of (a, n') \<Rightarrow> (a, n', z),
     ns_selfCheck = \<lambda>(n, z). case ns_selfCheck N n of (a, n') \<Rightarrow> (a, n', z)\<rparr>"

definition watched :: "'n env \<Rightarrow> ('n \<times> string set) env" where
  "watched E = with_ns (watching (md_ParseFromString E) (ns E)) E"

lemma watching_mono:
  "snd n \<subseteq> snd (snd (ns_Get (watching p N) key n))" "snd n \<subseteq> snd (snd (ns_Put (watching p N) key v wm r n))"
  "snd n \<subseteq> snd (snd (ns_Delete (watching p N) key v wm n))" "snd n \<subseteq> snd (snd (ns_GetVersion (watching p N) key n))"
  "snd n \<subseteq> snd (snd (ns_GetKeyRange (watching p N) a b c n))" "snd n \<subseteq> snd (snd (ns_GetCapacity (watching p N) n))"
  "snd n \<subseteq> snd (snd (ns_selfCheck (watching p N) n))"
  by (cases n; auto simp: watching_def split: prod.splits)+

interpretation watched: zero_watch "watched E" snd for E :: "'n env"
proof unfold_locales
  show "key \<in> snd n'"
    if "ns_Get (ns (watched E)) key n = ((OK, Some r), n')" "md_ParseFromString (watched E) (kr_value r) = Some x" "inode_number x = 0" for key n n' r x
    using that by (cases n) (auto simp: watched_def watching_def with_ns_simps zero_inode_def split: prod.splits)
qed (simp_all add: watched_def with_ns_simps watching_mono)

interpretation watching: drive_simulation N "watching p N" "\<lambda>n m. fst m = n" for p :: "string \<Rightarrow> Metadata option" and N :: "'n KineticNamespace"
  by unfold_locales (auto simp: agree_def watching_def split: prod.splits)

lemma sim_watched: "sim (\<lambda>n m. fst m = n) (hflat_ops n E req) (hflat_ops n (watched E) req)"
  using watching.sim_any_request [of n "ns E" E req "md_ParseFromString E"] by (simp add: watched_def with_ns_same)

lemma sim_watched_serve: "sim (\<lambda>n m. fst m = n) (serve n reqs) (serve n (map (apfst watched) reqs))"
proof (induction reqs)
  case (Cons r reqs)
  then show ?case by (cases r) (simp only: list.map apfst_conv serve.simps, intro sim_intros sim_watched)
qed (simp only: list.map serve.simps, rule sim_basic)

lemma sim_watched_mount: "sim (\<lambda>n m. fst m = n) (mount_and_serve n E reqs) (mount_and_serve n (watched E) (map (apfst watched) reqs))"
proof -
  have "sim (\<lambda>n m. fst m = n) (hflat_init n E) (hflat_init n (watched E))"
    using watching.sim_init [of n "ns E" E "md_ParseFromString E"] by (simp add: watched_def with_ns_same)
  then show ?thesis unfolding mount_and_serve_def by (intro sim_intros sim_watched_serve)
qed

text \<open>The keys under which a client reads a record with inode number 0 in the course of a session.\<close>

definition zero_inodes_read :: "nat \<Rightarrow> 'n env \<Rightarrow> ('n env \<times> fuse_request) list \<Rightarrow> 'n hflat_priv \<Rightarrow> string set" where
  "zero_inodes_read n E reqs s =
     snd (kinetic (snd (mount_and_serve n (watched E) (map (apfst watched) reqs) (with_kinetic (kinetic s, {}) s))))"

subsection \<open>Whole sessions\<close>

text \<open>
  C1. A client waits for itself only because of a record with inode number 0. Take any requests,
  any callers and any answers of the namespace. When a session comes to wait for a key that the
  client has blocked itself, a key of the lookup cache is blocked under which the client has read
  such a record. Otherwise every request is answered, unless the client stops, and after the last
  answer no key of the data cache is blocked, and in the lookup cache only keys under which such
  records were read.
\<close>

theorem session_never_waits:
  "case mount_and_serve n E reqs (hflat_priv_new kn cache_expiration_ms bs pmode) of
     (Inl Deadlock, s) \<Rightarrow> blocked_keys (lookup_cache s) \<inter> zero_inodes_read n E reqs (hflat_priv_new kn cache_expiration_ms bs pmode) \<noteq> {}
   | (Inl _, _) \<Rightarrow> True
   | (Inr replies, s) \<Rightarrow> length replies = length reqs \<and> blocked_keys (data_cache s) = {}
       \<and> blocked_keys (lookup_cache s) \<subseteq> zero_inodes_read n E reqs (hflat_priv_new kn cache_expiration_ms bs pmode)"
proof -
  let ?s = "\<lambda>k. hflat_priv_new k cache_expiration_ms bs pmode" and ?reqs = "map (apfst watched) reqs"
  obtain r s where run: "mount_and_serve n E reqs (?s kn) = (r, s)" by fastforce
  obtain z where z: "mount_and_serve n (watched E) ?reqs (?s (kn, {})) = (r, with_kinetic z s)"
    using simD [OF sim_watched_mount _ run, of "(kn, {})"] by (auto simp: with_kinetic_new kinetic_new)
  then have read: "zero_inodes_read n E reqs (?s kn) = snd z" by (simp add: zero_inodes_read_def with_kinetic_new kinetic_new)
  have "kept (zero_seen snd) (client_ok snd) (mount_and_serve n (watched E) ?reqs)"
    unfolding mount_and_serve_def
    by (intro kept_intros watched.client.kept_init kept_serve) (auto intro: watched.client.client_invariant_axioms)
  from keptD [OF this _ z] have "(r = Inl Deadlock \<longrightarrow> blocked_keys (lookup_cache s) \<inter> snd z \<noteq> {}) \<and> (\<forall>a. r = Inr a \<longrightarrow> client_ok snd (with_kinetic z s))"
    by (simp add: client_ok_def coherent_new settled_new)
  moreover have "length replies = length reqs" if "r = Inr replies" for replies
    using run that serve_length by (auto simp: mount_and_serve_def call_Inr)
  ultimately show ?thesis using run read by (cases r) (auto simp: client_ok_def settled_def split: stop.split)
qed

text \<open>
  C2. The caches stay coherent: after any request to a client in which every cached object sits
  under its own key, every cached object still does, whatever the namespace answers. No key
  occurs twice, every address in a cache is that of an object, and the object found under a key is
  the one with this path or this block key, also after a hard link has given an object another
  path.
\<close>

theorem request_keeps_caches_coherent:
  assumes "coherent s"
  shows "case hflat_ops n E req s of (Inl _, _) \<Rightarrow> True
   | (Inr reply, s') \<Rightarrow> coherent s'
       \<and> distinct (map fst (cache (lookup_cache s'))) \<and> distinct (map fst (cache (data_cache s')))
       \<and> list_all (\<lambda>(k, r, _). r < length (mdis s') \<and> systemPath (mdis s' ! r) = k) (cache (lookup_cache s'))
       \<and> list_all (\<lambda>(k, r, _). r < length (dis s') \<and> di_key (dis s' ! r) = k) (cache (data_cache s'))"
proof -
  obtain q s' where run: "hflat_ops n E req s = (q, s')" by fastforce
  have ok: "coherent s'" if "q = Inr a" for a
    using keptD [OF caches.kept_ops assms run] that by simp
  have "distinct (map fst (cache (lookup_cache s')))" "distinct (map fst (cache (data_cache s')))"
    "list_all (\<lambda>(k, r, _). r < length (mdis s') \<and> systemPath (mdis s' ! r) = k) (cache (lookup_cache s'))"
    "list_all (\<lambda>(k, r, _). r < length (dis s') \<and> di_key (dis s' ! r) = k) (cache (data_cache s'))" if "coherent s'"
    using cache_ok_list [of "mdi_key s'"] cache_ok_list [of "dat_key s'"] that
    unfolding coherent_def mdi_key_def dat_key_def by blast+
  with ok run show ?thesis by (cases q) simp_all
qed

theorem request_keeps_caches_coherent_witness:
  "case hflat_ops 9 (drive_env 7 100 5) (op_link ''/a'' ''/b'') (hflat_priv_new [] 1000 4096 FULL) of (Inl _, _) \<Rightarrow> True
   | (Inr reply, s') \<Rightarrow> coherent s'
       \<and> distinct (map fst (cache (lookup_cache s'))) \<and> distinct (map fst (cache (data_cache s')))
       \<and> list_all (\<lambda>(k, r, _). r < length (mdis s') \<and> systemPath (mdis s' ! r) = k) (cache (lookup_cache s'))
       \<and> list_all (\<lambda>(k, r, _). r < length (dis s') \<and> di_key (dis s' ! r) = k) (cache (data_cache s'))"
  by (rule request_keeps_caches_coherent [OF coherent_new])

end
