(* ===== verification/Distributed_Namespace.thy ===== *)
theory Distributed_Namespace
  imports Kinetic_Namespace
begin

section \<open>The replicated namespace\<close>

text \<open>
  The class DistributedKineticNamespace of distributed\_kinetic\_namespace.cc. Keys are hashed
  to partitions; a partition is a list of drives that hold the same keys. A drive is GREEN (in
  the read and write quorum), YELLOW (in the write quorum only) or RED (unreachable). Writes go
  to every drive that is not RED, reads to one GREEN drive. When a drive fails, a new version
  of the partition is written to the remaining drives under a key that contains the cluster
  version, and the drives then refuse requests that carry an older cluster version. Keys that
  are written while a drive is RED are recorded on a log drive, so that the drive can be
  brought up to date when it returns.

  The kinetic client library, with the drives behind it, is a parameter, and so are the
  encoding of partitions, the hash function of the standard library and its random numbers. A
  connection is an object: it belongs to the address of a drive and carries the cluster version
  the client claims. The tasks that a write starts on the drives run one after the other; they
  touch different drives. The thread that synchronizes a drive is put down in a list of threads
  that have been started.
\<close>

subsection \<open>Data\<close>

datatype KineticDrive_Status = GREEN | YELLOW | RED

record KineticDrive =
  drive_status :: KineticDrive_Status
  drive_host :: string
  drive_port :: int

record Partition =
  cluster_version :: "64 word"
  partitionid :: "int option"
  drives :: "KineticDrive list"
  logid :: "int option"

text \<open>A status of the library: the code and the cluster version the drive expects.\<close>

type_synonym KineticStatus = "StatusCode \<times> int"

abbreviation status_ok :: "KineticStatus \<Rightarrow> bool" where "status_ok st \<equiv> fst st = OK"

type_synonym address = "string \<times> int"

definition drive_address :: "KineticDrive \<Rightarrow> address" where
  "drive_address d = (drive_host d, drive_port d)"

record con_object =
  con_address :: address
  client_cluster_version :: int

text \<open>The operations of the library. All but connecting carry the version the client claims.\<close>

record 'w library =
  lib_connect :: "address \<Rightarrow> 'w \<Rightarrow> bool \<times> 'w"
  lib_NoOp :: "address \<Rightarrow> int \<Rightarrow> 'w \<Rightarrow> KineticStatus \<times> 'w"
  lib_Get :: "string \<Rightarrow> address \<Rightarrow> int \<Rightarrow> 'w \<Rightarrow> (KineticStatus \<times> KineticRecord option) \<times> 'w"
  lib_GetVersion :: "string \<Rightarrow> address \<Rightarrow> int \<Rightarrow> 'w \<Rightarrow> (KineticStatus \<times> string option) \<times> 'w"
  lib_Put :: "string \<Rightarrow> string \<Rightarrow> WriteMode \<Rightarrow> KineticRecord \<Rightarrow> address \<Rightarrow> int \<Rightarrow> 'w \<Rightarrow> KineticStatus \<times> 'w"
  lib_Delete :: "string \<Rightarrow> string \<Rightarrow> WriteMode \<Rightarrow> address \<Rightarrow> int \<Rightarrow> 'w \<Rightarrow> KineticStatus \<times> 'w"
  lib_GetKeyRange :: "string \<Rightarrow> bool \<Rightarrow> string \<Rightarrow> bool \<Rightarrow> bool \<Rightarrow> nat \<Rightarrow> address \<Rightarrow> int \<Rightarrow> 'w
     \<Rightarrow> (KineticStatus \<times> string list option) \<times> 'w"
  lib_SetClusterVersion :: "int \<Rightarrow> address \<Rightarrow> int \<Rightarrow> 'w \<Rightarrow> KineticStatus \<times> 'w"
  lib_GetLog :: "address \<Rightarrow> int \<Rightarrow> 'w \<Rightarrow> (KineticStatus \<times> Capacity option) \<times> 'w"

record 'w cluster_env =
  lib :: "'w library"
  part_SerializeAsString :: "Partition \<Rightarrow> string"
  part_ParseFromString :: "string \<Rightarrow> Partition"
  std_hash :: "string \<Rightarrow> 64 word"
  random_number :: "nat \<Rightarrow> nat"
  Capacity_unset :: Capacity

text \<open>
  A partition is passed by reference: an element of the cluster map, the log partition, or the
  local copy that \<^verbatim>\<open>GetKeyRange\<close> makes.
\<close>

datatype partition_ref = ClusterPart nat | LogPart | CopyPart

record 'w cluster =
  log_partition :: Partition
  cluster_map :: "Partition list"
  copied_partition :: Partition
  connection_map :: "address \<rightharpoonup> nat"
  connections :: "con_object list"
  direntry_clustersize :: int
  drawn :: nat
  threads :: "(partition_ref \<times> nat) list"
  capacity_estimate :: Capacity
  capacity_chunksize :: float32
  world :: 'w

type_synonym ('w, 'a) dk = "('w cluster, 'a) cmd"

definition part_of :: "partition_ref \<Rightarrow> 'w cluster \<Rightarrow> Partition" where
  "part_of r s = (case r of ClusterPart i \<Rightarrow> cluster_map s ! i | LogPart \<Rightarrow> log_partition s | CopyPart \<Rightarrow> copied_partition s)"

definition part_at :: "partition_ref \<Rightarrow> ('w, Partition) dk" where
  "part_at r = reads (part_of r)"

definition set_part_of :: "partition_ref \<Rightarrow> Partition \<Rightarrow> 'w cluster \<Rightarrow> 'w cluster" where
  "set_part_of r p s = (case r of
     ClusterPart i \<Rightarrow> s\<lparr>cluster_map := (cluster_map s)[i := p]\<rparr>
   | LogPart \<Rightarrow> s\<lparr>log_partition := p\<rparr>
   | CopyPart \<Rightarrow> s\<lparr>copied_partition := p\<rparr>)"

definition set_part :: "partition_ref \<Rightarrow> (Partition \<Rightarrow> Partition) \<Rightarrow> ('w, unit) dk" where
  "set_part r f = modify (\<lambda>s. set_part_of r (f (part_of r s)) s)"

definition drive_at :: "Partition \<Rightarrow> int \<Rightarrow> ('w, KineticDrive) dk" where
  "drive_at p i = (if 0 \<le> i \<and> i < int (length (drives p)) then ret (drives p ! nat i) else halt Undefined_Behaviour)"

definition set_status :: "nat \<Rightarrow> KineticDrive_Status \<Rightarrow> Partition \<Rightarrow> Partition" where
  "set_status i st p = p\<lparr>drives := (drives p)[i := (drives p ! i)\<lparr>drive_status := st\<rparr>]\<rparr>"

abbreviation bump_version :: "Partition \<Rightarrow> Partition" where
  "bump_version p \<equiv> p\<lparr>cluster_version := cluster_version p + 1\<rparr>"

abbreviation has_status :: "KineticDrive_Status \<Rightarrow> KineticDrive \<Rightarrow> bool" where
  "has_status st d \<equiv> drive_status d = st"

subsection \<open>Choosing a partition and a connection\<close>

text \<open>
  Keys of directory entries have the form inode number, bar, name. The names of a directory are
  spread over \<open>direntry_clustersize\<close> neighbouring partitions. Division by zero is undefined.
\<close>

definition key_hash :: "(string \<Rightarrow> 64 word) \<Rightarrow> int \<Rightarrow> string \<Rightarrow> 64 word" where
  "key_hash h clustersize key = (case find_first (\<lambda>c. c = CHR ''|'') key of
     None \<Rightarrow> h key
   | Some dirslash \<Rightarrow>
       if dirslash \<noteq> length key - 1 then h (take dirslash key) + h key mod word_of_int clustersize
       else h (take dirslash key))"

definition keyToPartition :: "'w cluster_env \<Rightarrow> string \<Rightarrow> ('w, nat) dk" where
  "keyToPartition E key =
     call (reads direntry_clustersize) (\<lambda>clustersize.
     call (reads cluster_map) (\<lambda>cmap.
       if cmap = [] \<or> (word_of_int clustersize = (0 :: 64 word)
             \<and> (case find_first (\<lambda>c. c = CHR ''|'') key of None \<Rightarrow> False | Some i \<Rightarrow> i \<noteq> length key - 1))
       then halt Undefined_Behaviour
       else ret (unat (key_hash (std_hash E) clustersize key) mod length cmap)))"

definition run_lib :: "('w \<Rightarrow> 'a \<times> 'w) \<Rightarrow> ('w, 'a) dk" where
  "run_lib f = (\<lambda>s. case f (world s) of (a, w) \<Rightarrow> (Inr a, s\<lparr>world := w\<rparr>))"

text \<open>A request on a connection, with the cluster version that is set for it.\<close>

definition request :: "nat \<Rightarrow> (address \<Rightarrow> int \<Rightarrow> 'w \<Rightarrow> 'a \<times> 'w) \<Rightarrow> ('w, 'a) dk" where
  "request con f = (\<lambda>s. case connections s ! con of c \<Rightarrow>
     run_lib (f (con_address c) (client_cluster_version c)) s)"

definition SetClientClusterVersion :: "nat \<Rightarrow> int \<Rightarrow> ('w, unit) dk" where
  "SetClientClusterVersion con v =
     modify (\<lambda>s. s\<lparr>connections := (connections s)[con := (connections s ! con)\<lparr>client_cluster_version := v\<rparr>]\<rparr>)"

text \<open>A new connection claims version 0 until another version is set.\<close>

definition driveToConnection :: "'w cluster_env \<Rightarrow> Partition \<Rightarrow> int \<Rightarrow> ('w, nat option) dk" where
  "driveToConnection E p driveID =
     call (drive_at p driveID) (\<lambda>d.
     call (reads connection_map) (\<lambda>cm. case cm (drive_address d) of
       Some con \<Rightarrow> ret (Some con)
     | None \<Rightarrow> call (run_lib (lib_connect (lib E) (drive_address d))) (\<lambda>connected.
         if \<not> connected then ret None
         else (\<lambda>s. (Inr (Some (length (connections s))),
                    s\<lparr>connections := connections s @ [\<lparr>con_address = drive_address d,
                                                    client_cluster_version = sint (cluster_version p)\<rparr>],
                      connection_map := (connection_map s)(drive_address d \<mapsto> length (connections s))\<rparr>)))))"

definition testConnection :: "'w cluster_env \<Rightarrow> Partition \<Rightarrow> int \<Rightarrow> ('w, bool) dk" where
  "testConnection E p driveID =
     call (driveToConnection E p driveID) (\<lambda>con. case con of
       None \<Rightarrow> ret False
     | Some con \<Rightarrow> call (request con (lib_NoOp (lib E))) (\<lambda>status. ret (status_ok status)))"

subsection \<open>Partitions and their versions\<close>

fun test_drives :: "'w cluster_env \<Rightarrow> Partition \<Rightarrow> nat list \<Rightarrow> ('w, bool) dk" where
  "test_drives E p [] = ret True"
| "test_drives E p (i # is) =
     (if has_status RED (drives p ! i) then test_drives E p is
      else call (testConnection E p (int i)) (\<lambda>ok. if ok then test_drives E p is else ret False))"

definition count_status :: "KineticDrive_Status \<Rightarrow> Partition \<Rightarrow> nat" where
  "count_status st p = length (filter (has_status st) (drives p))"

definition testPartition :: "'w cluster_env \<Rightarrow> Partition \<Rightarrow> ('w, bool) dk" where
  "testPartition E p =
     (if partitionid p = None then ret True else
      call (test_drives E p [0 ..< length (drives p)]) (\<lambda>ok.
        if \<not> ok then ret False else
      call (case logid p of
              None \<Rightarrow> ret True
            | Some l \<Rightarrow> call (part_at LogPart) (\<lambda>lp. testConnection E lp l)) (\<lambda>ok.
        if \<not> ok then ret False
        else if count_status GREEN p = 0 then ret False
        else if count_status GREEN p + count_status YELLOW p = 1 \<and> length (drives p) > 1 \<and> logid p = None
        then ret False
        else ret True)))"

definition cv_key :: "int \<Rightarrow> string" where
  "cv_key v = ''clusterversion_'' @ to_string v"

text \<open>
  While the drive names a newer cluster version, the version is claimed and the record of the
  partition with this version requested. A request that finds nothing leaves the pointer as it
  was. The missing statement behind \<^verbatim>\<open>if(status.expected_cluster_version())\<close> makes it a
  condition of the following one.
\<close>

fun chase_version :: "nat \<Rightarrow> 'w cluster_env \<Rightarrow> nat \<Rightarrow> KineticStatus \<Rightarrow> KineticRecord option
    \<Rightarrow> ('w, KineticStatus \<times> KineticRecord option) dk" where
  "chase_version 0 E con status rec = halt OutOfFuel"
| "chase_version (Suc n) E con status rec =
     (if fst status = REMOTE_CLUSTER_VERSION_MISMATCH then
        let cversion = snd status in
        call (SetClientClusterVersion con cversion) (\<lambda>_.
        call (request con (lib_Get (lib E) (cv_key cversion))) (\<lambda>(status, r).
        chase_version n E con status (case r of None \<Rightarrow> rec | Some _ \<Rightarrow> r)))
      else ret (status, rec))"

fun get_update_from :: "nat \<Rightarrow> 'w cluster_env \<Rightarrow> partition_ref \<Rightarrow> nat list \<Rightarrow> ('w, bool) dk" where
  "get_update_from n E r [] = ret False"
| "get_update_from n E r (i # is) =
     call (part_at r) (\<lambda>p.
       if has_status RED (drives p ! i) then get_update_from n E r is else
     call (driveToConnection E p (int i)) (\<lambda>con. case con of
       None \<Rightarrow> get_update_from n E r is
     | Some con \<Rightarrow>
         call (request con (lib_NoOp (lib E))) (\<lambda>status.
         call (chase_version n E con status None) (\<lambda>(status, rec).
           if snd status \<noteq> 0 \<and> status_ok status then
             deref rec (\<lambda>rec. call (set_part r (\<lambda>_. part_ParseFromString E (kr_value rec))) (\<lambda>_. ret True))
           else get_update_from n E r is))))"

definition getPartitionUpdate :: "nat \<Rightarrow> 'w cluster_env \<Rightarrow> partition_ref \<Rightarrow> ('w, bool) dk" where
  "getPartitionUpdate n E r =
     call (part_at r) (\<lambda>p.
       if partitionid p = None then ret False
       else get_update_from n E r [0 ..< length (drives p)])"

fun put_update_to :: "'w cluster_env \<Rightarrow> Partition \<Rightarrow> nat list \<Rightarrow> ('w, bool) dk" where
  "put_update_to E p [] = ret True"
| "put_update_to E p (i # is) =
     (if has_status RED (drives p ! i) then put_update_to E p is else
      call (driveToConnection E p (int i)) (\<lambda>con. case con of
        None \<Rightarrow> ret False
      | Some con \<Rightarrow>
          call (request con (lib_Put (lib E) (cv_key (uint (cluster_version p))) '''' REQUIRE_SAME_VERSION
                  \<lparr>kr_value = part_SerializeAsString E p, kr_version = ''yes''\<rparr>)) (\<lambda>status.
            if \<not> status_ok status then ret False else
          call (request con (lib_SetClusterVersion (lib E) (sint (cluster_version p)))) (\<lambda>_.
          call (SetClientClusterVersion con (sint (cluster_version p))) (\<lambda>_.
          put_update_to E p is)))))"

definition putPartitionUpdate :: "'w cluster_env \<Rightarrow> partition_ref \<Rightarrow> ('w, bool) dk" where
  "putPartitionUpdate E r =
     call (part_at r) (\<lambda>p.
       if partitionid p = None then ret True
       else put_update_to E p [0 ..< length (drives p)])"

text \<open>
  \<^verbatim>\<open>do{ index = dist(random_generator); } while(...)\<close>: draws until a drive fulfils the
  condition, forever when there is none.
\<close>

fun draw_drive :: "nat \<Rightarrow> 'w cluster_env \<Rightarrow> (KineticDrive \<Rightarrow> bool) \<Rightarrow> KineticDrive list \<Rightarrow> ('w, nat) dk" where
  "draw_drive 0 E P ds = halt OutOfFuel"
| "draw_drive (Suc n) E P ds =
     (if ds = [] then halt Undefined_Behaviour else
      call (reads drawn) (\<lambda>k.
      call (modify (\<lambda>s. s\<lparr>drawn := Suc k\<rparr>)) (\<lambda>_.
      let i = random_number E k mod length ds in
      if P (ds ! i) then ret i else draw_drive n E P ds)))"

subsection \<open>Taking drives out and in\<close>

definition assign_logdrive :: "nat \<Rightarrow> 'w cluster_env \<Rightarrow> partition_ref \<Rightarrow> ('w, unit) dk" where
  "assign_logdrive n E r =
     call (part_at r) (\<lambda>p.
     call (part_at LogPart) (\<lambda>lp.
       if logid p = None \<and> list_all (has_status GREEN) (drives p)
          \<and> list_ex (\<lambda>d. \<not> has_status RED d) (drives lp)
       then call (draw_drive n E (\<lambda>d. \<not> has_status RED d) (drives lp)) (\<lambda>lid.
            set_part r (\<lambda>p. p\<lparr>logid := Some (int lid)\<rparr>))
       else ret ()))"

fun disableDrive :: "nat \<Rightarrow> 'w cluster_env \<Rightarrow> partition_ref \<Rightarrow> nat \<Rightarrow> ('w, bool) dk" where
  "disableDrive 0 E r index = halt OutOfFuel"
| "disableDrive (Suc n) E r index =
     call (part_at r) (\<lambda>p.
     call (drive_at p (int index)) (\<lambda>d.
       if has_status RED d then ret True else
     call (assign_logdrive n E r) (\<lambda>_.
     call (set_part r (\<lambda>p. bump_version (set_status index RED p))) (\<lambda>_.
     call (part_at r) (\<lambda>p.
     call (testPartition E p) (\<lambda>ok.
       if \<not> ok then ret False else
     call (putPartitionUpdate E r) (\<lambda>ok.
       if ok then
         call (modify (\<lambda>s. s\<lparr>connection_map := (connection_map s)(drive_address d := None)\<rparr>)) (\<lambda>_. ret True)
       else
     call (getPartitionUpdate n E r) (\<lambda>ok.
       if ok then disableDrive n E r index else ret False))))))))"

text \<open>The version a drive expects is found by trying all versions from 0 on.\<close>

fun find_version :: "nat \<Rightarrow> 'w cluster_env \<Rightarrow> nat \<Rightarrow> int \<Rightarrow> ('w, KineticStatus) dk" where
  "find_version 0 E con cversion = halt OutOfFuel"
| "find_version (Suc n) E con cversion =
     call (SetClientClusterVersion con cversion) (\<lambda>_.
     call (request con (lib_NoOp (lib E))) (\<lambda>status.
       if fst status = REMOTE_CLUSTER_VERSION_MISMATCH then find_version n E con (cversion + 1) else ret status))"

fun enableDrive :: "nat \<Rightarrow> 'w cluster_env \<Rightarrow> partition_ref \<Rightarrow> nat \<Rightarrow> ('w, bool) dk" where
  "enableDrive 0 E r index = halt OutOfFuel"
| "enableDrive (Suc n) E r index =
     call (part_at r) (\<lambda>p.
     call (drive_at p (int index)) (\<lambda>d.
       if \<not> has_status RED d then ret True else
     call (driveToConnection E p (int index)) (\<lambda>con. case con of
       None \<Rightarrow> ret False
     | Some con \<Rightarrow>
     call (find_version n E con 0) (\<lambda>status.
       if \<not> status_ok status then ret False else
     call (set_part r (\<lambda>p. bump_version (set_status index YELLOW p))) (\<lambda>_.
     call (part_at r) (\<lambda>p.
     call (testPartition E p) (\<lambda>ok.
     call (if ok then putPartitionUpdate E r else ret False) (\<lambda>put.
       if put then call (modify (\<lambda>s. s\<lparr>threads := threads s @ [(r, index)]\<rparr>)) (\<lambda>_. ret True) else
     call (if ok then getPartitionUpdate n E r else ret False) (\<lambda>got.
       if got then enableDrive n E r index else
     call (set_part r (\<lambda>p. (set_status index RED p)\<lparr>cluster_version := cluster_version p - 1\<rparr>)) (\<lambda>_.
     ret False))))))))))"

subsection \<open>Repairing a key\<close>

text \<open>The index of the first GREEN drive; the loop runs past the end when there is none.\<close>

fun first_green :: "KineticDrive list \<Rightarrow> nat \<Rightarrow> ('w, nat) dk" where
  "first_green [] i = halt Undefined_Behaviour"
| "first_green (d # ds) i = (if has_status GREEN d then ret i else first_green ds (Suc i))"

definition expected_result :: "StatusCode \<Rightarrow> bool" where
  "expected_result c \<longleftrightarrow> c = OK \<or> c = REMOTE_NOT_FOUND"

text \<open>The body of the loop that enforces the reference record on one drive; a value ends it.\<close>

definition enforce_record :: "'w cluster_env \<Rightarrow> string \<Rightarrow> KineticRecord option \<Rightarrow> nat \<Rightarrow> nat \<Rightarrow> nat
    \<Rightarrow> ('w, KineticStatus option) dk" where
  "enforce_record E key rec index i con =
     call (request con (lib_GetVersion (lib E) key)) (\<lambda>(status, version).
       if \<not> expected_result (fst status) then ret (Some status) else
     let version = (case version of None \<Rightarrow> '''' | Some v \<Rightarrow> v) in
     call (case rec of
             None \<Rightarrow> if status_ok status then call (request con (lib_Delete (lib E) key version REQUIRE_SAME_VERSION)) (\<lambda>st. ret (Some st))
                     else ret (Some status)
           | Some r \<Rightarrow> if status_ok status \<and> version = kr_version r then ret None
                       else call (request con (lib_Put (lib E) key version REQUIRE_SAME_VERSION r)) (\<lambda>st. ret (Some st))) (\<lambda>result.
     case result of
       None \<Rightarrow> ret None
     | Some st \<Rightarrow>
         if fst st \<noteq> OK \<and> fst st \<noteq> REMOTE_NOT_FOUND \<and> fst st \<noteq> REMOTE_VERSION_MISMATCH then ret (Some st)
         else if fst st = REMOTE_VERSION_MISMATCH \<and> index = i then ret (Some (OK, 0))
         else ret None))"

fun enforce_on :: "'w cluster_env \<Rightarrow> Partition \<Rightarrow> string \<Rightarrow> KineticRecord option \<Rightarrow> nat \<Rightarrow> nat list
    \<Rightarrow> ('w, KineticStatus) dk" where
  "enforce_on E p key rec index [] = ret (OK, 0)"
| "enforce_on E p key rec index (i # is) =
     (if has_status RED (drives p ! i) then enforce_on E p key rec index is else
      call (driveToConnection E p (int i)) (\<lambda>con. deref con (\<lambda>con.
      call (enforce_record E key rec index i con) (\<lambda>result. case result of
        Some st \<Rightarrow> ret st
      | None \<Rightarrow> enforce_on E p key rec index is))))"

definition readRepair :: "'w cluster_env \<Rightarrow> string \<Rightarrow> KineticRecord option \<Rightarrow> ('w, KineticStatus \<times> KineticRecord option) dk" where
  "readRepair E key rec =
     call (keyToPartition E key) (\<lambda>k.
     call (part_at (ClusterPart k)) (\<lambda>p.
     call (first_green (drives p) 0) (\<lambda>index.
     call (driveToConnection E p (int index)) (\<lambda>con. deref con (\<lambda>con.
     call (request con (lib_Get (lib E) key)) (\<lambda>(status, r).
       let rec = (case r of None \<Rightarrow> rec | Some _ \<Rightarrow> r) in
       if \<not> expected_result (fst status) then ret (status, rec) else
     call (enforce_on E p key rec index [0 ..< length (drives p)]) (\<lambda>status. ret (status, rec))))))))"

subsection \<open>Synchronizing a drive that has returned\<close>

definition log_prefix :: "Partition \<Rightarrow> string" where
  "log_prefix p = to_string (case partitionid p of None \<Rightarrow> 0 | Some i \<Rightarrow> i) @ ''log_''"

fun repair_keys :: "'w cluster_env \<Rightarrow> Partition \<Rightarrow> bool \<Rightarrow> nat \<Rightarrow> string list \<Rightarrow> KineticRecord option
    \<Rightarrow> ('w, bool \<times> KineticRecord option) dk" where
  "repair_keys E p write_quorum_all con [] rec = ret (True, rec)"
| "repair_keys E p write_quorum_all con (k # ks) rec =
     call (readRepair E (if logid p \<noteq> None then drop (length (log_prefix p)) k else k) rec) (\<lambda>(status, rec).
       if \<not> status_ok status then ret (False, rec) else
     call (if logid p \<noteq> None \<and> write_quorum_all
           then call (request con (lib_Delete (lib E) (log_prefix p @ drop (length (log_prefix p)) k) '''' IGNORE_VERSION)) (\<lambda>_. ret ())
           else ret ()) (\<lambda>_.
     repair_keys E p write_quorum_all con ks rec))"

fun synchronize_loop :: "nat \<Rightarrow> 'w cluster_env \<Rightarrow> Partition \<Rightarrow> bool \<Rightarrow> nat \<Rightarrow> string \<Rightarrow> string \<Rightarrow> KineticRecord option
    \<Rightarrow> ('w, bool) dk" where
  "synchronize_loop 0 E p write_quorum_all con keystart keyend rec = halt OutOfFuel"
| "synchronize_loop (Suc n) E p write_quorum_all con keystart keyend rec =
     call (request con (lib_GetKeyRange (lib E) keystart True keyend True False 100)) (\<lambda>(status, keys).
       if \<not> status_ok status then ret False else
     let ks = (case keys of None \<Rightarrow> [] | Some ks \<Rightarrow> ks) in
     call (repair_keys E p write_quorum_all con ks rec) (\<lambda>(ok, rec).
       if \<not> ok then ret False
       else if length ks = 100 then synchronize_loop n E p write_quorum_all con
              (if logid p \<noteq> None then log_prefix p @ drop (length (log_prefix p)) (last ks) else last ks) keyend rec
       else ret True))"

definition synchronizeDrive :: "nat \<Rightarrow> 'w cluster_env \<Rightarrow> partition_ref \<Rightarrow> nat \<Rightarrow> ('w, bool) dk" where
  "synchronizeDrive n E r index =
     call (part_at r) (\<lambda>p.
     call (drive_at p (int index)) (\<lambda>d.
       if \<not> has_status YELLOW d then ret False else
     call (case logid p of
             Some l \<Rightarrow> call (part_at LogPart) (\<lambda>lp. driveToConnection E lp l)
           | None \<Rightarrow> call (draw_drive n E (has_status GREEN) (drives p)) (\<lambda>i. driveToConnection E p (int i))) (\<lambda>con.
     case con of
       None \<Rightarrow> ret False
     | Some con \<Rightarrow>
     let prefix = (if logid p \<noteq> None then log_prefix p else '''') in
     call (synchronize_loop n E p (list_all (\<lambda>d. \<not> has_status RED d) (drives p)) con
             (prefix @ '' '') (prefix @ ''|'') None) (\<lambda>ok.
       if \<not> ok then ret False else
     call (set_part r (\<lambda>p. let p = bump_version (set_status index GREEN p) in
             if logid p \<noteq> None \<and> list_all (has_status GREEN) (drives p) then p\<lparr>logid := None\<rparr> else p)) (\<lambda>_.
     call (putPartitionUpdate E r) (\<lambda>ok.
       if ok then ret True else
     call (set_part r (\<lambda>p. (set_status index YELLOW p)\<lparr>cluster_version := cluster_version p - 1\<rparr>)) (\<lambda>_.
     ret False)))))))"

subsection \<open>Writing\<close>

text \<open>The statuses are in a vector that is read with \<^verbatim>\<open>at\<close>, which throws.\<close>

definition result_at :: "KineticStatus list \<Rightarrow> nat \<Rightarrow> ('w, KineticStatus) dk" where
  "result_at results i = (if i < length results then ret (results ! i) else halt Uncaught_Exception)"

definition write_error :: "StatusCode \<Rightarrow> bool" where
  "write_error c \<longleftrightarrow> c \<noteq> OK \<and> c \<noteq> REMOTE_VERSION_MISMATCH \<and> c \<noteq> REMOTE_NOT_AUTHORIZED"

fun all_equal :: "Partition \<Rightarrow> KineticStatus list \<Rightarrow> StatusCode \<Rightarrow> nat list \<Rightarrow> ('w, bool) dk" where
  "all_equal p results c [] = ret True"
| "all_equal p results c (i # is) =
     (if has_status RED (drives p ! i) then all_equal p results c is else
      call (result_at results i) (\<lambda>st. call (all_equal p results c is) (\<lambda>b. ret (fst st = c \<and> b))))"

fun first_error :: "Partition \<Rightarrow> KineticStatus list \<Rightarrow> nat list \<Rightarrow> ('w, nat option) dk" where
  "first_error p results [] = ret None"
| "first_error p results (i # is) =
     (if has_status RED (drives p ! i) then first_error p results is else
      call (result_at results i) (\<lambda>st. if write_error (fst st) then ret (Some i) else first_error p results is))"

fun evaluateWriteOperation :: "nat \<Rightarrow> 'w cluster_env \<Rightarrow> partition_ref \<Rightarrow> KineticStatus list \<Rightarrow> ('w, KineticStatus) dk" where
  "evaluateWriteOperation 0 E r results = halt OutOfFuel"
| "evaluateWriteOperation (Suc n) E r results =
     call (part_at r) (\<lambda>p.
     call (first_green (drives p) 0) (\<lambda>green.
     call (result_at results green) (\<lambda>reference.
     call (all_equal p results (fst reference) [0 ..< length (drives p)]) (\<lambda>allequal.
       if allequal then ret reference else
     call (first_error p results [0 ..< length (drives p)]) (\<lambda>error. case error of
       Some i \<Rightarrow> call (disableDrive n E r i) (\<lambda>ok.
         if ok then evaluateWriteOperation n E r results else result_at results i)
     | None \<Rightarrow> ret (REMOTE_OTHER_ERROR, 0))))))"

text \<open>One task per drive. The connection is not checked before the operation uses it.\<close>

fun run_on_drives :: "'w cluster_env \<Rightarrow> Partition \<Rightarrow> (nat \<Rightarrow> ('w, KineticStatus) dk) \<Rightarrow> nat list \<Rightarrow> ('w, KineticStatus list) dk" where
  "run_on_drives E p operation [] = ret []"
| "run_on_drives E p operation (i # is) =
     call (if has_status RED (drives p ! i) then ret (REMOTE_REMOTE_CONNECTION_ERROR, 0)
           else call (driveToConnection E p (int i)) (\<lambda>con. deref con operation)) (\<lambda>st.
     call (run_on_drives E p operation is) (\<lambda>sts. ret (st # sts)))"

definition log_write :: "nat \<Rightarrow> 'w cluster_env \<Rightarrow> partition_ref \<Rightarrow> string \<Rightarrow> ('w, unit) dk" where
  "log_write n E r key =
     call (part_at r) (\<lambda>p. case logid p of
       None \<Rightarrow> ret ()
     | Some l \<Rightarrow>
         if \<not> list_ex (has_status RED) (drives p) then ret () else
         call (part_at LogPart) (\<lambda>lp.
         call (driveToConnection E lp l) (\<lambda>con. deref con (\<lambda>con.
         call (request con (lib_Put (lib E) (log_prefix p @ key) '''' IGNORE_VERSION
                 \<lparr>kr_value = '''', kr_version = ''''\<rparr>)) (\<lambda>status.
           if status_ok status then ret () else
         call (disableDrive n E LogPart (nat l)) (\<lambda>_.
         call (set_part r (\<lambda>p. bump_version (p\<lparr>logid := None\<rparr>))) (\<lambda>_.
         call (putPartitionUpdate E r) (\<lambda>_. ret ()))))))))"

fun writeOperation :: "nat \<Rightarrow> 'w cluster_env \<Rightarrow> string \<Rightarrow> (nat \<Rightarrow> ('w, KineticStatus) dk) \<Rightarrow> ('w, KineticStatus) dk" where
  "writeOperation 0 E key operation = halt OutOfFuel"
| "writeOperation (Suc n) E key operation =
     call (keyToPartition E key) (\<lambda>k.
     call (part_at (ClusterPart k)) (\<lambda>p.
     call (run_on_drives E p operation [0 ..< length (drives p)]) (\<lambda>results.
     call (log_write n E (ClusterPart k) key) (\<lambda>_.
     case find (\<lambda>st. fst st = REMOTE_CLUSTER_VERSION_MISMATCH) results of
       Some st \<Rightarrow> call (getPartitionUpdate n E (ClusterPart k)) (\<lambda>ok.
         if ok then writeOperation n E key operation else ret st)
     | None \<Rightarrow> evaluateWriteOperation n E (ClusterPart k) results))))"

subsection \<open>Reading\<close>

fun readOperation :: "nat \<Rightarrow> 'w cluster_env \<Rightarrow> partition_ref \<Rightarrow> (nat \<Rightarrow> ('w, KineticStatus \<times> 'a option) dk)
    \<Rightarrow> ('w, KineticStatus \<times> 'a option) dk" where
  "readOperation 0 E r operation = halt OutOfFuel"
| "readOperation (Suc n) E r operation =
     call (part_at r) (\<lambda>p.
     call (draw_drive n E (has_status GREEN) (drives p)) (\<lambda>index.
     call (driveToConnection E p (int index)) (\<lambda>con.
     call (case con of None \<Rightarrow> ret ((REMOTE_REMOTE_CONNECTION_ERROR, 0), None) | Some con \<Rightarrow> operation con) (\<lambda>(status, a).
       if fst status = REMOTE_CLUSTER_VERSION_MISMATCH then
         call (getPartitionUpdate n E r) (\<lambda>ok. if ok then readOperation n E r operation else ret (status, a))
       else if fst status \<noteq> OK \<and> fst status \<noteq> REMOTE_NOT_FOUND \<and> fst status \<noteq> REMOTE_NOT_AUTHORIZED then
         call (disableDrive n E r index) (\<lambda>ok. if ok then readOperation n E r operation else ret (status, a))
       else ret (status, a)))))"

subsection \<open>The operations of the namespace\<close>

text \<open>After a partial write the key is repaired; this decides which of several writers has won.\<close>

definition repair_after_write :: "nat \<Rightarrow> 'w cluster_env \<Rightarrow> string \<Rightarrow> ('w, KineticStatus \<times> KineticRecord option) dk" where
  "repair_after_write n E key =
     call (readRepair E key None) (\<lambda>(result, repair_record).
       if fst result = REMOTE_CLUSTER_VERSION_MISMATCH then
         call (keyToPartition E key) (\<lambda>k.
         call (getPartitionUpdate n E (ClusterPart k)) (\<lambda>ok.
           if ok then readRepair E key repair_record else ret (result, repair_record)))
       else ret (result, repair_record))"

text \<open>
  The estimate of the used part of the cluster changes by one megabyte with every key that is
  created or deleted; the megabyte is a fixed fraction of the capacity.
\<close>

definition change_estimate :: "(float32 \<Rightarrow> float32 \<Rightarrow> float32) \<Rightarrow> ('w, unit) dk" where
  "change_estimate f = modify (\<lambda>s. s\<lparr>capacity_estimate := (capacity_estimate s)
     \<lparr>portion_full := f (portion_full (capacity_estimate s)) (capacity_chunksize s)\<rparr>\<rparr>)"

definition Distributed_Put :: "nat \<Rightarrow> 'w cluster_env \<Rightarrow> string \<Rightarrow> string \<Rightarrow> WriteMode \<Rightarrow> KineticRecord \<Rightarrow> ('w, StatusCode) dk" where
  "Distributed_Put n E key current_version wm rec =
     call (writeOperation n E key (\<lambda>con. request con (lib_Put (lib E) key current_version wm rec))) (\<lambda>result.
     call (if fst result = REMOTE_OTHER_ERROR then
             call (repair_after_write n E key) (\<lambda>(result, repair_record).
               if status_ok result then
                 (if (case repair_record of None \<Rightarrow> False | Some r \<Rightarrow> kr_version rec = kr_version r)
                  then ret OK else ret REMOTE_VERSION_MISMATCH)
               else ret (fst result))
           else ret (fst result)) (\<lambda>result.
     call (if result = OK \<and> current_version = '''' then change_estimate f_add else ret ()) (\<lambda>_.
     ret result)))"

definition Distributed_Delete :: "nat \<Rightarrow> 'w cluster_env \<Rightarrow> string \<Rightarrow> string \<Rightarrow> WriteMode \<Rightarrow> ('w, StatusCode) dk" where
  "Distributed_Delete n E key version wm =
     call (writeOperation n E key (\<lambda>con. request con (lib_Delete (lib E) key version wm))) (\<lambda>result.
     call (if fst result = REMOTE_OTHER_ERROR then
             call (repair_after_write n E key) (\<lambda>(result, repair_record).
               if status_ok result then ret (if repair_record \<noteq> None then REMOTE_VERSION_MISMATCH else OK)
               else ret (fst result))
           else ret (fst result)) (\<lambda>result.
     call (if result = OK then change_estimate f_sub else ret ()) (\<lambda>_.
     ret result)))"

definition Distributed_Get :: "nat \<Rightarrow> 'w cluster_env \<Rightarrow> string \<Rightarrow> ('w, StatusCode \<times> KineticRecord option) dk" where
  "Distributed_Get n E key =
     call (keyToPartition E key) (\<lambda>k.
     call (readOperation n E (ClusterPart k) (\<lambda>con. request con (lib_Get (lib E) key))) (\<lambda>(status, rec).
     ret (fst status, rec)))"

definition Distributed_GetVersion :: "nat \<Rightarrow> 'w cluster_env \<Rightarrow> string \<Rightarrow> ('w, StatusCode \<times> string option) dk" where
  "Distributed_GetVersion n E key =
     call (keyToPartition E key) (\<lambda>k.
     call (readOperation n E (ClusterPart k) (\<lambda>con. request con (lib_GetVersion (lib E) key))) (\<lambda>(status, version).
     ret (fst status, version)))"

text \<open>
  \<^verbatim>\<open>std::sort\<close> keeps equal keys. The partition is copied, so what a read changes in it does not
  reach the cluster map. The pointer \<^verbatim>\<open>tmp\<close> is null until a request sets it.
\<close>

fun sorted_insert :: "string \<Rightarrow> string list \<Rightarrow> string list" where
  "sorted_insert k [] = [k]"
| "sorted_insert k (x # xs) = (if key_less x k then x # sorted_insert k xs else k # x # xs)"

definition std_sort :: "string list \<Rightarrow> string list" where
  "std_sort ks = foldr sorted_insert ks []"

fun range_loop :: "nat \<Rightarrow> 'w cluster_env \<Rightarrow> string \<Rightarrow> string \<Rightarrow> nat \<Rightarrow> nat \<Rightarrow> string list \<Rightarrow> ('w, StatusCode \<times> string list) dk" where
  "range_loop n E start_key end_key max_results 0 keys =
     (let keys = std_sort keys in ret (OK, take max_results keys))"
| "range_loop n E start_key end_key max_results (Suc i) keys =
     call (readOperation n E CopyPart (\<lambda>con.
             request con (lib_GetKeyRange (lib E) start_key False end_key False False max_results))) (\<lambda>(status, tmp).
       if \<not> status_ok status then ret (fst status, keys) else
     deref tmp (\<lambda>tmp.
     call (part_at CopyPart) (\<lambda>p.
     call (reads cluster_map) (\<lambda>cmap.
     let pid = (case partitionid p of None \<Rightarrow> 0 | Some i \<Rightarrow> i) in
     call (set_part CopyPart (\<lambda>_. cmap ! (nat ((pid + 1) mod 2 ^ 64) mod length cmap))) (\<lambda>_.
     range_loop n E start_key end_key max_results i (keys @ tmp))))))"

definition Distributed_GetKeyRange :: "nat \<Rightarrow> 'w cluster_env \<Rightarrow> string \<Rightarrow> string \<Rightarrow> nat \<Rightarrow> ('w, StatusCode \<times> string list) dk" where
  "Distributed_GetKeyRange n E start_key end_key max_results =
     call (keyToPartition E start_key) (\<lambda>k.
     call (part_at (ClusterPart k)) (\<lambda>p.
     call (set_part CopyPart (\<lambda>_. p)) (\<lambda>_.
     call (reads direntry_clustersize) (\<lambda>clustersize.
     range_loop n E start_key end_key max_results (nat clustersize) []))))"

subsection \<open>Mounting\<close>

fun enable_red :: "nat \<Rightarrow> 'w cluster_env \<Rightarrow> partition_ref \<Rightarrow> nat \<Rightarrow> ('w, unit) dk" where
  "enable_red 0 E r i = halt OutOfFuel"
| "enable_red (Suc n) E r i =
     call (part_at r) (\<lambda>p.
       if \<not> i < length (drives p) then ret () else
     call (if has_status RED (drives p ! i) then call (enableDrive n E r i) (\<lambda>_. ret ()) else ret ()) (\<lambda>_.
     enable_red n E r (Suc i)))"

definition check_partition :: "nat \<Rightarrow> 'w cluster_env \<Rightarrow> partition_ref \<Rightarrow> ('w, bool) dk" where
  "check_partition n E r =
     call (enable_red n E r 0) (\<lambda>_.
     call (part_at r) (\<lambda>p.
     call (testPartition E p) (\<lambda>ok.
       if ok then ret True else
     call (getPartitionUpdate n E r) (\<lambda>ok.
       if \<not> ok then ret False else
     call (part_at r) (\<lambda>p. testPartition E p)))))"

fun check_partitions :: "nat \<Rightarrow> 'w cluster_env \<Rightarrow> nat list \<Rightarrow> ('w, bool) dk" where
  "check_partitions n E [] = check_partition n E LogPart"
| "check_partitions n E (k # ks) =
     call (check_partition n E (ClusterPart k)) (\<lambda>ok. if ok then check_partitions n E ks else ret False)"

definition Distributed_selfCheck :: "nat \<Rightarrow> 'w cluster_env \<Rightarrow> ('w, bool) dk" where
  "Distributed_selfCheck n E =
     call (reads cluster_map) (\<lambda>cmap. check_partitions n E [0 ..< length cmap])"

definition cluster_new :: "Partition list \<Rightarrow> Partition \<Rightarrow> int \<Rightarrow> Capacity \<Rightarrow> float32 \<Rightarrow> 'w \<Rightarrow> 'w cluster" where
  "cluster_new cmap lpart dirclustersize capacity chunksize w =
     \<lparr>log_partition = lpart, cluster_map = cmap, copied_partition = lpart, connection_map = (\<lambda>_. None),
      connections = [], direntry_clustersize = dirclustersize, drawn = 0, threads = [],
      capacity_estimate = capacity, capacity_chunksize = chunksize, world = w\<rparr>"

subsection \<open>Capacity\<close>

text \<open>
  One drive of every partition is asked. The tasks are started at once; each of them refers to
  the variables of the loop that has started it, and reads them here as they are then. A task
  that gets no answer returns a capacity that is not initialized.
\<close>

definition drive_capacity :: "'w cluster_env \<Rightarrow> Partition \<Rightarrow> nat \<Rightarrow> ('w, Capacity) dk" where
  "drive_capacity E p i =
     call (driveToConnection E p (int i)) (\<lambda>con. case con of
       None \<Rightarrow> ret (Capacity_unset E)
     | Some con \<Rightarrow> call (request con (lib_GetLog (lib E))) (\<lambda>(status, cap).
         if status_ok status then deref cap ret else ret (Capacity_unset E)))"

fun capacity_tasks :: "'w cluster_env \<Rightarrow> Partition list \<Rightarrow> ('w, Capacity list) dk" where
  "capacity_tasks E [] = ret []"
| "capacity_tasks E (p # ps) =
     (case find (\<lambda>i. has_status GREEN (drives p ! i)) [0 ..< length (drives p)] of
        None \<Rightarrow> capacity_tasks E ps
      | Some i \<Rightarrow> call (drive_capacity E p i) (\<lambda>c. call (capacity_tasks E ps) (\<lambda>cs. ret (c # cs))))"

fun sum_capacity :: "Capacity list \<Rightarrow> Capacity \<Rightarrow> Capacity option" where
  "sum_capacity [] cap = Some cap"
| "sum_capacity (c # cs) cap =
     (if nominal_capacity_in_bytes c = 0 then None
      else sum_capacity cs \<lparr>nominal_capacity_in_bytes = nominal_capacity_in_bytes cap + nominal_capacity_in_bytes c,
                            portion_full = f_add (portion_full cap) (portion_full c)\<rparr>)"

definition updateCapacityEstimate :: "'w cluster_env \<Rightarrow> ('w, bool) dk" where
  "updateCapacityEstimate E =
     call (reads cluster_map) (\<lambda>cmap.
     call (capacity_tasks E cmap) (\<lambda>cs.
     case sum_capacity cs \<lparr>nominal_capacity_in_bytes = 0, portion_full = Finite 0\<rparr> of
       None \<Rightarrow> ret False
     | Some cap \<Rightarrow>
         let cap = cap\<lparr>portion_full := f_div (portion_full cap) (f_of_nat (length cs))\<rparr> in
         call (modify (\<lambda>s. s\<lparr>capacity_estimate := cap,
                 capacity_chunksize := f_div (f_mul (f_of_nat 1024) (f_of_nat 1024)) (f_of_nat (unat (nominal_capacity_in_bytes cap)))\<rparr>)) (\<lambda>_.
         ret True)))"

definition Distributed_GetCapacity :: "('w, StatusCode \<times> Capacity) dk" where
  "Distributed_GetCapacity = call (reads capacity_estimate) (\<lambda>cap. ret (OK, cap))"

text \<open>The constructor throws when the check fails; \<^verbatim>\<open>hflat_init\<close> then ends the client.\<close>

definition DistributedKineticNamespace :: "nat \<Rightarrow> 'w cluster_env \<Rightarrow> ('w, unit) dk" where
  "DistributedKineticNamespace n E =
     call (Distributed_selfCheck n E) (\<lambda>ok.
       if \<not> ok then halt Uncaught_Exception
       else call (updateCapacityEstimate E) (\<lambda>_. ret ()))"

end
