(* ===== verification/Distributed_Drives.thy ===== *)
theory Distributed_Drives
  imports Distributed_Namespace
begin

section \<open>The drives behind the replicated namespace\<close>

text \<open>
  What the client relies on when it talks to the drives of a cluster through the kinetic
  library, as a locale, and a rack of drives in memory that fulfils it.
\<close>

subsection \<open>The contract of the drives\<close>

definition kv_put :: "string \<Rightarrow> string \<Rightarrow> WriteMode \<Rightarrow> KineticRecord \<Rightarrow> (string \<rightharpoonup> KineticRecord) \<Rightarrow> StatusCode \<times> (string \<rightharpoonup> KineticRecord)" where
  "kv_put key v wm r m = (if version_matches (m key) v wm then (OK, m(key \<mapsto> r)) else (REMOTE_VERSION_MISMATCH, m))"

definition kv_delete :: "string \<Rightarrow> string \<Rightarrow> WriteMode \<Rightarrow> (string \<rightharpoonup> KineticRecord) \<Rightarrow> StatusCode \<times> (string \<rightharpoonup> KineticRecord)" where
  "kv_delete key v wm m = (case m key of
     None \<Rightarrow> (REMOTE_NOT_FOUND, m)
   | Some r \<Rightarrow> if version_matches (Some r) v wm then (OK, m(key := None)) else (REMOTE_VERSION_MISMATCH, m))"

definition kv_get :: "string \<Rightarrow> (string \<rightharpoonup> KineticRecord) \<Rightarrow> StatusCode \<times> KineticRecord option" where
  "kv_get key m = (case m key of None \<Rightarrow> (REMOTE_NOT_FOUND, None) | Some r \<Rightarrow> (OK, Some r))"

text \<open>
  A drive answers a request that claims its cluster version; otherwise it names the version.
  What a status that is not such a refusal says about cluster versions is left open.
\<close>

locale reliable_drives =
  fixes E :: "'w cluster_env"
    and disk :: "'w \<Rightarrow> address \<Rightarrow> string \<rightharpoonup> KineticRecord"
    and expects :: "'w \<Rightarrow> address \<Rightarrow> int option"
  assumes connect: "lib_connect (lib E) a w = (expects w a \<noteq> None, w)"
    and NoOp_served: "expects w a = Some v \<Longrightarrow> \<exists>e. lib_NoOp (lib E) a v w = ((OK, e), w)"
    and NoOp_refused: "expects w a = Some cv \<Longrightarrow> cv \<noteq> v \<Longrightarrow> lib_NoOp (lib E) a v w = ((REMOTE_CLUSTER_VERSION_MISMATCH, cv), w)"
    and Get_served: "expects w a = Some v \<Longrightarrow>
        \<exists>e. lib_Get (lib E) key a v w = (((fst (kv_get key (disk w a)), e), snd (kv_get key (disk w a))), w)"
    and GetVersion_served: "expects w a = Some v \<Longrightarrow>
        \<exists>e. lib_GetVersion (lib E) key a v w = (((fst (kv_get key (disk w a)), e), map_option kr_version (disk w a key)), w)"
    and Put_served: "expects w a = Some v \<Longrightarrow>
        \<exists>e w'. lib_Put (lib E) key u wm r a v w = ((fst (kv_put key u wm r (disk w a)), e), w')
          \<and> disk w' = (disk w)(a := snd (kv_put key u wm r (disk w a))) \<and> expects w' = expects w"
    and Put_refused: "expects w a \<noteq> Some v \<Longrightarrow>
        \<exists>c e. lib_Put (lib E) key u wm r a v w = ((c, e), w) \<and> c \<noteq> OK"
    and Delete_served: "expects w a = Some v \<Longrightarrow>
        \<exists>e w'. lib_Delete (lib E) key u wm a v w = ((fst (kv_delete key u wm (disk w a)), e), w')
          \<and> disk w' = (disk w)(a := snd (kv_delete key u wm (disk w a))) \<and> expects w' = expects w"
    and SetClusterVersion_served: "expects w a = Some v \<Longrightarrow>
        \<exists>e w'. lib_SetClusterVersion (lib E) cv a v w = ((OK, e), w') \<and> disk w' = disk w \<and> expects w' = (expects w)(a \<mapsto> cv)"
    and GetKeyRange_served: "expects w a = Some v \<Longrightarrow>
        \<exists>e ks. lib_GetKeyRange (lib E) from False to False False m a v w = (((OK, e), Some ks), w)
          \<and> key_range (\<lambda>k. disk w a k \<noteq> None) key_less from to m ks"

subsection \<open>A rack of drives in memory\<close>

text \<open>
  Each address holds a drive and the cluster version it expects, or nothing when the drive is
  not reachable.
\<close>

type_synonym rack = "address \<rightharpoonup> drive \<times> int"

text \<open>\<open>served none f a v w\<close> answers a request with \<open>f\<close> if it claims the right version.\<close>

definition served :: "(KineticStatus \<Rightarrow> 'a) \<Rightarrow> (drive \<Rightarrow> 'a \<times> drive) \<Rightarrow> address \<Rightarrow> int \<Rightarrow> rack \<Rightarrow> 'a \<times> rack" where
  "served none f a v w = (case w a of
     None \<Rightarrow> (none (REMOTE_REMOTE_CONNECTION_ERROR, 0), w)
   | Some (d, cv) \<Rightarrow>
       if v \<noteq> cv then (none (REMOTE_CLUSTER_VERSION_MISMATCH, cv), w)
       else (case f d of (x, d') \<Rightarrow> (x, w(a \<mapsto> (d', cv)))))"

definition with_version :: "('d \<Rightarrow> StatusCode \<times> 'd) \<Rightarrow> 'd \<Rightarrow> KineticStatus \<times> 'd" where
  "with_version f d = (case f d of (c, d') \<Rightarrow> ((c, 0), d'))"

definition with_version' :: "('d \<Rightarrow> (StatusCode \<times> 'x) \<times> 'd) \<Rightarrow> 'd \<Rightarrow> (KineticStatus \<times> 'x) \<times> 'd" where
  "with_version' f d = (case f d of ((c, x), d') \<Rightarrow> (((c, 0), x), d'))"

definition rack_library :: "rack library" where
  "rack_library =
     \<lparr>lib_connect = (\<lambda>a w. (w a \<noteq> None, w)),
      lib_NoOp = served id (with_version (con_NoOp drive_connection)),
      lib_Get = (\<lambda>key. served (\<lambda>st. (st, None)) (with_version' (con_Get drive_connection key))),
      lib_GetVersion = (\<lambda>key. served (\<lambda>st. (st, None)) (with_version' (con_GetVersion drive_connection key))),
      lib_Put = (\<lambda>key u wm r. served id (with_version (con_Put drive_connection key u wm r))),
      lib_Delete = (\<lambda>key u wm. served id (with_version (con_Delete drive_connection key u wm))),
      lib_GetKeyRange = (\<lambda>from fi to ti rev m.
         served (\<lambda>st. (st, None)) (with_version' (con_GetKeyRange drive_connection from fi to ti rev m))),
      lib_SetClusterVersion = (\<lambda>cv a v w. (case w a of
         Some (d, u) \<Rightarrow> if v = u then ((OK, 0), w(a \<mapsto> (d, cv))) else ((REMOTE_CLUSTER_VERSION_MISMATCH, u), w)
       | None \<Rightarrow> ((REMOTE_REMOTE_CONNECTION_ERROR, 0), w))),
      lib_GetLog = served (\<lambda>st. (st, None)) (with_version' (con_GetLog drive_connection))\<rparr>"

definition rack_env :: "(nat \<Rightarrow> nat) \<Rightarrow> rack cluster_env" where
  "rack_env rnd =
     \<lparr>lib = rack_library, part_SerializeAsString = (\<lambda>p. to_string (uint (cluster_version p))),
      part_ParseFromString = (\<lambda>v. \<lparr>cluster_version = 0, partitionid = None, drives = [], logid = None\<rparr>),
      std_hash = (\<lambda>s. word_of_nat (foldr (\<lambda>c n. of_char c + 31 * n) s 0)), random_number = rnd,
      Capacity_unset = \<lparr>nominal_capacity_in_bytes = 0, portion_full = Finite 0\<rparr>\<rparr>"

definition rack_disk :: "rack \<Rightarrow> address \<Rightarrow> string \<rightharpoonup> KineticRecord" where
  "rack_disk w a = (case w a of None \<Rightarrow> (\<lambda>_. None) | Some (d, cv) \<Rightarrow> map_of d)"

definition rack_expects :: "rack \<Rightarrow> address \<Rightarrow> int option" where
  "rack_expects w a = map_option snd (w a)"

lemma rack_env_simps [simp]:
  "lib (rack_env rnd) = rack_library" "random_number (rack_env rnd) = rnd"
  by (simp_all add: rack_env_def)

lemma served_up: "w a = Some (d, v) \<Longrightarrow> served none f a v w = (case f d of (x, d') \<Rightarrow> (x, w(a \<mapsto> (d', v))))"
  by (simp add: served_def)

lemma rack_expects_Some: "rack_expects w a = Some v \<longleftrightarrow> (\<exists>d. w a = Some (d, v))"
  by (auto simp: rack_expects_def)

lemma rack_upd [simp]:
  "rack_disk (w(a \<mapsto> (d, v))) = (rack_disk w)(a := map_of d)" "rack_expects (w(a \<mapsto> (d, v))) = (rack_expects w)(a \<mapsto> v)"
  by (auto simp: rack_disk_def rack_expects_def)

lemma rack_disk_up: "w a = Some (d, v) \<Longrightarrow> rack_disk w a = map_of d"
  by (simp add: rack_disk_def)

interpretation rack: reliable_drives "rack_env rnd" rack_disk rack_expects for rnd
proof (unfold_locales, goal_cases)
  case (1 a w)
  show ?case by (simp add: rack_library_def rack_expects_def)
next
  case (2 w a v)
  then show ?case
    by (auto simp: rack_expects_Some rack_library_def served_up with_version_def drive_connection_def fun_upd_idem)
next
  case (3 w a cv v)
  then show ?case by (auto simp: rack_expects_Some rack_library_def served_def)
next
  case (4 w a v key)
  then show ?case
    by (auto simp: rack_expects_Some rack_library_def served_up with_version'_def drive_connection_def kv_get_def rack_disk_def fun_upd_idem split: option.splits)
next
  case (5 w a v key)
  then show ?case
    by (auto simp: rack_expects_Some rack_library_def served_up with_version'_def drive_connection_def kv_get_def rack_disk_def fun_upd_idem split: option.splits)
next
  case (6 w a v key u wm r)
  then obtain d where d: "w a = Some (d, v)" by (auto simp: rack_expects_Some)
  then have "(rack_expects w)(a \<mapsto> v) = rack_expects w" by (simp add: rack_expects_def fun_upd_idem)
  with d show ?case
    by (simp add: rack_library_def served_up with_version_def drive_connection_def kv_put_def rack_disk_up split: option.splits)
next
  case (7 w a v key u wm r)
  then show ?case
    by (auto simp: rack_expects_def rack_library_def served_def split: option.splits)
next
  case (8 w a v key u wm)
  then obtain d where d: "w a = Some (d, v)" by (auto simp: rack_expects_Some)
  then have "(rack_expects w)(a \<mapsto> v) = rack_expects w" by (simp add: rack_expects_def fun_upd_idem)
  with d show ?case
    by (simp add: rack_library_def served_up with_version_def drive_connection_def kv_delete_def rack_disk_up split: option.splits)
next
  case (9 w a v cv)
  then obtain d where d: "w a = Some (d, v)" by (auto simp: rack_expects_Some)
  then have "(rack_disk w)(a := map_of d) = rack_disk w" by (simp add: rack_disk_def fun_upd_idem)
  with d show ?case by (simp add: rack_library_def)
next
  case (10 w a v "from" to m)
  then obtain d where d: "w a = Some (d, v)" by (auto simp: rack_expects_Some)
  with drive_key_range [of d "from" to m] show ?case
    by (auto simp: rack_library_def served_up with_version'_def drive_connection_def rack_disk_def fun_upd_idem)
qed

end
