(* ===== verification/Distributed_Props.thy ===== *)
theory Distributed_Props
  imports Distributed_Drives
begin

section \<open>Properties of the replicated namespace\<close>

text \<open>
  What a client makes of drives that keep their promises: a partition whose reachable drives
  hold the same keys behaves like a single drive, a cluster version is claimed by one client
  only, and a partition that has lost its last GREEN drive is never left again.
\<close>

subsection \<open>A partition in sync\<close>

abbreviation part_version :: "Partition \<Rightarrow> int" where "part_version p \<equiv> sint (cluster_version p)"

abbreviation in_use :: "KineticDrive \<Rightarrow> bool" where "in_use d \<equiv> drive_status d \<noteq> RED"

definition same_cluster :: "'w cluster \<Rightarrow> 'w cluster \<Rightarrow> bool" where
  "same_cluster s s' \<longleftrightarrow> cluster_map s' = cluster_map s \<and> log_partition s' = log_partition s
     \<and> copied_partition s' = copied_partition s \<and> direntry_clustersize s' = direntry_clustersize s
     \<and> capacity_estimate s' = capacity_estimate s \<and> capacity_chunksize s' = capacity_chunksize s"

definition linked :: "Partition \<Rightarrow> 'w cluster \<Rightarrow> bool" where
  "linked p s \<longleftrightarrow> (\<forall>d \<in> set (drives p). in_use d \<longrightarrow> (\<forall>c. connection_map s (drive_address d) = Some c \<longrightarrow>
     c < length (connections s) \<and> connections s ! c = \<lparr>con_address = drive_address d, client_cluster_version = part_version p\<rparr>))"

definition serving :: "('w \<Rightarrow> address \<Rightarrow> int option) \<Rightarrow> Partition \<Rightarrow> 'w \<Rightarrow> bool" where
  "serving expects p w \<longleftrightarrow> (\<forall>d \<in> set (drives p). in_use d \<longrightarrow> expects w (drive_address d) = Some (part_version p))"

definition replicas :: "('w \<Rightarrow> address \<Rightarrow> string \<rightharpoonup> KineticRecord) \<Rightarrow> Partition \<Rightarrow> 'w \<Rightarrow> (string \<rightharpoonup> KineticRecord) \<Rightarrow> bool" where
  "replicas disk p w m \<longleftrightarrow> (\<forall>d \<in> set (drives p). in_use d \<longrightarrow> disk w (drive_address d) = m)"

text \<open>The addresses a write reaches.\<close>

definition reached :: "Partition \<Rightarrow> nat list \<Rightarrow> address set" where
  "reached p is = {drive_address (drives p ! i) | i. i \<in> set is \<and> in_use (drives p ! i)}"

lemma reached_simps [simp]:
  "reached p [] = {}"
  "reached p (i # is) = (if in_use (drives p ! i) then insert (drive_address (drives p ! i)) (reached p is) else reached p is)"
  by (auto simp: reached_def)

lemma same_cluster_refl [simp]: "same_cluster s s"
  by (simp add: same_cluster_def)

lemma same_cluster_trans [trans]: "same_cluster s s' \<Longrightarrow> same_cluster s' s'' \<Longrightarrow> same_cluster s s''"
  by (simp add: same_cluster_def)

lemma same_cluster_world [simp]: "same_cluster s (s\<lparr>world := w\<rparr>)" "same_cluster s (s\<lparr>drawn := k\<rparr>)"
  by (simp_all add: same_cluster_def)

lemma linked_world [simp]: "linked p (s\<lparr>world := w\<rparr>) = linked p s" "linked p (s\<lparr>drawn := k\<rparr>) = linked p s"
  by (simp_all add: linked_def)

lemma linked_estimate [simp]: "linked p (s\<lparr>capacity_estimate := c\<rparr>) = linked p s"
  by (simp add: linked_def)

text \<open>The estimate of the used capacity is beside the point for everything but \<^verbatim>\<open>statfs\<close>.\<close>

lemma change_estimate_result:
  "\<exists>c. call (if b then change_estimate f else ret ()) (\<lambda>_. ret x) s = (Inr x, s\<lparr>capacity_estimate := c\<rparr>)"
proof (cases b)
  case False
  then show ?thesis by (intro exI [of _ "capacity_estimate s"]) (simp add: cmd_simps)
qed (auto simp: change_estimate_def cmd_simps)

lemma same_clusterD: "same_cluster s s' \<Longrightarrow> cluster_map s' = cluster_map s"
  by (simp add: same_cluster_def)

lemma request_apply:
  "connections s ! c = \<lparr>con_address = a, client_cluster_version = v\<rparr> \<Longrightarrow>
     request c f s = (Inr (fst (f a v (world s))), s\<lparr>world := snd (f a v (world s))\<rparr>)"
  by (simp add: request_def run_lib_def split: prod.splits)

lemma part_at_apply [simp]: "part_at r s = (Inr (part_of r s), s)"
  by (simp add: part_at_def)

lemma call_part_at [cmd_simps]: "call (part_at r) f s = f (part_of r s) s"
  by (simp add: part_at_def cmd_simps)

lemma drive_at_apply [simp]: "i < length (drives p) \<Longrightarrow> drive_at p (int i) = ret (drives p ! i)"
  by (simp add: drive_at_def)

lemma first_green_found:
  assumes "list_ex (has_status GREEN) ds"
  shows "\<exists>g < length ds. has_status GREEN (ds ! g) \<and> first_green ds i s = (Inr (i + g), s)"
  using assms
proof (induction ds arbitrary: i)
  case (Cons d ds)
  show ?case
  proof (cases "has_status GREEN d")
    case False
    with Cons.prems have "list_ex (has_status GREEN) ds" by simp
    from Cons.IH [OF this, of "Suc i"] obtain g where
      "g < length ds" "has_status GREEN (ds ! g)" "first_green ds (Suc i) s = (Inr (Suc i + g), s)" by blast
    with False show ?thesis by (intro exI [of _ "Suc g"]) simp
  qed (intro exI [of _ 0]; simp)
qed simp

lemma draw_drive_lucky:
  assumes "\<exists>j < n. P (ds ! (random_number E (drawn s + j) mod length ds))" "ds \<noteq> []"
  shows "\<exists>i k. draw_drive n E P ds s = (Inr i, s\<lparr>drawn := k\<rparr>) \<and> i < length ds \<and> P (ds ! i)"
  using assms(1)
proof (induction n arbitrary: s)
  case (Suc n)
  let ?i = "random_number E (drawn s) mod length ds"
  show ?case
  proof (cases "P (ds ! ?i)")
    case True
    with assms(2) show ?thesis by (auto simp: cmd_simps Let_def)
  next
    case False
    with Suc.prems obtain j where "j < n" "P (ds ! (random_number E (Suc (drawn s) + j) mod length ds))"
      by (metis add.right_neutral add_Suc_shift less_Suc_eq_0_disj)
    with Suc.IH [of "s\<lparr>drawn := Suc (drawn s)\<rparr>"] False assms(2) show ?thesis
      by (auto simp: cmd_simps Let_def)
  qed
qed simp

text \<open>An operation that every drive carries out by itself, as a function on its contents.\<close>

definition carries_out :: "('w \<Rightarrow> address \<Rightarrow> string \<rightharpoonup> KineticRecord) \<Rightarrow> ('w \<Rightarrow> address \<Rightarrow> int option) \<Rightarrow> (address \<Rightarrow> int \<Rightarrow> 'w \<Rightarrow> KineticStatus \<times> 'w)
    \<Rightarrow> ((string \<rightharpoonup> KineticRecord) \<Rightarrow> StatusCode \<times> (string \<rightharpoonup> KineticRecord)) \<Rightarrow> bool" where
  "carries_out disk expects f g \<longleftrightarrow> (\<forall>a v w. expects w a = Some v \<longrightarrow> (\<exists>e w'. f a v w = ((fst (g (disk w a)), e), w')
     \<and> disk w' = (disk w)(a := snd (g (disk w a))) \<and> expects w' = expects w))"

context reliable_drives
begin

lemma driveToConnection_linked:
  assumes "linked p s" "serving expects p (world s)" "i < length (drives p)" "in_use (drives p ! i)"
  shows "\<exists>c s'. driveToConnection E p (int i) s = (Inr (Some c), s') \<and> same_cluster s s' \<and> linked p s' \<and> world s' = world s
     \<and> drawn s' = drawn s
     \<and> connections s' ! c = \<lparr>con_address = drive_address (drives p ! i), client_cluster_version = part_version p\<rparr>
     \<and> (\<forall>q. linked q s \<and> serving expects q (world s) \<longrightarrow> linked q s')"
proof (cases "connection_map s (drive_address (drives p ! i))")
  case (Some c)
  with assms(1,3,4) show ?thesis
    by (auto simp: driveToConnection_def cmd_simps linked_def)
next
  case None
  have up: "expects (world s) (drive_address (drives p ! i)) = Some (part_version p)"
    using assms(2-4) by (simp add: serving_def)
  let ?con = "\<lparr>con_address = drive_address (drives p ! i), client_cluster_version = part_version p\<rparr>"
  let ?s = "s\<lparr>connections := connections s @ [?con], connection_map := (connection_map s)(drive_address (drives p ! i) \<mapsto> length (connections s))\<rparr>"
  have "driveToConnection E p (int i) s = (Inr (Some (length (connections s))), ?s)"
    using None assms(3) up by (simp add: driveToConnection_def cmd_simps run_lib_def connect call_def)
  moreover have "linked q ?s" if "linked q s" "serving expects q (world s)" for q
    using that up by (fastforce simp: linked_def serving_def nth_append)
  ultimately show ?thesis using assms(1,2) by (simp add: same_cluster_def)
qed

text \<open>A request to a drive of the partition goes out with the version the drive expects.\<close>

lemma request_linked:
  fixes f :: "address \<Rightarrow> int \<Rightarrow> 'w \<Rightarrow> 'a \<times> 'w"
  assumes "linked p s" "serving expects p (world s)" "i < length (drives p)" "in_use (drives p ! i)"
    "f (drive_address (drives p ! i)) (part_version p) (world s) = (a, w)"
  shows "\<exists>s'. call (driveToConnection E p (int i)) (\<lambda>con. deref con (\<lambda>con. request con f)) s = (Inr a, s')
     \<and> same_cluster s s' \<and> linked p s' \<and> world s' = w \<and> drawn s' = drawn s"
proof -
  obtain c s1 where s1: "driveToConnection E p (int i) s = (Inr (Some c), s1)" "same_cluster s s1" "linked p s1"
    "world s1 = world s" "drawn s1 = drawn s"
    "connections s1 ! c = \<lparr>con_address = drive_address (drives p ! i), client_cluster_version = part_version p\<rparr>"
    using driveToConnection_linked [OF assms(1-4)] by blast
  from request_apply [OF s1(6), of f] s1 assms(5) show ?thesis
    by (auto simp: cmd_simps deref_def same_cluster_def)
qed

lemma carries_out_put: "carries_out disk expects (lib_Put (lib E) key u wm r) (kv_put key u wm r)"
  unfolding carries_out_def using Put_served by blast

lemma carries_out_delete: "carries_out disk expects (lib_Delete (lib E) key u wm) (kv_delete key u wm)"
  unfolding carries_out_def using Delete_served by blast

lemma run_on_drives_result:
  assumes "carries_out disk expects f g" "linked p s" "serving expects p (world s)"
    "distinct (map drive_address (drives p))" "distinct is" "\<forall>i \<in> set is. i < length (drives p)"
  shows "\<exists>rs s'. run_on_drives E p (\<lambda>con. request con f) is s = (Inr rs, s') \<and> same_cluster s s' \<and> linked p s'
     \<and> drawn s' = drawn s \<and> expects (world s') = expects (world s) \<and> length rs = length is
     \<and> (\<forall>j < length is. rs ! j = (REMOTE_REMOTE_CONNECTION_ERROR, 0) \<and> \<not> in_use (drives p ! (is ! j))
          \<or> fst (rs ! j) = fst (g (disk (world s) (drive_address (drives p ! (is ! j))))) \<and> in_use (drives p ! (is ! j)))
     \<and> (\<forall>a. disk (world s') a = (if a \<in> reached p is then snd (g (disk (world s) a)) else disk (world s) a))"
  using assms(2,3,5,6)
proof (induction "is" arbitrary: s)
  case Nil
  then show ?case by simp
next
  case (Cons i "is")
  show ?case
  proof (cases "in_use (drives p ! i)")
    case False
    with Cons.IH [OF Cons.prems(1,2)] Cons.prems(3,4) obtain rs s' where
      "run_on_drives E p (\<lambda>con. request con f) is s = (Inr rs, s')" "same_cluster s s'" "linked p s'" "drawn s' = drawn s"
      "expects (world s') = expects (world s)" "length rs = length is"
      "\<forall>j < length is. rs ! j = (REMOTE_REMOTE_CONNECTION_ERROR, 0) \<and> \<not> in_use (drives p ! (is ! j))
          \<or> fst (rs ! j) = fst (g (disk (world s) (drive_address (drives p ! (is ! j))))) \<and> in_use (drives p ! (is ! j))"
      "\<forall>a. disk (world s') a = (if a \<in> reached p is then snd (g (disk (world s) a)) else disk (world s) a)"
      by auto
    with False show ?thesis
      by (intro exI [of _ "(REMOTE_REMOTE_CONNECTION_ERROR, 0) # rs"] exI [of _ s'])
        (auto simp: cmd_simps nth_Cons split: nat.splits)
  next
    case True
    let ?a = "drive_address (drives p ! i)"
    have i: "i < length (drives p)" using Cons.prems(4) by simp
    have up: "expects (world s) ?a = Some (part_version p)" using Cons.prems(2) i True by (simp add: serving_def)
    then obtain e w where f: "f ?a (part_version p) (world s) = ((fst (g (disk (world s) ?a)), e), w)"
      "disk w = (disk (world s))(?a := snd (g (disk (world s) ?a)))" "expects w = expects (world s)"
      using assms(1) unfolding carries_out_def by blast
    obtain s1 where s1: "call (driveToConnection E p (int i)) (\<lambda>con. deref con (\<lambda>con. request con f)) s = (Inr (fst (g (disk (world s) ?a)), e), s1)"
      "same_cluster s s1" "linked p s1" "world s1 = w" "drawn s1 = drawn s"
      using request_linked [where f = f, OF Cons.prems(1,2) i True f(1)] by blast
    have "serving expects p (world s1)" using Cons.prems(2) s1(4) f(3) by (simp add: serving_def)
    with Cons.IH [OF s1(3)] Cons.prems(3,4) obtain rs s' where r:
      "run_on_drives E p (\<lambda>con. request con f) is s1 = (Inr rs, s')" "same_cluster s1 s'" "linked p s'" "drawn s' = drawn s1"
      "expects (world s') = expects (world s1)" "length rs = length is"
      "\<forall>j < length is. rs ! j = (REMOTE_REMOTE_CONNECTION_ERROR, 0) \<and> \<not> in_use (drives p ! (is ! j))
          \<or> fst (rs ! j) = fst (g (disk (world s1) (drive_address (drives p ! (is ! j))))) \<and> in_use (drives p ! (is ! j))"
      "\<forall>a. disk (world s') a = (if a \<in> reached p is then snd (g (disk (world s1) a)) else disk (world s1) a)"
      by auto
    have other: "drive_address (drives p ! j) \<noteq> ?a" if "j \<in> set is" for j
      using that Cons.prems(3,4) i nth_eq_iff_index_eq [OF assms(4), of j i] by auto
    then have fresh: "?a \<notin> reached p is" unfolding reached_def by fastforce
    have same: "disk (world s1) (drive_address (drives p ! (is ! j))) = disk (world s) (drive_address (drives p ! (is ! j)))"
      if "j < length is" for j using other [of "is ! j"] that s1(4) f(2) by simp
    have run: "run_on_drives E p (\<lambda>con. request con f) (i # is) s = (Inr ((fst (g (disk (world s) ?a)), e) # rs), s')"
      using True s1(1) r(1) by (simp add: cmd_simps call_def)
    have disks: "disk (world s') a = (if a \<in> reached p (i # is) then snd (g (disk (world s) a)) else disk (world s) a)" for a
      using r(8) [rule_format, of a] fresh True s1(4) f(2) by (cases "a = ?a") simp_all
    have results: "((fst (g (disk (world s) ?a)), e) # rs) ! j = (REMOTE_REMOTE_CONNECTION_ERROR, 0) \<and> \<not> in_use (drives p ! ((i # is) ! j))
       \<or> fst (((fst (g (disk (world s) ?a)), e) # rs) ! j) = fst (g (disk (world s) (drive_address (drives p ! ((i # is) ! j))))) \<and> in_use (drives p ! ((i # is) ! j))"
      if "j < length (i # is)" for j
    proof (cases j)
      case 0
      with True show ?thesis by simp
    next
      case (Suc l)
      with that have "l < length is" by simp
      with r(7) [rule_format, of l] same [of l] Suc show ?thesis by simp
    qed
    show ?thesis
      using run disks results r(3-6) s1(4,5) f(3) same_cluster_trans [OF s1(2) r(2)]
      by (intro exI [of _ "(fst (g (disk (world s) ?a)), e) # rs"] exI [of _ s']) simp
  qed
qed

lemma all_equal_True:
  "\<forall>i \<in> set is. in_use (drives p ! i) \<longrightarrow> i < length rs \<and> fst (rs ! i) = c \<Longrightarrow> all_equal p rs c is s = (Inr True, s)"
  by (induction "is") (simp_all add: result_at_def cmd_simps)

text \<open>A write reaches every drive in use, and the answers are evaluated.\<close>

lemma write_reaches_drives:
  assumes f: "carries_out disk expects f g"
    and codes: "\<And>d. d \<in> set (drives p) \<Longrightarrow> in_use d \<Longrightarrow> fst (g (disk (world s) (drive_address d))) \<noteq> REMOTE_CLUSTER_VERSION_MISMATCH"
    and key: "keyToPartition E key s = (Inr k, s)"
    and p: "p = cluster_map s ! k" "distinct (map drive_address (drives p))" "logid p = None \<or> \<not> list_ex (has_status RED) (drives p)"
    and st: "linked p s" "serving expects p (world s)"
  shows "\<exists>rs s'. writeOperation (Suc n) E key (\<lambda>con. request con f) s = evaluateWriteOperation n E (ClusterPart k) rs s'
     \<and> same_cluster s s' \<and> linked p s' \<and> expects (world s') = expects (world s) \<and> length rs = length (drives p)
     \<and> (\<forall>j < length (drives p). in_use (drives p ! j) \<longrightarrow> fst (rs ! j) = fst (g (disk (world s) (drive_address (drives p ! j)))))
     \<and> (\<forall>d \<in> set (drives p). in_use d \<longrightarrow> disk (world s') (drive_address d) = snd (g (disk (world s) (drive_address d))))
     \<and> (\<forall>a. a \<in> drive_address ` set (drives p) \<or> disk (world s') a = disk (world s) a)
     \<and> run_on_drives E p (\<lambda>con. request con f) [0 ..< length (drives p)] s = (Inr rs, s')"
proof -
  let ?is = "[0 ..< length (drives p)]"
  obtain rs s1 where r: "run_on_drives E p (\<lambda>con. request con f) ?is s = (Inr rs, s1)" "same_cluster s s1" "linked p s1"
    "expects (world s1) = expects (world s)" "length rs = length (drives p)"
    "\<And>j. j < length (drives p) \<Longrightarrow> rs ! j = (REMOTE_REMOTE_CONNECTION_ERROR, 0) \<and> \<not> in_use (drives p ! j)
        \<or> fst (rs ! j) = fst (g (disk (world s) (drive_address (drives p ! j)))) \<and> in_use (drives p ! j)"
    "\<And>a. disk (world s1) a = (if a \<in> reached p ?is then snd (g (disk (world s) a)) else disk (world s) a)"
    using run_on_drives_result [OF f st p(2), of ?is] by auto
  have used: "fst (rs ! j) = fst (g (disk (world s) (drive_address (drives p ! j))))" if "j < length (drives p)" "in_use (drives p ! j)" for j
    using r(6) [OF that(1)] that by auto
  have "fst (rs ! j) \<noteq> REMOTE_CLUSTER_VERSION_MISMATCH" if "j < length (drives p)" for j
    using r(6) [OF that] codes [OF nth_mem [OF that]] by (cases "in_use (drives p ! j)") auto
  then have no_mismatch: "find (\<lambda>st. fst st = REMOTE_CLUSTER_VERSION_MISMATCH) rs = None"
    using r(5) unfolding find_None_iff in_set_conv_nth by metis
  have part: "part_of (ClusterPart k) s = p" "part_of (ClusterPart k) s1 = p"
    using p(1) r(2) by (simp_all add: part_of_def same_cluster_def)
  have log: "log_write n E (ClusterPart k) key s1 = (Inr (), s1)"
    using p(3) part(2) by (auto simp: log_write_def cmd_simps split: option.splits)
  have run: "writeOperation (Suc n) E key (\<lambda>con. request con f) s = evaluateWriteOperation n E (ClusterPart k) rs s1"
    using key part(1) r(1) log no_mismatch by (simp add: cmd_simps del: evaluateWriteOperation.simps)
  have all: "reached p ?is = drive_address ` {d \<in> set (drives p). in_use d}"
    by (auto simp: reached_def in_set_conv_nth)
  have "\<forall>d \<in> set (drives p). in_use d \<longrightarrow> disk (world s1) (drive_address d) = snd (g (disk (world s) (drive_address d)))"
    using r(7) all by auto
  moreover have "\<forall>a. a \<in> drive_address ` set (drives p) \<or> disk (world s1) a = disk (world s) a"
    using r(7) all by auto
  ultimately show ?thesis using run r(1-5) used by blast
qed

lemma evaluate_equal:
  assumes "part_of r s = p" "list_ex (has_status GREEN) (drives p)" "length rs = length (drives p)"
    "\<And>j. j < length (drives p) \<Longrightarrow> in_use (drives p ! j) \<Longrightarrow> fst (rs ! j) = c"
  shows "\<exists>e. evaluateWriteOperation (Suc n) E r rs s = (Inr (c, e), s)"
proof -
  obtain j where j: "j < length (drives p)" "has_status GREEN (drives p ! j)" "first_green (drives p) 0 s = (Inr j, s)"
    using first_green_found [OF assms(2), of 0 s] by auto
  have "fst (rs ! j) = c" using assms(4) [OF j(1)] j(2) by simp
  then have "evaluateWriteOperation (Suc n) E r rs s = (Inr (rs ! j), s)"
    using assms(1,3) j all_equal_True [of "[0 ..< length (drives p)]" p rs c s] assms(4) by (simp add: cmd_simps result_at_def)
  with \<open>fst (rs ! j) = c\<close> show ?thesis by (metis prod.collapse)
qed

text \<open>Drives with the same contents give the same answer, and their contents stay the same.\<close>

lemma write_in_sync:
  assumes f: "carries_out disk expects f g" "fst (g m) \<noteq> REMOTE_CLUSTER_VERSION_MISMATCH"
    and key: "keyToPartition E key s = (Inr k, s)"
    and p: "p = cluster_map s ! k" "distinct (map drive_address (drives p))" "list_ex (has_status GREEN) (drives p)"
      "logid p = None \<or> \<not> list_ex (has_status RED) (drives p)"
    and st: "linked p s" "serving expects p (world s)" "replicas disk p (world s) m"
  shows "\<exists>e s'. writeOperation (Suc (Suc n)) E key (\<lambda>con. request con f) s = (Inr (fst (g m), e), s')
     \<and> same_cluster s s' \<and> linked p s' \<and> expects (world s') = expects (world s) \<and> replicas disk p (world s') (snd (g m))
     \<and> (\<forall>a. a \<in> drive_address ` set (drives p) \<or> disk (world s') a = disk (world s) a)
     \<and> (\<exists>rs. run_on_drives E p (\<lambda>con. request con f) [0 ..< length (drives p)] s = (Inr rs, s'))"
proof -
  have m: "disk (world s) (drive_address d) = m" if "d \<in> set (drives p)" "in_use d" for d
    using st(3) that by (simp add: replicas_def)
  have codes: "fst (g (disk (world s) (drive_address d))) \<noteq> REMOTE_CLUSTER_VERSION_MISMATCH" if "d \<in> set (drives p)" "in_use d" for d
    using m [OF that] f(2) by simp
  obtain rs s' where w: "writeOperation (Suc (Suc n)) E key (\<lambda>con. request con f) s = evaluateWriteOperation (Suc n) E (ClusterPart k) rs s'"
    "same_cluster s s'" "linked p s'" "expects (world s') = expects (world s)" "length rs = length (drives p)"
    "\<And>j. j < length (drives p) \<Longrightarrow> in_use (drives p ! j) \<Longrightarrow> fst (rs ! j) = fst (g (disk (world s) (drive_address (drives p ! j))))"
    "\<And>d. d \<in> set (drives p) \<Longrightarrow> in_use d \<Longrightarrow> disk (world s') (drive_address d) = snd (g (disk (world s) (drive_address d)))"
    "\<And>a. a \<in> drive_address ` set (drives p) \<or> disk (world s') a = disk (world s) a"
    "run_on_drives E p (\<lambda>con. request con f) [0 ..< length (drives p)] s = (Inr rs, s')"
    using write_reaches_drives [OF f(1) codes key p(1,2,4) st(1,2)] by blast
  have "part_of (ClusterPart k) s' = p" using p(1) w(2) by (simp add: part_of_def same_cluster_def)
  then obtain e where "evaluateWriteOperation (Suc n) E (ClusterPart k) rs s' = (Inr (fst (g m), e), s')"
    using evaluate_equal [OF _ p(3) w(5), of "ClusterPart k" s' "fst (g m)"] w(6) m nth_mem by metis
  moreover have "replicas disk p (world s') (snd (g m))" using w(7) m by (simp add: replicas_def)
  ultimately show ?thesis using w(1-4,8,9) by (metis (no_types, lifting))
qed

lemma read_in_sync:
  fixes f :: "address \<Rightarrow> int \<Rightarrow> 'w \<Rightarrow> (KineticStatus \<times> 'a option) \<times> 'w"
  assumes f: "\<And>a v w. expects w a = Some v \<Longrightarrow> disk w a = m \<Longrightarrow> \<exists>e. f a v w = (((c, e), x), w)" "expected_result c"
    and p: "p = part_of r s" "linked p s" "serving expects p (world s)" "replicas disk p (world s) m"
    and luck: "\<exists>j < n. has_status GREEN (drives p ! (random_number E (drawn s + j) mod length (drives p)))" "drives p \<noteq> []"
  shows "\<exists>e s'. readOperation (Suc n) E r (\<lambda>con. request con f) s = (Inr ((c, e), x), s')
     \<and> same_cluster s s' \<and> linked p s' \<and> world s' = world s \<and> (\<forall>q. linked q s \<and> serving expects q (world s) \<longrightarrow> linked q s')"
proof -
  obtain i k where d: "draw_drive n E (has_status GREEN) (drives p) s = (Inr i, s\<lparr>drawn := k\<rparr>)" "i < length (drives p)" "has_status GREEN (drives p ! i)"
    using draw_drive_lucky [OF luck] by blast
  have use: "in_use (drives p ! i)" using d(3) by simp
  have up: "expects (world s) (drive_address (drives p ! i)) = Some (part_version p)" "disk (world s) (drive_address (drives p ! i)) = m"
    using p(3,4) d(2) use by (simp_all add: serving_def replicas_def)
  obtain e where e: "f (drive_address (drives p ! i)) (part_version p) (world s) = (((c, e), x), world s)"
    using f(1) [OF up] by blast
  have st: "linked p (s\<lparr>drawn := k\<rparr>)" "serving expects p (world (s\<lparr>drawn := k\<rparr>))" using p(2,3) by simp_all
  obtain con s1 where s1: "driveToConnection E p (int i) (s\<lparr>drawn := k\<rparr>) = (Inr (Some con), s1)" "same_cluster (s\<lparr>drawn := k\<rparr>) s1" "linked p s1"
    "world s1 = world s" "connections s1 ! con = \<lparr>con_address = drive_address (drives p ! i), client_cluster_version = part_version p\<rparr>"
    "\<forall>q. linked q s \<and> serving expects q (world s) \<longrightarrow> linked q s1"
    using driveToConnection_linked [OF st d(2) use] by auto
  have "readOperation (Suc n) E r (\<lambda>con. request con f) s = (Inr ((c, e), x), s1\<lparr>world := world s\<rparr>)"
    using p(1) d(1) s1(1,4) request_apply [OF s1(5), of f] e f(2) by (auto simp: cmd_simps expected_result_def)
  with s1 show ?thesis by (auto simp: same_cluster_def)
qed

end

text \<open>Connections belong to the address they are filed under.\<close>

definition wired :: "'w cluster \<Rightarrow> bool" where
  "wired s \<longleftrightarrow> (\<forall>a c. connection_map s a = Some c \<longrightarrow> c < length (connections s) \<and> con_address (connections s ! c) = a)"

subsection \<open>A small cluster\<close>

text \<open>One partition of two drives that expect version 3, and a client that has just started.\<close>

definition drive_a :: "KineticDrive_Status \<Rightarrow> KineticDrive" where
  "drive_a st = \<lparr>drive_status = st, drive_host = ''a'', drive_port = 8123\<rparr>"

definition drive_b :: "KineticDrive_Status \<Rightarrow> KineticDrive" where
  "drive_b st = \<lparr>drive_status = st, drive_host = ''b'', drive_port = 8123\<rparr>"

definition pair_partition :: "64 word \<Rightarrow> KineticDrive list \<Rightarrow> Partition" where
  "pair_partition v ds = \<lparr>cluster_version = v, partitionid = Some 0, drives = ds, logid = None\<rparr>"

abbreviation no_capacity :: Capacity where
  "no_capacity \<equiv> \<lparr>nominal_capacity_in_bytes = 0, portion_full = Finite 0\<rparr>"

definition pair_cluster :: "Partition \<Rightarrow> rack \<Rightarrow> rack cluster" where
  "pair_cluster p w = cluster_new [p] \<lparr>cluster_version = 0, partitionid = None, drives = [], logid = None\<rparr> 1 no_capacity (Finite 0) w"

definition pair_rack :: "drive \<Rightarrow> int \<Rightarrow> rack" where
  "pair_rack d v = [(''a'', 8123) \<mapsto> (d, v), (''b'', 8123) \<mapsto> (d, v)]"

lemmas pair_defs = drive_a_def drive_b_def pair_partition_def pair_cluster_def pair_rack_def cluster_new_def drive_address_def

lemma pair_linked [simp]: "linked q (pair_cluster p w)" "wired (pair_cluster p w)"
  by (simp_all add: linked_def wired_def pair_defs)

lemma pair_key [simp]: "keyToPartition E ''/f'' (pair_cluster p w) = (Inr 0, pair_cluster p w)"
  by (simp add: keyToPartition_def cmd_simps pair_defs)

subsection \<open>A partition in sync refines a single drive\<close>

text \<open>
  Partition \<open>k\<close> is in sync with contents \<open>m\<close>: its drives are different drives, one of them is
  GREEN, those that are not RED expect the cluster version of the partition and hold \<open>m\<close>, the
  client's connections claim this version, and no write has to be logged.
\<close>

definition in_sync :: "('w \<Rightarrow> address \<Rightarrow> string \<rightharpoonup> KineticRecord) \<Rightarrow> ('w \<Rightarrow> address \<Rightarrow> int option)
    \<Rightarrow> 'w cluster \<Rightarrow> nat \<Rightarrow> (string \<rightharpoonup> KineticRecord) \<Rightarrow> bool" where
  "in_sync disk expects s k m \<longleftrightarrow> (let p = cluster_map s ! k in
     distinct (map drive_address (drives p)) \<and> list_ex (has_status GREEN) (drives p)
     \<and> (logid p = None \<or> \<not> list_ex (has_status RED) (drives p))
     \<and> linked p s \<and> serving expects p (world s) \<and> replicas disk p (world s) m)"

lemma in_sync_estimate [simp]: "in_sync disk expects (s\<lparr>capacity_estimate := c\<rparr>) k m = in_sync disk expects s k m"
  by (simp add: in_sync_def)

lemma Put_without_repair:
  assumes "writeOperation n E key (\<lambda>con. request con (lib_Put (lib E) key v wm r)) s = (Inr (c, e), s')" "c \<noteq> REMOTE_OTHER_ERROR"
  shows "\<exists>cap. Distributed_Put n E key v wm r s = (Inr c, s'\<lparr>capacity_estimate := cap\<rparr>)"
  using change_estimate_result [of "c = OK \<and> v = ''''" f_add c s'] assms by (auto simp: Distributed_Put_def call_def)

lemma Delete_without_repair:
  assumes "writeOperation n E key (\<lambda>con. request con (lib_Delete (lib E) key v wm)) s = (Inr (c, e), s')" "c \<noteq> REMOTE_OTHER_ERROR"
  shows "\<exists>cap. Distributed_Delete n E key v wm s = (Inr c, s'\<lparr>capacity_estimate := cap\<rparr>)"
  using change_estimate_result [of "c = OK" f_sub c s'] assms by (auto simp: Distributed_Delete_def call_def)

text \<open>
  The replicated namespace refines a single drive: a write to a partition whose drives are
  in sync gives the answer one drive with these contents gives, for every version and write
  mode, and leaves all drives of the partition in sync with the contents that drive would have;
  drives of other partitions are not touched.
\<close>

theorem partition_refines_drive:
  assumes "reliable_drives E disk expects" "in_sync disk expects s k m" "keyToPartition E key s = (Inr k, s)"
  shows "(\<exists>s'. Distributed_Put (Suc (Suc n)) E key v wm r s = (Inr (fst (kv_put key v wm r m)), s')
          \<and> in_sync disk expects s' k (snd (kv_put key v wm r m)) \<and> cluster_map s' = cluster_map s
          \<and> (\<forall>a. a \<in> drive_address ` set (drives (cluster_map s ! k)) \<or> disk (world s') a = disk (world s) a))
     \<and> (\<exists>s'. Distributed_Delete (Suc (Suc n)) E key v wm s = (Inr (fst (kv_delete key v wm m)), s')
          \<and> in_sync disk expects s' k (snd (kv_delete key v wm m)) \<and> cluster_map s' = cluster_map s
          \<and> (\<forall>a. a \<in> drive_address ` set (drives (cluster_map s ! k)) \<or> disk (world s') a = disk (world s) a))"
proof -
  let ?p = "cluster_map s ! k"
  have p: "distinct (map drive_address (drives ?p))" "list_ex (has_status GREEN) (drives ?p)"
    "logid ?p = None \<or> \<not> list_ex (has_status RED) (drives ?p)" "linked ?p s" "serving expects ?p (world s)" "replicas disk ?p (world s) m"
    using assms(2) by (simp_all add: in_sync_def Let_def)
  note w = reliable_drives.write_in_sync [OF assms(1) _ _ assms(3) refl p]
  have c: "fst (kv_put key v wm r m) \<noteq> REMOTE_CLUSTER_VERSION_MISMATCH" "fst (kv_put key v wm r m) \<noteq> REMOTE_OTHER_ERROR"
    "fst (kv_delete key v wm m) \<noteq> REMOTE_CLUSTER_VERSION_MISMATCH" "fst (kv_delete key v wm m) \<noteq> REMOTE_OTHER_ERROR"
    by (auto simp: kv_put_def kv_delete_def split: option.splits)
  have sync: "in_sync disk expects s' k m'"
    if "same_cluster s s'" "linked ?p s'" "expects (world s') = expects (world s)" "replicas disk ?p (world s') m'" for s' m'
    using that p by (simp add: in_sync_def Let_def same_cluster_def serving_def)
  obtain e s1 where "writeOperation (Suc (Suc n)) E key (\<lambda>con. request con (lib_Put (lib E) key v wm r)) s = (Inr (fst (kv_put key v wm r m), e), s1)"
    "same_cluster s s1" "in_sync disk expects s1 k (snd (kv_put key v wm r m))" "\<And>a. a \<in> drive_address ` set (drives ?p) \<or> disk (world s1) a = disk (world s) a"
    using w [OF reliable_drives.carries_out_put [OF assms(1)] c(1), of n] sync by blast
  note put = this
  obtain cap where "Distributed_Put (Suc (Suc n)) E key v wm r s = (Inr (fst (kv_put key v wm r m)), s1\<lparr>capacity_estimate := cap\<rparr>)"
    using Put_without_repair [OF put(1) c(2)] by blast
  with put(2-4) have "\<exists>s'. Distributed_Put (Suc (Suc n)) E key v wm r s = (Inr (fst (kv_put key v wm r m)), s')
          \<and> in_sync disk expects s' k (snd (kv_put key v wm r m)) \<and> cluster_map s' = cluster_map s
          \<and> (\<forall>a. a \<in> drive_address ` set (drives ?p) \<or> disk (world s') a = disk (world s) a)"
    by (intro exI [of _ "s1\<lparr>capacity_estimate := cap\<rparr>"]) (simp add: same_cluster_def)
  moreover
  obtain e s1 where "writeOperation (Suc (Suc n)) E key (\<lambda>con. request con (lib_Delete (lib E) key v wm)) s = (Inr (fst (kv_delete key v wm m), e), s1)"
    "same_cluster s s1" "in_sync disk expects s1 k (snd (kv_delete key v wm m))" "\<And>a. a \<in> drive_address ` set (drives ?p) \<or> disk (world s1) a = disk (world s) a"
    using w [OF reliable_drives.carries_out_delete [OF assms(1)] c(3), of n] sync by blast
  note delete = this
  obtain cap where "Distributed_Delete (Suc (Suc n)) E key v wm s = (Inr (fst (kv_delete key v wm m)), s1\<lparr>capacity_estimate := cap\<rparr>)"
    using Delete_without_repair [OF delete(1) c(4)] by blast
  with delete(2-4) have "\<exists>s'. Distributed_Delete (Suc (Suc n)) E key v wm s = (Inr (fst (kv_delete key v wm m)), s')
          \<and> in_sync disk expects s' k (snd (kv_delete key v wm m)) \<and> cluster_map s' = cluster_map s
          \<and> (\<forall>a. a \<in> drive_address ` set (drives ?p) \<or> disk (world s') a = disk (world s) a)"
    by (intro exI [of _ "s1\<lparr>capacity_estimate := cap\<rparr>"]) (simp add: same_cluster_def)
  ultimately show ?thesis by blast
qed

lemma pair_in_sync:
  "in_sync rack_disk rack_expects (pair_cluster (pair_partition 3 [drive_a GREEN, drive_b YELLOW]) (pair_rack d 3)) 0 (map_of d)"
proof -
  have "sint (3 :: 64 word) = 3" by simp
  then show ?thesis
    using pair_linked(1) [of "pair_partition 3 [drive_a GREEN, drive_b YELLOW]" "pair_partition 3 [drive_a GREEN, drive_b YELLOW]" "pair_rack d 3"]
    by (simp add: in_sync_def pair_defs serving_def replicas_def rack_disk_def rack_expects_def)
qed

theorem partition_refines_drive_witness:
  "\<exists>s'. Distributed_Put (Suc (Suc 0)) (rack_env id) ''/f'' '''' REQUIRE_SAME_VERSION \<lparr>kr_value = ''x'', kr_version = ''v1''\<rparr>
        (pair_cluster (pair_partition 3 [drive_a GREEN, drive_b YELLOW]) (pair_rack [] 3)) = (Inr OK, s')
     \<and> in_sync rack_disk rack_expects s' 0 [''/f'' \<mapsto> \<lparr>kr_value = ''x'', kr_version = ''v1''\<rparr>]"
  using partition_refines_drive [where v = "''''" and wm = REQUIRE_SAME_VERSION and r = "\<lparr>kr_value = ''x'', kr_version = ''v1''\<rparr>" and n = 0,
      OF rack.reliable_drives_axioms [of id] pair_in_sync [of "[]"] pair_key]
  by (auto simp: kv_put_def version_matches_def)

text \<open>
  A read of a key returns what the drives in sync hold, from whichever GREEN drive the
  random choice falls on, provided that it falls on one within \<open>n\<close> draws; drives that are not
  GREEN are not asked.
\<close>

theorem read_any_green_drive:
  assumes "reliable_drives E disk expects" "in_sync disk expects s k m" "keyToPartition E key s = (Inr k, s)"
    "\<exists>j < n. has_status GREEN (drives (cluster_map s ! k) ! (random_number E (drawn s + j) mod length (drives (cluster_map s ! k))))"
  shows "\<exists>s'. Distributed_Get (Suc n) E key s = (Inr (kv_get key m), s') \<and> in_sync disk expects s' k m"
proof -
  let ?p = "cluster_map s ! k"
  have p: "distinct (map drive_address (drives ?p))" "list_ex (has_status GREEN) (drives ?p)"
    "logid ?p = None \<or> \<not> list_ex (has_status RED) (drives ?p)" "linked ?p s" "serving expects ?p (world s)" "replicas disk ?p (world s) m"
    using assms(2) by (simp_all add: in_sync_def Let_def)
  have ne: "drives ?p \<noteq> []" using p(2) by auto
  have get: "\<exists>e. lib_Get (lib E) key a v w = (((fst (kv_get key m), e), snd (kv_get key m)), w)"
    if "expects w a = Some v" "disk w a = m" for a v w
    using reliable_drives.Get_served [OF assms(1) that(1), of key] that(2) by simp
  have "expected_result (fst (kv_get key m))" by (simp add: kv_get_def expected_result_def split: option.splits)
  note c = this
  have part: "?p = part_of (ClusterPart k) s" by (simp add: part_of_def)
  obtain e s' where r: "readOperation (Suc n) E (ClusterPart k) (\<lambda>con. request con (lib_Get (lib E) key)) s =
      (Inr ((fst (kv_get key m), e), snd (kv_get key m)), s')" "same_cluster s s'" "linked ?p s'" "world s' = world s"
    using reliable_drives.read_in_sync [where f = "lib_Get (lib E) key" and m = m, OF assms(1) get c part p(4-6) assms(4) ne] by blast
  have "in_sync disk expects s' k m" using p r(2-4) by (simp add: in_sync_def Let_def same_cluster_def)
  with r(1) assms(3) show ?thesis by (auto simp: Distributed_Get_def cmd_simps simp del: readOperation.simps)
qed

theorem read_any_green_drive_witness:
  "\<exists>s'. Distributed_Get (Suc 2) (rack_env Suc) ''/f''
        (pair_cluster (pair_partition 3 [drive_a GREEN, drive_b YELLOW]) (pair_rack [(''/f'', \<lparr>kr_value = ''x'', kr_version = ''v1''\<rparr>)] 3))
        = (Inr (OK, Some \<lparr>kr_value = ''x'', kr_version = ''v1''\<rparr>), s')"
proof -
  let ?s = "pair_cluster (pair_partition 3 [drive_a GREEN, drive_b YELLOW]) (pair_rack [(''/f'', \<lparr>kr_value = ''x'', kr_version = ''v1''\<rparr>)] 3)"
  have "\<exists>j < 2. has_status GREEN (drives (cluster_map ?s ! 0) ! (random_number (rack_env Suc) (drawn ?s + j) mod length (drives (cluster_map ?s ! 0))))"
    by (intro exI [of _ 1]) (simp add: pair_defs)
  from read_any_green_drive [OF rack.reliable_drives_axioms pair_in_sync pair_key this] show ?thesis
    by (auto simp: kv_get_def)
qed

subsection \<open>A partition without a GREEN drive\<close>

text \<open>Requests, connecting included, leave the client's view of the partitions alone.\<close>

lemma keeps_request [keeps_intros]: "keeps (same_cluster s0) (request c f)" "keeps (same_cluster s0) (run_lib h)"
  by (auto simp: keeps_def request_def run_lib_def same_cluster_def split: prod.splits)

lemma keeps_SetClientClusterVersion [keeps_intros]: "keeps (same_cluster s0) (SetClientClusterVersion c v)"
  by (auto simp: keeps_def SetClientClusterVersion_def same_cluster_def)

lemma keeps_part_at [keeps_intros]: "keeps I (part_at r)"
  by (simp add: keeps_def)

lemma keeps_drive_at [keeps_intros]: "keeps I (drive_at p i)"
  by (simp add: keeps_def drive_at_def)

lemma keeps_driveToConnection [keeps_intros]: "keeps (same_cluster s0) (driveToConnection E p i)"
  unfolding driveToConnection_def
  by (intro keeps_intros) (auto simp: keeps_def same_cluster_def)

lemma keeps_testConnection [keeps_intros]: "keeps (same_cluster s0) (testConnection E p i)"
  unfolding testConnection_def by (intro keeps_intros)

lemma keeps_test_drives [keeps_intros]: "keeps (same_cluster s0) (test_drives E p is)"
proof (induction "is")
  case Nil
  show ?case unfolding test_drives.simps by (rule keeps_basic)
next
  case (Cons i "is")
  then show ?case unfolding test_drives.simps by (intro keeps_intros)
qed

lemma keeps_testPartition [keeps_intros]: "keeps (same_cluster s0) (testPartition E p)"
  unfolding testPartition_def by (intro keeps_intros)

lemma keeps_draw_drive [keeps_intros]: "keeps (same_cluster s0) (draw_drive n E P ds)"
proof (induction n)
  case (Suc n)
  have "keeps (same_cluster s0) (modify (\<lambda>s. s\<lparr>drawn := Suc k\<rparr>))" for k
    by (auto simp: keeps_def same_cluster_def)
  with Suc show ?case unfolding draw_drive.simps Let_def
    by (intro keeps_call keeps_if keeps_basic)
qed (simp add: keeps_def)

lemma testPartition_no_green:
  assumes "partitionid p \<noteq> None" "\<not> list_ex (has_status GREEN) (drives p)" "testPartition E p s = (Inr b, s')"
  shows "\<not> b"
proof -
  have "count_status GREEN p = 0"
    using assms(2) by (auto simp: count_status_def filter_empty_conv list_ex_iff)
  with assms(1,3) show ?thesis by (auto simp: testPartition_def call_Inr split: if_splits)
qed

lemma draw_drive_forever:
  "\<not> list_ex P ds \<Longrightarrow> ds \<noteq> [] \<Longrightarrow> fst (draw_drive n E P ds s) = Inl OutOfFuel"
proof (induction n arbitrary: s)
  case (Suc n)
  have "\<not> P (ds ! (k mod length ds))" for k
    using Suc.prems by (simp add: list_ex_iff)
  with Suc show ?case by (simp add: cmd_simps Let_def)
qed simp

lemma readOperation_forever:
  assumes "\<not> list_ex (has_status GREEN) (drives (part_of r s))" "drives (part_of r s) \<noteq> []"
  shows "fst (readOperation n E r op s) = Inl OutOfFuel"
proof (cases n)
  case (Suc m)
  have "fst (draw_drive m E (has_status GREEN) (drives (part_of r s)) s) = Inl OutOfFuel"
    using draw_drive_forever [OF assms] .
  with Suc show ?thesis by (cases "draw_drive m E (has_status GREEN) (drives (part_of r s)) s") (simp add: cmd_simps)
qed simp

lemma part_of_set_part [simp]: "k < length (cluster_map s) \<Longrightarrow> part_of (ClusterPart k) (set_part_of (ClusterPart k) p s) = p"
  by (simp add: part_of_def set_part_of_def)

lemma same_cluster_part: "same_cluster s s' \<Longrightarrow> part_of r s' = part_of r s"
  by (cases r) (simp_all add: same_cluster_def part_of_def)

text \<open>Only the number of the log drive is assigned.\<close>

lemma assign_logdrive_effect:
  assumes "assign_logdrive n E (ClusterPart k) s = (Inr (), s')" "k < length (cluster_map s)"
  shows "k < length (cluster_map s')" "\<exists>l. part_of (ClusterPart k) s' = (part_of (ClusterPart k) s)\<lparr>logid := l\<rparr>"
proof -
  let ?p = "part_of (ClusterPart k) s"
  have "s' = s \<or> (\<exists>lid s1. draw_drive n E (\<lambda>d. \<not> has_status RED d) (drives (log_partition s)) s = (Inr lid, s1)
      \<and> s' = set_part_of (ClusterPart k) ((part_of (ClusterPart k) s1)\<lparr>logid := Some (int lid)\<rparr>) s1)"
    using assms(1) by (auto simp: assign_logdrive_def cmd_simps call_Inr set_part_def part_of_def split: if_splits)
  moreover have "k < length (cluster_map s') \<and> (\<exists>l. part_of (ClusterPart k) s' = ?p\<lparr>logid := l\<rparr>)" if "s' = s"
  proof -
    have "?p = ?p\<lparr>logid := logid ?p\<rparr>" by simp
    with that assms(2) show ?thesis by blast
  qed
  moreover have "k < length (cluster_map s') \<and> (\<exists>l. part_of (ClusterPart k) s' = ?p\<lparr>logid := l\<rparr>)"
    if "draw_drive n E (\<lambda>d. \<not> has_status RED d) (drives (log_partition s)) s = (Inr lid, s1)"
      "s' = set_part_of (ClusterPart k) ((part_of (ClusterPart k) s1)\<lparr>logid := Some (int lid)\<rparr>) s1" for lid s1
  proof -
    have "same_cluster s s1" using keepsD [OF keeps_draw_drive _ that(1)] same_cluster_refl by blast
    with that(2) assms(2) show ?thesis by (auto simp: same_cluster_def part_of_def set_part_of_def)
  qed
  ultimately show "k < length (cluster_map s')" "\<exists>l. part_of (ClusterPart k) s' = ?p\<lparr>logid := l\<rparr>" by blast+
qed

text \<open>
  C36. The failure of the last GREEN drive of a partition makes the client hang: taking the
  drive out is refused, because the partition would have an empty read quorum, but the drive
  stays marked RED in the client's cluster map. Every later read of the partition draws drives
  at random until it finds a GREEN one, and never does.
\<close>

theorem last_green_drive_lost:
  assumes "k < length (cluster_map s)" "partitionid (cluster_map s ! k) \<noteq> None" "i < length (drives (cluster_map s ! k))"
    "has_status GREEN (drives (cluster_map s ! k) ! i)"
    "\<forall>j < length (drives (cluster_map s ! k)). j = i \<or> \<not> has_status GREEN (drives (cluster_map s ! k) ! j)"
    "disableDrive (Suc n) E (ClusterPart k) i s = (Inr ok, s')"
  shows "\<not> ok \<and> fst (readOperation m E (ClusterPart k) op s') = Inl OutOfFuel"
proof -
  let ?p = "cluster_map s ! k"
  have p: "part_of (ClusterPart k) s = ?p" by (simp add: part_of_def)
  obtain s1 where s1: "assign_logdrive n E (ClusterPart k) s = (Inr (), s1)"
    using assms(3,4,6) p by (auto simp: cmd_simps call_Inr split: if_splits)
  obtain l where l: "k < length (cluster_map s1)" "part_of (ClusterPart k) s1 = ?p\<lparr>logid := l\<rparr>"
    using assign_logdrive_effect [OF s1 assms(1)] p by auto
  let ?q = "bump_version (set_status i RED (?p\<lparr>logid := l\<rparr>))"
  let ?s2 = "set_part_of (ClusterPart k) ?q s1"
  have q: "part_of (ClusterPart k) ?s2 = ?q" using l(1) by simp
  have green: "\<not> list_ex (has_status GREEN) (drives ?q)"
    using assms(3,5) by (auto simp: list_ex_length set_status_def nth_list_update)
  have "partitionid ?q \<noteq> None" using assms(2) by (simp add: set_status_def)
  note test = testPartition_no_green [OF this green]
  have run: "call (testPartition E ?q) (\<lambda>ok. if \<not> ok then ret False else
     call (putPartitionUpdate E (ClusterPart k)) (\<lambda>ok.
       if ok then
         call (modify (\<lambda>s. s\<lparr>connection_map := (connection_map s)(drive_address (drives ?p ! i) := None)\<rparr>)) (\<lambda>_. ret True)
       else
     call (getPartitionUpdate n E (ClusterPart k)) (\<lambda>ok.
       if ok then disableDrive n E (ClusterPart k) i else ret False))) ?s2 = (Inr ok, s')"
    using assms(3,4,6) p s1 l q by (simp add: cmd_simps set_part_def)
  then obtain b where b: "testPartition E ?q ?s2 = (Inr b, s')" "\<not> ok"
    using test unfolding call_Inr by fastforce
  then have "same_cluster ?s2 s'" using keepsD [OF keeps_testPartition] same_cluster_refl by blast
  from same_cluster_part [OF this, of "ClusterPart k"] have "part_of (ClusterPart k) s' = ?q" unfolding q .
  moreover have "drives ?q \<noteq> []" using assms(3) by (auto simp: set_status_def)
  ultimately show ?thesis using readOperation_forever [of "ClusterPart k" s'] green b(2) by simp
qed

theorem last_green_drive_lost_witness:
  "\<not> False \<and> fst (readOperation 9 (rack_env id) (ClusterPart 0) (\<lambda>con. request con (lib_Get rack_library ''/f''))
     (snd (disableDrive (Suc 0) (rack_env id) (ClusterPart 0) 0 (pair_cluster (pair_partition 3 [drive_a GREEN, drive_b RED]) Map.empty))))
     = Inl OutOfFuel"
proof -
  let ?s = "pair_cluster (pair_partition 3 [drive_a GREEN, drive_b RED]) Map.empty"
  have run: "disableDrive (Suc 0) (rack_env id) (ClusterPart 0) 0 ?s = (Inr False, snd (disableDrive (Suc 0) (rack_env id) (ClusterPart 0) 0 ?s))"
    by (simp add: pair_defs cmd_simps part_of_def assign_logdrive_def set_part_def set_part_of_def set_status_def drive_at_def
       testPartition_def count_status_def numeral_2_eq_2 call_def)
  show ?thesis
    by (rule last_green_drive_lost [OF _ _ _ _ _ run]) (auto simp: pair_defs less_Suc_eq numeral_2_eq_2)
qed

subsection \<open>Claiming a cluster version\<close>

definition claimed :: "('w \<Rightarrow> address \<Rightarrow> string \<rightharpoonup> KineticRecord) \<Rightarrow> 64 word \<Rightarrow> 'w \<Rightarrow> address \<Rightarrow> bool" where
  "claimed disk v w a \<longleftrightarrow> (\<exists>r. disk w a (cv_key (uint v)) = Some r \<and> kr_version r = ''yes'')"

lemma wired_world [simp]: "wired (s\<lparr>world := w\<rparr>) = wired s"
  by (simp add: wired_def)

lemma con_address_update [simp]:
  "con_address (cs[c := (cs ! c)\<lparr>client_cluster_version := v\<rparr>] ! j) = con_address (cs ! j)"
  by (cases "j = c"; cases "c < length cs") (simp_all add: not_less list_update_beyond)

lemma wired_driveToConnection:
  assumes "wired s" "i < length (drives p)" "driveToConnection E p (int i) s = (Inr (Some c), s')"
  shows "wired s' \<and> con_address (connections s' ! c) = drive_address (drives p ! i)"
proof (cases "connection_map s (drive_address (drives p ! i))")
  case (Some c')
  with assms show ?thesis by (auto simp: driveToConnection_def cmd_simps wired_def simp del: split_paired_All)
next
  case None
  obtain b w where "lib_connect (lib E) (drive_address (drives p ! i)) (world s) = (b, w)" by fastforce
  with None assms have "s' = s\<lparr>world := w, connections := connections s @ [\<lparr>con_address = drive_address (drives p ! i), client_cluster_version = part_version p\<rparr>],
      connection_map := (connection_map s)(drive_address (drives p ! i) \<mapsto> length (connections s))\<rparr>" "c = length (connections s)"
    by (auto simp: driveToConnection_def cmd_simps run_lib_def call_def split: if_splits)
  with assms(1) show ?thesis by (fastforce simp: wired_def nth_append simp del: split_paired_All)
qed

context reliable_drives
begin

lemma driveToConnection_world:
  "driveToConnection E p i s = (r, s') \<Longrightarrow> world s' = world s"
  by (auto simp: driveToConnection_def drive_at_def call_def run_lib_def connect split: option.splits if_splits)

lemma claim_put:
  assumes "lib_Put (lib E) (cv_key (uint v)) '''' REQUIRE_SAME_VERSION \<lparr>kr_value = x, kr_version = ''yes''\<rparr> a c w = ((OK, e), w')"
  shows "expects w a = Some c \<and> expects w' = expects w \<and> \<not> claimed disk v w a \<and> claimed disk v w' a
     \<and> (\<forall>b u. claimed disk u w b \<longrightarrow> claimed disk u w' b)"
proof -
  have served: "expects w a = Some c" using Put_refused assms by (metis Pair_inject)
  from Put_served [OF this, of "cv_key (uint v)" "''''" REQUIRE_SAME_VERSION "\<lparr>kr_value = x, kr_version = ''yes''\<rparr>"] assms
  have "version_matches (disk w a (cv_key (uint v))) '''' REQUIRE_SAME_VERSION"
    "disk w' = (disk w)(a := (disk w a)(cv_key (uint v) \<mapsto> \<lparr>kr_value = x, kr_version = ''yes''\<rparr>))" "expects w' = expects w"
    by (auto simp: kv_put_def split: if_splits)
  with served show ?thesis
    by (auto simp: claimed_def version_matches_def split: option.splits)
qed

lemma put_update_claims:
  assumes "put_update_to E p is s = (Inr True, s')" "wired s" "\<forall>i \<in> set is. i < length (drives p)"
  shows "wired s' \<and> (\<forall>i \<in> set is. in_use (drives p ! i) \<longrightarrow>
        \<not> claimed disk (cluster_version p) (world s) (drive_address (drives p ! i))
        \<and> claimed disk (cluster_version p) (world s') (drive_address (drives p ! i)))
     \<and> (\<forall>b u. claimed disk u (world s) b \<longrightarrow> claimed disk u (world s') b)"
  using assms
proof (induction "is" arbitrary: s)
  case (Cons i "is")
  let ?a = "drive_address (drives p ! i)"
  show ?case
  proof (cases "in_use (drives p ! i)")
    case False
    with Cons show ?thesis by auto
  next
    case True
    let ?put = "lib_Put (lib E) (cv_key (uint (cluster_version p))) '''' REQUIRE_SAME_VERSION \<lparr>kr_value = part_SerializeAsString E p, kr_version = ''yes''\<rparr>"
    obtain c s1 where s1: "driveToConnection E p (int i) s = (Inr (Some c), s1)"
      using Cons.prems(1) True by (auto simp: call_Inr split: option.splits)
    have w1: "wired s1" "con_address (connections s1 ! c) = ?a" "world s1 = world s"
      using wired_driveToConnection [OF Cons.prems(2) _ s1] driveToConnection_world [OF s1] Cons.prems(3) by simp_all
    let ?v = "client_cluster_version (connections s1 ! c)"
    have con: "connections s1 ! c = \<lparr>con_address = ?a, client_cluster_version = ?v\<rparr>" using w1(2) by (metis con_object.surjective old.unit.exhaust)
    obtain st e w2 where put: "?put ?a ?v (world s) = ((st, e), w2)" by (metis prod.exhaust)
    have ok: "st = OK" using Cons.prems(1) True s1 request_apply [OF con, of ?put] put w1(3)
      by (auto simp: cmd_simps split: if_splits)
    note c = claim_put [OF put [unfolded ok]]
    obtain e' w3 where set: "lib_SetClusterVersion (lib E) (part_version p) ?a ?v w2 = ((OK, e'), w3)" "disk w3 = disk w2"
      using SetClusterVersion_served [of w2 ?a ?v "part_version p"] c by auto
    let ?s3 = "s1\<lparr>world := w3, connections := (connections s1)[c := (connections s1 ! c)\<lparr>client_cluster_version := part_version p\<rparr>]\<rparr>"
    have rest: "put_update_to E p is ?s3 = (Inr True, s')"
      using Cons.prems(1) True s1 request_apply [OF con, of ?put] put w1(3) ok set(1)
        request_apply [of "s1\<lparr>world := w2\<rparr>" c ?a ?v "lib_SetClusterVersion (lib E) (part_version p)"] con
      by (simp add: cmd_simps SetClientClusterVersion_def)
    have "wired ?s3" using w1(1) by (simp add: wired_def del: split_paired_All)
    from Cons.IH [OF rest this] Cons.prems(3)
    have IH: "wired s'" "\<And>i. i \<in> set is \<Longrightarrow> in_use (drives p ! i) \<Longrightarrow>
        \<not> claimed disk (cluster_version p) w3 (drive_address (drives p ! i)) \<and> claimed disk (cluster_version p) (world s') (drive_address (drives p ! i))"
      "\<And>b u. claimed disk u w3 b \<Longrightarrow> claimed disk u (world s') b"
      by (simp_all del: split_paired_All)
    have same: "claimed disk u w3 b = claimed disk u w2 b" for u b using set(2) by (simp add: claimed_def)
    show ?thesis using IH c unfolding same list.set by blast
  qed
qed simp

end

text \<open>
  C28. A cluster version belongs to one client: when a client has published its view of a
  partition, no other client can publish a view under the same cluster version, as long as the
  two views have a drive in use in common and its record under this version has stayed as the
  first client left it. What
  happens in between does not matter, nor which versions the connections of the two clients claim.
  Clients whose views have no drive in common do not hinder each other.
\<close>

theorem cluster_version_claimed_once:
  assumes "reliable_drives E disk expects" "wired s" "wired t"
    "putPartitionUpdate E r s = (Inr True, s')"
    "partitionid (part_of r s) \<noteq> None" "partitionid (part_of q t) \<noteq> None"
    "cluster_version (part_of r s) = v" "cluster_version (part_of q t) = v"
    "i < length (drives (part_of r s))" "in_use (drives (part_of r s) ! i)" "drive_address (drives (part_of r s) ! i) = a"
    "j < length (drives (part_of q t))" "in_use (drives (part_of q t) ! j)" "drive_address (drives (part_of q t) ! j) = a"
    "disk (world t) a (cv_key (uint v)) = disk (world s') a (cv_key (uint v))"
  shows "fst (putPartitionUpdate E q t) \<noteq> Inr True"
proof
  let ?p = "part_of r s" and ?q = "part_of q t"
  assume "fst (putPartitionUpdate E q t) = Inr True"
  then obtain t' where t': "putPartitionUpdate E q t = (Inr True, t')" by (cases "putPartitionUpdate E q t") simp
  have puts: "put_update_to E ?p [0 ..< length (drives ?p)] s = (Inr True, s')"
    "put_update_to E ?q [0 ..< length (drives ?q)] t = (Inr True, t')"
    using assms(4-6) t' by (auto simp: putPartitionUpdate_def cmd_simps)
  have "claimed disk (cluster_version ?p) (world s') (drive_address (drives ?p ! i))"
    using reliable_drives.put_update_claims [OF assms(1) puts(1) assms(2)] assms(9,10) by simp
  moreover have "\<not> claimed disk (cluster_version ?q) (world t) (drive_address (drives ?q ! j))"
    using reliable_drives.put_update_claims [OF assms(1) puts(2) assms(3)] assms(12,13) by simp
  ultimately show False using assms(7,8,11,14,15) by (simp add: claimed_def)
qed

theorem cluster_version_claimed_once_witness:
  "fst (putPartitionUpdate (rack_env id) (ClusterPart 0)
     ((pair_cluster (pair_partition 4 [drive_a RED, drive_b GREEN]) (pair_rack [] 4))\<lparr>world :=
        world (snd (putPartitionUpdate (rack_env id) (ClusterPart 0) (pair_cluster (pair_partition 4 [drive_a GREEN, drive_b GREEN]) (pair_rack [] 4))))\<rparr>))
     \<noteq> Inr True"
proof (rule cluster_version_claimed_once [where i = 1 and j = 1, OF rack.reliable_drives_axioms pair_linked(2)])
  let ?s = "pair_cluster (pair_partition 4 [drive_a GREEN, drive_b GREEN]) (pair_rack [] 4)"
  have "fst (putPartitionUpdate (rack_env id) (ClusterPart 0) ?s) = Inr True"
    by (simp add: putPartitionUpdate_def cmd_simps part_of_def pair_defs numeral_2_eq_2 driveToConnection_def drive_at_def run_lib_def call_def
       rack_library_def request_def served_def with_version_def drive_connection_def version_matches_def SetClientClusterVersion_def)
  then show "putPartitionUpdate (rack_env id) (ClusterPart 0) ?s = (Inr True, snd (putPartitionUpdate (rack_env id) (ClusterPart 0) ?s))"
    by (metis prod.collapse)
qed (simp_all add: part_of_def pair_defs wired_def)

end
