(* ===== verification/Distributed_Listing.thy ===== *)
theory Distributed_Listing
  imports Distributed_Props
begin

section \<open>Listing a directory of the replicated namespace\<close>

text \<open>
  The entries of a directory are spread over neighbouring partitions, and a range request asks
  these partitions one after the other. This theory shows that it asks the right ones.
\<close>

subsection \<open>Where the entries are\<close>

lemma find_first_bar: "CHR ''|'' \<notin> set ino \<Longrightarrow> find_first (\<lambda>c. c = CHR ''|'') (ino @ CHR ''|'' # name) = Some (length ino)"
  by (induction ino) auto

lemma key_hash_directory:
  "CHR ''|'' \<notin> set ino \<Longrightarrow> key_hash h c (ino @ ''|'') = h ino"
  using find_first_bar [of ino "[]"] by (simp add: key_hash_def)

lemma key_hash_entry:
  assumes "CHR ''|'' \<notin> set ino" "name \<noteq> []" "0 < c" "c < 2 ^ 31" "unat (h ino) + c \<le> 2 ^ 64"
  shows "unat (key_hash h (int c) (ino @ ''|'' @ name)) = unat (h ino) + unat (h (ino @ ''|'' @ name)) mod c"
proof -
  have "unat (word_of_int (int c) :: 64 word) = c" using assms(4) by (simp add: unat_of_nat take_bit_nat_eq_self_iff)
  then have m: "unat (h (ino @ ''|'' @ name) mod word_of_int (int c)) = unat (h (ino @ ''|'' @ name)) mod c"
    by (simp add: unat_mod_distrib)
  have "unat (h (ino @ ''|'' @ name)) mod c < c" using assms(3) by simp
  with assms(5) m have "unat (h ino) + unat (h (ino @ ''|'' @ name) mod word_of_int (int c)) < 2 ^ LENGTH(64)" by simp
  then have "unat (h ino + h (ino @ ''|'' @ name) mod word_of_int (int c)) = unat (h ino) + unat (h (ino @ ''|'' @ name)) mod c"
    using m unat_add_lem [THEN iffD1] by metis
  moreover have "key_hash h (int c) (ino @ ''|'' @ name) = h ino + h (ino @ ''|'' @ name) mod word_of_int (int c)"
    using find_first_bar [OF assms(1), of name] assms(2) by (simp add: key_hash_def)
  ultimately show ?thesis by simp
qed

lemma sorted_insert_facts [simp]: "set (sorted_insert k xs) = insert k (set xs)" "length (sorted_insert k xs) = Suc (length xs)"
  by (induction xs) auto

lemma std_sort_facts [simp]: "set (std_sort ks) = set ks" "length (std_sort ks) = length ks"
  by (induction ks) (simp_all add: std_sort_def)

subsection \<open>Asking the partitions in turn\<close>

definition all_in_sync :: "('w \<Rightarrow> address \<Rightarrow> string \<rightharpoonup> KineticRecord) \<Rightarrow> ('w \<Rightarrow> address \<Rightarrow> int option)
    \<Rightarrow> 'w cluster \<Rightarrow> (nat \<Rightarrow> string \<rightharpoonup> KineticRecord) \<Rightarrow> bool" where
  "all_in_sync disk expects s M \<longleftrightarrow>
     (\<forall>k < length (cluster_map s). in_sync disk expects s k (M k) \<and> partitionid (cluster_map s ! k) = Some (int k))"

text \<open>A GREEN drive is drawn within \<open>n\<close> draws, whenever the drawing starts.\<close>

definition fair :: "'w cluster_env \<Rightarrow> Partition list \<Rightarrow> nat \<Rightarrow> bool" where
  "fair E cmap n \<longleftrightarrow> (\<forall>p \<in> set cmap. \<forall>d. \<exists>j < n. has_status GREEN (drives p ! (random_number E (d + j) mod length (drives p))))"

context reliable_drives
begin

lemma range_step:
  assumes "all_in_sync disk expects s M" "fair E (cluster_map s) n" "k < length (cluster_map s)" "copied_partition s = cluster_map s ! k"
  shows "\<exists>e s' ks. readOperation (Suc n) E CopyPart (\<lambda>con. request con (lib_GetKeyRange (lib E) a False b False False m)) s
       = (Inr ((OK, e), Some ks), s') \<and> key_range (\<lambda>x. M k x \<noteq> None) key_less a b m ks
     \<and> same_cluster s s' \<and> all_in_sync disk expects s' M"
proof -
  let ?p = "cluster_map s ! k"
  have k: "in_sync disk expects s j (M j)" "partitionid (cluster_map s ! j) = Some (int j)" if "j < length (cluster_map s)" for j
    using assms(1) that by (simp_all add: all_in_sync_def)
  have p: "list_ex (has_status GREEN) (drives ?p)" "linked ?p s" "serving expects ?p (world s)" "replicas disk ?p (world s) (M k)"
    using k(1) [OF assms(3)] by (simp_all add: in_sync_def Let_def)
  have luck: "\<exists>j < n. has_status GREEN (drives ?p ! (random_number E (drawn s + j) mod length (drives ?p)))"
    using assms(2,3) by (simp add: fair_def)
  have ne: "drives ?p \<noteq> []" using p(1) by auto
  have part: "?p = part_of CopyPart s" using assms(4) by (simp add: part_of_def)
  have exact: "\<exists>e. lib_GetKeyRange (lib E) a False b False False m c v w = (((OK, e), Some ks), w)"
    if "expects w c = Some v" "disk w c = M k" "key_range (\<lambda>x. M k x \<noteq> None) key_less a b m ks" for c v w ks
    using GetKeyRange_served [OF that(1), of a b m] that(2,3) key_range_unique by fastforce
  obtain i where i: "i < length (drives ?p)" "has_status GREEN (drives ?p ! i)" using p(1) by (auto simp: list_ex_length)
  then have "expects (world s) (drive_address (drives ?p ! i)) = Some (part_version ?p)" "disk (world s) (drive_address (drives ?p ! i)) = M k"
    using p(3,4) by (simp_all add: serving_def replicas_def)
  from GetKeyRange_served [OF this(1), of a b m] this(2) obtain ks where ks: "key_range (\<lambda>x. M k x \<noteq> None) key_less a b m ks" by auto
  have ok: "expected_result OK" by (simp add: expected_result_def)
  obtain e s' where r: "readOperation (Suc n) E CopyPart (\<lambda>con. request con (lib_GetKeyRange (lib E) a False b False False m)) s = (Inr ((OK, e), Some ks), s')"
    "same_cluster s s'" "world s' = world s" "\<And>q. linked q s \<Longrightarrow> serving expects q (world s) \<Longrightarrow> linked q s'"
    using read_in_sync [where f = "lib_GetKeyRange (lib E) a False b False False m", OF exact [OF _ _ ks] ok part p(2-4) luck ne] by blast
  have "all_in_sync disk expects s' M"
    using k r(2-4) by (auto simp: all_in_sync_def in_sync_def Let_def same_cluster_def)
  with r(1,2) ks show ?thesis by blast
qed

lemma range_loop_result:
  assumes "all_in_sync disk expects s M" "fair E (cluster_map s) n" "k < length (cluster_map s)" "copied_partition s = cluster_map s ! k"
    "int (length (cluster_map s)) < 2 ^ 31"
  shows "\<exists>rs s'. range_loop (Suc n) E a b m c keys s = (Inr (OK, take m (std_sort (keys @ concat rs))), s') \<and> length rs = c
     \<and> (\<forall>j < c. key_range (\<lambda>x. M ((k + j) mod length (cluster_map s)) x \<noteq> None) key_less a b m (rs ! j))"
  using assms
proof (induction c arbitrary: s k keys)
  case 0
  then show ?case by (simp add: Let_def)
next
  case (Suc c)
  let ?N = "length (cluster_map s)" and ?k = "Suc k mod length (cluster_map s)"
  obtain e s1 ks where r: "readOperation (Suc n) E CopyPart (\<lambda>con. request con (lib_GetKeyRange (lib E) a False b False False m)) s
       = (Inr ((OK, e), Some ks), s1)" "key_range (\<lambda>x. M k x \<noteq> None) key_less a b m ks" "same_cluster s s1" "all_in_sync disk expects s1 M"
    using range_step [OF Suc.prems(1-4)] by blast
  let ?s2 = "set_part_of CopyPart (cluster_map s ! ?k) s1"
  have cmap: "cluster_map s1 = cluster_map s" "cluster_map ?s2 = cluster_map s" "copied_partition s1 = cluster_map s ! k"
    using r(3) Suc.prems(4) by (simp_all add: same_cluster_def set_part_of_def)
  have pid: "partitionid (cluster_map s ! k) = Some (int k)" using Suc.prems(1,3) by (simp add: all_in_sync_def)
  have "(1 + int k) mod 2 ^ 64 = int (Suc k)" using Suc.prems(3,5) by simp
  then have idx: "nat ((1 + int k) mod 18446744073709551616) = Suc k" "nat (1 + int k) = Suc k" by simp_all
  have sync: "all_in_sync disk expects ?s2 M"
    using r(4) by (simp add: all_in_sync_def in_sync_def set_part_of_def linked_def)
  have k: "?k < ?N" using Suc.prems(3) by (intro mod_less_divisor) auto
  have copied: "copied_partition ?s2 = cluster_map ?s2 ! ?k" by (simp add: set_part_of_def cmap)
  have step: "range_loop (Suc n) E a b m (Suc c) keys s = range_loop (Suc n) E a b m c (keys @ ks) ?s2"
    using r(1) pid cmap idx by (simp add: cmd_simps deref_def Let_def set_part_def part_of_def add.commute del: readOperation.simps range_loop.simps(1))
  have fair2: "fair E (cluster_map ?s2) n" using Suc.prems(2) cmap by simp
  obtain rs s' where IH: "range_loop (Suc n) E a b m c (keys @ ks) ?s2 = (Inr (OK, take m (std_sort ((keys @ ks) @ concat rs))), s')" "length rs = c"
    "\<And>j. j < c \<Longrightarrow> key_range (\<lambda>x. M ((?k + j) mod ?N) x \<noteq> None) key_less a b m (rs ! j)"
    using Suc.IH [OF sync fair2 _ copied] k cmap Suc.prems(5) by fastforce
  have "key_range (\<lambda>x. M ((k + j) mod ?N) x \<noteq> None) key_less a b m ((ks # rs) ! j)" if "j < Suc c" for j
  proof (cases j)
    case 0
    with r(2) Suc.prems(3) show ?thesis by simp
  next
    case (Suc l)
    with IH(3) [of l] that show ?thesis by (simp add: mod_add_left_eq)
  qed
  with step IH(1,2) show ?case by (intro exI [of _ "ks # rs"] exI [of _ s']) simp
qed

end

lemma key_range_complete:
  assumes "key_range P key_less a b m ks" "length ks < m" "P x" "key_less a x" "key_less x b"
  shows "x \<in> set ks"
  using assms by (auto simp: key_range_def)

text \<open>
  C21. Nothing is missed when a directory is listed: a range request that starts at the key of
  the directory and brings fewer keys than it asked for brings every entry of the directory
  that is stored in the partition its key hashes to, however the names are spread.
\<close>

theorem listing_complete:
  assumes "reliable_drives E disk expects" "all_in_sync disk expects s M" "fair E (cluster_map s) n"
    "cluster_map s \<noteq> []" "int (length (cluster_map s)) < 2 ^ 31"
    "direntry_clustersize s = int c" "0 < c" "c < 2 ^ 31" "unat (std_hash E ino) + c \<le> 2 ^ 64" "CHR ''|'' \<notin> set ino"
  shows "\<exists>keys s'. Distributed_GetKeyRange (Suc n) E (ino @ ''|'') end_key m s = (Inr (OK, keys), s')
     \<and> (m \<le> length keys \<or> {key. \<exists>name. key = ino @ ''|'' @ name \<and> name \<noteq> [] \<and> key_less key end_key
          \<and> M (unat (key_hash (std_hash E) (int c) key) mod length (cluster_map s)) key \<noteq> None} \<subseteq> set keys)"
proof -
  let ?N = "length (cluster_map s)" and ?start = "ino @ ''|''"
  let ?k = "unat (std_hash E ino) mod ?N"
  let ?s1 = "set_part_of CopyPart (cluster_map s ! ?k) s"
  have k: "?k < ?N" using assms(4) by simp
  have key: "keyToPartition E ?start s = (Inr ?k, s)"
    using find_first_bar [OF assms(10), of "[]"] key_hash_directory [OF assms(10), of "std_hash E"] assms(4)
    by (simp add: keyToPartition_def cmd_simps)
  have s1: "all_in_sync disk expects ?s1 M" "cluster_map ?s1 = cluster_map s" "copied_partition ?s1 = cluster_map ?s1 ! ?k"
    using assms(2) by (simp_all add: all_in_sync_def in_sync_def set_part_of_def linked_def)
  obtain rs s' where r: "range_loop (Suc n) E ?start end_key m c [] ?s1 = (Inr (OK, take m (std_sort (concat rs))), s')" "length rs = c"
    "\<And>j. j < c \<Longrightarrow> key_range (\<lambda>x. M ((?k + j) mod ?N) x \<noteq> None) key_less ?start end_key m (rs ! j)"
    using reliable_drives.range_loop_result [OF assms(1) s1(1) _ _ s1(3), of n ?start end_key m c "[]"] s1(2) assms(3,5) k by auto
  have run: "Distributed_GetKeyRange (Suc n) E ?start end_key m s = (Inr (OK, take m (std_sort (concat rs))), s')"
    using key r(1) assms(6) by (simp add: Distributed_GetKeyRange_def cmd_simps set_part_def part_of_def set_part_of_def del: range_loop.simps)
  have "key \<in> set (concat rs)" if "length (concat rs) < m" "key = ino @ ''|'' @ name" "name \<noteq> []" "key_less key end_key"
    "M (unat (key_hash (std_hash E) (int c) key) mod ?N) key \<noteq> None" for key name
  proof -
    let ?j = "unat (std_hash E key) mod c"
    have j: "?j < c" using assms(7) by simp
    have "unat (key_hash (std_hash E) (int c) key) mod ?N = (?k + ?j) mod ?N"
      using key_hash_entry [where h = "std_hash E", OF assms(10) that(3) assms(7-9)] that(2) by (simp add: mod_add_left_eq)
    moreover have "length (rs ! ?j) \<le> length (concat rs)"
      using j r(2) by (simp add: length_concat) (metis elem_le_sum_list length_map nth_map)
    moreover have "key_less ?start key" using key_less_append [OF that(3), of ?start] that(2) by simp
    ultimately have "key \<in> set (rs ! ?j)"
      using key_range_complete [OF r(3) [OF j]] that(1,4,5) by simp
    with j r(2) show ?thesis by auto
  qed
  then show ?thesis using run by (cases "length (concat rs) < m") auto
qed

definition spread_cluster :: "rack cluster" where
  "spread_cluster = cluster_new
     [pair_partition 3 [drive_a GREEN], (pair_partition 3 [drive_b GREEN])\<lparr>partitionid := Some 1\<rparr>]
     \<lparr>cluster_version = 0, partitionid = None, drives = [], logid = None\<rparr> 2 no_capacity (Finite 0)
     [(''a'', 8123) \<mapsto> ([(''7|x'', \<lparr>kr_value = '''', kr_version = ''v''\<rparr>)], 3), (''b'', 8123) \<mapsto> ([], 3)]"

lemma spread_in_sync:
  "all_in_sync rack_disk rack_expects spread_cluster (\<lambda>k. if k = 0 then [''7|x'' \<mapsto> \<lparr>kr_value = '''', kr_version = ''v''\<rparr>] else Map.empty)"
proof -
  have "linked p spread_cluster" for p by (simp add: linked_def spread_cluster_def cluster_new_def)
  then show ?thesis
    by (simp add: all_in_sync_def in_sync_def spread_cluster_def pair_defs serving_def replicas_def rack_disk_def rack_expects_def
        less_Suc_eq numeral_2_eq_2)
qed

lemma spread_listed:
  "unat (key_hash (std_hash (rack_env id)) (int 2) ''7|x'') mod length (cluster_map spread_cluster) = 0"
  by (simp add: key_hash_def rack_env_def spread_cluster_def cluster_new_def flip: numeral_2_eq_2)

theorem listing_complete_witness:
  "\<exists>keys s'. Distributed_GetKeyRange (Suc 1) (rack_env id) (''7'' @ ''|'') ''7|~'' 100 spread_cluster = (Inr (OK, keys), s')
     \<and> (100 \<le> length keys \<or> ''7|x'' \<in> set keys)"
proof -
  have "\<exists>keys s'. Distributed_GetKeyRange (Suc 1) (rack_env id) (''7'' @ ''|'') ''7|~'' 100 spread_cluster = (Inr (OK, keys), s')
     \<and> (100 \<le> length keys \<or> {key. \<exists>name. key = ''7'' @ ''|'' @ name \<and> name \<noteq> [] \<and> key_less key ''7|~''
          \<and> (\<lambda>k. if k = 0 then [''7|x'' \<mapsto> \<lparr>kr_value = '''', kr_version = ''v''\<rparr>] else Map.empty)
               (unat (key_hash (std_hash (rack_env id)) (int 2) key) mod length (cluster_map spread_cluster)) key \<noteq> None} \<subseteq> set keys)"
    by (rule listing_complete [OF rack.reliable_drives_axioms spread_in_sync])
       (simp_all add: fair_def spread_cluster_def cluster_new_def pair_partition_def drive_a_def drive_b_def rack_env_def)
  moreover have "''7|x'' \<in> {key. \<exists>name. key = ''7'' @ ''|'' @ name \<and> name \<noteq> [] \<and> key_less key ''7|~''
          \<and> (\<lambda>k. if k = 0 then [''7|x'' \<mapsto> \<lparr>kr_value = '''', kr_version = ''v''\<rparr>] else Map.empty)
               (unat (key_hash (std_hash (rack_env id)) (int 2) key) mod length (cluster_map spread_cluster)) key \<noteq> None}"
    using spread_listed by simp
  ultimately show ?thesis by blast
qed

lemma key_range_subset: "key_range P key_less a b m ks \<Longrightarrow> x \<in> set ks \<Longrightarrow> P x"
  by (auto simp: key_range_def dest: in_set_takeD)

lemma keyToPartition_entry:
  assumes "CHR ''|'' \<notin> set ino" "name \<noteq> []" "cluster_map s \<noteq> []" "direntry_clustersize s = int c" "0 < c" "c < 2 ^ 31"
  shows "keyToPartition E (ino @ ''|'' @ name) s = (Inr (unat (key_hash (std_hash E) (int c) (ino @ ''|'' @ name)) mod length (cluster_map s)), s)"
proof -
  have "unat (word_of_int (int c) :: 64 word) = c" using assms(6) by (simp add: unat_of_nat take_bit_nat_eq_self_iff)
  then have "word_of_int (int c) \<noteq> (0 :: 64 word)" using assms(5) by fastforce
  with find_first_bar [OF assms(1), of name] assms(2-4) show ?thesis by (simp add: keyToPartition_def cmd_simps)
qed

lemma shifted_window_misses:
  fixes x :: nat
  assumes "0 < o'" "o' + c \<le> N" "j < c" "x < N"
  shows "(x + o' + j) mod N \<noteq> x"
proof
  assume eq: "(x + o' + j) mod N = x"
  show False
  proof (cases "x + o' + j < N")
    case False
    then have "(x + o' + j) mod N = x + o' + j - N" using assms by (simp add: le_mod_geq)
    with eq assms False show False by linarith
  qed (use eq assms(1) in simp)
qed

text \<open>
  C37. A listing that takes more than one request can miss entries: \<^verbatim>\<open>hflat_readdir\<close> continues at
  the last key it got, and the range request then starts at the partition this key hashes to
  instead of the first partition of the directory. If there are enough partitions, the entries
  in the first partition of the directory are not among the keys returned.
\<close>

theorem continued_listing_misses:
  assumes "reliable_drives E disk expects" "all_in_sync disk expects s M" "fair E (cluster_map s) n"
    "cluster_map s \<noteq> []" "int (length (cluster_map s)) < 2 ^ 31"
    "direntry_clustersize s = int c" "0 < c" "c < 2 ^ 31" "unat (std_hash E ino) + c \<le> 2 ^ 64" "CHR ''|'' \<notin> set ino" "name \<noteq> []"
    "0 < unat (std_hash E (ino @ ''|'' @ name)) mod c" "unat (std_hash E (ino @ ''|'' @ name)) mod c + c \<le> length (cluster_map s)"
    "\<forall>k. k = unat (std_hash E ino) mod length (cluster_map s) \<or> M k key = None"
  shows "\<exists>keys s'. Distributed_GetKeyRange (Suc n) E (ino @ ''|'' @ name) end_key m s = (Inr (OK, keys), s') \<and> key \<notin> set keys"
proof -
  let ?N = "length (cluster_map s)" and ?start = "ino @ ''|'' @ name"
  let ?o = "unat (std_hash E ?start) mod c"
  let ?k = "unat (key_hash (std_hash E) (int c) ?start) mod ?N"
  let ?s1 = "set_part_of CopyPart (cluster_map s ! ?k) s"
  have k: "?k < ?N" using assms(4) by simp
  have start: "?k = (unat (std_hash E ino) mod ?N + ?o) mod ?N"
    using key_hash_entry [where h = "std_hash E", OF assms(10,11,7-9)] by (simp add: mod_add_left_eq)
  note key = keyToPartition_entry [OF assms(10,11,4,6-8)]
  have s1: "all_in_sync disk expects ?s1 M" "cluster_map ?s1 = cluster_map s" "copied_partition ?s1 = cluster_map ?s1 ! ?k"
    using assms(2) by (simp_all add: all_in_sync_def in_sync_def set_part_of_def linked_def)
  obtain rs s' where r: "range_loop (Suc n) E ?start end_key m c [] ?s1 = (Inr (OK, take m (std_sort (concat rs))), s')" "length rs = c"
    "\<And>j. j < c \<Longrightarrow> key_range (\<lambda>x. M ((?k + j) mod ?N) x \<noteq> None) key_less ?start end_key m (rs ! j)"
    using reliable_drives.range_loop_result [OF assms(1) s1(1) _ _ s1(3), of n ?start end_key m c "[]"] s1(2) assms(3,5) k by auto
  have run: "Distributed_GetKeyRange (Suc n) E ?start end_key m s = (Inr (OK, take m (std_sort (concat rs))), s')"
    using key [of E] r(1) assms(6) by (simp add: Distributed_GetKeyRange_def cmd_simps set_part_def part_of_def set_part_of_def del: range_loop.simps append.simps)
  have "key \<notin> set (rs ! j)" if "j < c" for j
  proof
    assume "key \<in> set (rs ! j)"
    from key_range_subset [OF r(3) [OF that] this] have "M ((?k + j) mod ?N) key \<noteq> None" .
    then have "(?k + j) mod ?N = unat (std_hash E ino) mod ?N" using spec [OF assms(14), of "(?k + j) mod ?N"] by satx
    moreover have "(?k + j) mod ?N = (unat (std_hash E ino) mod ?N + ?o + j) mod ?N" unfolding start by (rule mod_add_left_eq)
    ultimately show False using shifted_window_misses [OF assms(12,13) that, of "unat (std_hash E ino) mod ?N"] assms(4) by simp
  qed
  then have "key \<notin> set (concat rs)" using r(2) by (auto simp: set_conv_nth [of rs])
  then show ?thesis using run by (auto dest: in_set_takeD)
qed

definition wide_cluster :: "rack cluster" where
  "wide_cluster = cluster_new
     [pair_partition 3 [drive_a GREEN], (pair_partition 3 [drive_b GREEN])\<lparr>partitionid := Some 1\<rparr>,
      (pair_partition 3 [(drive_b GREEN)\<lparr>drive_port := 8124\<rparr>])\<lparr>partitionid := Some 2\<rparr>]
     \<lparr>cluster_version = 0, partitionid = None, drives = [], logid = None\<rparr> 2 no_capacity (Finite 0)
     [(''a'', 8123) \<mapsto> ([], 3), (''b'', 8123) \<mapsto> ([(''7|y'', \<lparr>kr_value = '''', kr_version = ''v''\<rparr>)], 3),
      (''b'', 8124) \<mapsto> ([(''7|x'', \<lparr>kr_value = '''', kr_version = ''v''\<rparr>)], 3)]"

definition wide_contents :: "nat \<Rightarrow> string \<rightharpoonup> KineticRecord" where
  "wide_contents k = (if k = 1 then [''7|y'' \<mapsto> \<lparr>kr_value = '''', kr_version = ''v''\<rparr>]
     else if k = 2 then [''7|x'' \<mapsto> \<lparr>kr_value = '''', kr_version = ''v''\<rparr>] else Map.empty)"

lemma wide_in_sync: "all_in_sync rack_disk rack_expects wide_cluster wide_contents"
proof -
  have "linked p wide_cluster" for p by (simp add: linked_def wide_cluster_def cluster_new_def)
  then show ?thesis
    by (simp add: all_in_sync_def in_sync_def wide_cluster_def pair_defs serving_def replicas_def rack_disk_def rack_expects_def
        wide_contents_def less_Suc_eq numeral_3_eq_3)
qed

theorem continued_listing_misses_witness:
  "\<exists>keys s'. Distributed_GetKeyRange (Suc 1) (rack_env id) (''7'' @ ''|'' @ ''x'') ''7|~'' 100 wide_cluster = (Inr (OK, keys), s')
     \<and> ''7|y'' \<notin> set keys"
proof -
  have three: "(55 :: nat) mod Suc (Suc (Suc 0)) = 1" by (simp flip: numeral_3_eq_3)
  show ?thesis
    by (rule continued_listing_misses [OF rack.reliable_drives_axioms wide_in_sync])
       (auto simp: fair_def wide_cluster_def cluster_new_def pair_partition_def drive_a_def drive_b_def rack_env_def wide_contents_def three)
qed

end
