(* ===== verification/Distributed_Trace.thy ===== *)
theory Distributed_Trace
  imports Distributed_Listing
begin

section \<open>A cluster in sync is one store\<close>

text \<open>
  The namespace spreads its keys over the partitions of a cluster and keeps every key on all
  drives of its partition. This theory shows that sequences of operations do not notice: as
  long as the drives are in sync, the cluster gives the answers of a single drive.
\<close>

subsection \<open>The operations of a store\<close>

datatype kv_op =
    Op_Put string string WriteMode KineticRecord
  | Op_Delete string string WriteMode
  | Op_Get string
  | Op_GetVersion string

datatype kv_answer =
    Ans_Status StatusCode
  | Ans_Record StatusCode "KineticRecord option"
  | Ans_Version StatusCode "string option"

fun kv_step :: "kv_op \<Rightarrow> (string \<rightharpoonup> KineticRecord) \<Rightarrow> kv_answer \<times> (string \<rightharpoonup> KineticRecord)" where
  "kv_step (Op_Put key v wm r) m = (Ans_Status (fst (kv_put key v wm r m)), snd (kv_put key v wm r m))"
| "kv_step (Op_Delete key v wm) m = (Ans_Status (fst (kv_delete key v wm m)), snd (kv_delete key v wm m))"
| "kv_step (Op_Get key) m = (Ans_Record (fst (kv_get key m)) (snd (kv_get key m)), m)"
| "kv_step (Op_GetVersion key) m = (Ans_Version (fst (kv_get key m)) (map_option kr_version (m key)), m)"

fun kv_run :: "kv_op list \<Rightarrow> (string \<rightharpoonup> KineticRecord) \<Rightarrow> kv_answer list \<times> (string \<rightharpoonup> KineticRecord)" where
  "kv_run [] m = ([], m)"
| "kv_run (x # xs) m = (case kv_step x m of (a, m1) \<Rightarrow> case kv_run xs m1 of (as, m2) \<Rightarrow> (a # as, m2))"

fun cluster_step :: "nat \<Rightarrow> 'w cluster_env \<Rightarrow> kv_op \<Rightarrow> ('w, kv_answer) dk" where
  "cluster_step n E (Op_Put key v wm r) = call (Distributed_Put n E key v wm r) (\<lambda>c. ret (Ans_Status c))"
| "cluster_step n E (Op_Delete key v wm) = call (Distributed_Delete n E key v wm) (\<lambda>c. ret (Ans_Status c))"
| "cluster_step n E (Op_Get key) = call (Distributed_Get n E key) (\<lambda>(c, r). ret (Ans_Record c r))"
| "cluster_step n E (Op_GetVersion key) = call (Distributed_GetVersion n E key) (\<lambda>(c, v). ret (Ans_Version c v))"

fun cluster_run :: "nat \<Rightarrow> 'w cluster_env \<Rightarrow> kv_op list \<Rightarrow> ('w, kv_answer list) dk" where
  "cluster_run n E [] = ret []"
| "cluster_run n E (x # xs) = call (cluster_step n E x) (\<lambda>a. call (cluster_run n E xs) (\<lambda>as. ret (a # as)))"

subsection \<open>The abstraction\<close>

definition partition_of :: "'w cluster_env \<Rightarrow> 'w cluster \<Rightarrow> string \<Rightarrow> nat" where
  "partition_of E s key = unat (key_hash (std_hash E) (direntry_clustersize s) key) mod length (cluster_map s)"

text \<open>Every key has a partition and no drive belongs to two partitions.\<close>

definition routed :: "'w cluster \<Rightarrow> bool" where
  "routed s \<longleftrightarrow> cluster_map s \<noteq> [] \<and> word_of_int (direntry_clustersize s) \<noteq> (0 :: 64 word)
     \<and> (\<forall>i < length (cluster_map s). \<forall>j < length (cluster_map s). i \<noteq> j \<longrightarrow>
          drive_address ` set (drives (cluster_map s ! i)) \<inter> drive_address ` set (drives (cluster_map s ! j)) = {})"

text \<open>The cluster holds \<open>m\<close>: every partition is in sync and has what \<open>m\<close> has for its keys.\<close>

definition holds :: "'w cluster_env \<Rightarrow> ('w \<Rightarrow> address \<Rightarrow> string \<rightharpoonup> KineticRecord) \<Rightarrow> ('w \<Rightarrow> address \<Rightarrow> int option)
    \<Rightarrow> 'w cluster \<Rightarrow> (string \<rightharpoonup> KineticRecord) \<Rightarrow> bool" where
  "holds E disk expects s m \<longleftrightarrow> routed s \<and>
     (\<exists>M. all_in_sync disk expects s M \<and> (\<forall>key. M (partition_of E s key) key = m key))"

lemma keyToPartition_routed: "routed s \<Longrightarrow> keyToPartition E key s = (Inr (partition_of E s key), s)"
  by (simp add: routed_def keyToPartition_def partition_of_def cmd_simps)

lemma partition_of_less: "routed s \<Longrightarrow> partition_of E s key < length (cluster_map s)"
  by (simp add: routed_def partition_of_def)

lemma same_cluster_routing: "same_cluster s s' \<Longrightarrow> routed s' = routed s" "same_cluster s s' \<Longrightarrow> partition_of E s' = partition_of E s"
  by (simp_all add: same_cluster_def routed_def partition_of_def fun_eq_iff)

text \<open>Writing to the drives of one partition leaves the connections of the others alone.\<close>

lemma linked_run_on_drives:
  assumes "drive_address ` set (drives p) \<inter> drive_address ` set (drives q) = {}" "\<forall>i \<in> set is. i < length (drives p)"
  shows "keeps (linked q) (run_on_drives E p (\<lambda>con. request con f) is)"
  using assms(2)
proof (induction "is")
  case (Cons i "is")
  then have i: "drive_address d \<noteq> drive_address (drives p ! i)" if "d \<in> set (drives q)" for d
    using assms(1) nth_mem [of i "drives p"] that by force
  have con: "keeps (linked q) (driveToConnection E p (int i))"
  proof -
    have new: "linked q (s\<lparr>connections := connections s @ [x], connection_map := (connection_map s)(drive_address (drives p ! i) \<mapsto> length (connections s))\<rparr>)"
      if "linked q s" for s :: "'w cluster" and x
      using that i by (fastforce simp: linked_def nth_append)
    have lib: "keeps (linked q) (run_lib h)" for h :: "'w \<Rightarrow> bool \<times> 'w"
      by (auto simp: keeps_def run_lib_def linked_def split: prod.splits)
    from Cons.prems have less: "i < length (drives p)" by simp
    show ?thesis
      unfolding driveToConnection_def drive_at_apply [OF less] call_simps
      by (intro keeps_intros lib) (simp add: keeps_def new)
  qed
  have req: "keeps (linked q) (request c f)" for c
    by (auto simp: keeps_def request_def run_lib_def linked_def split: prod.splits)
  show ?case unfolding run_on_drives.simps deref_def by (intro keeps_intros con req) (use Cons in simp)
qed (unfold run_on_drives.simps, intro keeps_intros)

lemma holds_estimate [simp]: "holds E disk expects (s\<lparr>capacity_estimate := c\<rparr>) m = holds E disk expects s m"
  by (simp add: holds_def routed_def all_in_sync_def partition_of_def)

subsection \<open>One operation\<close>

context reliable_drives
begin

lemma sync_facts:
  assumes "in_sync disk expects s k m" "p = cluster_map s ! k"
  shows "distinct (map drive_address (drives p))" "list_ex (has_status GREEN) (drives p)"
    "logid p = None \<or> \<not> list_ex (has_status RED) (drives p)" "linked p s" "serving expects p (world s)" "replicas disk p (world s) m"
    "drives p \<noteq> []"
  using assms by (auto simp: in_sync_def Let_def)

text \<open>A write to one partition leaves the cluster in sync.\<close>

lemma cluster_write:
  assumes f: "carries_out disk expects f g" "\<And>x. fst (g x) \<noteq> REMOTE_CLUSTER_VERSION_MISMATCH"
    and g: "fst (g (M k)) = fst (g m)" "snd (g (M k)) key = snd (g m) key"
      "\<And>x j. j \<noteq> key \<Longrightarrow> snd (g x) j = x j"
    and s: "routed s" "all_in_sync disk expects s M" "\<And>j. M (partition_of E s j) j = m j" "k = partition_of E s key"
  shows "\<exists>e s'. writeOperation (Suc (Suc n)) E key (\<lambda>con. request con f) s = (Inr (fst (g m), e), s')
     \<and> same_cluster s s' \<and> holds E disk expects s' (snd (g m))"
proof -
  let ?p = "cluster_map s ! k"
  have k: "k < length (cluster_map s)" using partition_of_less [OF s(1), of E key] s(4) by simp
  have sync: "in_sync disk expects s i (M i)" "partitionid (cluster_map s ! i) = Some (int i)" if "i < length (cluster_map s)" for i
    using s(2) that by (simp_all add: all_in_sync_def)
  note p = sync_facts [OF sync(1) [OF k] refl]
  have key: "keyToPartition E key s = (Inr k, s)" using keyToPartition_routed [OF s(1)] s(4) by simp
  obtain e s' rs where w: "writeOperation (Suc (Suc n)) E key (\<lambda>con. request con f) s = (Inr (fst (g m), e), s')"
    "same_cluster s s'" "linked ?p s'" "expects (world s') = expects (world s)" "replicas disk ?p (world s') (snd (g (M k)))"
    "\<And>a. a \<in> drive_address ` set (drives ?p) \<or> disk (world s') a = disk (world s) a"
    "run_on_drives E ?p (\<lambda>con. request con f) [0 ..< length (drives ?p)] s = (Inr rs, s')"
    using write_in_sync [OF f(1) f(2) key refl p(1-6)] g(1) by metis
  let ?M = "M(k := snd (g (M k)))"
  have "in_sync disk expects s' i (?M i)" if i: "i < length (cluster_map s)" for i
  proof (cases "i = k")
    case True
    with w(2-5) p show ?thesis by (simp add: in_sync_def Let_def same_cluster_def serving_def)
  next
    case False
    note q = sync_facts [OF sync(1) [OF i] refl]
    have apart: "drive_address ` set (drives ?p) \<inter> drive_address ` set (drives (cluster_map s ! i)) = {}"
      using s(1) k i False unfolding routed_def by blast
    have "keeps (linked (cluster_map s ! i)) (run_on_drives E ?p (\<lambda>con. request con f) [0 ..< length (drives ?p)])"
      by (rule linked_run_on_drives [OF apart]) simp
    from keepsD [OF this q(4) w(7)] have "linked (cluster_map s ! i) s'" .
    moreover have "disk (world s') (drive_address d) = disk (world s) (drive_address d)" if "d \<in> set (drives (cluster_map s ! i))" for d
      using w(6) [of "drive_address d"] apart that by blast
    ultimately show ?thesis
      using False q w(2,4) by (simp add: in_sync_def Let_def same_cluster_def serving_def replicas_def)
  qed
  then have "all_in_sync disk expects s' ?M" using w(2) sync(2) by (simp add: all_in_sync_def same_cluster_def)
  moreover have "?M (partition_of E s' j) j = snd (g m) j" for j
    using g(2,3) s(3) [of j] s(4) same_cluster_routing(2) [OF w(2), of E] by (cases "j = key") auto
  ultimately have "holds E disk expects s' (snd (g m))"
    using s(1) same_cluster_routing(1) [OF w(2)] unfolding holds_def by blast
  with w(1,2) show ?thesis by blast
qed

lemma cluster_put:
  assumes "holds E disk expects s m"
  shows "\<exists>e s'. writeOperation (Suc (Suc n)) E key (\<lambda>con. request con (lib_Put (lib E) key v wm r)) s = (Inr (fst (kv_put key v wm r m), e), s')
     \<and> same_cluster s s' \<and> holds E disk expects s' (snd (kv_put key v wm r m))"
proof -
  let ?g = "kv_put key v wm r"
  obtain M where M: "all_in_sync disk expects s M" "\<And>j. M (partition_of E s j) j = m j" and rt: "routed s"
    using assms by (auto simp: holds_def)
  have c: "fst (?g y) \<noteq> REMOTE_CLUSTER_VERSION_MISMATCH" for y by (simp add: kv_put_def)
  have same: "fst (?g (M (partition_of E s key))) = fst (?g m)" "snd (?g (M (partition_of E s key))) key = snd (?g m) key"
    "j \<noteq> key \<Longrightarrow> snd (?g y) j = y j" for j y
    using M(2) [of key] by (simp_all add: kv_put_def)
  show ?thesis by (rule cluster_write [OF carries_out_put c same rt M refl])
qed

lemma cluster_delete:
  assumes "holds E disk expects s m"
  shows "\<exists>e s'. writeOperation (Suc (Suc n)) E key (\<lambda>con. request con (lib_Delete (lib E) key v wm)) s = (Inr (fst (kv_delete key v wm m), e), s')
     \<and> same_cluster s s' \<and> holds E disk expects s' (snd (kv_delete key v wm m))"
proof -
  let ?g = "kv_delete key v wm"
  obtain M where M: "all_in_sync disk expects s M" "\<And>j. M (partition_of E s j) j = m j" and rt: "routed s"
    using assms by (auto simp: holds_def)
  have c: "fst (?g y) \<noteq> REMOTE_CLUSTER_VERSION_MISMATCH" for y by (simp add: kv_delete_def split: option.splits)
  have same: "fst (?g (M (partition_of E s key))) = fst (?g m)" "snd (?g (M (partition_of E s key))) key = snd (?g m) key"
    "j \<noteq> key \<Longrightarrow> snd (?g y) j = y j" for j y
    using M(2) [of key] by (simp_all add: kv_delete_def split: option.splits)
  show ?thesis by (rule cluster_write [OF carries_out_delete c same rt M refl])
qed

lemma cluster_read:
  fixes f :: "address \<Rightarrow> int \<Rightarrow> 'w \<Rightarrow> (KineticStatus \<times> 'a option) \<times> 'w"
  assumes f: "\<And>a v w. expects w a = Some v \<Longrightarrow> disk w a key = m key \<Longrightarrow> \<exists>e. f a v w = (((c, e), x), w)" "expected_result c"
    and s: "holds E disk expects s m" "fair E (cluster_map s) n"
  shows "\<exists>e s'. readOperation (Suc n) E (ClusterPart (partition_of E s key)) (\<lambda>con. request con f) s = (Inr ((c, e), x), s')
     \<and> same_cluster s s' \<and> holds E disk expects s' m"
proof -
  obtain M where M: "all_in_sync disk expects s M" "\<And>j. M (partition_of E s j) j = m j" and r: "routed s"
    using s(1) by (auto simp: holds_def)
  let ?k = "partition_of E s key"
  have k: "?k < length (cluster_map s)" by (rule partition_of_less [OF r])
  have sync: "in_sync disk expects s i (M i)" "partitionid (cluster_map s ! i) = Some (int i)" if "i < length (cluster_map s)" for i
    using M(1) that by (simp_all add: all_in_sync_def)
  note p = sync_facts [OF sync(1) [OF k] refl]
  have luck: "\<exists>j < n. has_status GREEN (drives (cluster_map s ! ?k) ! (random_number E (drawn s + j) mod length (drives (cluster_map s ! ?k))))"
    using s(2) k by (simp add: fair_def)
  have part: "cluster_map s ! ?k = part_of (ClusterPart ?k) s" by (simp add: part_of_def)
  have read: "\<exists>e. f a v w = (((c, e), x), w)" if "expects w a = Some v" "disk w a = M ?k" for a v w
    using f(1) [OF that(1)] that(2) M(2) [of key] by simp
  obtain e s' where w: "readOperation (Suc n) E (ClusterPart ?k) (\<lambda>con. request con f) s = (Inr ((c, e), x), s')"
    "same_cluster s s'" "world s' = world s" "\<And>q. linked q s \<Longrightarrow> serving expects q (world s) \<Longrightarrow> linked q s'"
    using read_in_sync [where f = f, OF read f(2) part p(4-6) luck p(7)] by blast
  have "all_in_sync disk expects s' M"
    using sync w(2-4) by (auto simp: all_in_sync_def in_sync_def Let_def same_cluster_def)
  with M(2) r w(2) have "holds E disk expects s' m" by (auto simp: holds_def same_cluster_routing)
  with w(1,2) show ?thesis by blast
qed

lemma cluster_step_refines:
  assumes h: "holds E disk expects s m" and fair: "fair E (cluster_map s) n"
  shows "\<exists>s'. cluster_step (Suc (Suc n)) E x s = (Inr (fst (kv_step x m)), s') \<and> cluster_map s' = cluster_map s
     \<and> direntry_clustersize s' = direntry_clustersize s \<and> holds E disk expects s' (snd (kv_step x m))"
proof -
  have r: "routed s" using h by (simp add: holds_def)
  have fair': "fair E (cluster_map s) (Suc n)" using fair less_SucI unfolding fair_def by metis
  note key = keyToPartition_routed [OF r, of E]
  show ?thesis
  proof (cases x)
    case (Op_Put key v wm rec)
    obtain e s' where w: "writeOperation (Suc (Suc n)) E key (\<lambda>con. request con (lib_Put (lib E) key v wm rec)) s = (Inr (fst (kv_put key v wm rec m), e), s')"
      "same_cluster s s'" "holds E disk expects s' (snd (kv_put key v wm rec m))"
      using cluster_put [OF h] by blast
    have "fst (kv_put key v wm rec m) \<noteq> REMOTE_OTHER_ERROR" by (simp add: kv_put_def)
    from Put_without_repair [OF w(1) this] w(2,3) Op_Put show ?thesis
      by (auto simp: cmd_simps same_cluster_def simp del: writeOperation.simps)
  next
    case (Op_Delete key v wm)
    obtain e s' where w: "writeOperation (Suc (Suc n)) E key (\<lambda>con. request con (lib_Delete (lib E) key v wm)) s = (Inr (fst (kv_delete key v wm m), e), s')"
      "same_cluster s s'" "holds E disk expects s' (snd (kv_delete key v wm m))"
      using cluster_delete [OF h] by blast
    have "fst (kv_delete key v wm m) \<noteq> REMOTE_OTHER_ERROR" by (simp add: kv_delete_def split: option.splits)
    from Delete_without_repair [OF w(1) this] w(2,3) Op_Delete show ?thesis
      by (auto simp: cmd_simps same_cluster_def simp del: writeOperation.simps)
  next
    case (Op_Get key)
    have get: "\<exists>e. lib_Get (lib E) key a v w = (((fst (kv_get key m), e), snd (kv_get key m)), w)" if "expects w a = Some v" "disk w a key = m key" for a v w
      using Get_served [OF that(1), of key] that(2) by (auto simp: kv_get_def)
    have c: "expected_result (fst (kv_get key m))" by (simp add: kv_get_def expected_result_def split: option.splits)
    from cluster_read [where f = "lib_Get (lib E) key" and key = key, OF get c h fair'] key [of key] Op_Get show ?thesis
      by (auto simp: Distributed_Get_def cmd_simps same_cluster_def split_beta simp del: readOperation.simps)
  next
    case (Op_GetVersion key)
    have get: "\<exists>e. lib_GetVersion (lib E) key a v w = (((fst (kv_get key m), e), map_option kr_version (m key)), w)"
      if "expects w a = Some v" "disk w a key = m key" for a v w
      using GetVersion_served [OF that(1), of key] that(2) by (auto simp: kv_get_def)
    have c: "expected_result (fst (kv_get key m))" by (simp add: kv_get_def expected_result_def split: option.splits)
    from cluster_read [where f = "lib_GetVersion (lib E) key" and key = key, OF get c h fair'] key [of key] Op_GetVersion show ?thesis
      by (auto simp: Distributed_GetVersion_def cmd_simps same_cluster_def split_beta simp del: readOperation.simps)
  qed
qed

lemma cluster_run_refines:
  assumes "holds E disk expects s m" "fair E (cluster_map s) n"
  shows "\<exists>s'. cluster_run (Suc (Suc n)) E xs s = (Inr (fst (kv_run xs m)), s') \<and> cluster_map s' = cluster_map s
     \<and> holds E disk expects s' (snd (kv_run xs m))"
  using assms
proof (induction xs arbitrary: s m)
  case (Cons x xs)
  obtain s1 where s1: "cluster_step (Suc (Suc n)) E x s = (Inr (fst (kv_step x m)), s1)" "cluster_map s1 = cluster_map s"
    "direntry_clustersize s1 = direntry_clustersize s" "holds E disk expects s1 (snd (kv_step x m))" using cluster_step_refines [OF Cons.prems] by blast
  from Cons.IH [OF s1(4)] s1(2) Cons.prems(2) obtain s2 where
    "cluster_run (Suc (Suc n)) E xs s1 = (Inr (fst (kv_run xs (snd (kv_step x m)))), s2)" "cluster_map s2 = cluster_map s1"
    "holds E disk expects s2 (snd (kv_run xs (snd (kv_step x m))))"
    by auto
  with s1(1,2) show ?case by (auto simp: cmd_simps split: prod.splits)
qed auto

end

text \<open>
  C4. A cluster whose drives are in sync behaves as one key-value store: any sequence of puts,
  deletes and reads of records and versions, over any keys and hence over all partitions, gives
  the answers that a single drive with the contents of the cluster gives, and leaves the
  cluster in sync with the contents of this drive. Reads terminate if a GREEN drive is drawn
  within \<open>n\<close> draws.
\<close>

theorem cluster_refines_store:
  assumes "reliable_drives E disk expects" "holds E disk expects s m" "fair E (cluster_map s) n"
  shows "\<exists>s'. cluster_run (Suc (Suc n)) E ops s = (Inr (fst (kv_run ops m)), s') \<and> holds E disk expects s' (snd (kv_run ops m))"
  using reliable_drives.cluster_run_refines [OF assms] by blast

definition empty_cluster :: "rack cluster" where
  "empty_cluster = spread_cluster\<lparr>world := [(''a'', 8123) \<mapsto> ([], 3), (''b'', 8123) \<mapsto> ([], 3)]\<rparr>"

lemma empty_cluster_holds: "holds (rack_env id) rack_disk rack_expects empty_cluster Map.empty"
proof -
  have "all_in_sync rack_disk rack_expects empty_cluster (\<lambda>_. Map.empty)"
  proof -
    have "linked p empty_cluster" for p by (simp add: linked_def empty_cluster_def spread_cluster_def cluster_new_def)
    then show ?thesis
      by (simp add: all_in_sync_def in_sync_def empty_cluster_def spread_cluster_def pair_defs serving_def replicas_def rack_disk_def rack_expects_def
          less_Suc_eq numeral_2_eq_2)
  qed
  moreover have "routed empty_cluster"
    by (auto simp: routed_def empty_cluster_def spread_cluster_def pair_defs less_Suc_eq numeral_2_eq_2)
  ultimately show ?thesis by (auto simp: holds_def)
qed

theorem cluster_refines_store_witness:
  "\<exists>s'. cluster_run (Suc (Suc 1)) (rack_env id)
       [Op_Put ''/a'' '''' REQUIRE_SAME_VERSION \<lparr>kr_value = ''x'', kr_version = ''v''\<rparr>, Op_Get ''/a'', Op_Get ''/b'',
        Op_Delete ''/a'' ''w'' REQUIRE_SAME_VERSION, Op_GetVersion ''/a''] empty_cluster
     = (Inr [Ans_Status OK, Ans_Record OK (Some \<lparr>kr_value = ''x'', kr_version = ''v''\<rparr>), Ans_Record REMOTE_NOT_FOUND None,
        Ans_Status REMOTE_VERSION_MISMATCH, Ans_Version OK (Some ''v'')], s')"
proof -
  have "fair (rack_env id) (cluster_map empty_cluster) 1"
    by (simp add: fair_def empty_cluster_def spread_cluster_def cluster_new_def pair_partition_def drive_a_def drive_b_def)
  from cluster_refines_store [OF rack.reliable_drives_axioms empty_cluster_holds this, of
      "[Op_Put ''/a'' '''' REQUIRE_SAME_VERSION \<lparr>kr_value = ''x'', kr_version = ''v''\<rparr>, Op_Get ''/a'', Op_Get ''/b'',
        Op_Delete ''/a'' ''w'' REQUIRE_SAME_VERSION, Op_GetVersion ''/a'']"]
  show ?thesis by (auto simp: kv_put_def kv_get_def kv_delete_def version_matches_def)
qed

end
