(* ===== verification/Client_Cluster.thy ===== *)
theory Client_Cluster
  imports Client_Simulation Distributed_Trace Reference_Codec
begin

section \<open>A client on a cluster\<close>

text \<open>
  The replicated namespace behind the interface that the file system uses, and what a client
  sees of it: as long as the drives are in sync, nothing. Every request that works with single
  keys is answered as on one drive; with one partition of several drives also every request
  that lists keys is.
\<close>

subsection \<open>The cluster behind the interface of a namespace\<close>

text \<open>
  An operation of the cluster that stops takes the whole client down, which the interface of a
  namespace cannot express; \<open>None\<close> is the state after that, and whatever is answered then is
  answered to nobody.
\<close>

definition on_cluster :: "'a \<Rightarrow> ('w, 'a) dk \<Rightarrow> 'w cluster option \<Rightarrow> 'a \<times> 'w cluster option" where
  "on_cluster nobody c cs = (case cs of
     None \<Rightarrow> (nobody, None)
   | Some s \<Rightarrow> (case c s of (Inl e, _) \<Rightarrow> (nobody, None) | (Inr a, s') \<Rightarrow> (a, Some s')))"

definition cluster_namespace :: "nat \<Rightarrow> 'w cluster_env \<Rightarrow> 'w cluster option KineticNamespace" where
  "cluster_namespace n E =
     \<lparr>ns_Get = (\<lambda>key. on_cluster (REMOTE_OTHER_ERROR, None) (Distributed_Get n E key)),
      ns_Delete = (\<lambda>key v wm. on_cluster REMOTE_OTHER_ERROR (Distributed_Delete n E key v wm)),
      ns_Put = (\<lambda>key v wm r. on_cluster REMOTE_OTHER_ERROR (Distributed_Put n E key v wm r)),
      ns_GetVersion = (\<lambda>key. on_cluster (REMOTE_OTHER_ERROR, None) (Distributed_GetVersion n E key)),
      ns_GetKeyRange = (\<lambda>a b m. on_cluster (REMOTE_OTHER_ERROR, None)
         (call (Distributed_GetKeyRange n E a b m) (\<lambda>(c, keys). ret (c, Some keys)))),
      ns_GetCapacity = on_cluster (REMOTE_OTHER_ERROR, None) (call Distributed_GetCapacity (\<lambda>(c, cap). ret (c, Some cap))),
      ns_selfCheck = on_cluster False (Distributed_selfCheck n E)\<rparr>"

lemma on_cluster_result: "c s = (Inr a, s') \<Longrightarrow> on_cluster nobody c (Some s) = (a, Some s')"
  by (simp add: on_cluster_def)

text \<open>What a reliable namespace answers, in terms of its contents.\<close>

context reliable_namespace
begin

lemma answers:
  "ns_Get ns key n = (kv_get key (store n), n)" "ns_GetVersion ns key n = ((fst (kv_get key (store n)), map_option kr_version (store n key)), n)"
  "\<exists>n'. ns_Put ns key v wm r n = (fst (kv_put key v wm r (store n)), n') \<and> store n' = snd (kv_put key v wm r (store n))"
  "\<exists>n'. ns_Delete ns key v wm n = (fst (kv_delete key v wm (store n)), n') \<and> store n' = snd (kv_delete key v wm (store n))"
proof -
  show "ns_Get ns key n = (kv_get key (store n), n)" "ns_GetVersion ns key n = ((fst (kv_get key (store n)), map_option kr_version (store n key)), n)"
    by (cases "store n key"; simp add: kv_get_def Get_absent Get_present GetVersion_absent GetVersion_present)+
  show "\<exists>n'. ns_Put ns key v wm r n = (fst (kv_put key v wm r (store n)), n') \<and> store n' = snd (kv_put key v wm r (store n))"
    using Put_matches Put_mismatch by (cases "version_matches (store n key) v wm") (auto simp: kv_put_def)
  show "\<exists>n'. ns_Delete ns key v wm n = (fst (kv_delete key v wm (store n)), n') \<and> store n' = snd (kv_delete key v wm (store n))"
  proof (cases "store n key")
    case None
    then show ?thesis using Delete_absent by (simp add: kv_delete_def)
  next
    case (Some rec)
    then show ?thesis using Delete_matches [OF Some] Delete_mismatch [OF Some]
      by (cases "version_matches (Some rec) v wm") (auto simp: kv_delete_def)
  qed
qed

end

subsection \<open>One partition of several drives\<close>

definition mirrored :: "'w cluster \<Rightarrow> bool" where
  "mirrored s \<longleftrightarrow> length (cluster_map s) = 1 \<and> direntry_clustersize s = 1"

lemma std_sort_sorted: "sorted_wrt key_less ks \<Longrightarrow> std_sort ks = ks"
proof (induction ks)
  case (Cons k ks)
  have "sorted_insert k ks = k # ks"
  proof (cases ks)
    case (Cons y ys)
    with Cons.prems have "key_less k y" by simp
    then have "\<not> key_less y k" using key_less_trans key_less_irrefl by blast
    with Cons show ?thesis by simp
  qed simp
  with Cons show ?case by (simp add: std_sort_def)
qed (simp add: std_sort_def)

lemma key_range_sorted: "key_range P key_less a b m ks \<Longrightarrow> take m (std_sort ks) = ks"
  using std_sort_sorted by (auto simp: key_range_def sorted_wrt_take)

context reliable_drives
begin

lemma holds_copy: "holds E disk expects (set_part_of CopyPart p s) m = holds E disk expects s m"
  by (simp add: holds_def routed_def all_in_sync_def in_sync_def set_part_of_def linked_def partition_of_def)

lemma mirrored_range:
  assumes h: "holds E disk expects s m" and fair: "fair E (cluster_map s) n" and one: "mirrored s"
  shows "\<exists>ks s'. Distributed_GetKeyRange (Suc n) E a b c s = (Inr (OK, ks), s') \<and> key_range (\<lambda>k. m k \<noteq> None) key_less a b c ks
     \<and> cluster_map s' = cluster_map s \<and> direntry_clustersize s' = direntry_clustersize s \<and> holds E disk expects s' m"
proof -
  obtain M where M: "all_in_sync disk expects s M" "\<And>j. M (partition_of E s j) j = m j" and rt: "routed s"
    using h by (auto simp: holds_def)
  have zero: "partition_of E s j = 0" for j using one by (simp add: partition_of_def mirrored_def)
  have m: "M 0 = m" using M(2) zero by (simp add: fun_eq_iff)
  let ?p = "cluster_map s ! 0" and ?s1 = "set_part_of CopyPart (cluster_map s ! 0) s"
  have s1: "all_in_sync disk expects ?s1 M" "cluster_map ?s1 = cluster_map s" "copied_partition ?s1 = cluster_map ?s1 ! 0"
    using M(1) by (simp_all add: all_in_sync_def in_sync_def set_part_of_def linked_def)
  have first: "0 < length (cluster_map ?s1)" and fair1: "fair E (cluster_map ?s1) n" using one fair s1(2) by (simp_all add: mirrored_def)
  obtain e s2 ks where r: "readOperation (Suc n) E CopyPart (\<lambda>con. request con (lib_GetKeyRange (lib E) a False b False False c)) ?s1 = (Inr ((OK, e), Some ks), s2)"
    "key_range (\<lambda>k. M 0 k \<noteq> None) key_less a b c ks" "same_cluster ?s1 s2" "all_in_sync disk expects s2 M"
    using range_step [OF s1(1) fair1 first s1(3)] by blast
  obtain q where q: "Distributed_GetKeyRange (Suc n) E a b c s = (Inr (OK, take c (std_sort ks)), set_part_of CopyPart q s2)"
    using r(1) keyToPartition_routed [OF rt, of E a] zero one
    by (simp add: Distributed_GetKeyRange_def mirrored_def cmd_simps deref_def Let_def set_part_def part_of_def set_part_of_def numeral_eq_Suc
        del: readOperation.simps)
  have "holds E disk expects s2 m"
    using r(3,4) M(2) rt same_cluster_routing [of ?s1 s2] unfolding holds_def by (auto simp: routed_def partition_of_def set_part_of_def)
  moreover have "cluster_map s2 = cluster_map s" "direntry_clustersize s2 = direntry_clustersize s"
    using r(3) by (simp_all add: same_cluster_def set_part_of_def)
  ultimately show ?thesis
    using q r(2) key_range_sorted [OF r(2)] m holds_copy by (auto simp: set_part_of_def)
qed

end

subsection \<open>The simulation\<close>

text \<open>
  A cluster with the partitions \<open>cmap\<close>, whose drives hold what a reliable namespace \<open>N\<close> holds.
\<close>

definition cluster_like :: "'w cluster_env \<Rightarrow> ('w \<Rightarrow> address \<Rightarrow> string \<rightharpoonup> KineticRecord) \<Rightarrow> ('w \<Rightarrow> address \<Rightarrow> int option)
    \<Rightarrow> ('n \<Rightarrow> string \<rightharpoonup> KineticRecord) \<Rightarrow> Partition list \<Rightarrow> int \<Rightarrow> 'w cluster option \<Rightarrow> 'n \<Rightarrow> bool" where
  "cluster_like E disk expects store cmap dirs cs k \<longleftrightarrow> (\<exists>s. cs = Some s \<and> cluster_map s = cmap \<and> direntry_clustersize s = dirs
     \<and> holds E disk expects s (store k))"

locale client_on_cluster = drives: reliable_drives E disk expects + single: reliable_namespace N store
  for E :: "'w cluster_env" and disk and expects and N :: "'n KineticNamespace" and store +
  fixes cmap :: "Partition list" and dirs :: int and n :: nat
  assumes lucky: "fair E cmap n"
begin

lemma step:
  assumes "cluster_like E disk expects store cmap dirs cs k"
  shows "\<exists>s s'. cs = Some s \<and> cluster_step (Suc (Suc n)) E x s = (Inr (fst (kv_step x (store k))), s')
     \<and> (\<forall>k'. store k' = snd (kv_step x (store k)) \<longrightarrow> cluster_like E disk expects store cmap dirs (Some s') k')"
proof -
  obtain s where s: "cs = Some s" "cluster_map s = cmap" "direntry_clustersize s = dirs" "holds E disk expects s (store k)"
    using assms by (auto simp: cluster_like_def)
  with drives.cluster_step_refines [OF s(4), of n x] lucky obtain s' where
    "cluster_step (Suc (Suc n)) E x s = (Inr (fst (kv_step x (store k))), s')" "cluster_map s' = cluster_map s"
    "direntry_clustersize s' = direntry_clustersize s" "holds E disk expects s' (snd (kv_step x (store k)))" by auto
  with s show ?thesis by (auto simp: cluster_like_def)
qed

end

sublocale client_on_cluster \<subseteq> store_simulation "cluster_namespace (Suc (Suc n)) E" N "cluster_like E disk expects store cmap dirs"
proof
  fix cs k key assume R: "cluster_like E disk expects store cmap dirs cs k"
  from step [OF R, of "Op_Get key"] obtain s s' where "cs = Some s"
    "Distributed_Get (Suc (Suc n)) E key s = (Inr (kv_get key (store k)), s')" "cluster_like E disk expects store cmap dirs (Some s') k"
    by (auto simp: call_Inr ret_def split: prod.splits)
  then show "agree (cluster_like E disk expects store cmap dirs) (ns_Get (cluster_namespace (Suc (Suc n)) E) key cs) (ns_Get N key k)"
    by (simp add: cluster_namespace_def on_cluster_result agree_def single.answers)
next
  fix cs k key v wm r assume R: "cluster_like E disk expects store cmap dirs cs k"
  obtain k' where k': "ns_Put N key v wm r k = (fst (kv_put key v wm r (store k)), k')" "store k' = snd (kv_put key v wm r (store k))"
    using single.answers(3) by blast
  from step [OF R, of "Op_Put key v wm r"] k'(2) obtain s s' where "cs = Some s"
    "Distributed_Put (Suc (Suc n)) E key v wm r s = (Inr (fst (kv_put key v wm r (store k))), s')" "cluster_like E disk expects store cmap dirs (Some s') k'"
    by (auto simp: call_Inr ret_def)
  then show "agree (cluster_like E disk expects store cmap dirs) (ns_Put (cluster_namespace (Suc (Suc n)) E) key v wm r cs) (ns_Put N key v wm r k)"
    by (simp add: cluster_namespace_def on_cluster_result agree_def k'(1))
next
  fix cs k key v wm assume R: "cluster_like E disk expects store cmap dirs cs k"
  obtain k' where k': "ns_Delete N key v wm k = (fst (kv_delete key v wm (store k)), k')" "store k' = snd (kv_delete key v wm (store k))"
    using single.answers(4) by blast
  from step [OF R, of "Op_Delete key v wm"] k'(2) obtain s s' where "cs = Some s"
    "Distributed_Delete (Suc (Suc n)) E key v wm s = (Inr (fst (kv_delete key v wm (store k))), s')" "cluster_like E disk expects store cmap dirs (Some s') k'"
    by (auto simp: call_Inr ret_def)
  then show "agree (cluster_like E disk expects store cmap dirs) (ns_Delete (cluster_namespace (Suc (Suc n)) E) key v wm cs) (ns_Delete N key v wm k)"
    by (simp add: cluster_namespace_def on_cluster_result agree_def k'(1))
next
  fix cs k key assume R: "cluster_like E disk expects store cmap dirs cs k"
  from step [OF R, of "Op_GetVersion key"] obtain s s' where "cs = Some s"
    "Distributed_GetVersion (Suc (Suc n)) E key s = (Inr (fst (kv_get key (store k)), map_option kr_version (store k key)), s')"
    "cluster_like E disk expects store cmap dirs (Some s') k"
    by (auto simp: call_Inr ret_def split: prod.splits)
  then show "agree (cluster_like E disk expects store cmap dirs) (ns_GetVersion (cluster_namespace (Suc (Suc n)) E) key cs) (ns_GetVersion N key k)"
    by (simp add: cluster_namespace_def on_cluster_result agree_def single.answers)
qed

locale client_on_mirror = client_on_cluster +
  assumes one_partition: "length cmap = 1" "dirs = 1"

sublocale client_on_mirror \<subseteq> namespace_simulation "cluster_namespace (Suc (Suc n)) E" N "cluster_like E disk expects store cmap dirs"
proof
  fix cs k a b c assume "cluster_like E disk expects store cmap dirs cs k"
  then obtain s where s: "cs = Some s" "cluster_map s = cmap" "direntry_clustersize s = dirs" "holds E disk expects s (store k)"
    by (auto simp: cluster_like_def)
  have "fair E (cluster_map s) (Suc n)" using lucky less_SucI s(2) unfolding fair_def by metis
  from drives.mirrored_range [OF s(4) this, of a b c] one_partition s(2,3) obtain ks s' where
    r: "Distributed_GetKeyRange (Suc (Suc n)) E a b c s = (Inr (OK, ks), s')" "key_range (\<lambda>k'. store k k' \<noteq> None) key_less a b c ks"
    "cluster_map s' = cluster_map s" "direntry_clustersize s' = direntry_clustersize s" "holds E disk expects s' (store k)"
    by (auto simp: mirrored_def)
  obtain ks' where k: "ns_GetKeyRange N a b c k = ((OK, Some ks'), k)" "key_range (\<lambda>x. store k x \<noteq> None) key_less a b c ks'"
    using single.GetKeyRange by blast
  have "ks' = ks" by (rule key_range_unique [OF k(2) r(2)])
  then show "agree (cluster_like E disk expects store cmap dirs) (ns_GetKeyRange (cluster_namespace (Suc (Suc n)) E) a b c cs) (ns_GetKeyRange N a b c k)"
    using r s k(1) by (simp add: cluster_namespace_def on_cluster_def cmd_simps agree_def cluster_like_def)
qed

context client_on_cluster
begin

lemmas key_requests = sim_key_request and mounting = sim_init

end

context client_on_mirror
begin

lemmas all_requests = sim_request

end

text \<open>
  C3. A client on a cluster whose drives are in sync behaves as a client on a single drive:
  mounted with the same contents, and given the same requests of the same callers, both give
  the same replies, or stop in the same way; at the end they agree in everything but the
  namespace, no operation of the cluster has failed to return, and the cluster is in sync with
  what the single drive holds. With several partitions this holds of all requests that do not
  list keys; with one partition of several drives it holds of listings, too. Requests for the
  capacity or for a check of the drives see a difference, of course.
\<close>

theorem client_on_cluster_like_on_drive:
  assumes "reliable_drives E disk expects" "reliable_namespace N store" "fair E (cluster_map s) m" "holds E disk expects s (store k)"
    "\<forall>(C', req) \<in> set reqs. \<not> asks_drives req \<and> (mirrored s \<or> \<not> lists_keys req)"
  shows "\<exists>result t k' s'.
     mount_and_serve n (with_ns (cluster_namespace (Suc (Suc m)) E) C) (session_on (cluster_namespace (Suc (Suc m)) E) reqs)
       (hflat_priv_new (Some s) ms bs pmode) = (result, t)
   \<and> mount_and_serve n (with_ns N C) (session_on N reqs) (hflat_priv_new k ms bs pmode) = (result, with_kinetic k' t)
   \<and> kinetic t = Some s' \<and> holds E disk expects s' (store k')"
proof -
  let ?D = "cluster_namespace (Suc (Suc m)) E" and ?R = "cluster_like E disk expects store (cluster_map s) (direntry_clustersize s)"
  have cc: "client_on_cluster E disk expects N store (cluster_map s) m"
    using assms(1-3) by (simp add: client_on_cluster_def client_on_cluster_axioms_def)
  have "sim ?R (hflat_ops n (with_ns ?D C') req) (hflat_ops n (with_ns N C') req)" if "(C', req) \<in> set reqs" for C' req
  proof (cases "mirrored s")
    case True
    then have "client_on_mirror E disk expects N store (cluster_map s) (direntry_clustersize s) m"
      using cc by (simp add: client_on_mirror_def client_on_mirror_axioms_def mirrored_def)
    then show ?thesis using assms(5) that by (intro client_on_mirror.all_requests) auto
  next
    case False
    then show ?thesis using assms(5) that by (intro client_on_cluster.key_requests [OF cc]) auto
  qed
  then have sim: "sim ?R (mount_and_serve n (with_ns ?D C) (session_on ?D reqs)) (mount_and_serve n (with_ns N C) (session_on N reqs))"
    unfolding mount_and_serve_def by (intro sim_call client_on_cluster.mounting [OF cc] sim_serve)
  have start: "?R (kinetic (hflat_priv_new (Some s) ms bs pmode)) k" using assms(4) by (simp add: cluster_like_def hflat_priv_new_def)
  obtain result t where run: "mount_and_serve n (with_ns ?D C) (session_on ?D reqs) (hflat_priv_new (Some s) ms bs pmode) = (result, t)"
    by fastforce
  from simD [OF sim start run] show ?thesis unfolding with_kinetic_new cluster_like_def using run by blast
qed

text \<open>Two mirrored drives, and a cluster of two partitions, both empty.\<close>

definition mirror_cluster :: "rack cluster" where
  "mirror_cluster = cluster_new [pair_partition 3 [drive_a GREEN, drive_b GREEN]]
     \<lparr>cluster_version = 0, partitionid = None, drives = [], logid = None\<rparr> 1 no_capacity (Finite 0)
     [(''a'', 8123) \<mapsto> ([], 3), (''b'', 8123) \<mapsto> ([], 3)]"

lemma mirror_fair: "fair (rack_env id) (cluster_map mirror_cluster) 1"
proof -
  have "has_status GREEN ([drive_a GREEN, drive_b GREEN] ! (d mod 2))" for d
    by (cases "d mod 2 = 0") (simp_all add: drive_a_def drive_b_def mod_2_eq_odd)
  then show ?thesis by (simp add: fair_def mirror_cluster_def cluster_new_def pair_partition_def numeral_2_eq_2)
qed

lemma mirror_holds: "holds (rack_env id) rack_disk rack_expects mirror_cluster (map_of [])" "mirrored mirror_cluster"
proof -
  have "linked p mirror_cluster" for p by (simp add: linked_def mirror_cluster_def cluster_new_def)
  then have "all_in_sync rack_disk rack_expects mirror_cluster (\<lambda>_. Map.empty)"
    by (simp add: all_in_sync_def in_sync_def mirror_cluster_def pair_defs serving_def replicas_def rack_disk_def rack_expects_def)
  moreover have "routed mirror_cluster" by (simp add: routed_def mirror_cluster_def pair_defs)
  ultimately show "holds (rack_env id) rack_disk rack_expects mirror_cluster (map_of [])" by (auto simp: holds_def)
  show "mirrored mirror_cluster" by (simp add: mirrored_def mirror_cluster_def cluster_new_def)
qed

interpretation rack_client: client_on_cluster "rack_env id" rack_disk rack_expects "SimpleKineticNamespace drive_connection" map_of
  "cluster_map empty_cluster" 2 1
  by unfold_locales (simp add: fair_def empty_cluster_def spread_cluster_def cluster_new_def pair_partition_def drive_a_def drive_b_def)

interpretation mirror_client: client_on_mirror "rack_env id" rack_disk rack_expects "SimpleKineticNamespace drive_connection" map_of
  "cluster_map mirror_cluster" 1 1
  by unfold_locales (rule mirror_fair, simp_all add: mirror_cluster_def cluster_new_def)

theorem client_on_cluster_like_on_drive_witness:
  "\<exists>result t k' s'.
     mount_and_serve 9 (with_ns (cluster_namespace (Suc (Suc 1)) (rack_env id)) (drive_env 0 0 5))
       (session_on (cluster_namespace (Suc (Suc 1)) (rack_env id)) [(drive_env 0 0 6, op_mkdir ''/a'' 0x1FF), (drive_env 7 100 7, op_readdir ''/'')])
       (hflat_priv_new (Some mirror_cluster) 1000 4096 FULL) = (result, t)
   \<and> mount_and_serve 9 (with_ns (SimpleKineticNamespace drive_connection) (drive_env 0 0 5))
       (session_on (SimpleKineticNamespace drive_connection) [(drive_env 0 0 6, op_mkdir ''/a'' 0x1FF), (drive_env 7 100 7, op_readdir ''/'')])
       (hflat_priv_new [] 1000 4096 FULL) = (result, with_kinetic k' t)
   \<and> kinetic t = Some s' \<and> holds (rack_env id) rack_disk rack_expects s' (map_of k')"
  by (rule client_on_cluster_like_on_drive [OF rack.reliable_drives_axioms drive.simple.reliable_namespace_axioms mirror_fair mirror_holds(1)])
     (simp add: mirror_holds(2))

end
