(* ===== verification/HFlat_Log_Props.thy ===== *)
theory HFlat_Log_Props
  imports HFlat_Util_Props Path_Map_Props
begin

section \<open>Clients that share the log\<close>

text \<open>
  Any number of clients append to the log of path mappings in turns. A client that is behind loses
  the race for its slot, replays what it has missed, from the stored snapshot when that is much,
  and appends then. All clients reach the database that the log describes.
\<close>

subsection \<open>A log and the clients that follow it\<close>

text \<open>The database after the first \<open>i\<close> entries.\<close>

definition at_entry :: "db_entry list \<Rightarrow> nat \<Rightarrow> PathMapDB \<Rightarrow> bool" where
  "at_entry es i db \<longleftrightarrow> i \<le> length es \<and> replay (take i es) PathMapDB_init = Inr (Some db)"

text \<open>
  The drive holds the entries \<open>es\<close> and no other: the version is the number of entries, and the
  snapshot, if there is one, is that of a client that had followed the log up to some entry.
\<close>

definition holds_log :: "'n env \<Rightarrow> ('n \<Rightarrow> string \<rightharpoonup> KineticRecord) \<Rightarrow> 'n \<Rightarrow> db_entry list \<Rightarrow> bool" where
  "holds_log E store n es \<longleftrightarrow> log_version store n (int (length es))
   \<and> (\<forall>i < length es. log_slot E store n (1 + int i) (es ! i))
   \<and> (\<forall>w > int (length es). store n (db_entry_key w) = None)
   \<and> (\<forall>r. store n db_snapshot_key = Some r \<longrightarrow> (\<exists>i db. at_entry es i db \<and> snapshot_ParseFromString E (kr_value r) = Some (serializeSnapshot db)))"

lemma holds_logD:
  assumes "holds_log E store n es"
  shows "log_version store n (int (length es))" "i < length es \<Longrightarrow> log_slot E store n (1 + int i) (es ! i)"
    "w > int (length es) \<Longrightarrow> store n (db_entry_key w) = None"
    "store n db_snapshot_key = Some r \<Longrightarrow> \<exists>i db. at_entry es i db \<and> snapshot_ParseFromString E (kr_value r) = Some (serializeSnapshot db)"
  using assms unfolding holds_log_def by blast+

lemma at_entry_version: "at_entry es i db \<Longrightarrow> snapshotVersion db = int i"
  using replay_version [of "take i es" PathMapDB_init db] by (simp add: at_entry_def PathMapDB_init_def)

lemma at_entry_ok: "at_entry es i db \<Longrightarrow> db_ok db"
  using db_ok_replay [of PathMapDB_init "take i es" db] by (simp add: at_entry_def db_ok_def PathMapDB_init_def)

lemma at_entry_rest:
  assumes "at_entry es i db" "replay es PathMapDB_init = Inr (Some db')"
  shows "replay (drop i es) db = Inr (Some db')"
  using assms replay_append [of "take i es" "drop i es" PathMapDB_init] by (simp add: at_entry_def)

lemma at_entry_append: "at_entry es i db \<Longrightarrow> at_entry (es @ fs) i db"
  by (simp add: at_entry_def)

lemma at_entry_end: "at_entry es (length es) db \<longleftrightarrow> replay es PathMapDB_init = Inr (Some db)"
  by (simp add: at_entry_def)

text \<open>A client that is behind reaches the end of the log with one update.\<close>

lemma fetch_rest:
  assumes rc: "reliable_client E store" and log: "holds_log E store (kinetic s) es"
    and i: "at_entry es i (pmap s)" and db: "replay es PathMapDB_init = Inr (Some db)" and len: "int (length es) < 2 ^ 63"
  shows "call (get_db_entries E (int i + 1) (nat (int (length es) - int i))) (\<lambda>ens. case ens of
           Inl err \<Rightarrow> ret err | Inr ens \<Rightarrow> update_pmap (updateSnapshot ens (int i) (int (length es)))) s = (Inr 0, s\<lparr>pmap := db\<rparr>)"
proof -
  have il: "i \<le> length es" using i by (simp add: at_entry_def)
  have "log_slot E store (kinetic s) (1 + int (i + j)) (es ! (i + j))" if "i + j < length es" for j
    using holds_logD(2) [OF log that] .
  then have "\<forall>j < length (drop i es). log_slot E store (kinetic s) (int i + 1 + int j) (drop i es ! j)"
    using il by (simp add: add_ac)
  from get_db_entries_log [OF rc this] have g: "get_db_entries E (int i + 1) (length es - i) s = (Inr (Inr (drop i es)), s)" by simp
  have "int i + int (length (drop i es)) = int (length es)" using il by simp
  then have "updateSnapshot (drop i es) (int i) (int (length es)) (pmap s) = Inr (0, db)"
    using updateSnapshot_replay [OF at_entry_version [OF i], of "drop i es"] at_entry_rest [OF i db] len by simp
  moreover have "nat (int (length es) - int i) = length es - i" by simp
  ultimately show ?thesis using g by (simp add: cmd_simps update_pmap_def)
qed

lemma database_update_end:
  assumes rc: "reliable_client E store" and log: "holds_log E store (kinetic s) es"
    and i: "at_entry es i (pmap s)" and db: "replay es PathMapDB_init = Inr (Some db)" and len: "int (length es) < 2 ^ 63"
  shows "database_update E s = (Inr (if i = length es then - EALREADY else 0), s\<lparr>pmap := db\<rparr>)"
proof -
  have v: "getSnapshotVersion (pmap s) = int i" using at_entry_version [OF i] by (simp add: getSnapshotVersion_def)
  have il: "i \<le> length es" using i by (simp add: at_entry_def)
  have gv: "get_db_version E s = (Inr (Inr (int (length es))), s)"
    by (rule get_db_version_log [OF rc holds_logD(1) [OF log]])
  consider "i = length es" | "i < length es" "int (length es) - int i \<le> 42" | "i < length es" "42 < int (length es) - int i" using il by linarith
  then show ?thesis
  proof cases
    case 1
    have "store (kinetic s) (db_entry_key (int (length es) + 1)) = None" by (rule holds_logD(3) [OF log]) simp
    from reliable_client.get_db_entry_absent [OF rc this] have "get_db_entry E (int (length es) + 1) s = (Inr (Inl (- ENOENT)), s)" .
    moreover have "s\<lparr>pmap := db\<rparr> = s" using i db 1 by (simp add: at_entry_def)
    ultimately show ?thesis using v gv 1 by (simp add: database_update_def cmd_simps check_assert_def)
  next
    case 2
    then show ?thesis using v gv fetch_rest [OF assms] by (simp add: database_update_def cmd_simps check_assert_def)
  next
    case 3
    obtain j k where j: "load_remote_snapshot E s = (Inr (), s\<lparr>pmap := j\<rparr>)" "at_entry es k j"
    proof (cases "store (kinetic s) db_snapshot_key")
      case None
      from reliable_namespace.Get_absent [OF reliable_client.axioms(1) [OF rc] this]
      have "load_remote_snapshot E s = (Inr (), s\<lparr>pmap := pmap s\<rparr>)" by (simp add: load_remote_snapshot_def get_db_snapshot_def cmd_simps)
      with i that [of "pmap s" i] show ?thesis by blast
    next
      case (Some r)
      then obtain k sdb where k: "at_entry es k sdb" "snapshot_ParseFromString E (kr_value r) = Some (serializeSnapshot sdb)"
        using holds_logD(4) [OF log] by blast
      let ?j = "if snapshotVersion sdb \<le> snapshotVersion (pmap s) then pmap s else sdb"
      have "load_remote_snapshot E s = (Inr (), s\<lparr>pmap := ?j\<rparr>)"
        using reliable_namespace.Get_present [OF reliable_client.axioms(1) [OF rc] Some] k(2) load_serialized [OF at_entry_ok [OF k(1)], of "pmap s"]
        by (simp add: load_remote_snapshot_def get_db_snapshot_def cmd_simps update_pmap_def)
      with i k(1) that [of ?j "if snapshotVersion sdb \<le> snapshotVersion (pmap s) then i else k"] show ?thesis by simp
    qed
    have "holds_log E store (kinetic (s\<lparr>pmap := j\<rparr>)) es" "at_entry es k (pmap (s\<lparr>pmap := j\<rparr>))" using log j(2) by simp_all
    from fetch_rest [OF rc this db len] show ?thesis
      using v gv j(1) at_entry_version [OF j(2)] 3 by (simp add: database_update_def cmd_simps check_assert_def getSnapshotVersion_def)
  qed
qed

text \<open>An operation of a client, up to date or not, adds its entry to the end of the log.\<close>

lemma database_operation_end:
  assumes rc: "reliable_client E store" and log: "holds_log E store (kinetic s) es"
    and i: "at_entry es i (pmap s)" and db: "replay (es @ [en]) PathMapDB_init = Inr (Some db)" and len: "int (length es) + 1 < 2 ^ 63"
  shows "\<exists>s'. database_operation (Suc (Suc k)) E en s = (Inr 0, s') \<and> pmap s' = db \<and> holds_log E store (kinetic s') (es @ [en])"
proof -
  obtain db0 where db0: "replay es PathMapDB_init = Inr (Some db0)" "apply_entry en db0 = Inr (Some db)"
    using db by (auto simp: replay_append split: sum.splits option.splits)
  have last: "\<exists>s'. database_operation (Suc m) E en t = (Inr 0, s') \<and> pmap s' = db \<and> holds_log E store (kinetic s') (es @ [en])"
    if t: "pmap t = db0" "kinetic t = kinetic s" for m t
  proof -
    have v: "snapshotVersion (pmap t) = int (length es)" using at_entry_version [of es "length es" db0] db0(1) t(1) by (simp add: at_entry_def)
    have free: "store (kinetic t) (db_entry_key (int (length es) + 1)) = None" using holds_logD(3) [OF log] t(2) by simp
    obtain n' where n': "database_operation (Suc m) E en t = (Inr 0, t\<lparr>kinetic := n', pmap := db\<rparr>)"
      "store n' = (let m = (store (kinetic t))
         (db_entry_key (int (length es) + 1) \<mapsto> \<lparr>kr_value = entry_SerializeAsString E en, kr_version = to_string (int (length es) + 1)\<rparr>,
          db_version_key \<mapsto> \<lparr>kr_value = '''', kr_version = to_string (int (length es) + 1)\<rparr>) in
       if int (length es) mod 42 = 0 then m(db_snapshot_key \<mapsto> \<lparr>kr_value = snapshot_SerializeAsString E (serializeSnapshot db), kr_version = ''''\<rparr>) else m)"
      using database_operation_store [OF rc v free, of en db m] db0(2) t(1) by blast
    have "log_version store n' (int (length (es @ [en])))" using n'(2) len by (simp add: log_version_def Let_def add_ac)
    moreover have "log_slot E store n' (1 + int j) ((es @ [en]) ! j)" if "j < length (es @ [en])" for j
    proof (cases "j = length es")
      case True
      then show ?thesis using n'(2) reliable_client.entry_codec [OF rc] by (simp add: log_slot_def Let_def add_ac)
    next
      case False
      then have "log_slot E store (kinetic s) (1 + int j) (es ! j)" using that by (intro holds_logD(2) [OF log]) simp
      with False that n'(2) t(2) show ?thesis by (simp add: log_slot_def Let_def nth_append add_ac)
    qed
    moreover have "store n' (db_entry_key w) = None" if "w > int (length (es @ [en]))" for w
      using that n'(2) holds_logD(3) [OF log, of w] t(2) by (simp add: Let_def)
    moreover have "\<exists>j db'. at_entry (es @ [en]) j db' \<and> snapshot_ParseFromString E (kr_value r) = Some (serializeSnapshot db')"
      if r: "store n' db_snapshot_key = Some r" for r
    proof (cases "int (length es) mod 42 = 0")
      case True
      with r n'(2) have "r = \<lparr>kr_value = snapshot_SerializeAsString E (serializeSnapshot db), kr_version = ''''\<rparr>" by (simp add: Let_def)
      with db reliable_client.snapshot_codec [OF rc] show ?thesis
        by (intro exI [of _ "length (es @ [en])"] exI [of _ db]) (simp add: at_entry_def)
    next
      case False
      with r n'(2) t(2) have "store (kinetic s) db_snapshot_key = Some r" by (simp add: Let_def)
      from holds_logD(4) [OF log this] at_entry_append show ?thesis by blast
    qed
    ultimately have "holds_log E store n' (es @ [en])" unfolding holds_log_def by blast
    with n'(1) show ?thesis by simp
  qed
  show ?thesis
  proof (cases "i = length es")
    case True
    with i db0(1) have "pmap s = db0" by (simp add: at_entry_def)
    then show ?thesis by (intro last) simp_all
  next
    case False
    then have il: "i < length es" using i by (simp add: at_entry_def)
    then obtain r where r: "store (kinetic s) (db_entry_key (1 + int i)) = Some r" "kr_version r \<noteq> ''''"
      using holds_logD(2) [OF log il] by (auto simp: log_slot_def)
    have taken: "put_db_entry E (int i + 1) en s = (Inr (- EEXIST), s)"
      using reliable_client.put_db_entry_present [OF rc r] by (simp add: add.commute)
    have "database_update E s = (Inr 0, s\<lparr>pmap := db0\<rparr>)"
      using database_update_end [OF rc log i db0(1)] len il by simp
    then have "database_operation (Suc (Suc k)) E en s = database_operation (Suc k) E en (s\<lparr>pmap := db0\<rparr>)"
      using taken at_entry_version [OF i] database_operation.simps(2) [of "Suc k" E en]
      by (simp add: getSnapshotVersion_def cmd_simps del: database_operation.simps)
    then show ?thesis using last [of "s\<lparr>pmap := db0\<rparr>" k] by simp
  qed
qed

subsection \<open>Clients in turns\<close>

text \<open>
  The clients \<open>cs\<close> share the drive \<open>n\<close>. In each turn one of them carries out an operation on the
  database, with two rounds for a lost race.
\<close>

fun operations :: "'n env \<Rightarrow> (nat \<times> db_entry) list \<Rightarrow> 'n \<Rightarrow> 'n hflat_priv list \<Rightarrow> (stop + int) list \<times> 'n \<times> 'n hflat_priv list" where
  "operations E [] n cs = ([], n, cs)"
| "operations E ((c, en) # turns) n cs = (case database_operation 2 E en ((cs ! c)\<lparr>kinetic := n\<rparr>) of
     (r, s) \<Rightarrow> (case operations E turns (kinetic s) (cs[c := s]) of (rs, n', cs') \<Rightarrow> (r # rs, n', cs')))"

definition follows :: "db_entry list \<Rightarrow> 'n hflat_priv \<Rightarrow> bool" where
  "follows es s \<longleftrightarrow> (\<exists>i. at_entry es i (pmap s))"

lemma follows_append: "follows es s \<Longrightarrow> follows (es @ fs) s"
  using at_entry_append by (fastforce simp: follows_def)

lemma operations_log:
  assumes "reliable_client E store" "holds_log E store n es" "\<forall>s \<in> set cs. follows es s" "\<forall>(c, en) \<in> set turns. c < length cs"
    "replay (es @ map snd turns) PathMapDB_init = Inr (Some db)" "int (length es + length turns) < 2 ^ 63"
  shows "\<exists>n' cs'. operations E turns n cs = (replicate (length turns) (Inr 0), n', cs') \<and> holds_log E store n' (es @ map snd turns)
     \<and> length cs' = length cs \<and> (\<forall>s \<in> set cs'. follows (es @ map snd turns) s)"
  using assms(2-)
proof (induction turns arbitrary: n es cs)
  case (Cons t turns)
  obtain c en where t: "t = (c, en)" by (cases t)
  obtain db1 where db1: "replay (es @ [en]) PathMapDB_init = Inr (Some db1)"
    using Cons.prems(4) t replay_append [of "es @ [en]" "map snd turns" PathMapDB_init] by (auto split: sum.splits option.splits)
  have c: "c < length cs" using Cons.prems(3) t by simp
  then have "follows es (cs ! c)" using Cons.prems(2) by simp
  then obtain i where "at_entry es i (pmap ((cs ! c)\<lparr>kinetic := n\<rparr>))" by (auto simp: follows_def)
  then obtain s where s: "database_operation 2 E en ((cs ! c)\<lparr>kinetic := n\<rparr>) = (Inr 0, s)" "pmap s = db1" "holds_log E store (kinetic s) (es @ [en])"
    using database_operation_end [OF assms(1), of "(cs ! c)\<lparr>kinetic := n\<rparr>" es i en db1 0] Cons.prems(1,5) db1 by (auto simp: numeral_2_eq_2)
  have "follows (es @ [en]) s" using s(2) db1 at_entry_end by (fastforce simp: follows_def)
  then have "\<forall>u \<in> set (cs[c := s]). follows (es @ [en]) u"
    using Cons.prems(2) follows_append by (fastforce dest!: subsetD [OF set_update_subset_insert])
  from Cons.IH [OF s(3) this] Cons.prems(3-5) t s(1) show ?case by (fastforce simp: c)
qed simp

text \<open>
  C14. Clients converge. Any number of clients, each of which has followed the log up to some entry,
  append entries in turns, in any order. Every operation succeeds, the log holds the new entries
  in the order of the turns, and every client that updates its database afterwards has the database
  that replaying the whole log gives, whatever it had missed.
\<close>

theorem clients_converge:
  assumes "reliable_client E store" "holds_log E store n es" "\<forall>s \<in> set cs. follows es s" "\<forall>(c, en) \<in> set turns. c < length cs"
    "replay (es @ map snd turns) PathMapDB_init = Inr (Some db)" "int (length es + length turns) < 2 ^ 63"
  shows "\<exists>n' cs'. operations E turns n cs = (replicate (length turns) (Inr 0), n', cs') \<and> holds_log E store n' (es @ map snd turns)
     \<and> length cs' = length cs
     \<and> list_all (\<lambda>s. \<exists>r. r \<in> {0, - EALREADY} \<and> database_update E (s\<lparr>kinetic := n'\<rparr>) = (Inr r, s\<lparr>kinetic := n', pmap := db\<rparr>)) cs'"
proof -
  let ?es = "es @ map snd turns"
  obtain n' cs' where run: "operations E turns n cs = (replicate (length turns) (Inr 0), n', cs')" "holds_log E store n' ?es"
    "length cs' = length cs" "\<forall>s \<in> set cs'. follows ?es s"
    using operations_log [OF assms] by blast
  have "\<exists>r. r \<in> {0, - EALREADY} \<and> database_update E (s\<lparr>kinetic := n'\<rparr>) = (Inr r, s\<lparr>kinetic := n', pmap := db\<rparr>)" if s: "s \<in> set cs'" for s
  proof -
    obtain i where "at_entry ?es i (pmap (s\<lparr>kinetic := n'\<rparr>))" using run(4) s by (auto simp: follows_def)
    then show ?thesis
      using database_update_end [OF assms(1), of "s\<lparr>kinetic := n'\<rparr>" ?es i db] run(2) assms(5,6)
      by (intro exI [of _ "if i = length ?es then - EALREADY else 0"]) simp
  qed
  with run(1-3) show ?thesis by (simp add: list_all_iff)
qed

text \<open>Two new clients on an empty drive; the second one is behind when its turn comes.\<close>

theorem clients_converge_witness:
  "\<exists>n' cs'. operations (drive_env 0 0 1) [(0, chmod_c), (1, chmod_c)] [] [log_client [], log_client []] = (replicate 2 (Inr 0), n', cs')
     \<and> holds_log (drive_env 0 0 1) map_of n' [chmod_c, chmod_c] \<and> length cs' = 2
     \<and> list_all (\<lambda>s. \<exists>r. r \<in> {0, - EALREADY} \<and> database_update (drive_env 0 0 1) (s\<lparr>kinetic := n'\<rparr>)
         = (Inr r, s\<lparr>kinetic := n', pmap := addPermissionChange ''/c'' (addPermissionChange ''/c'' PathMapDB_init)\<rparr>)) cs'"
proof -
  have log: "holds_log (drive_env 0 0 1) map_of [] []" by (simp add: holds_log_def log_version_def)
  have new: "\<forall>s \<in> set [log_client [], log_client []]. follows [] s" by (simp add: follows_def at_entry_def)
  have db: "replay ([] @ map snd [(0 :: nat, chmod_c), (1, chmod_c)]) PathMapDB_init = Inr (Some (addPermissionChange ''/c'' (addPermissionChange ''/c'' PathMapDB_init)))"
    by (simp add: apply_entry_def)
  have len: "length [(0 :: nat, chmod_c), (1, chmod_c)] = 2" "length [log_client [], log_client []] = 2" by simp_all
  have "\<forall>(c, en) \<in> set [(0, chmod_c), (1, chmod_c)]. c < length [log_client [], log_client []]" by simp
  from clients_converge [OF example.reliable_client_axioms log new this db, unfolded len list.map snd_conv append_Nil] show ?thesis by simp
qed

end
