(* ===== verification/HFlat_Tools.thy ===== *)
theory HFlat_Tools
  imports Fuse_Ops Fuse_Dir_Props
begin

section \<open>The command line tool\<close>

text \<open>
  tools/tools.cc: a program that asks a mounted file system to check a directory or its
  namespace, by setting the extended attribute \<^verbatim>\<open>fsck\<close> or \<^verbatim>\<open>nsck\<close>. The system it runs on is a
  parameter. What is printed is the reason of a failure; it is part of the result.
\<close>

subsection \<open>Model\<close>

record 'w tool_env =
  tool_realpath :: "string \<Rightarrow> string option"
  tool_mtab :: "(string \<times> string) list"
  tool_uid :: nat
  tool_is_dir :: "string \<Rightarrow> bool option"
  tool_setxattr :: "string \<Rightarrow> string \<Rightarrow> string \<Rightarrow> nat \<Rightarrow> nat \<Rightarrow> 'w \<Rightarrow> int \<times> 'w"

abbreviation (input) EXIT_FAILURE :: int where "EXIT_FAILURE \<equiv> 1"
abbreviation (input) TOOL_XATTR_CREATE :: nat where "TOOL_XATTR_CREATE \<equiv> 1"

definition failure :: "string \<Rightarrow> 'w \<Rightarrow> (int \<times> string) \<times> 'w" where
  "failure reason w = ((EXIT_FAILURE, reason), w)"

text \<open>A path is inside a mount point when it starts with the characters of it.\<close>

definition isHFMount :: "'w tool_env \<Rightarrow> string \<Rightarrow> bool" where
  "isHFMount T path = list_ex (\<lambda>mnt. take (length mnt) path = mnt)
     (map snd (filter (\<lambda>(fsname, _). take 5 fsname = ''hflat'') (tool_mtab T)))"

text \<open>The attribute is set to the first 0 bytes of a value.\<close>

definition fsck :: "'w tool_env \<Rightarrow> string \<Rightarrow> 'w \<Rightarrow> (int \<times> string) \<times> 'w" where
  "fsck T path w = (case tool_is_dir T path of
     None \<Rightarrow> failure ''Failed to call stat on path.'' w
   | Some dir \<Rightarrow>
       if \<not> dir then failure ''Path does not refer to a directory.'' w
       else (case tool_setxattr T path ''fsck'' ''no value'' 0 TOOL_XATTR_CREATE w of (err, w) \<Rightarrow>
         if err \<noteq> 0 then failure ''Failure during fsck.'' w else ((0, ''''), w)))"

definition nsck :: "'w tool_env \<Rightarrow> string \<Rightarrow> 'w \<Rightarrow> (int \<times> string) \<times> 'w" where
  "nsck T path w = (case tool_setxattr T path ''nsck'' ''no value'' 0 TOOL_XATTR_CREATE w of (err, w) \<Rightarrow>
     if err \<noteq> 0 then failure ''Invalid Namespace.'' w else ((0, ''''), w))"

definition tools_main :: "'w tool_env \<Rightarrow> string list \<Rightarrow> 'w \<Rightarrow> (int \<times> string) \<times> 'w" where
  "tools_main T argv w =
     (if length argv \<noteq> 3 \<or> (argv ! 1 \<noteq> ''-fsck'' \<and> argv ! 1 \<noteq> ''-nsck'') then failure ''Invalid arguments'' w
      else case tool_realpath T (argv ! 2) of
        None \<Rightarrow> failure ''Invalid path supplied.'' w
      | Some path \<Rightarrow>
          if \<not> isHFMount T path then failure ''Path not inside H-Flat mount.'' w
          else if tool_uid T \<noteq> 0 then failure ''Not root.'' w
          else if argv ! 1 = ''-fsck'' then fsck T path w
          else if argv ! 1 = ''-nsck'' then nsck T path w
          else failure ''Invalid.'' w)"

subsection \<open>Properties\<close>

lemma isHFMount_prefix: "(fsname, mnt) \<in> set (tool_mtab T) \<Longrightarrow> take 5 fsname = ''hflat'' \<Longrightarrow> isHFMount T (mnt @ x)"
  by (force simp: isHFMount_def list_ex_iff)

lemmas tools_defs = tools_main_def fsck_def nsck_def failure_def

text \<open>What the guards of the tool let through.\<close>

definition tool_request :: "'w tool_env \<Rightarrow> string list \<Rightarrow> (string \<times> string) option" where
  "tool_request T argv =
     (if length argv = 3 \<and> (argv ! 1 = ''-fsck'' \<or> argv ! 1 = ''-nsck'') \<and> tool_uid T = 0
      then (case tool_realpath T (argv ! 2) of
              Some path \<Rightarrow> if isHFMount T path \<and> (argv ! 1 = ''-nsck'' \<or> tool_is_dir T path = Some True)
                           then Some (path, tl (argv ! 1)) else None
            | None \<Rightarrow> None)
      else None)"

text \<open>
  The tool reports success exactly when its arguments are valid, the path resolves to one
  inside a mount of the file system, the caller is root, the path is a directory if it is to be
  checked, and the file system has accepted the one attribute that stands for the check.
  In all other cases it exits with a failure, and unless it got as far as setting the
  attribute it has changed nothing.
\<close>

theorem tools_main_guarded:
  "case tool_request T argv of
     None \<Rightarrow> fst (fst (tools_main T argv w)) = EXIT_FAILURE \<and> snd (tools_main T argv w) = w
   | Some (path, attr) \<Rightarrow>
       (fst (fst (tools_main T argv w)) = 0 \<longleftrightarrow> fst (tool_setxattr T path attr ''no value'' 0 TOOL_XATTR_CREATE w) = 0)
       \<and> snd (tools_main T argv w) = snd (tool_setxattr T path attr ''no value'' 0 TOOL_XATTR_CREATE w)"
proof (cases "length argv = 3 \<and> (argv ! 1 = ''-fsck'' \<or> argv ! 1 = ''-nsck'')")
  case False
  then show ?thesis by (auto simp: tool_request_def tools_defs)
next
  case args: True
  show ?thesis
  proof (cases "tool_realpath T (argv ! 2)")
    case None
    with args show ?thesis by (auto simp: tool_request_def tools_defs)
  next
    case (Some path)
    with args show ?thesis
      by (cases "tool_is_dir T path")
         (auto simp: tool_request_def tools_defs split: prod.splits if_splits)
  qed
qed

text \<open>The attribute arrives as a request to the client that serves the mount point.\<close>

definition mounted_setxattr :: "nat \<Rightarrow> 'n env \<Rightarrow> string \<Rightarrow> string \<Rightarrow> string \<Rightarrow> string \<Rightarrow> nat \<Rightarrow> nat
    \<Rightarrow> 'n hflat_priv \<Rightarrow> int \<times> 'n hflat_priv" where
  "mounted_setxattr n E mnt path attr v sz flags s =
     (case hflat_ops n E (op_setxattr (drop (length mnt) path) attr (take sz v) (word_of_nat flags)) s of
        (Inr (reply_code err), s') \<Rightarrow> (if err = 0 then 0 else - 1, s')
      | (_, s') \<Rightarrow> (- 1, s'))"

text \<open>
  From the command line to the drives: started by root with \<^verbatim>\<open>-nsck\<close> on a path of a
  mounted file system that can be looked up, the tool exits with 0 exactly when the self
  check of the namespace the client runs on succeeds, and the client is left as the check left it.
\<close>

theorem nsck_reports_self_check:
  assumes "tool_setxattr T = mounted_setxattr (Suc n) E mnt" "tool_uid T = 0"
    "tool_realpath T arg = Some (mnt @ path)" "(fsname, mnt) \<in> set (tool_mtab T)" "take 5 fsname = ''hflat''"
    "lookup n E path None s = (Inr (0, Some r), s1)" "ns_selfCheck (ns E) (kinetic s1) = (ok, k)"
  shows "tools_main T [prog, ''-nsck'', arg] s
     = ((if ok then (0, '''') else (EXIT_FAILURE, ''Invalid Namespace.'')), s1\<lparr>kinetic := k\<rparr>)"
proof -
  have "hflat_ops (Suc n) E (op_setxattr path ''nsck'' '''' 1) s
      = (Inr (reply_code (if ok then 0 else - EHOSTDOWN)), s1\<lparr>kinetic := k\<rparr>)"
    using assms(6,7) by (simp add: cmd_simps deref_def del: lookup.simps)
  then have "mounted_setxattr (Suc n) E mnt (mnt @ path) ''nsck'' ''no value'' 0 TOOL_XATTR_CREATE s
      = (if ok then 0 else - 1, s1\<lparr>kinetic := k\<rparr>)"
    by (simp add: mounted_setxattr_def)
  with assms(1-5) isHFMount_prefix [OF assms(4,5)] show ?thesis by (simp add: tools_defs)
qed

definition example_tool :: "drive hflat_priv tool_env" where
  "example_tool = \<lparr>tool_realpath = Some, tool_mtab = [(''/dev/sda1'', ''/''), (''hflat'', ''/mnt'')], tool_uid = 0,
     tool_is_dir = (\<lambda>_. Some True), tool_setxattr = mounted_setxattr (Suc (Suc 1)) (drive_env 0 100 5) ''/mnt''\<rparr>"

theorem nsck_reports_self_check_witness:
  "tools_main example_tool [''hflat_tools'', ''-nsck'', ''/mnt/d''] tree_client
     = ((if True then (0, '''') else (EXIT_FAILURE, ''Invalid Namespace.'')),
        (cached_new (drive_env 0 100 5) ''/d'' (setMD example_dir ''v1'' (MetadataInfo_new ''/d'')) tree_client)\<lparr>kinetic := example_tree\<rparr>)"
  by (rule nsck_reports_self_check [where n = "Suc 1" and mnt = "''/mnt''" and path = "''/d''" and fsname = "''hflat''" and E = "drive_env 0 100 5" and r = 0,
        OF _ _ _ _ _ tree_lookup [where n = 1]])
     (simp_all add: example_tool_def cached_new_def tree_client_def hflat_priv_new_def SimpleKineticNamespace_def
       Simple_selfCheck_def drive_connection_def)

end
