(* ===== verification/Distributed_Repair.thy ===== *)
theory Distributed_Repair
  imports Distributed_Props
begin

section \<open>Partial writes\<close>

text \<open>
  A client that stops in the middle of a write leaves the new record on some drives of a
  partition only. The next write of the key finds drives that answer differently and makes
  the drives agree again, on the record of the first GREEN drive.
\<close>

subsection \<open>Enforcing a record\<close>

text \<open>Drives that agree on all keys but one, which holds one of two records.\<close>

definition torn :: "('w \<Rightarrow> address \<Rightarrow> string \<rightharpoonup> KineticRecord) \<Rightarrow> Partition \<Rightarrow> 'w \<Rightarrow> (string \<rightharpoonup> KineticRecord)
    \<Rightarrow> (string \<rightharpoonup> KineticRecord) \<Rightarrow> bool" where
  "torn disk p w m m' \<longleftrightarrow> (\<forall>d \<in> set (drives p). in_use d \<longrightarrow> disk w (drive_address d) = m \<or> disk w (drive_address d) = m')"

text \<open>Two records with the same version are the same record.\<close>

definition telling :: "KineticRecord option \<Rightarrow> KineticRecord option \<Rightarrow> bool" where
  "telling x y \<longleftrightarrow> (case (x, y) of (Some r, Some r') \<Rightarrow> kr_version r = kr_version r' \<longrightarrow> r = r' | _ \<Rightarrow> True)"

text \<open>The drive whose record is enforced: the first GREEN one.\<close>

definition reference_drive :: "Partition \<Rightarrow> KineticDrive" where
  "reference_drive p = hd (filter (has_status GREEN) (drives p))"

lemma first_green_reference:
  "list_ex (has_status GREEN) ds \<Longrightarrow>
     \<exists>g < length ds. has_status GREEN (ds ! g) \<and> first_green ds i s = (Inr (i + g), s) \<and> ds ! g = hd (filter (has_status GREEN) ds)"
proof (induction ds arbitrary: i)
  case (Cons d ds)
  show ?case
  proof (cases "has_status GREEN d")
    case False
    with Cons.IH [of "Suc i"] Cons.prems obtain g where
      "g < length ds" "has_status GREEN (ds ! g)" "first_green ds (Suc i) s = (Inr (Suc i + g), s)" "ds ! g = hd (filter (has_status GREEN) ds)"
      by auto
    with False show ?thesis by (intro exI [of _ "Suc g"]) simp
  qed (intro exI [of _ 0]; simp)
qed simp

lemma reference_found:
  assumes "list_ex (has_status GREEN) (drives p)"
  shows "\<exists>g < length (drives p). has_status GREEN (drives p ! g) \<and> first_green (drives p) 0 s = (Inr g, s) \<and> drives p ! g = reference_drive p"
  using first_green_reference [OF assms, of 0 s] by (simp add: reference_drive_def)

context reliable_drives
begin

lemma enforce_record_result:
  assumes con: "connections s ! con = \<lparr>con_address = a, client_cluster_version = v\<rparr>" and up: "expects (world s) a = Some v"
    and tell: "telling (disk (world s) a key) ro"
  shows "\<exists>w. enforce_record E key ro index i con s = (Inr None, s\<lparr>world := w\<rparr>)
     \<and> disk w = (disk (world s))(a := (disk (world s) a)(key := ro)) \<and> expects w = expects (world s)"
proof -
  let ?m = "disk (world s) a"
  obtain e where get: "lib_GetVersion (lib E) key a v (world s) = (((fst (kv_get key ?m), e), map_option kr_version (?m key)), world s)"
    using GetVersion_served [OF up] by blast
  note get' = get request_apply [OF con, of "lib_GetVersion (lib E) key"]
  consider (same) "?m key = ro" | (delete) x where "?m key = Some x" "ro = None"
    | (copy) r where "ro = Some r" "?m key = None \<or> (\<exists>x. ?m key = Some x \<and> kr_version x \<noteq> kr_version r)"
    using tell by (cases ro; cases "?m key") (auto simp: telling_def)
  then show ?thesis
  proof cases
    case same
    then have "enforce_record E key ro index i con s = (Inr None, s\<lparr>world := world s\<rparr>)"
      using get' by (cases ro) (simp_all add: enforce_record_def cmd_simps kv_get_def expected_result_def)
    with same show ?thesis by (metis fun_upd_triv)
  next
    case delete
    obtain e' w where del: "lib_Delete (lib E) key (kr_version x) REQUIRE_SAME_VERSION a v (world s) = ((OK, e'), w)"
      "disk w = (disk (world s))(a := ?m(key := None))" "expects w = expects (world s)"
      using Delete_served [OF up, of key "kr_version x" REQUIRE_SAME_VERSION] delete by (auto simp: kv_delete_def version_matches_def)
    then have "enforce_record E key ro index i con s = (Inr None, s\<lparr>world := w\<rparr>)"
      using get' delete request_apply [OF con, of "lib_Delete (lib E) key (kr_version x) REQUIRE_SAME_VERSION"]
      by (simp add: enforce_record_def cmd_simps kv_get_def expected_result_def)
    with del(2,3) delete show ?thesis by blast
  next
    case copy
    let ?u = "case map_option kr_version (?m key) of None \<Rightarrow> '''' | Some u \<Rightarrow> u"
    obtain e' w where put: "lib_Put (lib E) key ?u REQUIRE_SAME_VERSION r a v (world s) = ((OK, e'), w)"
      "disk w = (disk (world s))(a := ?m(key \<mapsto> r))" "expects w = expects (world s)"
      using Put_served [OF up, of key ?u REQUIRE_SAME_VERSION r] by (auto simp: kv_put_def version_matches_def split: option.splits)
    then have "enforce_record E key ro index i con s = (Inr None, s\<lparr>world := w\<rparr>)"
      using get' copy request_apply [OF con, of "lib_Put (lib E) key ?u REQUIRE_SAME_VERSION r"]
      by (auto simp: enforce_record_def cmd_simps kv_get_def expected_result_def)
    with put(2,3) copy(1) show ?thesis by blast
  qed
qed

lemma enforce_on_result:
  assumes "linked p s" "serving expects p (world s)" "\<And>d. d \<in> set (drives p) \<Longrightarrow> in_use d \<Longrightarrow> telling (disk (world s) (drive_address d) key) ro"
    "\<forall>i \<in> set is. i < length (drives p)"
  shows "\<exists>s'. enforce_on E p key ro index is s = (Inr (OK, 0), s') \<and> same_cluster s s' \<and> linked p s'
     \<and> expects (world s') = expects (world s) \<and> (\<forall>q. linked q s \<and> serving expects q (world s) \<longrightarrow> linked q s')
     \<and> (\<forall>a. disk (world s') a = (if a \<in> reached p is then (disk (world s) a)(key := ro) else disk (world s) a))"
  using assms
proof (induction "is" arbitrary: s)
  case (Cons i "is")
  show ?case
  proof (cases "in_use (drives p ! i)")
    case False
    with Cons.IH [OF Cons.prems(1-3)] Cons.prems(4) show ?thesis by simp
  next
    case True
    let ?a = "drive_address (drives p ! i)"
    have i: "i < length (drives p)" using Cons.prems(4) by simp
    obtain c s1 where s1: "driveToConnection E p (int i) s = (Inr (Some c), s1)" "same_cluster s s1" "linked p s1" "world s1 = world s"
      "connections s1 ! c = \<lparr>con_address = ?a, client_cluster_version = part_version p\<rparr>"
      "\<And>q. linked q s \<Longrightarrow> serving expects q (world s) \<Longrightarrow> linked q s1"
      using driveToConnection_linked [OF Cons.prems(1,2) i True] by blast
    have up: "expects (world s1) ?a = Some (part_version p)" using Cons.prems(2) i True s1(4) by (simp add: serving_def)
    have "telling (disk (world s1) ?a key) ro" using Cons.prems(3) [of "drives p ! i"] i True s1(4) by simp
    from enforce_record_result [OF s1(5) up this] s1(4)
    obtain w where w: "enforce_record E key ro index i c s1 = (Inr None, s1\<lparr>world := w\<rparr>)"
      "disk w = (disk (world s))(?a := (disk (world s) ?a)(key := ro))" "expects w = expects (world s)" by auto
    have st: "linked p (s1\<lparr>world := w\<rparr>)" "serving expects p (world (s1\<lparr>world := w\<rparr>))"
      using s1(3) Cons.prems(2) w(3) by (simp_all add: serving_def)
    have tell: "telling (disk (world (s1\<lparr>world := w\<rparr>)) (drive_address d) key) ro" if "d \<in> set (drives p)" "in_use d" for d
      using Cons.prems(3) [OF that] w(2) by (auto simp: telling_def split: option.splits)
    from Cons.IH [OF st tell] Cons.prems(4) obtain s' where IH: "enforce_on E p key ro index is (s1\<lparr>world := w\<rparr>) = (Inr (OK, 0), s')"
      "same_cluster (s1\<lparr>world := w\<rparr>) s'" "linked p s'" "expects (world s') = expects w"
      "\<And>q. linked q s1 \<Longrightarrow> serving expects q w \<Longrightarrow> linked q s'"
      "\<And>a. disk (world s') a = (if a \<in> reached p is then (disk w a)(key := ro) else disk w a)" by auto
    have "enforce_on E p key ro index (i # is) s = (Inr (OK, 0), s')"
      using True s1(1) w(1) IH(1) by (simp add: cmd_simps deref_def)
    moreover have "same_cluster s s'" using s1(2) IH(2) by (simp add: same_cluster_def)
    moreover have "linked q s'" if "linked q s" "serving expects q (world s)" for q
      using IH(5) s1(6) that w(3) by (simp add: serving_def)
    moreover have "disk (world s') a = (if a \<in> reached p (i # is) then (disk (world s) a)(key := ro) else disk (world s) a)" for a
      using IH(6) [of a] w(2) True by auto
    ultimately show ?thesis using IH(3,4) w(3) by auto
  qed
qed simp

text \<open>
  What the repair of a key does: the record of the reference drive, or, when that drive has
  none, the record the caller still holds, is what all drives have afterwards.
\<close>

lemma readRepair_result:
  fixes p :: Partition and s :: "'w cluster"
  defines "m \<equiv> disk (world s) (drive_address (reference_drive p))"
  assumes key: "keyToPartition E key s = (Inr k, s)" and p: "p = cluster_map s ! k" "list_ex (has_status GREEN) (drives p)"
    and st: "linked p s" "serving expects p (world s)" and ro: "ro = (case m key of None \<Rightarrow> rec | Some r \<Rightarrow> Some r)"
    and tell: "\<And>d. d \<in> set (drives p) \<Longrightarrow> in_use d \<Longrightarrow> telling (disk (world s) (drive_address d) key) ro"
  shows "\<exists>s'. readRepair E key rec s = (Inr ((OK, 0), ro), s') \<and> same_cluster s s' \<and> linked p s'
     \<and> expects (world s') = expects (world s) \<and> (\<forall>q. linked q s \<and> serving expects q (world s) \<longrightarrow> linked q s')
     \<and> (\<forall>d \<in> set (drives p). in_use d \<longrightarrow> disk (world s') (drive_address d) = (disk (world s) (drive_address d))(key := ro))
     \<and> (\<forall>a. a \<in> drive_address ` set (drives p) \<or> disk (world s') a = disk (world s) a)"
proof -
  obtain g where g: "g < length (drives p)" "has_status GREEN (drives p ! g)" "first_green (drives p) 0 s = (Inr g, s)" "drives p ! g = reference_drive p"
    using reference_found [OF p(2), of s] by blast
  let ?a = "drive_address (drives p ! g)"
  have use: "in_use (drives p ! g)" using g(2) by simp
  have up: "expects (world s) ?a = Some (part_version p)" using st(2) g(1) use by (simp add: serving_def)
  obtain c s1 where s1: "driveToConnection E p (int g) s = (Inr (Some c), s1)" "same_cluster s s1" "linked p s1" "world s1 = world s"
    "connections s1 ! c = \<lparr>con_address = ?a, client_cluster_version = part_version p\<rparr>"
    "\<And>q. linked q s \<Longrightarrow> serving expects q (world s) \<Longrightarrow> linked q s1"
    using driveToConnection_linked [OF st(1,2) g(1) use] by blast
  obtain e where get: "lib_Get (lib E) key ?a (part_version p) (world s) = (((fst (kv_get key m), e), m key), world s)"
    using Get_served [OF up, of key] g(4) by (auto simp: kv_get_def m_def split: option.splits)
  obtain s' where r: "enforce_on E p key ro g [0 ..< length (drives p)] s1 = (Inr (OK, 0), s')" "same_cluster s1 s'" "linked p s'"
    "expects (world s') = expects (world s1)" "\<And>q. linked q s1 \<Longrightarrow> serving expects q (world s1) \<Longrightarrow> linked q s'"
    "\<And>a. disk (world s') a = (if a \<in> reached p [0 ..< length (drives p)] then (disk (world s1) a)(key := ro) else disk (world s1) a)"
    using enforce_on_result [of p s1 key ro "[0 ..< length (drives p)]" g] s1(3,4) st(2) tell by auto
  have part: "part_of (ClusterPart k) s = p" using p(1) by (simp add: part_of_def)
  have same: "s1\<lparr>world := world s\<rparr> = s1" using s1(4) by (metis cluster.surjective cluster.update_convs(11))
  have "readRepair E key rec s = (Inr ((OK, 0), ro), s')"
    using key part g(3) s1(1,4) request_apply [OF s1(5), of "lib_Get (lib E) key"] get r(1) ro
    by (cases "m key") (simp_all add: readRepair_def cmd_simps deref_def kv_get_def expected_result_def Let_def same)
  moreover have "disk (world s') (drive_address d) = (disk (world s) (drive_address d))(key := ro)" if "d \<in> set (drives p)" "in_use d" for d
    using r(6) s1(4) that by (auto simp: reached_def in_set_conv_nth)
  moreover have "a \<in> drive_address ` set (drives p) \<or> disk (world s') a = disk (world s) a" for a
    using r(6) [of a] s1(4) by (auto simp: reached_def)
  moreover have "same_cluster s s'" using same_cluster_trans [OF s1(2) r(2)] .
  ultimately show ?thesis using r(3-5) s1(4,6) by auto
qed

lemma repaired:
  assumes key: "keyToPartition E key s = (Inr k, s)" and p: "p = cluster_map s ! k" "list_ex (has_status GREEN) (drives p)"
    and st: "linked p s" "serving expects p (world s)" "torn disk p (world s) (m(key \<mapsto> r)) (m(key \<mapsto> r'))" "kr_version r \<noteq> kr_version r'"
  shows "\<exists>s' x. readRepair E key None s = (Inr ((OK, 0), Some x), s') \<and> x \<in> {r, r'} \<and> same_cluster s s' \<and> linked p s'
     \<and> expects (world s') = expects (world s) \<and> replicas disk p (world s') (m(key \<mapsto> x))"
proof -
  have two: "disk (world s) (drive_address d) = m(key \<mapsto> r) \<or> disk (world s) (drive_address d) = m(key \<mapsto> r')" if "d \<in> set (drives p)" "in_use d" for d
    using st(3) that unfolding torn_def by blast
  have "reference_drive p \<in> set (drives p)" "in_use (reference_drive p)" using reference_found [OF p(2), of s] nth_mem by fastforce+
  then obtain x where x: "disk (world s) (drive_address (reference_drive p)) key = Some x" "x \<in> {r, r'}" using two by fastforce
  have "telling (disk (world s) (drive_address d) key) (Some x)" if "d \<in> set (drives p)" "in_use d" for d
    using two [OF that] x(2) st(4) by (auto simp: telling_def)
  from readRepair_result [OF key p st(1,2) _ this, of None] x(1) obtain s' where r:
    "readRepair E key None s = (Inr ((OK, 0), Some x), s')" "same_cluster s s'" "linked p s'" "expects (world s') = expects (world s)"
    "\<And>d. d \<in> set (drives p) \<Longrightarrow> in_use d \<Longrightarrow> disk (world s') (drive_address d) = (disk (world s) (drive_address d))(key \<mapsto> x)"
    by auto
  have "replicas disk p (world s') (m(key \<mapsto> x))"
    unfolding replicas_def using r(5) two by (metis fun_upd_upd)
  with r x(2) show ?thesis by blast
qed

lemma all_equal_False:
  "\<forall>i \<in> set is. i < length rs \<Longrightarrow> \<exists>i \<in> set is. in_use (drives p ! i) \<and> fst (rs ! i) \<noteq> c \<Longrightarrow> all_equal p rs c is s = (Inr False, s)"
proof (induction "is")
  case (Cons i "is")
  have total: "\<exists>b. all_equal p rs c is s = (Inr b, s)" if "\<forall>i \<in> set is. i < length rs" for "is"
    using that by (induction "is") (auto simp: result_at_def cmd_simps)
  show ?case
  proof (cases "\<exists>i \<in> set is. in_use (drives p ! i) \<and> fst (rs ! i) \<noteq> c")
    case True
    with Cons show ?thesis by (simp add: result_at_def cmd_simps)
  next
    case False
    with Cons.prems have "in_use (drives p ! i)" "fst (rs ! i) \<noteq> c" by auto
    with total [of "is"] Cons.prems(1) show ?thesis by (auto simp: result_at_def cmd_simps)
  qed
qed simp

lemma first_error_None:
  "\<forall>i \<in> set is. in_use (drives p ! i) \<longrightarrow> i < length rs \<and> \<not> write_error (fst (rs ! i)) \<Longrightarrow> first_error p rs is s = (Inr None, s)"
  by (induction "is") (auto simp: result_at_def cmd_simps)

text \<open>Drives that neither fail nor agree: a partial write.\<close>

lemma evaluate_torn:
  assumes "part_of r s = p" "list_ex (has_status GREEN) (drives p)" "length rs = length (drives p)"
    "\<And>j. j < length (drives p) \<Longrightarrow> in_use (drives p ! j) \<Longrightarrow> \<not> write_error (fst (rs ! j))"
    "i < length (drives p)" "in_use (drives p ! i)" "j < length (drives p)" "in_use (drives p ! j)" "fst (rs ! i) \<noteq> fst (rs ! j)"
  shows "evaluateWriteOperation (Suc n) E r rs s = (Inr (REMOTE_OTHER_ERROR, 0), s)"
proof -
  obtain g where g: "g < length (drives p)" "first_green (drives p) 0 s = (Inr g, s)"
    using first_green_found [OF assms(2), of 0 s] by auto
  have "\<exists>i \<in> set [0 ..< length (drives p)]. in_use (drives p ! i) \<and> fst (rs ! i) \<noteq> fst (rs ! g)"
    using assms(5-9) by (metis atLeast0LessThan lessThan_iff set_upt)
  then have "all_equal p rs (fst (rs ! g)) [0 ..< length (drives p)] s = (Inr False, s)"
    using assms(3) by (intro all_equal_False) simp_all
  moreover have "first_error p rs [0 ..< length (drives p)] s = (Inr None, s)"
    using assms(3,4) by (intro first_error_None) simp
  ultimately show ?thesis using assms(1,3) g by (simp add: call_def result_at_def)
qed

lemma write_torn:
  assumes f: "carries_out disk expects f g" "g m = (OK, n)" "g m' = (REMOTE_VERSION_MISMATCH, n')"
    and key: "keyToPartition E key s = (Inr k, s)"
    and p: "p = cluster_map s ! k" "distinct (map drive_address (drives p))" "list_ex (has_status GREEN) (drives p)"
      "logid p = None \<or> \<not> list_ex (has_status RED) (drives p)"
    and st: "linked p s" "serving expects p (world s)" "torn disk p (world s) m m'"
  shows "\<exists>c e s'. writeOperation (Suc (Suc fuel)) E key (\<lambda>con. request con f) s = (Inr (c, e), s')
     \<and> same_cluster s s' \<and> linked p s' \<and> expects (world s') = expects (world s)
     \<and> (c = OK \<and> replicas disk p (world s') n \<or> c = REMOTE_VERSION_MISMATCH \<and> replicas disk p (world s') n'
        \<or> c = REMOTE_OTHER_ERROR \<and> torn disk p (world s') n n')"
proof -
  have two: "disk (world s) (drive_address d) = m \<or> disk (world s) (drive_address d) = m'" if "d \<in> set (drives p)" "in_use d" for d
    using st(3) that unfolding torn_def by blast
  have codes: "fst (g (disk (world s) (drive_address d))) \<noteq> REMOTE_CLUSTER_VERSION_MISMATCH" if "d \<in> set (drives p)" "in_use d" for d
    using two [OF that] f(2,3) by auto
  obtain rs s' where w: "writeOperation (Suc (Suc fuel)) E key (\<lambda>con. request con f) s = evaluateWriteOperation (Suc fuel) E (ClusterPart k) rs s'"
    "same_cluster s s'" "linked p s'" "expects (world s') = expects (world s)" "length rs = length (drives p)"
    "\<And>j. j < length (drives p) \<Longrightarrow> in_use (drives p ! j) \<Longrightarrow> fst (rs ! j) = fst (g (disk (world s) (drive_address (drives p ! j))))"
    "\<And>d. d \<in> set (drives p) \<Longrightarrow> in_use d \<Longrightarrow> disk (world s') (drive_address d) = snd (g (disk (world s) (drive_address d)))"
    using write_reaches_drives [OF f(1) codes key p(1,2,4) st(1,2)] by blast
  have part: "part_of (ClusterPart k) s' = p" using p(1) w(2) by (simp add: part_of_def same_cluster_def)
  have result: "fst (rs ! j) = OK \<and> disk (world s') (drive_address (drives p ! j)) = n
      \<or> fst (rs ! j) = REMOTE_VERSION_MISMATCH \<and> disk (world s') (drive_address (drives p ! j)) = n'"
    if "j < length (drives p)" "in_use (drives p ! j)" for j
    using two [OF nth_mem [OF that(1)] that(2)] w(6) [OF that] w(7) [OF nth_mem [OF that(1)] that(2)] f(2,3) by auto
  consider (equal) c where "\<And>j. j < length (drives p) \<Longrightarrow> in_use (drives p ! j) \<Longrightarrow> fst (rs ! j) = c"
    | (differ) i j where "i < length (drives p)" "in_use (drives p ! i)" "j < length (drives p)" "in_use (drives p ! j)" "fst (rs ! i) \<noteq> fst (rs ! j)"
    by metis
  then show ?thesis
  proof cases
    case equal
    obtain e where e: "evaluateWriteOperation (Suc fuel) E (ClusterPart k) rs s' = (Inr (c, e), s')"
      using evaluate_equal [OF part p(3) w(5) equal] by blast
    obtain g where "g < length (drives p)" "has_status GREEN (drives p ! g)" using p(3) by (auto simp: list_ex_length)
    then have c: "c = OK \<or> c = REMOTE_VERSION_MISMATCH" using result [of g] equal [of g] by auto
    have "disk (world s') (drive_address (drives p ! j)) = (if c = OK then n else n')" if "j < length (drives p)" "in_use (drives p ! j)" for j
      using result [OF that] equal [OF that] by auto
    then have "replicas disk p (world s') (if c = OK then n else n')"
      by (auto simp: replicas_def in_set_conv_nth)
    with c w(1-4) e show ?thesis by auto
  next
    case differ
    have "\<not> write_error (fst (rs ! j))" if "j < length (drives p)" "in_use (drives p ! j)" for j
      using result [OF that] by (auto simp: write_error_def)
    from evaluate_torn [OF part p(3) w(5) this differ] have "evaluateWriteOperation (Suc fuel) E (ClusterPart k) rs s' = (Inr (REMOTE_OTHER_ERROR, 0), s')" .
    moreover have "torn disk p (world s') n n'" using result by (fastforce simp: torn_def in_set_conv_nth)
    ultimately show ?thesis using w(1-4) by auto
  qed
qed

end

lemma Put_with_repair:
  assumes "writeOperation n E key (\<lambda>con. request con (lib_Put (lib E) key v wm r)) s = (Inr (REMOTE_OTHER_ERROR, e), s1)"
    "readRepair E key None s1 = (Inr ((OK, 0), Some x), s2)"
  shows "\<exists>cap. Distributed_Put n E key v wm r s =
     (Inr (if kr_version r = kr_version x then OK else REMOTE_VERSION_MISMATCH), s2\<lparr>capacity_estimate := cap\<rparr>)"
  using assms change_estimate_result [of "kr_version r = kr_version x \<and> v = ''''" f_add OK s2]
    change_estimate_result [of False f_add REMOTE_VERSION_MISMATCH s2]
  by (auto simp: Distributed_Put_def repair_after_write_def call_def)

subsection \<open>Completing or undoing a partial write\<close>

text \<open>
  C18. A partial write does not survive the next write: when a client has stopped after it put
  its record on some of the drives, a client that writes the key with the version it knows
  finds all drives in sync afterwards, either with its own record and the answer that it has
  succeeded, or with the other client's record and the answer that its version is outdated.
\<close>

theorem partial_write_resolved:
  assumes "reliable_drives E disk expects" "keyToPartition E key s = (Inr k, s)"
    "distinct (map drive_address (drives (cluster_map s ! k)))" "list_ex (has_status GREEN) (drives (cluster_map s ! k))"
    "logid (cluster_map s ! k) = None \<or> \<not> list_ex (has_status RED) (drives (cluster_map s ! k))"
    "linked (cluster_map s ! k) s" "serving expects (cluster_map s ! k) (world s)"
    "torn disk (cluster_map s ! k) (world s) m (m(key \<mapsto> r'))"
    "version_matches (m key) v REQUIRE_SAME_VERSION" "kr_version r' \<noteq> v" "kr_version r \<noteq> kr_version r'"
  shows "\<exists>c s'. Distributed_Put (Suc (Suc n)) E key v REQUIRE_SAME_VERSION r s = (Inr c, s')
     \<and> (c = OK \<and> in_sync disk expects s' k (m(key \<mapsto> r))
        \<or> c = REMOTE_VERSION_MISMATCH \<and> in_sync disk expects s' k (m(key \<mapsto> r')))"
proof -
  let ?p = "cluster_map s ! k"
  have kv: "kv_put key v REQUIRE_SAME_VERSION r m = (OK, m(key \<mapsto> r))"
    "kv_put key v REQUIRE_SAME_VERSION r (m(key \<mapsto> r')) = (REMOTE_VERSION_MISMATCH, m(key \<mapsto> r'))"
    using assms(9,10) by (simp_all add: kv_put_def version_matches_def)
  obtain c e s1 where w: "writeOperation (Suc (Suc n)) E key (\<lambda>con. request con (lib_Put (lib E) key v REQUIRE_SAME_VERSION r)) s = (Inr (c, e), s1)"
    "same_cluster s s1" "linked ?p s1" "expects (world s1) = expects (world s)"
    "c = OK \<and> replicas disk ?p (world s1) (m(key \<mapsto> r)) \<or> c = REMOTE_VERSION_MISMATCH \<and> replicas disk ?p (world s1) (m(key \<mapsto> r'))
        \<or> c = REMOTE_OTHER_ERROR \<and> torn disk ?p (world s1) (m(key \<mapsto> r)) (m(key \<mapsto> r'))"
    using reliable_drives.write_torn [OF assms(1) reliable_drives.carries_out_put [OF assms(1)] kv assms(2) refl assms(3-8)] by blast
  have sync: "in_sync disk expects s' k x" if "same_cluster s s'" "linked ?p s'" "expects (world s') = expects (world s)" "replicas disk ?p (world s') x" for s' x
    using that assms(3-5,7) by (simp add: in_sync_def Let_def same_cluster_def serving_def)
  show ?thesis
  proof (cases "c = REMOTE_OTHER_ERROR")
    case False
    from Put_without_repair [OF w(1) False] obtain cap where
      "Distributed_Put (Suc (Suc n)) E key v REQUIRE_SAME_VERSION r s = (Inr c, s1\<lparr>capacity_estimate := cap\<rparr>)" by blast
    moreover have "c = OK \<and> in_sync disk expects s1 k (m(key \<mapsto> r)) \<or> c = REMOTE_VERSION_MISMATCH \<and> in_sync disk expects s1 k (m(key \<mapsto> r'))"
      using False w(2-5) sync by blast
    ultimately show ?thesis by auto
  next
    case True
    have key1: "keyToPartition E key s1 = (Inr k, s1)"
      using assms(2) w(2) by (auto simp: keyToPartition_def cmd_simps same_cluster_def split: if_splits)
    have st: "?p = cluster_map s1 ! k" "serving expects ?p (world s1)" "torn disk ?p (world s1) (m(key \<mapsto> r)) (m(key \<mapsto> r'))"
      using w(2,4,5) assms(7) True by (simp_all add: same_cluster_def serving_def)
    obtain s' x where r: "readRepair E key None s1 = (Inr ((OK, 0), Some x), s')" "x \<in> {r, r'}" "same_cluster s1 s'" "linked ?p s'"
      "expects (world s') = expects (world s1)" "replicas disk ?p (world s') (m(key \<mapsto> x))"
      using reliable_drives.repaired [OF assms(1) key1 st(1) assms(4) w(3) st(2,3) assms(11)] by blast
    obtain cap where "Distributed_Put (Suc (Suc n)) E key v REQUIRE_SAME_VERSION r s =
       (Inr (if kr_version r = kr_version x then OK else REMOTE_VERSION_MISMATCH), s'\<lparr>capacity_estimate := cap\<rparr>)"
      using Put_with_repair [OF w(1) [unfolded True] r(1)] by blast
    moreover have "in_sync disk expects s' k (m(key \<mapsto> x))"
      using sync same_cluster_trans [OF w(2) r(3)] r(4-6) w(4) by simp
    ultimately show ?thesis using r(2) assms(11) by auto
  qed
qed

definition torn_rack :: rack where
  "torn_rack = [(''a'', 8123) \<mapsto> ([], 3), (''b'', 8123) \<mapsto> ([(''/f'', \<lparr>kr_value = ''y'', kr_version = ''v2''\<rparr>)], 3)]"

theorem partial_write_resolved_witness:
  "\<exists>c s'. Distributed_Put (Suc (Suc 0)) (rack_env id) ''/f'' '''' REQUIRE_SAME_VERSION \<lparr>kr_value = ''x'', kr_version = ''v1''\<rparr>
         (pair_cluster (pair_partition 3 [drive_a GREEN, drive_b GREEN]) torn_rack) = (Inr c, s')
     \<and> (c = OK \<and> in_sync rack_disk rack_expects s' 0 (Map.empty(''/f'' \<mapsto> \<lparr>kr_value = ''x'', kr_version = ''v1''\<rparr>))
        \<or> c = REMOTE_VERSION_MISMATCH \<and> in_sync rack_disk rack_expects s' 0 (Map.empty(''/f'' \<mapsto> \<lparr>kr_value = ''y'', kr_version = ''v2''\<rparr>)))"
proof (rule partial_write_resolved [OF rack.reliable_drives_axioms pair_key])
  have cm: "cluster_map (pair_cluster p w) ! 0 = p" "world (pair_cluster p w) = w" for p and w :: rack
    by (simp_all add: pair_cluster_def cluster_new_def)
  show "linked (cluster_map (pair_cluster (pair_partition 3 [drive_a GREEN, drive_b GREEN]) torn_rack) ! 0)
     (pair_cluster (pair_partition 3 [drive_a GREEN, drive_b GREEN]) torn_rack)" by (rule pair_linked)
  show "torn rack_disk (cluster_map (pair_cluster (pair_partition 3 [drive_a GREEN, drive_b GREEN]) torn_rack) ! 0)
     (world (pair_cluster (pair_partition 3 [drive_a GREEN, drive_b GREEN]) torn_rack)) Map.empty
     (Map.empty(''/f'' \<mapsto> \<lparr>kr_value = ''y'', kr_version = ''v2''\<rparr>))"
    unfolding cm by (simp add: torn_def pair_defs torn_rack_def rack_disk_def)
qed (simp_all add: pair_defs serving_def rack_expects_def torn_rack_def version_matches_def)

end
