(* ===== verification/Distributed_Failure.thy ===== *)
theory Distributed_Failure
  imports Distributed_Trace Distributed_Repair
begin

section \<open>Losing a drive\<close>

text \<open>
  A drive of a partition stops answering. The write that notices takes it out of the partition,
  publishes the partition under the next cluster version and goes on with the other drives.
\<close>

subsection \<open>Drives that do not answer\<close>

text \<open>A request to a drive that cannot be reached fails with an error of its own and changes nothing.\<close>

locale failing_drives = reliable_drives +
  assumes Put_unreachable: "expects w a = None \<Longrightarrow> \<exists>e. lib_Put (lib E) key u wm r a v w = ((REMOTE_REMOTE_CONNECTION_ERROR, e), w)"
    and Delete_unreachable: "expects w a = None \<Longrightarrow> \<exists>e. lib_Delete (lib E) key u wm a v w = ((REMOTE_REMOTE_CONNECTION_ERROR, e), w)"

interpretation failing_rack: failing_drives "rack_env rnd" rack_disk rack_expects for rnd
  by unfold_locales (auto simp: rack_library_def served_def rack_expects_def)

text \<open>The connection to a drive, with the cluster version it claims.\<close>

definition attached :: "int \<Rightarrow> address \<Rightarrow> 'w cluster \<Rightarrow> bool" where
  "attached v a s \<longleftrightarrow> (\<exists>c. connection_map s a = Some c \<and> c < length (connections s)
     \<and> connections s ! c = \<lparr>con_address = a, client_cluster_version = v\<rparr>)"

lemma attached_world [simp]: "attached v a (s\<lparr>world := w\<rparr>) = attached v a s" "attached v a (s\<lparr>drawn := k\<rparr>) = attached v a s"
  "attached v a (set_part_of r p s) = attached v a s"
  by (cases r; simp add: attached_def set_part_of_def)+

lemma attachedE:
  assumes "attached v a s"
  obtains c where "connection_map s a = Some c" "c < length (connections s)" "connections s ! c = \<lparr>con_address = a, client_cluster_version = v\<rparr>"
  using assms by (auto simp: attached_def)

lemma linked_attached:
  assumes "\<And>i. i < length (drives p) \<Longrightarrow> in_use (drives p ! i) \<Longrightarrow> attached (part_version p) (drive_address (drives p ! i)) s"
  shows "linked p s"
proof -
  have "attached (part_version p) (drive_address d) s" if "d \<in> set (drives p)" "in_use d" for d
    using that assms by (metis in_set_conv_nth)
  then show ?thesis by (fastforce simp: linked_def attached_def)
qed

lemma linked_erase: "linked p s \<Longrightarrow> linked p (s\<lparr>connection_map := (connection_map s)(a := None)\<rparr>)"
  by (simp add: linked_def)

text \<open>A partition in which one drive counts as lost.\<close>

abbreviation (input) lost :: "nat \<Rightarrow> Partition \<Rightarrow> Partition" where
  "lost x p \<equiv> set_status x RED p"

lemma set_status_simps [simp]:
  "length (drives (set_status x st p)) = length (drives p)" "i \<noteq> x \<Longrightarrow> drives (set_status x st p) ! i = drives p ! i"
  "x < length (drives p) \<Longrightarrow> drive_status (drives (set_status x st p) ! x) = st"
  "drive_address (drives (set_status x st p) ! i) = drive_address (drives p ! i)"
  "map drive_address (drives (set_status x st p)) = map drive_address (drives p)"
  "cluster_version (set_status x st p) = cluster_version p" "partitionid (set_status x st p) = partitionid p" "logid (set_status x st p) = logid p"
  by (cases "x < length (drives p)"; simp add: set_status_def drive_address_def nth_list_update map_update list_update_beyond;
      metis drive_address_def list_update_id map_update nth_map)+


subsection \<open>The write that notices\<close>

lemma keeps_attached_driveToConnection: "keeps (attached v a) (driveToConnection E p i)"
proof -
  have new: "attached v a (s\<lparr>world := w, connections := connections s @ [x], connection_map := (connection_map s)(b \<mapsto> length (connections s))\<rparr>)"
    if "attached v a s" "connection_map s b = None" for s :: "'a cluster" and w x b
    using that by (fastforce simp: attached_def nth_append)
  show ?thesis
    unfolding keeps_def
    by (auto simp: driveToConnection_def drive_at_def call_def run_lib_def reads_def split: option.splits if_splits prod.splits intro!: new)
qed

lemma keeps_attached_run: "keeps (attached v a) (run_on_drives E p (\<lambda>con. request con f) is)"
proof (induction "is")
  case (Cons i "is")
  have "keeps (attached v a) (request c f)" for c
    by (auto simp: keeps_def request_def run_lib_def split: prod.splits)
  then show ?case unfolding run_on_drives.simps deref_def by (intro keeps_intros keeps_attached_driveToConnection Cons)
qed (unfold run_on_drives.simps, intro keeps_intros)

lemma run_on_drives_skip: "x \<notin> set is \<Longrightarrow> run_on_drives E (lost x p) op is = run_on_drives E p op is"
proof (induction "is")
  case (Cons i "is")
  then have "driveToConnection E (lost x p) (int i) = driveToConnection E p (int i)"
    unfolding driveToConnection_def drive_at_def by (simp only: set_status_simps(6)) simp
  with Cons show ?case by auto
qed simp

lemma run_on_drives_append:
  "run_on_drives E p op (is @ js) s = call (run_on_drives E p op is) (\<lambda>a. call (run_on_drives E p op js) (\<lambda>b. ret (a @ b))) s"
  by (induction "is" arbitrary: s) (auto simp: call_def ret_def split: prod.splits sum.splits)

context reliable_drives
begin

text \<open>A write connects to all drives it reaches.\<close>

lemma run_on_drives_attaches:
  assumes "carries_out disk expects f g" "linked p s" "serving expects p (world s)" "\<forall>i \<in> set is. i < length (drives p)"
    "run_on_drives E p (\<lambda>con. request con f) is s = (Inr rs, s')"
  shows "\<forall>i \<in> set is. in_use (drives p ! i) \<longrightarrow> attached (part_version p) (drive_address (drives p ! i)) s'"
  using assms(2-)
proof (induction "is" arbitrary: s rs)
  case (Cons i "is")
  show ?case
  proof (cases "in_use (drives p ! i)")
    case False
    with Cons.prems(4) obtain rs' where "run_on_drives E p (\<lambda>con. request con f) is s = (Inr rs', s')"
      by (auto simp: cmd_simps call_Inr)
    with Cons.IH [OF Cons.prems(1,2)] Cons.prems(3) False show ?thesis by simp
  next
    case True
    let ?a = "drive_address (drives p ! i)"
    have i: "i < length (drives p)" using Cons.prems(3) by simp
    obtain c s1 where s1: "driveToConnection E p (int i) s = (Inr (Some c), s1)" "same_cluster s s1" "linked p s1" "world s1 = world s"
      "connections s1 ! c = \<lparr>con_address = ?a, client_cluster_version = part_version p\<rparr>"
      using driveToConnection_linked [OF Cons.prems(1,2) i True] by blast
    have "attached (part_version p) ?a s1"
      using s1(1,3) i True by (auto simp: driveToConnection_def cmd_simps call_Inr linked_def attached_def run_lib_def split: option.splits if_splits prod.splits)
    then have att: "attached (part_version p) ?a (s1\<lparr>world := w\<rparr>)" for w by simp
    obtain e w where f: "f ?a (part_version p) (world s) = (e, w)" "expects w = expects (world s)"
      using assms(1) Cons.prems(2) i True unfolding carries_out_def serving_def by (metis nth_mem)
    obtain rs' where rest: "run_on_drives E p (\<lambda>con. request con f) is (s1\<lparr>world := w\<rparr>) = (Inr rs', s')"
      using Cons.prems(4) True s1(1,4) request_apply [OF s1(5), of f] f by (auto simp: cmd_simps deref_def call_Inr)
    have "serving expects p (world (s1\<lparr>world := w\<rparr>))" "linked p (s1\<lparr>world := w\<rparr>)" using Cons.prems(2) f(2) s1(3) by (simp_all add: serving_def)
    from Cons.IH [OF this(2,1) _ rest] Cons.prems(3) keepsD [OF keeps_attached_run att rest] show ?thesis by simp
  qed
qed simp

text \<open>
  A write with a lost drive: the lost drive answers with an error, the others carry the
  write out.
\<close>

lemma lossy_run:
  assumes f: "carries_out disk expects f g" "\<And>w v. expects w (drive_address (drives p ! x)) = None \<Longrightarrow> \<exists>e. f (drive_address (drives p ! x)) v w = ((err, e), w)"
    and p: "x < length (drives p)" "in_use (drives p ! x)" "distinct (map drive_address (drives p))"
    and st: "linked (lost x p) s" "serving expects (lost x p) (world s)" "attached v (drive_address (drives p ! x)) s"
      "expects (world s) (drive_address (drives p ! x)) = None"
  shows "\<exists>rs s'. run_on_drives E p (\<lambda>con. request con f) [0 ..< length (drives p)] s = (Inr rs, s')
     \<and> same_cluster s s' \<and> linked (lost x p) s' \<and> expects (world s') = expects (world s) \<and> drawn s' = drawn s \<and> length rs = length (drives p)
     \<and> (\<forall>j < length (drives p). in_use (drives p ! j) \<longrightarrow> fst (rs ! j) = (if j = x then err else fst (g (disk (world s) (drive_address (drives p ! j))))))
     \<and> (\<forall>j < length (drives p). \<not> in_use (drives p ! j) \<longrightarrow> fst (rs ! j) = REMOTE_REMOTE_CONNECTION_ERROR)
     \<and> (\<forall>j < length (drives p). j \<noteq> x \<and> in_use (drives p ! j) \<longrightarrow> attached (part_version p) (drive_address (drives p ! j)) s')
     \<and> (\<forall>a. disk (world s') a = (if a \<in> reached (lost x p) [0 ..< length (drives p)] then snd (g (disk (world s) a)) else disk (world s) a))"
proof -
  let ?q = "lost x p" and ?a = "drive_address (drives p ! x)" and ?L = "[0 ..< x]" and ?U = "[Suc x ..< length (drives p)]"
  let ?op = "\<lambda>con. request con f"
  have split: "[0 ..< length (drives p)] = ?L @ x # ?U" using p(1) by (metis append_Cons le_add1 less_imp_add_positive upt_add_eq_append upt_conv_Cons zero_le)
  have dist: "distinct (map drive_address (drives ?q))" using p(3) by simp
  have inL: "\<forall>i \<in> set ?L. i < length (drives ?q)" "\<forall>i \<in> set ?U. i < length (drives ?q)" using p(1) by auto
  obtain rs1 s1 where r1: "run_on_drives E ?q ?op ?L s = (Inr rs1, s1)" "same_cluster s s1" "linked ?q s1" "drawn s1 = drawn s"
    "expects (world s1) = expects (world s)" "length rs1 = length ?L"
    "\<forall>j < length ?L. rs1 ! j = (REMOTE_REMOTE_CONNECTION_ERROR, 0) \<and> \<not> in_use (drives ?q ! (?L ! j))
        \<or> fst (rs1 ! j) = fst (g (disk (world s) (drive_address (drives ?q ! (?L ! j))))) \<and> in_use (drives ?q ! (?L ! j))"
    "\<forall>a. disk (world s1) a = (if a \<in> reached ?q ?L then snd (g (disk (world s) a)) else disk (world s) a)"
    using run_on_drives_result [OF f(1) st(1,2) dist distinct_upt inL(1)] by blast
  have att: "attached v ?a s1" using keepsD [OF keeps_attached_run st(3) r1(1)] .
  then obtain c where c: "connection_map s1 ?a = Some c" "connections s1 ! c = \<lparr>con_address = ?a, client_cluster_version = v\<rparr>"
    by (elim attachedE)
  obtain e where e: "f ?a v (world s1) = ((err, e), world s1)" using f(2) st(4) r1(5) by metis
  have conn: "driveToConnection E p (int x) s1 = (Inr (Some c), s1)" using p(1) c(1) by (simp add: driveToConnection_def cmd_simps)
  have "request c f s1 = (Inr (err, e), s1)" using request_apply [OF c(2), of f] e by simp
  with conn have dead: "call (driveToConnection E p (int x)) (\<lambda>con. deref con ?op) s1 = (Inr (err, e), s1)" by (simp add: cmd_simps deref_def)
  have srv1: "serving expects ?q (world s1)" using st(2) r1(5) by (simp add: serving_def)
  obtain rs2 s2 where r2: "run_on_drives E ?q ?op ?U s1 = (Inr rs2, s2)" "same_cluster s1 s2" "linked ?q s2" "drawn s2 = drawn s1"
    "expects (world s2) = expects (world s1)" "length rs2 = length ?U"
    "\<forall>j < length ?U. rs2 ! j = (REMOTE_REMOTE_CONNECTION_ERROR, 0) \<and> \<not> in_use (drives ?q ! (?U ! j))
        \<or> fst (rs2 ! j) = fst (g (disk (world s1) (drive_address (drives ?q ! (?U ! j))))) \<and> in_use (drives ?q ! (?U ! j))"
    "\<forall>a. disk (world s2) a = (if a \<in> reached ?q ?U then snd (g (disk (world s1) a)) else disk (world s1) a)"
    using run_on_drives_result [OF f(1) r1(3) srv1 dist distinct_upt inL(2)] by blast
  let ?rs = "rs1 @ (err, e) # rs2"
  have skip: "run_on_drives E p ?op ?L s = (Inr rs1, s1)" "run_on_drives E p ?op ?U s1 = (Inr rs2, s2)"
    using r1(1) r2(1) run_on_drives_skip [of x ?L E p ?op] run_on_drives_skip [of x ?U E p ?op] by simp_all
  have run: "run_on_drives E p ?op [0 ..< length (drives p)] s = (Inr ?rs, s2)"
    unfolding split run_on_drives_append using p(2) skip dead by (simp add: cmd_simps call_def)
  have disjoint: "drive_address (drives p ! j) \<notin> reached ?q ?L" if "j \<ge> x" "j < length (drives p)" for j
  proof
    assume "drive_address (drives p ! j) \<in> reached ?q ?L"
    then obtain i where "i < x" "drive_address (drives p ! j) = drive_address (drives p ! i)" by (auto simp: reached_def)
    with nth_eq_iff_index_eq [OF p(3), of j i] that show False by simp
  qed
  have at: "?rs ! j = (if j < x then rs1 ! j else if j = x then (err, e) else rs2 ! (j - Suc x))" for j
    using r1(6) by (simp add: nth_append nth_Cons')
  have res: "in_use (drives p ! j) \<longrightarrow> fst (?rs ! j) = (if j = x then err else fst (g (disk (world s) (drive_address (drives p ! j)))))"
    "\<not> in_use (drives p ! j) \<longrightarrow> fst (?rs ! j) = REMOTE_REMOTE_CONNECTION_ERROR" if j: "j < length (drives p)" for j
  proof -
    consider "j < x" | "j = x" | "x < j" by linarith
    then have "(in_use (drives p ! j) \<longrightarrow> fst (?rs ! j) = (if j = x then err else fst (g (disk (world s) (drive_address (drives p ! j))))))
      \<and> (\<not> in_use (drives p ! j) \<longrightarrow> fst (?rs ! j) = REMOTE_REMOTE_CONNECTION_ERROR)"
    proof cases
      case 1
      with r1(7) [rule_format, of j] show ?thesis unfolding at by auto
    next
      case 2
      with p(2) show ?thesis unfolding at by simp
    next
      case 3
      have "?U ! (j - Suc x) = j" "j - Suc x < length ?U" using 3 j by simp_all
      with r2(7) [rule_format, of "j - Suc x"] 3 disjoint [of j] j r1(8) show ?thesis unfolding at by auto
    qed
    then show "in_use (drives p ! j) \<longrightarrow> fst (?rs ! j) = (if j = x then err else fst (g (disk (world s) (drive_address (drives p ! j)))))"
      "\<not> in_use (drives p ! j) \<longrightarrow> fst (?rs ! j) = REMOTE_REMOTE_CONNECTION_ERROR" by blast+
  qed
  have both: "reached ?q [0 ..< length (drives p)] = reached ?q ?L \<union> reached ?q ?U"
    unfolding split using p(1) by (auto simp: reached_def)
  have "reached ?q ?L \<inter> reached ?q ?U = {}" using disjoint by (auto simp: reached_def [of _ ?U])
  then have disks: "disk (world s2) a = (if a \<in> reached ?q [0 ..< length (drives p)] then snd (g (disk (world s) a)) else disk (world s) a)" for a
    using r1(8) [rule_format, of a] r2(8) [rule_format, of a] unfolding both by auto
  have atts: "attached (part_version p) (drive_address (drives p ! j)) s2" if "j < length (drives p)" "j \<noteq> x" "in_use (drives p ! j)" for j
  proof (cases "j < x")
    case True
    with run_on_drives_attaches [OF f(1) st(1,2) inL(1) r1(1)] that have "attached (part_version p) (drive_address (drives p ! j)) s1" by auto
    from keepsD [OF keeps_attached_run this r2(1)] show ?thesis .
  next
    case False
    with run_on_drives_attaches [OF f(1) r1(3) srv1 inL(2) r2(1)] that show ?thesis by auto
  qed
  have len: "length ?rs = length (drives p)" using r1(6) r2(6) p(1) by simp
  show ?thesis
    using run len res disks atts r2(3) r1(4,5) r2(4,5) same_cluster_trans [OF r1(2) r2(2)]
    by (intro exI [of _ ?rs] exI [of _ s2]) simp
qed


text \<open>Drives to which there is a connection that claims the right version pass the test.\<close>

lemma test_drives_attached:
  assumes "\<forall>i \<in> set is. i < length (drives q) \<and> (in_use (drives q ! i) \<longrightarrow>
     attached v (drive_address (drives q ! i)) s \<and> expects (world s) (drive_address (drives q ! i)) = Some v)"
  shows "test_drives E q is s = (Inr True, s)"
  using assms
proof (induction "is")
  case (Cons i "is")
  show ?case
  proof (cases "in_use (drives q ! i)")
    case True
    let ?a = "drive_address (drives q ! i)"
    obtain c where c: "connection_map s ?a = Some c" "connections s ! c = \<lparr>con_address = ?a, client_cluster_version = v\<rparr>"
      using Cons.prems True by (auto elim: attachedE)
    obtain e where "lib_NoOp (lib E) ?a v (world s) = ((OK, e), world s)" using NoOp_served Cons.prems True by (metis list.set_intros(1))
    with request_apply [OF c(2), of "lib_NoOp (lib E)"] c(1) Cons True show ?thesis
      by (simp add: testConnection_def driveToConnection_def cmd_simps)
  qed (use Cons in simp)
qed simp

text \<open>Publishing a partition on drives to which there is a connection that claims the old version.\<close>

lemma publish:
  assumes "\<forall>i \<in> set is. i < length (drives q) \<and> (in_use (drives q ! i) \<longrightarrow> attached v (drive_address (drives q ! i)) s
      \<and> expects (world s) (drive_address (drives q ! i)) = Some v
      \<and> disk (world s) (drive_address (drives q ! i)) (cv_key (uint (cluster_version q))) = None)"
    "distinct is" "distinct (map drive_address (drives q))"
  shows "\<exists>s'. put_update_to E q is s = (Inr True, s') \<and> same_cluster s s' \<and> drawn s' = drawn s \<and> connection_map s' = connection_map s
     \<and> length (connections s') = length (connections s)
     \<and> (\<forall>i \<in> set is. in_use (drives q ! i) \<longrightarrow> attached (part_version q) (drive_address (drives q ! i)) s')
     \<and> (\<forall>c. con_address (connections s ! c) \<notin> reached q is \<longrightarrow> connections s' ! c = connections s ! c)
     \<and> disk (world s') = (\<lambda>a. if a \<in> reached q is
          then (disk (world s) a)(cv_key (uint (cluster_version q)) \<mapsto> \<lparr>kr_value = part_SerializeAsString E q, kr_version = ''yes''\<rparr>)
          else disk (world s) a)
     \<and> expects (world s') = (\<lambda>a. if a \<in> reached q is then Some (part_version q) else expects (world s) a)"
  using assms(1,2)
proof (induction "is" arbitrary: s)
  case Nil
  then show ?case by simp
next
  case (Cons i "is")
  show ?case
  proof (cases "in_use (drives q ! i)")
    case False
    with Cons.IH [of s] Cons.prems show ?thesis by simp
  next
    case True
    let ?a = "drive_address (drives q ! i)" and ?key = "cv_key (uint (cluster_version q))"
    let ?r = "\<lparr>kr_value = part_SerializeAsString E q, kr_version = ''yes''\<rparr>"
    obtain c where c: "connection_map s ?a = Some c" "c < length (connections s)" "connections s ! c = \<lparr>con_address = ?a, client_cluster_version = v\<rparr>"
      using Cons.prems(1) True by (auto elim: attachedE)
    have up: "expects (world s) ?a = Some v" "disk (world s) ?a ?key = None" and i: "i < length (drives q)" using Cons.prems(1) True by simp_all
    obtain e w where put: "lib_Put (lib E) ?key '''' REQUIRE_SAME_VERSION ?r ?a v (world s) = ((OK, e), w)"
      "disk w = (disk (world s))(?a := (disk (world s) ?a)(?key \<mapsto> ?r))" "expects w = expects (world s)"
      using Put_served [OF up(1), of ?key "''''" REQUIRE_SAME_VERSION ?r] up(2) by (auto simp: kv_put_def version_matches_def)
    obtain e' w' where set: "lib_SetClusterVersion (lib E) (part_version q) ?a v w = ((OK, e'), w')" "disk w' = disk w"
      "expects w' = (expects w)(?a \<mapsto> part_version q)"
      using SetClusterVersion_served [of w ?a v "part_version q"] put(3) up(1) by auto
    let ?s1 = "s\<lparr>world := w', connections := (connections s)[c := \<lparr>con_address = ?a, client_cluster_version = part_version q\<rparr>]\<rparr>"
    have step: "put_update_to E q (i # is) s = put_update_to E q is ?s1"
      using True i c request_apply [OF c(3), of "lib_Put (lib E) ?key '''' REQUIRE_SAME_VERSION ?r"] put(1) set(1)
        request_apply [of "s\<lparr>world := w\<rparr>" c ?a v "lib_SetClusterVersion (lib E) (part_version q)"]
      by (simp add: cmd_simps driveToConnection_def SetClientClusterVersion_def)
    have other: "drive_address (drives q ! j) \<noteq> ?a" if "j \<in> set is" for j
      using nth_eq_iff_index_eq [OF assms(3), of j i] Cons.prems that i by auto
    have moved: "attached u b ?s1" if att: "attached u b s" and "b \<noteq> ?a" for u b
    proof -
      obtain d where d: "connection_map s b = Some d" "d < length (connections s)" "connections s ! d = \<lparr>con_address = b, client_cluster_version = u\<rparr>"
        using att by (elim attachedE)
      then have "d \<noteq> c" using c(3) \<open>b \<noteq> ?a\<close> by auto
      with d show ?thesis by (simp add: attached_def)
    qed
    have pre: "\<forall>j \<in> set is. j < length (drives q) \<and> (in_use (drives q ! j) \<longrightarrow> attached v (drive_address (drives q ! j)) ?s1
      \<and> expects (world ?s1) (drive_address (drives q ! j)) = Some v \<and> disk (world ?s1) (drive_address (drives q ! j)) ?key = None)"
      using Cons.prems(1) other moved put(2,3) set(2,3) by simp
    have fresh: "?a \<notin> reached q is" using other by (fastforce simp: reached_def)
    from Cons.IH [OF pre] Cons.prems(2) obtain s' where IH: "put_update_to E q is ?s1 = (Inr True, s')" "same_cluster ?s1 s'" "drawn s' = drawn ?s1"
      "connection_map s' = connection_map ?s1" "length (connections s') = length (connections ?s1)"
      "\<forall>j \<in> set is. in_use (drives q ! j) \<longrightarrow> attached (part_version q) (drive_address (drives q ! j)) s'"
      "\<And>d. con_address (connections ?s1 ! d) \<notin> reached q is \<Longrightarrow> connections s' ! d = connections ?s1 ! d"
      "disk (world s') = (\<lambda>a. if a \<in> reached q is then (disk (world ?s1) a)(?key \<mapsto> ?r) else disk (world ?s1) a)"
      "expects (world s') = (\<lambda>a. if a \<in> reached q is then Some (part_version q) else expects (world ?s1) a)"
      by auto
    have self: "attached (part_version q) ?a s'"
      using IH(4,5) IH(7) [of c] c(1,2) fresh by (simp add: attached_def)
    have keep: "connections s' ! d = connections s ! d" if "con_address (connections s ! d) \<notin> insert ?a (reached q is)" for d
      using IH(7) [of d] that c(3) by (cases "d = c") auto
    have disks: "disk (world s') = (\<lambda>a. if a \<in> reached q (i # is) then (disk (world s) a)(?key \<mapsto> ?r) else disk (world s) a)"
      by (rule ext) (simp add: IH(8) set(2) put(2) fresh True)
    have versions: "expects (world s') = (\<lambda>a. if a \<in> reached q (i # is) then Some (part_version q) else expects (world s) a)"
      by (rule ext) (simp add: IH(9) set(3) put(3) fresh True)
    have "same_cluster s s'" using IH(2) by (simp add: same_cluster_def)
    then show ?thesis
      using step IH(1,3-6) self keep True disks versions by (intro exI [of _ s']) simp
  qed
qed


text \<open>The log drive that is chosen, if one is.\<close>

lemma assign_logdrive_result:
  assumes "p = cluster_map s ! k" "logid p = None"
    "list_ex in_use (drives (log_partition s)) \<Longrightarrow>
       \<exists>j < n. in_use (drives (log_partition s) ! (random_number E (drawn s + j) mod length (drives (log_partition s))))"
  shows "\<exists>l d. assign_logdrive n E (ClusterPart k) s = (Inr (), set_part_of (ClusterPart k) (p\<lparr>logid := l\<rparr>) (s\<lparr>drawn := d\<rparr>))
     \<and> (if list_all (has_status GREEN) (drives p) \<and> list_ex in_use (drives (log_partition s))
        then \<exists>i < length (drives (log_partition s)). in_use (drives (log_partition s) ! i) \<and> l = Some (int i) else l = None)"
proof (cases "list_all (has_status GREEN) (drives p) \<and> list_ex in_use (drives (log_partition s))")
  case True
  then have "drives (log_partition s) \<noteq> []" by auto
  with draw_drive_lucky [where P = in_use, OF assms(3)] True obtain i d where
    "draw_drive n E in_use (drives (log_partition s)) s = (Inr i, s\<lparr>drawn := d\<rparr>)" "i < length (drives (log_partition s))" "in_use (drives (log_partition s) ! i)"
    by blast
  with True assms(1,2) show ?thesis
    by (intro exI [of _ "Some (int i)"] exI [of _ d]) (auto simp: assign_logdrive_def cmd_simps part_of_def set_part_def)
next
  case False
  have "p\<lparr>logid := None\<rparr> = p" using assms(2) by simp
  then have "set_part_of (ClusterPart k) (p\<lparr>logid := None\<rparr>) (s\<lparr>drawn := drawn s\<rparr>) = s" using assms(1) by (simp add: set_part_of_def)
  with False assms(1,2) show ?thesis
    by (intro exI [of _ None] exI [of _ "drawn s"]) (auto simp: assign_logdrive_def cmd_simps part_of_def)
qed

lemma testConnection_linked:
  assumes "linked p s" "serving expects p (world s)" "i < length (drives p)" "in_use (drives p ! i)"
  shows "\<exists>s'. testConnection E p (int i) s = (Inr True, s') \<and> same_cluster s s' \<and> world s' = world s
     \<and> (\<forall>q. linked q s \<and> serving expects q (world s) \<longrightarrow> linked q s') \<and> (\<forall>v a. attached v a s \<longrightarrow> attached v a s')"
proof -
  obtain c s1 where s1: "driveToConnection E p (int i) s = (Inr (Some c), s1)" "same_cluster s s1" "world s1 = world s"
    "connections s1 ! c = \<lparr>con_address = drive_address (drives p ! i), client_cluster_version = part_version p\<rparr>"
    "\<forall>q. linked q s \<and> serving expects q (world s) \<longrightarrow> linked q s1"
    using driveToConnection_linked [OF assms] by blast
  have "expects (world s) (drive_address (drives p ! i)) = Some (part_version p)" using assms(2-4) by (simp add: serving_def)
  then obtain e where "lib_NoOp (lib E) (drive_address (drives p ! i)) (part_version p) (world s1) = ((OK, e), world s1)"
    using NoOp_served s1(3) by metis
  with request_apply [OF s1(4), of "lib_NoOp (lib E)"] s1(1) have "testConnection E p (int i) s = (Inr True, s1)"
    by (simp add: testConnection_def cmd_simps)
  with s1 keepsD [OF keeps_attached_driveToConnection _ s1(1)] show ?thesis by blast
qed

lemma disable_lost_drive:
  assumes p: "k < length (cluster_map s)" "p = cluster_map s ! k" "partitionid p \<noteq> None" "logid p = None" "distinct (map drive_address (drives p))"
      "x < length (drives p)" "in_use (drives p ! x)"
    and others: "\<And>j. j < length (drives p) \<Longrightarrow> j \<noteq> x \<Longrightarrow> in_use (drives p ! j) \<Longrightarrow> attached (part_version p) (drive_address (drives p ! j)) s
        \<and> expects (world s) (drive_address (drives p ! j)) = Some (part_version p)
        \<and> disk (world s) (drive_address (drives p ! j)) (cv_key (uint (cluster_version p + 1))) = None"
    and quorum: "list_ex (has_status GREEN) (drives (lost x p))"
      "list_all (has_status GREEN) (drives p) \<and> list_ex in_use (drives (log_partition s)) \<or> count_status GREEN (lost x p) + count_status YELLOW (lost x p) \<noteq> 1"
    and log: "linked (log_partition s) s" "serving expects (log_partition s) (world s)"
      "list_ex in_use (drives (log_partition s)) \<Longrightarrow>
         \<exists>j < n. in_use (drives (log_partition s) ! (random_number E (drawn s + j) mod length (drives (log_partition s))))"
  shows "\<exists>l s' q. disableDrive (Suc n) E (ClusterPart k) x s = (Inr True, s')
     \<and> (if list_all (has_status GREEN) (drives p) \<and> list_ex in_use (drives (log_partition s))
        then \<exists>i < length (drives (log_partition s)). in_use (drives (log_partition s) ! i) \<and> l = Some (int i) else l = None)
     \<and> q = bump_version (lost x (p\<lparr>logid := l\<rparr>)) \<and> cluster_map s' = (cluster_map s)[k := q] \<and> linked q s'
     \<and> log_partition s' = log_partition s \<and> direntry_clustersize s' = direntry_clustersize s
     \<and> disk (world s') = (\<lambda>a. if a \<in> reached q [0 ..< length (drives p)]
          then (disk (world s) a)(cv_key (uint (cluster_version q)) \<mapsto> \<lparr>kr_value = part_SerializeAsString E q, kr_version = ''yes''\<rparr>)
          else disk (world s) a)
     \<and> expects (world s') = (\<lambda>a. if a \<in> reached q [0 ..< length (drives p)] then Some (part_version q) else expects (world s) a)
     \<and> (\<forall>r. linked r s \<and> serving expects r (world s) \<and> drive_address ` set (drives r) \<inter> drive_address ` set (drives p) = {} \<longrightarrow> linked r s')"
proof -
  obtain l d where l: "assign_logdrive n E (ClusterPart k) s = (Inr (), set_part_of (ClusterPart k) (p\<lparr>logid := l\<rparr>) (s\<lparr>drawn := d\<rparr>))"
    "if list_all (has_status GREEN) (drives p) \<and> list_ex in_use (drives (log_partition s))
     then \<exists>i < length (drives (log_partition s)). in_use (drives (log_partition s) ! i) \<and> l = Some (int i) else l = None"
    using assign_logdrive_result [OF p(2,4) log(3)] by blast
  let ?q = "bump_version (lost x (p\<lparr>logid := l\<rparr>))" and ?is = "[0 ..< length (drives p)]" and ?a = "drive_address (drives p ! x)"
  have q: "drives ?q = drives (lost x p)" "length (drives ?q) = length (drives p)" "cluster_version ?q = cluster_version p + 1" "logid ?q = l"
    "partitionid ?q = partitionid p" by (simp_all add: set_status_def)
  let ?s2 = "set_part_of (ClusterPart k) ?q (set_part_of (ClusterPart k) (p\<lparr>logid := l\<rparr>) (s\<lparr>drawn := d\<rparr>))"
  have s2: "cluster_map ?s2 = (cluster_map s)[k := ?q]" "log_partition ?s2 = log_partition s" "direntry_clustersize ?s2 = direntry_clustersize s"
    "world ?s2 = world s" "connection_map ?s2 = connection_map s" "connections ?s2 = connections s" "part_of (ClusterPart k) ?s2 = ?q"
    using p(1) by (simp_all add: set_part_of_def part_of_def)
  have same_link: "linked r ?s2 = linked r s" for r using s2 by (simp add: linked_def)
  have use: "j \<noteq> x" "in_use (drives p ! j)" "drives ?q ! j = drives p ! j" if "j < length (drives p)" "in_use (drives ?q ! j)" for j
    using that p(6) unfolding q by (cases "j = x"; simp)+
  have att2: "attached (part_version p) (drive_address (drives ?q ! j)) ?s2 \<and> expects (world ?s2) (drive_address (drives ?q ! j)) = Some (part_version p)
      \<and> disk (world ?s2) (drive_address (drives ?q ! j)) (cv_key (uint (cluster_version ?q))) = None" if "j < length (drives p)" "in_use (drives ?q ! j)" for j
    using others [OF that(1)] use [OF that] s2(4) q(3) by simp
  have t: "test_drives E ?q [0 ..< length (drives ?q)] ?s2 = (Inr True, ?s2)"
    by (rule test_drives_attached [where v = "part_version p"]) (use att2 q(2) in auto)
  obtain s3 where s3: "(case l of None \<Rightarrow> ret True | Some i \<Rightarrow> call (part_at LogPart) (\<lambda>lp. testConnection E lp i)) ?s2 = (Inr True, s3)"
    "same_cluster ?s2 s3" "world s3 = world s" "\<And>r. linked r s \<Longrightarrow> serving expects r (world s) \<Longrightarrow> linked r s3" "\<And>v a. attached v a ?s2 \<Longrightarrow> attached v a s3"
  proof (cases l)
    case None
    with s2(4) same_link that [of ?s2] show ?thesis by simp
  next
    case (Some i')
    with l(2) obtain i where i: "i < length (drives (log_partition s))" "in_use (drives (log_partition s) ! i)" "i' = int i"
      by (auto split: if_splits)
    have "linked (log_partition s) ?s2" "serving expects (log_partition s) (world ?s2)" using log(1,2) same_link s2(4) by simp_all
    from testConnection_linked [OF this i(1,2)] obtain s3 where "testConnection E (log_partition s) (int i) ?s2 = (Inr True, s3)"
      "same_cluster ?s2 s3" "world s3 = world ?s2" "\<forall>r. linked r ?s2 \<and> serving expects r (world ?s2) \<longrightarrow> linked r s3" "\<forall>v a. attached v a ?s2 \<longrightarrow> attached v a s3"
      by blast
    with that [of s3] Some i(3) s2(2,4) same_link show ?thesis by (simp add: cmd_simps part_of_def)
  qed
  have counts: "count_status GREEN ?q = count_status GREEN (lost x p)" "count_status YELLOW ?q = count_status YELLOW (lost x p)"
    "count_status GREEN (lost x p) \<noteq> 0"
    using quorum(1) by (auto simp: count_status_def set_status_def filter_empty_conv list_ex_iff)
  have "l \<noteq> None \<or> count_status GREEN ?q + count_status YELLOW ?q \<noteq> 1" using quorum(2) l(2) counts by (auto split: if_splits)
  then have test: "testPartition E ?q ?s2 = (Inr True, s3)"
    using p(3) t s3(1) counts q(4,5) by (auto simp: testPartition_def cmd_simps call_def)
  have part3: "part_of (ClusterPart k) s3 = ?q" using same_cluster_part [OF s3(2)] s2(7) by simp
  have pre: "\<forall>i \<in> set ?is. i < length (drives ?q) \<and> (in_use (drives ?q ! i) \<longrightarrow> attached (part_version p) (drive_address (drives ?q ! i)) s3
      \<and> expects (world s3) (drive_address (drives ?q ! i)) = Some (part_version p)
      \<and> disk (world s3) (drive_address (drives ?q ! i)) (cv_key (uint (cluster_version ?q))) = None)"
    using att2 s3(3,5) q(2) s2(4) by auto
  have dist: "distinct (map drive_address (drives ?q))" using p(5) unfolding q(1) by simp
  obtain s4 where s4: "put_update_to E ?q ?is s3 = (Inr True, s4)" "same_cluster s3 s4" "connection_map s4 = connection_map s3"
    "length (connections s4) = length (connections s3)"
    "\<forall>i \<in> set ?is. in_use (drives ?q ! i) \<longrightarrow> attached (part_version ?q) (drive_address (drives ?q ! i)) s4"
    "\<And>c. con_address (connections s3 ! c) \<notin> reached ?q ?is \<Longrightarrow> connections s4 ! c = connections s3 ! c"
    "disk (world s4) = (\<lambda>a. if a \<in> reached ?q ?is
       then (disk (world s3) a)(cv_key (uint (cluster_version ?q)) \<mapsto> \<lparr>kr_value = part_SerializeAsString E ?q, kr_version = ''yes''\<rparr>) else disk (world s3) a)"
    "expects (world s4) = (\<lambda>a. if a \<in> reached ?q ?is then Some (part_version ?q) else expects (world s3) a)"
    using publish [OF pre distinct_upt dist] by blast
  have put: "putPartitionUpdate E (ClusterPart k) s3 = (Inr True, s4)" using part3 p(3) q(2,5) s4(1) by (auto simp: putPartitionUpdate_def cmd_simps)
  let ?s5 = "s4\<lparr>connection_map := (connection_map s4)(?a := None)\<rparr>"
  have run: "disableDrive (Suc n) E (ClusterPart k) x s = (Inr True, ?s5)"
    using p(1,2,6,7) l(1) test put s2(7) by (simp add: cmd_simps part_of_def set_part_def set_part_of_def)
  have link5: "linked ?q ?s5" by (rule linked_erase, rule linked_attached) (use s4(5) q(2) in simp)
  have links5: "linked r ?s5" if "linked r s" "serving expects r (world s)" "drive_address ` set (drives r) \<inter> drive_address ` set (drives p) = {}" for r
  proof -
    have "drive_address e \<notin> reached ?q ?is" if "e \<in> set (drives r)" for e
    proof -
      have "reached ?q ?is \<subseteq> drive_address ` set (drives p)" unfolding reached_def q(1) by auto
      with that \<open>drive_address ` set (drives r) \<inter> _ = {}\<close> show ?thesis by auto
    qed
    moreover have "linked r s3" by (rule s3(4) [OF that(1,2)])
    ultimately show ?thesis using s4(3,4) s4(6) by (auto simp: linked_def)
  qed
  have maps5: "cluster_map ?s5 = (cluster_map s)[k := ?q]" "log_partition ?s5 = log_partition s" "direntry_clustersize ?s5 = direntry_clustersize s"
    using same_cluster_trans [OF s3(2) s4(2)] s2(1-3) by (simp_all add: same_cluster_def)
  have world5: "world ?s5 = world s4" by simp
  show ?thesis
    by (rule exI [of _ l], rule exI [of _ ?s5], rule exI [of _ ?q], intro conjI allI impI)
       (rule run, rule l(2), rule refl, rule maps5(1), rule link5, rule maps5(2), rule maps5(3),
        simp only: world5 s4(7) s3(3), simp only: world5 s4(8) s3(3), elim conjE, rule links5)
qed

text \<open>The write that notices the loss: the lost drive is taken out, then the answers of the others are evaluated.\<close>

lemma first_error_only:
  assumes "x \<in> set is" "\<forall>i \<in> set is. i < length rs" "in_use (drives p ! x)" "write_error (fst (rs ! x))"
    "\<forall>i \<in> set is. i \<noteq> x \<longrightarrow> in_use (drives p ! i) \<longrightarrow> \<not> write_error (fst (rs ! i))"
  shows "first_error p rs is s = (Inr (Some x), s)"
  using assms(1,2,5)
proof (induction "is")
  case (Cons i "is")
  show ?case
  proof (cases "i = x")
    case True
    moreover have "x < length rs" using Cons.prems(1,2) by blast
    ultimately show ?thesis using assms(3,4) by (simp add: cmd_simps result_at_def)
  next
    case False
    have "first_error p rs is s = (Inr (Some x), s)" by (rule Cons.IH) (use Cons.prems False in auto)
    moreover have "i < length rs" "has_status RED (drives p ! i) \<or> \<not> write_error (fst (rs ! i))" using Cons.prems(2,3) False by auto
    ultimately show ?thesis by (auto simp: cmd_simps result_at_def)
  qed
qed simp

lemma evaluate_lost_drive:
  assumes p: "part_of r s = p" "x < length (drives p)" "in_use (drives p ! x)" "list_ex (has_status GREEN) (drives (lost x p))"
    and rs: "length rs = length (drives p)" "write_error (fst (rs ! x))" "\<not> write_error c"
      "\<And>j. j < length (drives p) \<Longrightarrow> in_use (drives p ! j) \<Longrightarrow> j \<noteq> x \<Longrightarrow> fst (rs ! j) = c"
    and disable: "disableDrive (Suc n) E r x s = (Inr True, s')" "drives (part_of r s') = drives (lost x p)"
  shows "\<exists>e. evaluateWriteOperation (Suc (Suc n)) E r rs s = (Inr (c, e), s')"
proof -
  obtain h where h: "h < length (drives p)" "h \<noteq> x" "has_status GREEN (drives p ! h)"
    using p(2,4) by (auto simp: list_ex_length set_status_def nth_list_update split: if_splits)
  then have "list_ex (has_status GREEN) (drives p)" by (auto simp: list_ex_length)
  from first_green_found [OF this, of 0 s] obtain g where g: "g < length (drives p)" "has_status GREEN (drives p ! g)" "first_green (drives p) 0 s = (Inr g, s)"
    by auto
  have use: "in_use (drives p ! g)" "in_use (drives p ! h)" using g(2) h(3) by simp_all
  have "\<exists>i \<in> set [0 ..< length (drives p)]. in_use (drives p ! i) \<and> fst (rs ! i) \<noteq> fst (rs ! g)"
    using g(1) use h(1,2) p(2,3) rs(2,3) rs(4) [of g] rs(4) [of h] by (cases "g = x") force+
  with rs(1) have ne: "all_equal p rs (fst (rs ! g)) [0 ..< length (drives p)] s = (Inr False, s)" by (intro all_equal_False) simp_all
  have err: "first_error p rs [0 ..< length (drives p)] s = (Inr (Some x), s)"
    using p(2,3) rs by (intro first_error_only) auto
  have "\<exists>e. evaluateWriteOperation (Suc n) E r rs s' = (Inr (c, e), s')"
  proof (rule evaluate_equal [OF refl])
    show "fst (rs ! j) = c" if "j < length (drives (part_of r s'))" "in_use (drives (part_of r s') ! j)" for j
      using that p(2) rs(4) [of j] unfolding disable(2) by (cases "j = x") simp_all
  qed (use p(4) rs(1) disable(2) in simp_all)
  then obtain e where "evaluateWriteOperation (Suc n) E r rs s' = (Inr (c, e), s')" ..
  then have "evaluateWriteOperation (Suc (Suc n)) E r rs s = (Inr (c, e), s')"
    using p(1) g rs(1) ne err disable(1)
    by (subst evaluateWriteOperation.simps) (simp add: cmd_simps result_at_def call_def del: evaluateWriteOperation.simps disableDrive.simps)
  then show ?thesis ..
qed

text \<open>A write whose only error comes from drive \<open>x\<close>: the drive is taken out, and the answer is that of the others.\<close>

lemma write_disables:
  assumes key: "keyToPartition E key s = (Inr k, s)"
    and p: "k < length (cluster_map s)" "p = cluster_map s ! k" "partitionid p \<noteq> None" "logid p = None" "distinct (map drive_address (drives p))"
      "x < length (drives p)" "in_use (drives p ! x)"
    and r: "run_on_drives E p (\<lambda>con. request con f) [0 ..< length (drives p)] s = (Inr rs, s1)" "same_cluster s s1" "drawn s1 = drawn s"
      "expects (world s1) = expects (world s)" "length rs = length (drives p)"
    and codes: "\<And>j. j < length (drives p) \<Longrightarrow> in_use (drives p ! j) \<Longrightarrow> j \<noteq> x \<Longrightarrow> fst (rs ! j) = c" "\<not> write_error c" "write_error (fst (rs ! x))"
      "\<And>j. j < length (drives p) \<Longrightarrow> fst (rs ! j) \<noteq> REMOTE_CLUSTER_VERSION_MISMATCH"
    and others: "\<And>j. j < length (drives p) \<Longrightarrow> j \<noteq> x \<Longrightarrow> in_use (drives p ! j) \<Longrightarrow> attached (part_version p) (drive_address (drives p ! j)) s1
        \<and> expects (world s1) (drive_address (drives p ! j)) = Some (part_version p)
        \<and> disk (world s1) (drive_address (drives p ! j)) (cv_key (uint (cluster_version p + 1))) = None"
    and quorum: "list_ex (has_status GREEN) (drives (lost x p))"
      "list_all (has_status GREEN) (drives p) \<and> list_ex in_use (drives (log_partition s)) \<or> count_status GREEN (lost x p) + count_status YELLOW (lost x p) \<noteq> 1"
    and log: "linked (log_partition s) s" "serving expects (log_partition s) (world s)"
      "list_ex in_use (drives (log_partition s)) \<Longrightarrow> drive_address ` set (drives p) \<inter> drive_address ` set (drives (log_partition s)) = {}"
      "list_ex in_use (drives (log_partition s)) \<Longrightarrow>
         \<exists>j < n. in_use (drives (log_partition s) ! (random_number E (drawn s + j) mod length (drives (log_partition s))))"
  shows "\<exists>l q e s'. writeOperation (Suc (Suc (Suc n))) E key (\<lambda>con. request con f) s = (Inr (c, e), s')
     \<and> (if list_all (has_status GREEN) (drives p) \<and> list_ex in_use (drives (log_partition s))
        then \<exists>i < length (drives (log_partition s)). in_use (drives (log_partition s) ! i) \<and> l = Some (int i) else l = None)
     \<and> q = bump_version (lost x (p\<lparr>logid := l\<rparr>)) \<and> cluster_map s' = (cluster_map s)[k := q] \<and> linked q s'
     \<and> log_partition s' = log_partition s \<and> direntry_clustersize s' = direntry_clustersize s
     \<and> disk (world s') = (\<lambda>a. if a \<in> reached q [0 ..< length (drives p)]
          then (disk (world s1) a)(cv_key (uint (cluster_version q)) \<mapsto> \<lparr>kr_value = part_SerializeAsString E q, kr_version = ''yes''\<rparr>)
          else disk (world s1) a)
     \<and> expects (world s') = (\<lambda>a. if a \<in> reached q [0 ..< length (drives p)] then Some (part_version q) else expects (world s) a)
     \<and> (\<forall>r. linked r s \<and> serving expects r (world s) \<and> drive_address ` set (drives p) \<inter> drive_address ` set (drives r) = {} \<longrightarrow> linked r s')"
proof -
  let ?is = "[0 ..< length (drives p)]" and ?op = "\<lambda>con. request con f"
  have no_mismatch: "find (\<lambda>st. fst st = REMOTE_CLUSTER_VERSION_MISMATCH) rs = None"
    using r(5) codes(4) unfolding find_None_iff in_set_conv_nth by metis
  have part: "part_of (ClusterPart k) s = p" "part_of (ClusterPart k) s1 = p" "cluster_map s1 = cluster_map s" "log_partition s1 = log_partition s"
    "direntry_clustersize s1 = direntry_clustersize s"
    using p(2) r(2) by (simp_all add: part_of_def same_cluster_def)
  have log_none: "log_write (Suc (Suc n)) E (ClusterPart k) key s1 = (Inr (), s1)"
    using p(4) part(2) by (simp add: log_write_def cmd_simps)
  have run: "writeOperation (Suc (Suc (Suc n))) E key ?op s = evaluateWriteOperation (Suc (Suc n)) E (ClusterPart k) rs s1"
    using key part(1) r(1) log_none no_mismatch by (simp add: cmd_simps del: evaluateWriteOperation.simps)
  have links: "linked r s1" if "linked r s" "drive_address ` set (drives p) \<inter> drive_address ` set (drives r) = {}" for r
    using keepsD [OF linked_run_on_drives [OF that(2), of ?is] that(1) r(1)] by simp
  have srv: "serving expects r (world s1) = serving expects r (world s)" for r using r(4) by (simp add: serving_def)
  have "linked (log_partition s) s1"
    using links [OF log(1) log(3)] by (cases "list_ex in_use (drives (log_partition s))") (auto simp: linked_def list_ex_iff)
  then have logs: "linked (log_partition s1) s1" "serving expects (log_partition s1) (world s1)"
    "list_ex in_use (drives (log_partition s1)) \<Longrightarrow>
         \<exists>j < n. in_use (drives (log_partition s1) ! (random_number E (drawn s1 + j) mod length (drives (log_partition s1))))"
    using log(2,4) srv part(4) r(3) by simp_all
  have p1: "k < length (cluster_map s1)" "p = cluster_map s1 ! k" using p(1,2) part(3) by simp_all
  have quorum1: "list_all (has_status GREEN) (drives p) \<and> list_ex in_use (drives (log_partition s1))
      \<or> count_status GREEN (lost x p) + count_status YELLOW (lost x p) \<noteq> 1" using quorum(2) part(4) by simp
  obtain l s' q where d: "disableDrive (Suc n) E (ClusterPart k) x s1 = (Inr True, s')"
    "if list_all (has_status GREEN) (drives p) \<and> list_ex in_use (drives (log_partition s1))
     then \<exists>i < length (drives (log_partition s1)). in_use (drives (log_partition s1) ! i) \<and> l = Some (int i) else l = None"
    "q = bump_version (lost x (p\<lparr>logid := l\<rparr>))" "cluster_map s' = (cluster_map s1)[k := q]" "linked q s'"
    "log_partition s' = log_partition s1" "direntry_clustersize s' = direntry_clustersize s1"
    "disk (world s') = (\<lambda>a. if a \<in> reached q ?is
       then (disk (world s1) a)(cv_key (uint (cluster_version q)) \<mapsto> \<lparr>kr_value = part_SerializeAsString E q, kr_version = ''yes''\<rparr>) else disk (world s1) a)"
    "expects (world s') = (\<lambda>a. if a \<in> reached q ?is then Some (part_version q) else expects (world s1) a)"
    "\<And>r. linked r s1 \<Longrightarrow> serving expects r (world s1) \<Longrightarrow> drive_address ` set (drives r) \<inter> drive_address ` set (drives p) = {} \<Longrightarrow> linked r s'"
    using disable_lost_drive [OF p1 p(3-7) others quorum(1) quorum1 logs] by blast
  have "drives (part_of (ClusterPart k) s') = drives (lost x p)" using d(3,4) p1(1) by (simp add: part_of_def set_status_def)
  from evaluate_lost_drive [OF part(2) p(6,7) quorum(1) r(5) codes(3,2,1) d(1) this] run
  obtain e where e: "writeOperation (Suc (Suc (Suc n))) E key ?op s = (Inr (c, e), s')" by auto
  have links': "linked r s'" if "linked r s" "serving expects r (world s)" "drive_address ` set (drives p) \<inter> drive_address ` set (drives r) = {}" for r
    using d(10) [OF links [OF that(1,3)]] srv that(2,3) by (simp add: Int_commute)
  show ?thesis
    by (rule exI [of _ l], rule exI [of _ q], rule exI [of _ e], rule exI [of _ s'], intro conjI allI impI)
       (rule e, rule d(2) [unfolded part(4)], rule d(3), rule d(4) [unfolded part(3)], rule d(5), rule d(6) [unfolded part(4)],
        rule d(7) [unfolded part(5)], rule d(8), rule d(9) [unfolded r(4)], elim conjE, rule links')
qed

lemma noticing_write:
  assumes f: "carries_out disk expects f g" "\<And>w v. expects w (drive_address (drives p ! x)) = None \<Longrightarrow>
        \<exists>e. f (drive_address (drives p ! x)) v w = ((REMOTE_REMOTE_CONNECTION_ERROR, e), w)"
      "\<not> write_error (fst (g m))" "snd (g m) (cv_key (uint (cluster_version p + 1))) = None"
    and key: "keyToPartition E key s = (Inr k, s)"
    and p: "k < length (cluster_map s)" "p = cluster_map s ! k" "partitionid p \<noteq> None" "logid p = None" "distinct (map drive_address (drives p))"
      "x < length (drives p)" "in_use (drives p ! x)"
    and st: "linked (lost x p) s" "serving expects (lost x p) (world s)" "replicas disk (lost x p) (world s) m"
      "attached v (drive_address (drives p ! x)) s" "expects (world s) (drive_address (drives p ! x)) = None"
    and quorum: "list_ex (has_status GREEN) (drives (lost x p))"
      "list_all (has_status GREEN) (drives p) \<and> list_ex in_use (drives (log_partition s)) \<or> count_status GREEN (lost x p) + count_status YELLOW (lost x p) \<noteq> 1"
    and log: "linked (log_partition s) s" "serving expects (log_partition s) (world s)"
      "list_ex in_use (drives (log_partition s)) \<Longrightarrow> drive_address ` set (drives p) \<inter> drive_address ` set (drives (log_partition s)) = {}"
      "list_ex in_use (drives (log_partition s)) \<Longrightarrow>
         \<exists>j < n. in_use (drives (log_partition s) ! (random_number E (drawn s + j) mod length (drives (log_partition s))))"
  shows "\<exists>l q e s'. writeOperation (Suc (Suc (Suc n))) E key (\<lambda>con. request con f) s = (Inr (fst (g m), e), s')
     \<and> (if list_all (has_status GREEN) (drives p) \<and> list_ex in_use (drives (log_partition s))
        then \<exists>i < length (drives (log_partition s)). in_use (drives (log_partition s) ! i) \<and> l = Some (int i) else l = None)
     \<and> q = bump_version (lost x (p\<lparr>logid := l\<rparr>)) \<and> cluster_map s' = (cluster_map s)[k := q] \<and> linked q s'
     \<and> log_partition s' = log_partition s \<and> direntry_clustersize s' = direntry_clustersize s
     \<and> disk (world s') = (\<lambda>a. if a \<in> reached q [0 ..< length (drives p)]
          then (snd (g m))(cv_key (uint (cluster_version q)) \<mapsto> \<lparr>kr_value = part_SerializeAsString E q, kr_version = ''yes''\<rparr>)
          else disk (world s) a)
     \<and> expects (world s') = (\<lambda>a. if a \<in> reached q [0 ..< length (drives p)] then Some (part_version q) else expects (world s) a)
     \<and> (\<forall>r. linked r s \<and> serving expects r (world s) \<and> drive_address ` set (drives p) \<inter> drive_address ` set (drives r) = {} \<longrightarrow> linked r s')"
proof -
  let ?is = "[0 ..< length (drives p)]" and ?op = "\<lambda>con. request con f"
  have use: "drives (lost x p) ! j = drives p ! j" "drives p ! j \<in> set (drives (lost x p))" if "j < length (drives p)" "j \<noteq> x" for j
    using that nth_mem [of j "drives (lost x p)"] by simp_all
  obtain rs s1 where r: "run_on_drives E p ?op ?is s = (Inr rs, s1)" "same_cluster s s1" "expects (world s1) = expects (world s)" "drawn s1 = drawn s"
    "length rs = length (drives p)"
    "\<And>j. j < length (drives p) \<Longrightarrow> in_use (drives p ! j) \<Longrightarrow> fst (rs ! j) = (if j = x then REMOTE_REMOTE_CONNECTION_ERROR else fst (g (disk (world s) (drive_address (drives p ! j)))))"
    "\<And>j. j < length (drives p) \<Longrightarrow> \<not> in_use (drives p ! j) \<Longrightarrow> fst (rs ! j) = REMOTE_REMOTE_CONNECTION_ERROR"
    "\<And>j. j < length (drives p) \<Longrightarrow> j \<noteq> x \<Longrightarrow> in_use (drives p ! j) \<Longrightarrow> attached (part_version p) (drive_address (drives p ! j)) s1"
    "\<And>a. disk (world s1) a = (if a \<in> reached (lost x p) ?is then snd (g (disk (world s) a)) else disk (world s) a)"
    using lossy_run [OF f(1,2) p(6,7,5) st(1,2,4,5)] by blast
  have m: "disk (world s) a = m" if "a \<in> reached (lost x p) ?is" for a
    using that st(3) by (auto simp: reached_def replicas_def)
  have in_reached: "drive_address (drives p ! j) \<in> reached (lost x p) ?is" if "j < length (drives p)" "j \<noteq> x" "in_use (drives p ! j)" for j
    using that unfolding reached_def by (intro CollectI exI [of _ j]) simp
  have codes: "fst (rs ! j) = fst (g m)" if "j < length (drives p)" "in_use (drives p ! j)" "j \<noteq> x" for j
    using r(6) [OF that(1,2)] m [OF in_reached [OF that(1,3,2)]] that(3) by simp
  have mism: "fst (rs ! j) \<noteq> REMOTE_CLUSTER_VERSION_MISMATCH" if j: "j < length (drives p)" for j
    using r(6,7) [OF j] codes [OF j] f(3) by (cases "in_use (drives p ! j)"; cases "j = x") (auto simp: write_error_def)
  have others: "attached (part_version p) (drive_address (drives p ! j)) s1 \<and> expects (world s1) (drive_address (drives p ! j)) = Some (part_version p)
      \<and> disk (world s1) (drive_address (drives p ! j)) (cv_key (uint (cluster_version p + 1))) = None"
    if j: "j < length (drives p)" "j \<noteq> x" "in_use (drives p ! j)" for j
    using r(8) [OF j] r(3,9) m [OF in_reached [OF j]] in_reached [OF j] f(4) st(2) use [OF j(1,2)] j(3) by (simp add: serving_def)
  have err: "write_error (fst (rs ! x))" using r(6) [OF p(6,7)] by (simp add: write_error_def)
  obtain l q e s' where d: "writeOperation (Suc (Suc (Suc n))) E key ?op s = (Inr (fst (g m), e), s')"
    "if list_all (has_status GREEN) (drives p) \<and> list_ex in_use (drives (log_partition s))
     then \<exists>i < length (drives (log_partition s)). in_use (drives (log_partition s) ! i) \<and> l = Some (int i) else l = None"
    "q = bump_version (lost x (p\<lparr>logid := l\<rparr>))" "cluster_map s' = (cluster_map s)[k := q]" "linked q s'"
    "log_partition s' = log_partition s" "direntry_clustersize s' = direntry_clustersize s"
    "disk (world s') = (\<lambda>a. if a \<in> reached q ?is
       then (disk (world s1) a)(cv_key (uint (cluster_version q)) \<mapsto> \<lparr>kr_value = part_SerializeAsString E q, kr_version = ''yes''\<rparr>) else disk (world s1) a)"
    "expects (world s') = (\<lambda>a. if a \<in> reached q ?is then Some (part_version q) else expects (world s) a)"
    "\<forall>r. linked r s \<and> serving expects r (world s) \<and> drive_address ` set (drives p) \<inter> drive_address ` set (drives r) = {} \<longrightarrow> linked r s'"
    using write_disables [OF key p r(1,2,4,3,5) codes f(3) err mism others quorum log] by blast
  have q: "reached q ?is = reached (lost x p) ?is" using d(3) by (simp add: set_status_def reached_def)
  have disks: "disk (world s') = (\<lambda>a. if a \<in> reached q ?is
      then (snd (g m))(cv_key (uint (cluster_version q)) \<mapsto> \<lparr>kr_value = part_SerializeAsString E q, kr_version = ''yes''\<rparr>) else disk (world s) a)"
    by (rule ext) (simp add: d(8) r(9) q m)
  show ?thesis
    by (rule exI [of _ l], rule exI [of _ q], rule exI [of _ e], rule exI [of _ s'], intro conjI) (rule d disks)+
qed

end

end
