(* ===== verification/Distributed_Loss.thy ===== *)
theory Distributed_Loss
  imports Distributed_Failure
begin

section \<open>Clusters that lose a drive\<close>

text \<open>
  When the loss of a drive goes unnoticed, which write is missing from the log, and how a
  healthy drive comes to be treated as lost.
\<close>

subsection \<open>A cluster that loses a drive\<close>

text \<open>The key of the partition under the next cluster version.\<close>

abbreviation next_cv_key :: "Partition \<Rightarrow> string" where
  "next_cv_key p \<equiv> cv_key (uint (cluster_version p + 1))"

text \<open>
  Drive \<open>x\<close> of partition \<open>k\<close> is not the last GREEN one. The client has used the drive before, and
  nobody else has published the next cluster version.
\<close>

definition expendable :: "('w \<Rightarrow> address \<Rightarrow> string \<rightharpoonup> KineticRecord) \<Rightarrow> 'w cluster \<Rightarrow> nat \<Rightarrow> nat \<Rightarrow> bool" where
  "expendable disk s k x \<longleftrightarrow> (let p = cluster_map s ! k in
     k < length (cluster_map s) \<and> logid p = None \<and> x < length (drives p) \<and> in_use (drives p ! x)
     \<and> attached (part_version p) (drive_address (drives p ! x)) s
     \<and> list_ex (has_status GREEN) (drives (lost x p))
     \<and> list_all (\<lambda>d. in_use d \<longrightarrow> disk (world s) (drive_address d) (next_cv_key p) = None) (drives p))"

text \<open>The partition goes on without the drive, with at least two others, although there is no drive to keep a log on.\<close>

definition survivable :: "('w \<Rightarrow> address \<Rightarrow> string \<rightharpoonup> KineticRecord) \<Rightarrow> 'w cluster \<Rightarrow> nat \<Rightarrow> nat \<Rightarrow> bool" where
  "survivable disk s k x \<longleftrightarrow> expendable disk s k x \<and> \<not> list_ex in_use (drives (log_partition s))
     \<and> (let p = cluster_map s ! k in count_status GREEN (lost x p) + count_status YELLOW (lost x p) \<noteq> 1)"

text \<open>All drives are GREEN, and there is a drive to keep a log on that is drawn within \<open>n\<close> draws.\<close>

definition loggable :: "'w cluster_env \<Rightarrow> ('w \<Rightarrow> address \<Rightarrow> int option) \<Rightarrow> 'w cluster \<Rightarrow> nat \<Rightarrow> nat \<Rightarrow> bool" where
  "loggable E expects s k n \<longleftrightarrow> (let p = cluster_map s ! k; lp = log_partition s in
     list_all (has_status GREEN) (drives p) \<and> list_ex in_use (drives lp) \<and> linked lp s \<and> serving expects lp (world s)
     \<and> drive_address ` set (drives p) \<inter> drive_address ` set (drives lp) = {}
     \<and> list_ex (\<lambda>j. in_use (drives lp ! (random_number E (drawn s + j) mod length (drives lp)))) [0 ..< n])"

text \<open>In the world \<open>w\<close> the drive at \<open>a\<close> does not answer; the other drives are as before.\<close>

definition stops_answering :: "('w \<Rightarrow> address \<Rightarrow> string \<rightharpoonup> KineticRecord) \<Rightarrow> ('w \<Rightarrow> address \<Rightarrow> int option) \<Rightarrow> address \<Rightarrow> 'w \<Rightarrow> 'w \<Rightarrow> bool" where
  "stops_answering disk expects a w0 w \<longleftrightarrow> expects w = (expects w0)(a := None) \<and> (\<forall>b. b = a \<or> disk w b = disk w0 b)"

lemma lost_drives:
  assumes "d \<in> set (drives (lost x p))" "in_use d" "x < length (drives p)"
  shows "\<exists>j < length (drives p). j \<noteq> x \<and> d = drives p ! j"
proof -
  obtain j where j: "j < length (drives p)" "d = drives (lost x p) ! j" using assms(1) unfolding in_set_conv_nth by auto
  with assms(2,3) show ?thesis by (cases "j = x") auto
qed

text \<open>The key of an operation; operations on other keys do not see the record of the partition.\<close>

fun op_key :: "kv_op \<Rightarrow> string" where
  "op_key (Op_Put key v wm r) = key"
| "op_key (Op_Delete key v wm) = key"
| "op_key (Op_Get key) = key"
| "op_key (Op_GetVersion key) = key"

text \<open>
  The writes that find out about a lost drive. A delete of a key that does not exist is not one
  of them: the answer of the healthy drives counts as an error then.
\<close>

fun notices :: "(string \<rightharpoonup> KineticRecord) \<Rightarrow> kv_op \<Rightarrow> bool" where
  "notices m (Op_Put key v wm r) = True"
| "notices m (Op_Delete key v wm) = (m key \<noteq> None)"
| "notices m (Op_Get key) = False"
| "notices m (Op_GetVersion key) = False"

lemma kv_step_agree:
  assumes "\<forall>j. j = c \<or> m' j = m j" "op_key x \<noteq> c"
  shows "fst (kv_step x m') = fst (kv_step x m)" "\<forall>j. j = c \<or> snd (kv_step x m') j = snd (kv_step x m) j"
proof -
  have "m' (op_key x) = m (op_key x)" using assms by blast
  then show "fst (kv_step x m') = fst (kv_step x m)" by (cases x) (simp_all add: kv_put_def kv_delete_def kv_get_def split: option.splits)
  show "\<forall>j. j = c \<or> snd (kv_step x m') j = snd (kv_step x m) j"
    using assms \<open>m' (op_key x) = m (op_key x)\<close> by (cases x) (auto simp: kv_put_def kv_delete_def split: option.splits)
qed

lemma kv_run_agree:
  assumes "\<forall>j. j = c \<or> m' j = m j" "list_all (\<lambda>x. op_key x \<noteq> c) xs"
  shows "fst (kv_run xs m') = fst (kv_run xs m) \<and> (\<forall>j. j = c \<or> snd (kv_run xs m') j = snd (kv_run xs m) j)"
  using assms
proof (induction xs arbitrary: m m')
  case (Cons x xs)
  have "op_key x \<noteq> c" using Cons.prems(2) by simp
  note step = kv_step_agree [OF Cons.prems(1) this]
  from Cons.IH [OF step(2)] Cons.prems(2) step(1) show ?case by (simp add: split_beta)
qed simp

lemma stops_answeringD:
  assumes "stops_answering disk expects a w0 w"
  shows "expects w a = None" "b \<noteq> a \<Longrightarrow> expects w b = expects w0 b" "b \<noteq> a \<Longrightarrow> disk w b = disk w0 b"
  using assms unfolding stops_answering_def by (metis fun_upd_same, metis fun_upd_other, metis)

lemma lost_address:
  assumes "distinct (map drive_address (drives p))" "x < length (drives p)" "d \<in> set (drives (lost x p))" "in_use d"
  shows "d \<in> set (drives p)" "drive_address d \<noteq> drive_address (drives p ! x)"
proof -
  obtain j where "j < length (drives p)" "j \<noteq> x" "d = drives p ! j" using lost_drives [OF assms(3,4,2)] by blast
  with nth_eq_iff_index_eq [OF assms(1), of j x] assms(2) show "d \<in> set (drives p)" "drive_address d \<noteq> drive_address (drives p ! x)" by auto
qed

text \<open>After the loss the other drives are in sync.\<close>

lemma others_in_sync:
  assumes s: "in_sync disk expects s k m" "expendable disk s k x" "p = cluster_map s ! k"
    and w: "stops_answering disk expects (drive_address (drives p ! x)) (world s) w"
  shows "linked (lost x p) (s\<lparr>world := w\<rparr>)" "serving expects (lost x p) w" "replicas disk (lost x p) w m" "m (next_cv_key p) = None"
proof -
  have p: "distinct (map drive_address (drives p))" "linked p s" "serving expects p (world s)" "replicas disk p (world s) m"
    "x < length (drives p)" "list_ex (has_status GREEN) (drives (lost x p))"
    "\<And>d. d \<in> set (drives p) \<Longrightarrow> in_use d \<Longrightarrow> disk (world s) (drive_address d) (next_cv_key p) = None"
    using s by (simp_all add: in_sync_def expendable_def Let_def list_all_iff)
  note rest = lost_address [OF p(1,5)] and alive = stops_answeringD [OF w]
  show "linked (lost x p) (s\<lparr>world := w\<rparr>)" using p(2) rest(1) unfolding linked_def by simp blast
  show "serving expects (lost x p) w" using p(3) rest alive by (simp add: serving_def)
  show "replicas disk (lost x p) w m" using p(4) rest alive by (simp add: replicas_def)
  obtain d where "d \<in> set (drives (lost x p))" "in_use d" using p(6) by (auto simp: list_ex_iff)
  with rest(1) p(4) p(7) [of d] show "m (next_cv_key p) = None" by (auto simp: replicas_def)
qed

text \<open>A cluster is in sync when one partition has changed and the drives of the others are untouched.\<close>

lemma all_in_sync_update:
  assumes s: "all_in_sync disk expects s M" "routed s" "k < length (cluster_map s)"
    and q: "cluster_map s' = (cluster_map s)[k := q]" "partitionid q = Some (int k)" "in_sync disk expects s' k mk"
    and other: "\<And>i. i < length (cluster_map s) \<Longrightarrow> i \<noteq> k \<Longrightarrow> linked (cluster_map s ! i) s'"
      "\<And>a. a \<notin> drive_address ` set (drives (cluster_map s ! k)) \<Longrightarrow> disk (world s') a = disk (world s) a \<and> expects (world s') a = expects (world s) a"
  shows "all_in_sync disk expects s' (M(k := mk))"
proof -
  have "in_sync disk expects s' i (M i) \<and> partitionid (cluster_map s' ! i) = Some (int i)" if i: "i < length (cluster_map s)" "i \<noteq> k" for i
  proof -
    have apart: "drive_address d \<notin> drive_address ` set (drives (cluster_map s ! k))" if "d \<in> set (drives (cluster_map s ! i))" for d
      using s(2,3) i that unfolding routed_def by blast
    have "in_sync disk expects s i (M i)" "partitionid (cluster_map s ! i) = Some (int i)" using s(1) i by (simp_all add: all_in_sync_def)
    with i q(1) other(1) [OF i] other(2) [OF apart] show ?thesis
      by (simp add: in_sync_def Let_def serving_def replicas_def)
  qed
  with q s(3) show ?thesis by (auto simp: all_in_sync_def)
qed

text \<open>The cluster after a write that took the lost drive out: the partition is in sync again, the others still are.\<close>

lemma holds_after_loss:
  assumes M: "all_in_sync disk expects s M" "routed s" and s: "survivable disk s k x" "p = cluster_map s ! k"
    and w: "stops_answering disk expects (drive_address (drives p ! x)) (world s) w"
    and q: "q = bump_version (lost x p)" "cluster_map s' = (cluster_map s)[k := q]" "linked q s'" "direntry_clustersize s' = direntry_clustersize s"
    and disk': "disk (world s') = (\<lambda>a. if a \<in> reached q [0 ..< length (drives p)] then mk else disk w a)"
    and expects': "expects (world s') = (\<lambda>a. if a \<in> reached q [0 ..< length (drives p)] then Some (part_version q) else expects w a)"
    and links: "\<And>r. linked r s \<Longrightarrow> serving expects r w \<Longrightarrow> drive_address ` set (drives p) \<inter> drive_address ` set (drives r) = {} \<Longrightarrow> linked r s'"
  shows "holds E disk expects s' (\<lambda>j. (M(k := mk)) (partition_of E s j) j)"
proof -
  let ?a = "drive_address (drives p ! x)" and ?is = "[0 ..< length (drives p)]"
  have k: "k < length (cluster_map s)" and x: "x < length (drives p)" "logid p = None" and green: "list_ex (has_status GREEN) (drives (lost x p))"
    using s by (simp_all add: survivable_def expendable_def Let_def)
  have sync: "in_sync disk expects s i (M i)" "partitionid (cluster_map s ! i) = Some (int i)" if "i < length (cluster_map s)" for i
    using M(1) that by (simp_all add: all_in_sync_def)
  have dist: "distinct (map drive_address (drives p))" using sync(1) [OF k] s(2) by (simp add: in_sync_def Let_def)
  note alive = stops_answeringD [OF w]
  have qs: "drives q = drives (lost x p)" "logid q = None" "partitionid q = Some (int k)" "drive_address ` set (drives q) = drive_address ` set (drives p)"
    using q(1) x(2) sync(2) [OF k] s(2) by (simp_all add: set_map [symmetric] del: set_map)
  have in_reached: "drive_address d \<in> reached q ?is" if "d \<in> set (drives q)" "in_use d" for d
    using that qs(1) by (auto simp: reached_def in_set_conv_nth)
  have sync_k: "in_sync disk expects s' k mk"
    using q(2,3) k qs dist green in_reached by (simp add: in_sync_def Let_def serving_def replicas_def disk' expects')
  have other: "linked (cluster_map s ! i) s'" if i: "i < length (cluster_map s)" "i \<noteq> k" for i
  proof (rule links)
    show apart: "drive_address ` set (drives p) \<inter> drive_address ` set (drives (cluster_map s ! i)) = {}"
      using M(2) i k s(2) unfolding routed_def by blast
    have si: "linked (cluster_map s ! i) s" "serving expects (cluster_map s ! i) (world s)"
      using sync(1) [OF i(1)] by (simp_all add: in_sync_def Let_def)
    show "linked (cluster_map s ! i) s" by (rule si(1))
    have "drive_address d \<noteq> ?a" if "d \<in> set (drives (cluster_map s ! i))" for d using apart that x(1) nth_mem by blast
    then show "serving expects (cluster_map s ! i) w" using si(2) alive(2) by (simp add: serving_def)
  qed
  have untouched: "disk (world s') a = disk (world s) a \<and> expects (world s') a = expects (world s) a"
    if "a \<notin> drive_address ` set (drives (cluster_map s ! k))" for a
  proof -
    have "reached q ?is \<subseteq> drive_address ` set (drives p)" using qs(1) by (auto simp: reached_def)
    then have "a \<noteq> ?a" "a \<notin> reached q ?is" using that s(2) x(1) by auto
    with alive(2,3) show ?thesis by (simp add: disk' expects')
  qed
  have "all_in_sync disk expects s' (M(k := mk))" by (rule all_in_sync_update [OF M k q(2) qs(3) sync_k other untouched])
  moreover have "routed s'"
  proof -
    have "drive_address ` set (drives (cluster_map s' ! i)) = drive_address ` set (drives (cluster_map s ! i))" for i
      using q(2) qs(4) s(2) k by (cases "i = k") simp_all
    moreover have "length (cluster_map s') = length (cluster_map s)" "cluster_map s' \<noteq> []" using q(2) k by auto
    ultimately show ?thesis using M(2) q(4) unfolding routed_def by simp
  qed
  moreover have "partition_of E s' = partition_of E s" using q(2,4) by (simp add: partition_of_def fun_eq_iff)
  ultimately show ?thesis by (auto simp: holds_def)
qed

text \<open>
  A drive that answers that a key does not exist, when the others have just deleted it, counts
  as failed.
\<close>

context reliable_drives
begin

lemma delete_disables:
  assumes s: "survivable disk s k x" "p = cluster_map s ! k" "partitionid p \<noteq> None" "distinct (map drive_address (drives p))"
    and st: "linked p s" "serving expects p (world s)" "replicas disk (lost x p) (world s) m" "disk (world s) (drive_address (drives p ! x)) key = None"
    and key: "keyToPartition E key s = (Inr k, s)" "key \<noteq> next_cv_key p" "fst (kv_delete key v wm m) = OK"
  shows "\<exists>s'. Distributed_Delete (Suc (Suc (Suc n))) E key v wm s = (Inr OK, s') \<and> cluster_map s' = (cluster_map s)[k := bump_version (lost x p)]
     \<and> expects (world s') (drive_address (drives p ! x)) = Some (part_version p)"
proof -
  let ?is = "[0 ..< length (drives p)]" and ?f = "lib_Delete (lib E) key v wm" and ?g = "kv_delete key v wm" and ?a = "drive_address (drives p ! x)"
  have k: "k < length (cluster_map s)" and x: "x < length (drives p)" "in_use (drives p ! x)" "logid p = None"
    and quorum: "list_ex (has_status GREEN) (drives (lost x p))" "count_status GREEN (lost x p) + count_status YELLOW (lost x p) \<noteq> 1"
    and nolog: "\<not> list_ex in_use (drives (log_partition s))"
    and absent: "\<And>d. d \<in> set (drives p) \<Longrightarrow> in_use d \<Longrightarrow> disk (world s) (drive_address d) (next_cv_key p) = None"
    using s(1,2) by (simp_all add: survivable_def expendable_def Let_def list_all_iff)
  obtain rs s1 where r: "run_on_drives E p (\<lambda>con. request con ?f) ?is s = (Inr rs, s1)" "same_cluster s s1" "drawn s1 = drawn s"
    "expects (world s1) = expects (world s)" "length rs = length (drives p)"
    "\<And>j. j < length (drives p) \<Longrightarrow> rs ! j = (REMOTE_REMOTE_CONNECTION_ERROR, 0) \<and> \<not> in_use (drives p ! j)
        \<or> fst (rs ! j) = fst (?g (disk (world s) (drive_address (drives p ! j)))) \<and> in_use (drives p ! j)"
    "\<And>a. disk (world s1) a = (if a \<in> reached p ?is then snd (?g (disk (world s) a)) else disk (world s) a)"
    using run_on_drives_result [OF carries_out_delete st(1,2) s(4), of ?is key v wm] by auto
  have same: "disk (world s) (drive_address (drives p ! j)) = m" if "j < length (drives p)" "in_use (drives p ! j)" "j \<noteq> x" for j
    using st(3) that nth_mem [of j "drives (lost x p)"] by (simp add: replicas_def)
  have codes: "fst (rs ! j) = OK" if "j < length (drives p)" "in_use (drives p ! j)" "j \<noteq> x" for j
    using r(6) [OF that(1)] that key(3) same [OF that] by auto
  have missing: "fst (rs ! x) = REMOTE_NOT_FOUND" using r(6) [OF x(1)] x(2) st(4) by (auto simp: kv_delete_def)
  have mism: "fst (rs ! j) \<noteq> REMOTE_CLUSTER_VERSION_MISMATCH" if j: "j < length (drives p)" for j
    using r(6) [OF j] codes [OF j] missing by (cases "in_use (drives p ! j)"; cases "j = x") auto
  have others: "attached (part_version p) (drive_address (drives p ! j)) s1 \<and> expects (world s1) (drive_address (drives p ! j)) = Some (part_version p)
      \<and> disk (world s1) (drive_address (drives p ! j)) (next_cv_key p) = None" if "j < length (drives p)" "j \<noteq> x" "in_use (drives p ! j)" for j
    using run_on_drives_attaches [OF carries_out_delete st(1,2) _ r(1)] that st(2) r(4,7) absent [of "drives p ! j"] key(2)
    by (auto simp: serving_def kv_delete_def split: option.splits)
  have log: "linked (log_partition s) s" "serving expects (log_partition s) (world s)" and luck: "list_ex in_use (drives (log_partition s)) \<Longrightarrow> Q" for Q
    using nolog by (auto simp: linked_def serving_def list_ex_iff)
  have quorum': "list_all (has_status GREEN) (drives p) \<and> list_ex in_use (drives (log_partition s))
      \<or> count_status GREEN (lost x p) + count_status YELLOW (lost x p) \<noteq> 1" using quorum(2) by simp
  have err: "\<not> write_error OK" "write_error (fst (rs ! x))" using missing by (simp_all add: write_error_def)
  obtain l q e s' where d: "writeOperation (Suc (Suc (Suc n))) E key (\<lambda>con. request con ?f) s = (Inr (OK, e), s')"
    "if list_all (has_status GREEN) (drives p) \<and> list_ex in_use (drives (log_partition s))
     then \<exists>i < length (drives (log_partition s)). in_use (drives (log_partition s) ! i) \<and> l = Some (int i) else l = None"
    "q = bump_version (lost x (p\<lparr>logid := l\<rparr>))" "cluster_map s' = (cluster_map s)[k := q]"
    "expects (world s') = (\<lambda>a. if a \<in> reached q ?is then Some (part_version q) else expects (world s) a)"
    using write_disables [OF key(1) k s(2,3) x(3) s(4) x(1,2) r(1-5) codes err mism others quorum(1) quorum' log luck luck] by blast
  have "p\<lparr>logid := None\<rparr> = p" "l = None" using x(3) d(2) nolog by simp_all
  then have q: "q = bump_version (lost x p)" using d(3) by simp
  have "?a \<notin> reached q ?is"
  proof
    assume "?a \<in> reached q ?is"
    then obtain j where "j < length (drives p)" "in_use (drives (lost x p) ! j)" "drive_address (drives p ! j) = ?a" using q by (auto simp: reached_def)
    with nth_eq_iff_index_eq [OF s(4), of j x] x(1) show False by auto
  qed
  then have "expects (world s') ?a = Some (part_version p)" using d(5) st(2) x(1,2) by (simp add: serving_def)
  moreover obtain cap where "Distributed_Delete (Suc (Suc (Suc n))) E key v wm s = (Inr OK, s'\<lparr>capacity_estimate := cap\<rparr>)"
    using Delete_without_repair [OF d(1)] by auto
  ultimately show ?thesis using d(4) q by (intro exI [of _ "s'\<lparr>capacity_estimate := cap\<rparr>"]) simp
qed

end

context failing_drives
begin

lemma cluster_write_loss:
  assumes f: "carries_out disk expects f g" "\<And>a v w. expects w a = None \<Longrightarrow> \<exists>e. f a v w = ((REMOTE_REMOTE_CONNECTION_ERROR, e), w)"
      "\<And>y. y key = m key \<Longrightarrow> \<not> write_error (fst (g y))"
    and g: "\<And>y. y key = m key \<Longrightarrow> fst (g y) = fst (g m) \<and> snd (g y) key = snd (g m) key" "\<And>y j. j \<noteq> key \<Longrightarrow> snd (g y) j = y j"
    and s: "holds E disk expects s m" "survivable disk s k x" "k = partition_of E s key" "p = cluster_map s ! k" "key \<noteq> next_cv_key p"
    and w: "stops_answering disk expects (drive_address (drives p ! x)) (world s) w"
  shows "\<exists>e s' m'. writeOperation (Suc (Suc (Suc n))) E key (\<lambda>con. request con f) (s\<lparr>world := w\<rparr>) = (Inr (fst (g m), e), s')
     \<and> cluster_map s' = (cluster_map s)[k := bump_version (lost x p)] \<and> holds E disk expects s' m'
     \<and> (\<forall>j. j = next_cv_key p \<or> m' j = snd (g m) j)"
proof -
  obtain M where M: "all_in_sync disk expects s M" "\<And>j. M (partition_of E s j) j = m j" and rt: "routed s"
    using s(1) by (auto simp: holds_def)
  let ?a = "drive_address (drives p ! x)" and ?s = "s\<lparr>world := w\<rparr>" and ?is = "[0 ..< length (drives p)]" and ?q = "bump_version (lost x p)"
  have k: "k < length (cluster_map s)" and x: "x < length (drives p)" "in_use (drives p ! x)" "logid p = None"
    and att: "attached (part_version p) ?a ?s"
    and quorum: "list_ex (has_status GREEN) (drives (lost x p))" "count_status GREEN (lost x p) + count_status YELLOW (lost x p) \<noteq> 1"
    and nolog: "\<not> list_ex in_use (drives (log_partition s))"
    using s(2,4) by (simp_all add: survivable_def expendable_def Let_def)
  have sync: "in_sync disk expects s k (M k)" and pid: "partitionid p = Some (int k)" using M(1) k s(4) by (simp_all add: all_in_sync_def)
  note dist = sync_facts(1) [OF sync s(4)] and alive = stops_answeringD [OF w]
  have exp: "expendable disk s k x" using s(2) by (simp add: survivable_def)
  note lost = others_in_sync [OF sync exp s(4) w]
  have cv: "snd (g (M k)) (next_cv_key p) = None" using g(2) [of "next_cv_key p" "M k"] s(5) lost(4) by simp
  have key: "keyToPartition E key ?s = (Inr k, ?s)"
    using keyToPartition_routed [of ?s E key] rt s(3) by (simp add: routed_def partition_of_def)
  have log: "linked (log_partition ?s) ?s" "serving expects (log_partition ?s) (world ?s)" "\<not> list_ex in_use (drives (log_partition ?s))"
    using nolog by (auto simp: linked_def serving_def list_ex_iff)
  have fine: "\<not> write_error (fst (g (M k)))" using f(3) [of "M k"] M(2) [of key] s(3) by simp
  have same_p: "p\<lparr>logid := None\<rparr> = p" using x(3) by simp
  have ks: "k < length (cluster_map ?s)" "p = cluster_map ?s ! k" "partitionid p \<noteq> None" using k s(4) pid by simp_all
  have lost': "serving expects (lost x p) (world ?s)" "replicas disk (lost x p) (world ?s) (M k)" "expects (world ?s) ?a = None" using lost(2,3) alive(1) by simp_all
  have quorum': "list_all (has_status GREEN) (drives p) \<and> list_ex in_use (drives (log_partition ?s))
      \<or> count_status GREEN (lost x p) + count_status YELLOW (lost x p) \<noteq> 1" using quorum(2) by simp
  have luck: "list_ex in_use (drives (log_partition ?s)) \<Longrightarrow> Q" for Q using log(3) by blast
  obtain l q e s' where n: "writeOperation (Suc (Suc (Suc n))) E key (\<lambda>con. request con f) ?s = (Inr (fst (g (M k)), e), s')"
    and l: "if list_all (has_status GREEN) (drives p) \<and> list_ex in_use (drives (log_partition ?s))
      then \<exists>i < length (drives (log_partition ?s)). in_use (drives (log_partition ?s) ! i) \<and> l = Some (int i) else l = None"
    and q: "q = bump_version (lost x (p\<lparr>logid := l\<rparr>))" and map': "cluster_map s' = (cluster_map ?s)[k := q]" "linked q s'"
      "direntry_clustersize s' = direntry_clustersize ?s"
    and disk': "disk (world s') = (\<lambda>a. if a \<in> reached q ?is
       then (snd (g (M k)))(cv_key (uint (cluster_version q)) \<mapsto> \<lparr>kr_value = part_SerializeAsString E q, kr_version = ''yes''\<rparr>) else disk (world ?s) a)"
    and expects': "expects (world s') = (\<lambda>a. if a \<in> reached q ?is then Some (part_version q) else expects (world ?s) a)"
    and links: "\<And>r. linked r ?s \<Longrightarrow> serving expects r (world ?s) \<Longrightarrow> drive_address ` set (drives p) \<inter> drive_address ` set (drives r) = {} \<Longrightarrow> linked r s'"
    using noticing_write [OF f(1,2) fine cv key ks x(3) dist x(1,2) lost(1) lost'(1,2) att lost'(3) quorum(1) quorum' log(1,2) luck luck] by blast
  have "l = None" using l log(3) by simp
  then have q': "q = ?q" using q same_p by simp
  have cvq: "cluster_version q = cluster_version p + 1" using q' by simp
  let ?M = "M(k := (snd (g (M k)))(next_cv_key p \<mapsto> \<lparr>kr_value = part_SerializeAsString E q, kr_version = ''yes''\<rparr>))"
  have map_s: "cluster_map s' = (cluster_map s)[k := q]" "direntry_clustersize s' = direntry_clustersize s" using map'(1,3) by simp_all
  have holds': "holds E disk expects s' (\<lambda>j. ?M (partition_of E s j) j)"
    by (rule holds_after_loss [OF M(1) rt s(2,4) w q' map_s(1) map'(2) map_s(2)]) (use disk' expects' links cvq in \<open>simp_all cong: if_cong\<close>)
  have agree: "j = next_cv_key p \<or> ?M (partition_of E s j) j = snd (g m) j" for j
    using g(1) [of "M k"] g(2) [of j] M(2) [of j] s(3) by (cases "j = key") auto
  have "fst (g (M k)) = fst (g m)" using g(1) [of "M k"] M(2) [of key] s(3) by simp
  with n have answer: "writeOperation (Suc (Suc (Suc n))) E key (\<lambda>con. request con f) ?s = (Inr (fst (g m), e), s')" by metis
  show ?thesis
    by (rule exI [of _ e], rule exI [of _ s'], rule exI [of _ "\<lambda>j. ?M (partition_of E s j) j"], intro conjI allI)
       (rule answer, rule map_s(1) [unfolded q'], rule holds', rule agree)
qed

text \<open>With a drive to keep a log on: the write that notices is not logged.\<close>

lemma noticing_write_logged:
  assumes s: "in_sync disk expects s k m" "expendable disk s k x" "p = cluster_map s ! k" "partitionid p \<noteq> None" "loggable E expects s k n"
    and key: "keyToPartition E key s = (Inr k, s)" "key \<noteq> next_cv_key p"
    and w: "stops_answering disk expects (drive_address (drives p ! x)) (world s) w"
  shows "\<exists>s' i. Distributed_Put (Suc (Suc (Suc n))) E key v wm r (s\<lparr>world := w\<rparr>) = (Inr (fst (kv_put key v wm r m)), s')
     \<and> i < length (drives (log_partition s)) \<and> in_use (drives (log_partition s) ! i)
     \<and> cluster_map s' = (cluster_map s)[k := bump_version (lost x (p\<lparr>logid := Some (int i)\<rparr>))] \<and> log_partition s' = log_partition s
     \<and> (\<forall>d \<in> set (drives (lost x p)). in_use d \<longrightarrow> disk (world s') (drive_address d) key = snd (kv_put key v wm r m) key)
     \<and> (\<forall>d \<in> set (drives (log_partition s)). disk (world s') (drive_address d) = disk (world s) (drive_address d))"
proof -
  let ?a = "drive_address (drives p ! x)" and ?s = "s\<lparr>world := w\<rparr>" and ?is = "[0 ..< length (drives p)]" and ?g = "kv_put key v wm r"
  have k: "k < length (cluster_map ?s)" "p = cluster_map ?s ! k" and x: "logid p = None" "x < length (drives p)" "in_use (drives p ! x)"
    and att: "attached (part_version p) ?a ?s" and green: "list_ex (has_status GREEN) (drives (lost x p))"
    using s(2,3) by (simp_all add: expendable_def Let_def)
  note dist = sync_facts(1) [OF s(1,3)] and alive = stops_answeringD [OF w]
  have lost: "linked (lost x p) ?s" "serving expects (lost x p) (world ?s)" "replicas disk (lost x p) (world ?s) m" "m (next_cv_key p) = None"
    "expects (world ?s) ?a = None" using others_in_sync [OF s(1-3) w] alive(1) by simp_all
  have log: "list_all (has_status GREEN) (drives p)" "list_ex in_use (drives (log_partition s))" "linked (log_partition ?s) ?s"
    and apart: "drive_address ` set (drives p) \<inter> drive_address ` set (drives (log_partition ?s)) = {}"
    and luck: "\<exists>j < n. in_use (drives (log_partition ?s) ! (random_number E (drawn ?s + j) mod length (drives (log_partition ?s))))"
    and srv: "serving expects (log_partition s) (world s)"
    using s(3,5) by (auto simp: loggable_def Let_def list_ex_iff)
  have far: "drive_address d \<noteq> ?a" "drive_address d \<notin> drive_address ` set (drives p)" if "d \<in> set (drives (log_partition s))" for d
    using apart that x(2) nth_mem [of x "drives p"] by force+
  have srv': "serving expects (log_partition ?s) (world ?s)" using srv far(1) alive(2) by (simp add: serving_def)
  have quorum: "list_all (has_status GREEN) (drives p) \<and> list_ex in_use (drives (log_partition ?s))
      \<or> count_status GREEN (lost x p) + count_status YELLOW (lost x p) \<noteq> 1" using log(1,2) by simp
  have key': "keyToPartition E key ?s = (Inr k, ?s)" using key(1) by (auto simp: keyToPartition_def cmd_simps split: if_splits)
  have g: "\<not> write_error (fst (?g m))" "snd (?g m) (next_cv_key p) = None" "fst (?g m) \<noteq> REMOTE_OTHER_ERROR"
    using lost(4) key(2) by (auto simp: kv_put_def write_error_def)
  obtain l q e s' where n: "writeOperation (Suc (Suc (Suc n))) E key (\<lambda>con. request con (lib_Put (lib E) key v wm r)) ?s = (Inr (fst (?g m), e), s')"
    and l: "if list_all (has_status GREEN) (drives p) \<and> list_ex in_use (drives (log_partition ?s))
      then \<exists>i < length (drives (log_partition ?s)). in_use (drives (log_partition ?s) ! i) \<and> l = Some (int i) else l = None"
    and q: "q = bump_version (lost x (p\<lparr>logid := l\<rparr>))" "cluster_map s' = (cluster_map ?s)[k := q]" "log_partition s' = log_partition ?s"
    and disk': "disk (world s') = (\<lambda>a. if a \<in> reached q ?is
       then (snd (?g m))(cv_key (uint (cluster_version q)) \<mapsto> \<lparr>kr_value = part_SerializeAsString E q, kr_version = ''yes''\<rparr>) else disk (world ?s) a)"
    using noticing_write [OF carries_out_put Put_unreachable g(1,2) key' k s(4) x(1) dist x(2,3) lost(1-3) att lost(5) green quorum log(3) srv' apart luck] by blast
  obtain i where i: "i < length (drives (log_partition s))" "in_use (drives (log_partition s) ! i)" "l = Some (int i)" using l log(1,2) by auto
  have drives_q: "drives q = drives (lost x p)" "cluster_version q = cluster_version p + 1" using q(1) by (simp_all add: set_status_def)
  have "drive_address d \<in> reached q ?is" if "d \<in> set (drives (lost x p))" "in_use d" for d
    using that drives_q(1) by (auto simp: reached_def in_set_conv_nth)
  then have new: "disk (world s') (drive_address d) key = snd (?g m) key" if "d \<in> set (drives (lost x p))" "in_use d" for d
    using that key(2) drives_q(2) by (simp add: disk')
  have "reached q ?is \<subseteq> drive_address ` set (drives p)" using drives_q(1) by (auto simp: reached_def)
  then have old: "disk (world s') (drive_address d) = disk (world s) (drive_address d)" if "d \<in> set (drives (log_partition s))" for d
    using far [OF that] alive(3) by (auto simp: disk')
  obtain cap where "Distributed_Put (Suc (Suc (Suc n))) E key v wm r ?s = (Inr (fst (?g m)), s'\<lparr>capacity_estimate := cap\<rparr>)"
    using Put_without_repair [OF n g(3)] by blast
  with i q new old show ?thesis by (intro exI [of _ "s'\<lparr>capacity_estimate := cap\<rparr>"] exI [of _ i]) simp
qed

lemma cluster_step_loss:
  assumes x: "notices m op" "op_key op \<noteq> next_cv_key p"
    and s: "holds E disk expects s m" "survivable disk s k x" "k = partition_of E s (op_key op)" "p = cluster_map s ! k"
    and w: "stops_answering disk expects (drive_address (drives p ! x)) (world s) w"
  shows "\<exists>s' m'. cluster_step (Suc (Suc (Suc n))) E op (s\<lparr>world := w\<rparr>) = (Inr (fst (kv_step op m)), s')
     \<and> cluster_map s' = (cluster_map s)[k := bump_version (lost x p)] \<and> holds E disk expects s' m'
     \<and> (\<forall>j. j = next_cv_key p \<or> m' j = snd (kv_step op m) j)"
proof (cases op)
  case (Op_Put key v wm r)
  let ?g = "kv_put key v wm r"
  have g: "y key = m key \<Longrightarrow> \<not> write_error (fst (?g y))" "y key = m key \<Longrightarrow> fst (?g y) = fst (?g m) \<and> snd (?g y) key = snd (?g m) key"
    "j \<noteq> key \<Longrightarrow> snd (?g y) j = y j" and c: "fst (?g m) \<noteq> REMOTE_OTHER_ERROR" for y j
    by (auto simp: kv_put_def write_error_def)
  have k: "k = partition_of E s key" "key \<noteq> next_cv_key p" using s(3) x(2) Op_Put by simp_all
  obtain e s' m' where "writeOperation (Suc (Suc (Suc n))) E key (\<lambda>con. request con (lib_Put (lib E) key v wm r)) (s\<lparr>world := w\<rparr>) = (Inr (fst (?g m), e), s')"
    "cluster_map s' = (cluster_map s)[k := bump_version (lost x p)]" "holds E disk expects s' m'" "\<forall>j. j = next_cv_key p \<or> m' j = snd (?g m) j"
    using cluster_write_loss [OF carries_out_put Put_unreachable g s(1,2) k(1) s(4) k(2) w] by blast
  with Put_without_repair [OF this(1) c] Op_Put show ?thesis by (auto simp: cmd_simps intro!: exI [of _ m'] simp del: writeOperation.simps)
next
  case (Op_Delete key v wm)
  let ?g = "kv_delete key v wm"
  have g: "y key = m key \<Longrightarrow> \<not> write_error (fst (?g y))" "y key = m key \<Longrightarrow> fst (?g y) = fst (?g m) \<and> snd (?g y) key = snd (?g m) key"
    "j \<noteq> key \<Longrightarrow> snd (?g y) j = y j" and c: "fst (?g m) \<noteq> REMOTE_OTHER_ERROR" for y j
    using x(1) Op_Delete by (auto simp: kv_delete_def write_error_def split: option.splits)
  have k: "k = partition_of E s key" "key \<noteq> next_cv_key p" using s(3) x(2) Op_Delete by simp_all
  obtain e s' m' where "writeOperation (Suc (Suc (Suc n))) E key (\<lambda>con. request con (lib_Delete (lib E) key v wm)) (s\<lparr>world := w\<rparr>) = (Inr (fst (?g m), e), s')"
    "cluster_map s' = (cluster_map s)[k := bump_version (lost x p)]" "holds E disk expects s' m'" "\<forall>j. j = next_cv_key p \<or> m' j = snd (?g m) j"
    using cluster_write_loss [OF carries_out_delete Delete_unreachable g s(1,2) k(1) s(4) k(2) w] by blast
  with Delete_without_repair [OF this(1) c] Op_Delete show ?thesis by (auto simp: cmd_simps intro!: exI [of _ m'] simp del: writeOperation.simps)
qed (use x in simp_all)

lemma cluster_run_loss:
  assumes x: "notices m op" "list_all (\<lambda>x. op_key x \<noteq> next_cv_key p) (op # ops)"
    and s: "holds E disk expects s m" "survivable disk s k x" "k = partition_of E s (op_key op)" "p = cluster_map s ! k"
    and w: "stops_answering disk expects (drive_address (drives p ! x)) (world s) w"
    and fair: "fair E ((cluster_map s)[k := bump_version (lost x p)]) (Suc n)"
  shows "\<exists>s' m'. cluster_run (Suc (Suc (Suc n))) E (op # ops) (s\<lparr>world := w\<rparr>) = (Inr (fst (kv_run (op # ops) m)), s')
     \<and> cluster_map s' = (cluster_map s)[k := bump_version (lost x p)] \<and> holds E disk expects s' m'
     \<and> (\<forall>j. j = next_cv_key p \<or> m' j = snd (kv_run (op # ops) m) j)"
proof -
  have op: "op_key op \<noteq> next_cv_key p" and ops: "list_all (\<lambda>x. op_key x \<noteq> next_cv_key p) ops" using x(2) by simp_all
  obtain s1 m1 where s1: "cluster_step (Suc (Suc (Suc n))) E op (s\<lparr>world := w\<rparr>) = (Inr (fst (kv_step op m)), s1)"
    "cluster_map s1 = (cluster_map s)[k := bump_version (lost x p)]" "holds E disk expects s1 m1" "\<forall>j. j = next_cv_key p \<or> m1 j = snd (kv_step op m) j"
    using cluster_step_loss [OF x(1) op s w] by blast
  obtain s2 where "cluster_run (Suc (Suc (Suc n))) E ops s1 = (Inr (fst (kv_run ops m1)), s2)" "cluster_map s2 = cluster_map s1"
    "holds E disk expects s2 (snd (kv_run ops m1))"
    using cluster_run_refines [OF s1(3), of "Suc n" ops] fair s1(2) by auto
  with s1(1,2) kv_run_agree [OF s1(4) ops] show ?thesis by (auto simp: cmd_simps split_beta)
qed

end

text \<open>
  C6. Losing a drive goes unnoticed in a cluster that has no log drive in use. All partitions
  are in sync; a drive to which this client has an open connection stops answering, and at least
  two other drives of its partition go on, one of them GREEN. Then a put, or a delete of a key
  that exists, and any operations after it give the answers of a single drive that holds the
  contents of the cluster: the write takes the drive out of the partition and publishes the
  partition under the next cluster version, which nobody else has published, after which all
  drives in use are in sync again. The records differ from those of the single drive in the record
  of the partition only.
\<close>

theorem drive_loss_unnoticed:
  assumes "failing_drives E disk expects" "holds E disk expects s m" "survivable disk s k x"
    "notices m op" "k = partition_of E s (op_key op)" "p = cluster_map s ! k"
    "stops_answering disk expects (drive_address (drives p ! x)) (world s) w"
    "list_all (\<lambda>x. op_key x \<noteq> next_cv_key p) (op # ops)" "fair E ((cluster_map s)[k := bump_version (lost x p)]) (Suc n)"
  shows "\<exists>s' m'. cluster_run (Suc (Suc (Suc n))) E (op # ops) (s\<lparr>world := w\<rparr>) = (Inr (fst (kv_run (op # ops) m)), s')
     \<and> cluster_map s' = (cluster_map s)[k := bump_version (lost x p)] \<and> holds E disk expects s' m'
     \<and> (\<forall>j. j = next_cv_key p \<or> m' j = snd (kv_run (op # ops) m) j)"
  by (rule failing_drives.cluster_run_loss [OF assms(1,4,8,2,3,5-7,9)])

text \<open>Three drives, of which the third has been used by the client.\<close>

definition drive_c :: "KineticDrive_Status \<Rightarrow> KineticDrive" where
  "drive_c st = \<lparr>drive_status = st, drive_host = ''c'', drive_port = 8123\<rparr>"

definition trio_cluster :: "rack cluster" where
  "trio_cluster = (pair_cluster (pair_partition 3 [drive_a GREEN, drive_b GREEN, drive_c GREEN])
       [(''a'', 8123) \<mapsto> ([], 3), (''b'', 8123) \<mapsto> ([], 3), (''c'', 8123) \<mapsto> ([], 3)])
     \<lparr>connections := [\<lparr>con_address = (''c'', 8123), client_cluster_version = 3\<rparr>], connection_map := [(''c'', 8123) \<mapsto> 0]\<rparr>"

lemmas trio_defs = trio_cluster_def drive_c_def pair_defs

lemma trio_holds: "holds (rack_env id) rack_disk rack_expects trio_cluster Map.empty"
proof -
  have "linked (cluster_map trio_cluster ! 0) trio_cluster" by (simp add: linked_def trio_defs)
  then have "all_in_sync rack_disk rack_expects trio_cluster (\<lambda>_. Map.empty)"
    by (simp add: all_in_sync_def in_sync_def trio_defs serving_def replicas_def rack_disk_def rack_expects_def)
  moreover have "routed trio_cluster" by (simp add: routed_def trio_defs)
  ultimately show ?thesis by (auto simp: holds_def)
qed

lemma trio_fair: "fair (rack_env id) [bump_version (lost 2 (pair_partition 3 [drive_a GREEN, drive_b GREEN, drive_c GREEN]))] (Suc 1)"
proof -
  have ds: "drives (bump_version (lost 2 (pair_partition 3 [drive_a GREEN, drive_b GREEN, drive_c GREEN]))) = [drive_a GREEN, drive_b GREEN, drive_c RED]"
    by (simp add: set_status_def trio_defs)
  have "\<exists>j < Suc 1. has_status GREEN ([drive_a GREEN, drive_b GREEN, drive_c RED] ! ((d + j) mod 3))" for d :: nat
  proof (cases "d mod 3 = 2")
    case True
    then have "(d + 1) mod 3 = 0" by presburger
    then show ?thesis by (intro exI [of _ 1]) (simp add: drive_a_def)
  next
    case False
    then consider "d mod 3 = 0" | "d mod 3 = 1" by linarith
    then show ?thesis by cases (intro exI [of _ 0]; simp add: drive_a_def drive_b_def)+
  qed
  then show ?thesis unfolding fair_def by (simp add: ds del: set_status_simps)
qed

theorem drive_loss_unnoticed_witness:
  "\<exists>s' m'. cluster_run (Suc (Suc (Suc 1))) (rack_env id)
       [Op_Put ''/f'' '''' REQUIRE_SAME_VERSION \<lparr>kr_value = ''x'', kr_version = ''v''\<rparr>, Op_Get ''/f'', Op_GetVersion ''/g'']
       (trio_cluster\<lparr>world := (world trio_cluster)((''c'', 8123) := None)\<rparr>)
     = (Inr [Ans_Status OK, Ans_Record OK (Some \<lparr>kr_value = ''x'', kr_version = ''v''\<rparr>), Ans_Version REMOTE_NOT_FOUND None], s')
     \<and> cluster_map s' = [bump_version (lost 2 (pair_partition 3 [drive_a GREEN, drive_b GREEN, drive_c GREEN]))]
     \<and> holds (rack_env id) rack_disk rack_expects s' m' \<and> m' ''/f'' = Some \<lparr>kr_value = ''x'', kr_version = ''v''\<rparr>"
proof -
  let ?p = "pair_partition 3 [drive_a GREEN, drive_b GREEN, drive_c GREEN]"
  let ?ops = "[Op_Get ''/f'', Op_GetVersion ''/g'']" and ?op = "Op_Put ''/f'' '''' REQUIRE_SAME_VERSION \<lparr>kr_value = ''x'', kr_version = ''v''\<rparr>"
  have p: "?p = cluster_map trio_cluster ! 0" "cluster_map trio_cluster = [?p]" by (simp_all add: trio_defs)
  have surv: "survivable rack_disk trio_cluster 0 2"
    by (simp add: survivable_def expendable_def trio_defs attached_def set_status_def count_status_def rack_disk_def)
  have stop: "stops_answering rack_disk rack_expects (drive_address (drives ?p ! 2)) (world trio_cluster) ((world trio_cluster)((''c'', 8123) := None))"
    by (auto simp: stops_answering_def trio_defs rack_expects_def rack_disk_def)
  have part: "0 = partition_of (rack_env id) trio_cluster (op_key ?op)" by (simp add: partition_of_def p(2))
  have keys: "list_all (\<lambda>x. op_key x \<noteq> next_cv_key ?p) (?op # ?ops)" by (simp add: cv_key_def)
  have fair: "fair (rack_env id) ((cluster_map trio_cluster)[0 := bump_version (lost 2 ?p)]) (Suc 1)" using trio_fair p(2) by simp
  have run: "kv_run (?op # ?ops) Map.empty = ([Ans_Status OK, Ans_Record OK (Some \<lparr>kr_value = ''x'', kr_version = ''v''\<rparr>), Ans_Version REMOTE_NOT_FOUND None],
      [''/f'' \<mapsto> \<lparr>kr_value = ''x'', kr_version = ''v''\<rparr>])"
    by (simp add: kv_put_def kv_get_def version_matches_def)
  have notice: "notices Map.empty ?op" by simp
  obtain s' m' where r: "cluster_run (Suc (Suc (Suc 1))) (rack_env id) (?op # ?ops) (trio_cluster\<lparr>world := (world trio_cluster)((''c'', 8123) := None)\<rparr>)
      = (Inr (fst (kv_run (?op # ?ops) Map.empty)), s')" "cluster_map s' = (cluster_map trio_cluster)[0 := bump_version (lost 2 ?p)]"
    "holds (rack_env id) rack_disk rack_expects s' m'" "\<forall>j. j = next_cv_key ?p \<or> m' j = snd (kv_run (?op # ?ops) Map.empty) j"
    using drive_loss_unnoticed [OF failing_rack.failing_drives_axioms trio_holds surv notice part p(1) stop keys fair] by blast
  have "''/f'' \<noteq> next_cv_key ?p" using keys by simp
  with r(4) have "m' ''/f'' = Some \<lparr>kr_value = ''x'', kr_version = ''v''\<rparr>" unfolding run by auto
  moreover have "cluster_map s' = [bump_version (lost 2 ?p)]" using r(2) p(2) by simp
  ultimately show ?thesis using r(1,3) unfolding run fst_conv by blast
qed

subsection \<open>What goes wrong\<close>

text \<open>
  C31. The write that notices the loss of a drive is missing from the log. All drives of a partition
  are GREEN and there is a drive to keep a log on. When a drive stops answering, the next write
  takes it out of the partition and chooses a drive for the log of the partition, and it is
  answered like the write on a single drive; but what the log drives hold does not change. The
  lost drive does not have the record, and the log from which it is brought up to date when it
  returns does not name the key.
\<close>

theorem noticing_write_not_logged:
  assumes "failing_drives E disk expects" "in_sync disk expects s k m" "expendable disk s k x" "p = cluster_map s ! k" "partitionid p \<noteq> None"
    "loggable E expects s k n" "keyToPartition E key s = (Inr k, s)" "key \<noteq> next_cv_key p"
    "stops_answering disk expects (drive_address (drives p ! x)) (world s) w"
  shows "\<exists>s' i. Distributed_Put (Suc (Suc (Suc n))) E key v wm r (s\<lparr>world := w\<rparr>) = (Inr (fst (kv_put key v wm r m)), s')
     \<and> i < length (drives (log_partition s)) \<and> in_use (drives (log_partition s) ! i)
     \<and> cluster_map s' = (cluster_map s)[k := bump_version (lost x (p\<lparr>logid := Some (int i)\<rparr>))] \<and> log_partition s' = log_partition s
     \<and> (\<forall>d \<in> set (drives (lost x p)). in_use d \<longrightarrow> disk (world s') (drive_address d) key = snd (kv_put key v wm r m) key)
     \<and> (\<forall>d \<in> set (drives (log_partition s)). disk (world s') (drive_address d) = disk (world s) (drive_address d))"
  by (rule failing_drives.noticing_write_logged [OF assms])

text \<open>The three drives with a fourth one for the log.\<close>

definition drive_d :: "KineticDrive_Status \<Rightarrow> KineticDrive" where
  "drive_d st = \<lparr>drive_status = st, drive_host = ''d'', drive_port = 8123\<rparr>"

definition logged_cluster :: "rack cluster" where
  "logged_cluster = trio_cluster\<lparr>log_partition := \<lparr>cluster_version = 0, partitionid = None, drives = [drive_d GREEN], logid = None\<rparr>,
     world := (world trio_cluster)((''d'', 8123) \<mapsto> ([], 0))\<rparr>"

theorem noticing_write_not_logged_witness:
  "\<exists>s'. Distributed_Put (Suc (Suc (Suc 1))) (rack_env id) ''/f'' '''' REQUIRE_SAME_VERSION \<lparr>kr_value = ''x'', kr_version = ''v''\<rparr>
       (logged_cluster\<lparr>world := (world logged_cluster)((''c'', 8123) := None)\<rparr>) = (Inr OK, s')
     \<and> logid (cluster_map s' ! 0) = Some 0 \<and> rack_disk (world s') (''a'', 8123) ''/f'' = Some \<lparr>kr_value = ''x'', kr_version = ''v''\<rparr>
     \<and> rack_disk (world s') (''d'', 8123) = Map.empty"
proof -
  let ?p = "pair_partition 3 [drive_a GREEN, drive_b GREEN, drive_c GREEN]" and ?r = "\<lparr>kr_value = ''x'', kr_version = ''v''\<rparr>"
  note defs = logged_cluster_def drive_d_def trio_defs
  have p: "?p = cluster_map logged_cluster ! 0" "partitionid ?p \<noteq> None" by (simp_all add: defs)
  have sync: "in_sync rack_disk rack_expects logged_cluster 0 Map.empty"
    by (simp add: in_sync_def linked_def defs serving_def replicas_def rack_disk_def rack_expects_def)
  have exp: "expendable rack_disk logged_cluster 0 2"
    by (simp add: expendable_def defs attached_def set_status_def rack_disk_def)
  have log: "loggable (rack_env id) rack_expects logged_cluster 0 1"
    by (simp add: loggable_def defs linked_def serving_def rack_expects_def)
  have key: "keyToPartition (rack_env id) ''/f'' logged_cluster = (Inr 0, logged_cluster)" "''/f'' \<noteq> next_cv_key ?p"
    by (simp_all add: keyToPartition_def cmd_simps defs cv_key_def)
  have stop: "stops_answering rack_disk rack_expects (drive_address (drives ?p ! 2)) (world logged_cluster) ((world logged_cluster)((''c'', 8123) := None))"
    by (auto simp: stops_answering_def defs rack_expects_def rack_disk_def)
  obtain s' i where r: "Distributed_Put (Suc (Suc (Suc 1))) (rack_env id) ''/f'' '''' REQUIRE_SAME_VERSION ?r (logged_cluster\<lparr>world := (world logged_cluster)((''c'', 8123) := None)\<rparr>)
      = (Inr (fst (kv_put ''/f'' '''' REQUIRE_SAME_VERSION ?r Map.empty)), s')" "i < length (drives (log_partition logged_cluster))"
    "cluster_map s' = (cluster_map logged_cluster)[0 := bump_version (lost 2 (?p\<lparr>logid := Some (int i)\<rparr>))]"
    "\<forall>d \<in> set (drives (lost 2 ?p)). in_use d \<longrightarrow> rack_disk (world s') (drive_address d) ''/f'' = snd (kv_put ''/f'' '''' REQUIRE_SAME_VERSION ?r Map.empty) ''/f''"
    "\<forall>d \<in> set (drives (log_partition logged_cluster)). rack_disk (world s') (drive_address d) = rack_disk (world logged_cluster) (drive_address d)"
    using noticing_write_not_logged [OF failing_rack.failing_drives_axioms sync exp p log key stop] by blast
  have "i = 0" using r(2) by (simp add: defs)
  then have "logid (cluster_map s' ! 0) = Some 0" using r(3) by (simp add: defs)
  moreover have "rack_disk (world s') (''a'', 8123) ''/f'' = Some ?r" using r(4) by (simp add: set_status_def defs kv_put_def version_matches_def)
  moreover have "rack_disk (world s') (''d'', 8123) = Map.empty" using r(5) by (simp add: defs rack_disk_def)
  ultimately show ?thesis using r(1) by (simp add: kv_put_def version_matches_def)
qed

text \<open>
  C32. A healthy drive is taken out. When one drive of a partition does not have a key that the
  others have, as after a write or a delete that another client did not finish, a delete of the
  key is answered with OK, and the drive without the key counts as failed: it is RED in the
  partition that is published, though it answers as before.
\<close>

theorem healthy_drive_taken_out:
  assumes "reliable_drives E disk expects" "survivable disk s k x" "p = cluster_map s ! k" "partitionid p \<noteq> None" "distinct (map drive_address (drives p))"
    "linked p s" "serving expects p (world s)" "replicas disk (lost x p) (world s) m" "disk (world s) (drive_address (drives p ! x)) key = None"
    "keyToPartition E key s = (Inr k, s)" "key \<noteq> next_cv_key p" "fst (kv_delete key v wm m) = OK"
  shows "\<exists>s'. Distributed_Delete (Suc (Suc (Suc n))) E key v wm s = (Inr OK, s') \<and> cluster_map s' = (cluster_map s)[k := bump_version (lost x p)]
     \<and> expects (world s') (drive_address (drives p ! x)) = Some (part_version p)"
  by (rule reliable_drives.delete_disables [OF assms])

definition torn_trio :: "rack cluster" where
  "torn_trio = trio_cluster\<lparr>world := (world trio_cluster)
     ((''a'', 8123) \<mapsto> ([(''/f'', \<lparr>kr_value = ''x'', kr_version = ''v''\<rparr>)], 3), (''b'', 8123) \<mapsto> ([(''/f'', \<lparr>kr_value = ''x'', kr_version = ''v''\<rparr>)], 3))\<rparr>"

theorem healthy_drive_taken_out_witness:
  "\<exists>s'. Distributed_Delete (Suc (Suc (Suc 1))) (rack_env id) ''/f'' ''v'' REQUIRE_SAME_VERSION torn_trio = (Inr OK, s')
     \<and> drive_status (drives (cluster_map s' ! 0) ! 2) = RED \<and> rack_expects (world s') (''c'', 8123) = Some 3"
proof -
  let ?p = "pair_partition 3 [drive_a GREEN, drive_b GREEN, drive_c GREEN]" and ?m = "[''/f'' \<mapsto> \<lparr>kr_value = ''x'', kr_version = ''v''\<rparr>]"
  note defs = torn_trio_def trio_defs
  have p: "?p = cluster_map torn_trio ! 0" "partitionid ?p \<noteq> None" "distinct (map drive_address (drives ?p))" by (simp_all add: defs)
  have surv: "survivable rack_disk torn_trio 0 2"
    by (simp add: survivable_def expendable_def defs attached_def set_status_def count_status_def rack_disk_def cv_key_def)
  have st: "linked ?p torn_trio" "serving rack_expects ?p (world torn_trio)" by (simp_all add: linked_def serving_def defs rack_expects_def)
  have content: "replicas rack_disk (lost 2 ?p) (world torn_trio) ?m" "rack_disk (world torn_trio) (drive_address (drives ?p ! 2)) ''/f'' = None"
    by (simp_all add: replicas_def set_status_def defs rack_disk_def fun_eq_iff)
  have key: "keyToPartition (rack_env id) ''/f'' torn_trio = (Inr 0, torn_trio)" "''/f'' \<noteq> next_cv_key ?p" "fst (kv_delete ''/f'' ''v'' REQUIRE_SAME_VERSION ?m) = OK"
    by (simp_all add: keyToPartition_def cmd_simps defs cv_key_def kv_delete_def version_matches_def)
  obtain s' where "Distributed_Delete (Suc (Suc (Suc 1))) (rack_env id) ''/f'' ''v'' REQUIRE_SAME_VERSION torn_trio = (Inr OK, s')"
    "cluster_map s' = (cluster_map torn_trio)[0 := bump_version (lost 2 ?p)]" "rack_expects (world s') (drive_address (drives ?p ! 2)) = Some (part_version ?p)"
    using healthy_drive_taken_out [OF rack.reliable_drives_axioms surv p st content key] by blast
  then show ?thesis by (intro exI [of _ s']) (simp add: defs)
qed

end
