(* ===== verification/Distributed_Sync.thy ===== *)
theory Distributed_Sync
  imports Distributed_Repair
begin

section \<open>Bringing a drive up to date\<close>

text \<open>
  A drive that returns is YELLOW: it takes part in writes but not in reads. The keys that were
  written while it was away are repaired one after the other, in the order of the log drive or,
  without one, of a complete listing. The loop repairs every key that still exists. A key that
  was deleted while the drive was away is another matter: the loop keeps one record pointer
  for all keys and a request that finds nothing does not clear it.
\<close>

subsection \<open>The connection to the log drive\<close>

definition holds_con :: "nat \<Rightarrow> con_object \<Rightarrow> 'w cluster \<Rightarrow> bool" where
  "holds_con con c s \<longleftrightarrow> con < length (connections s) \<and> connections s ! con = c"

lemma holds_con_request [keeps_intros]: "keeps (holds_con con c) (request i f)" "keeps (holds_con con c) (run_lib h)"
  by (auto simp: keeps_def request_def run_lib_def holds_con_def split: prod.splits)

lemma holds_con_driveToConnection [keeps_intros]: "keeps (holds_con con c) (driveToConnection E p i)"
  unfolding driveToConnection_def
  by (intro keeps_intros) (auto simp: keeps_def holds_con_def nth_append)

lemma keeps_first_green [keeps_intros]: "keeps I (first_green ds i)"
  by (induction ds arbitrary: i) (auto intro!: keeps_intros)

lemma keeps_keyToPartition [keeps_intros]: "keeps I (keyToPartition E key)"
  unfolding keyToPartition_def by (intro keeps_intros)

lemma holds_con_enforce_record [keeps_intros]: "keeps (holds_con con c) (enforce_record E key rec index i con')"
  unfolding enforce_record_def Let_def by (intro keeps_intros)

lemma holds_con_enforce_on [keeps_intros]: "keeps (holds_con con c) (enforce_on E p key rec index is)"
proof (induction "is")
  case (Cons i "is")
  then show ?case unfolding enforce_on.simps deref_def by (intro keeps_intros)
qed (unfold enforce_on.simps, intro keeps_intros)

lemma holds_con_readRepair [keeps_intros]: "keeps (holds_con con c) (readRepair E key rec)"
  unfolding readRepair_def Let_def deref_def by (intro keeps_intros)

subsection \<open>Keys that exist\<close>

text \<open>The key that is repaired for an entry of the list: the log has a prefix.\<close>

definition listed_key :: "Partition \<Rightarrow> string \<Rightarrow> string" where
  "listed_key p e = (if logid p \<noteq> None then drop (length (log_prefix p)) e else e)"

text \<open>The connection the list comes from, when it is a log drive of its own.\<close>

definition log_linked :: "('w \<Rightarrow> address \<Rightarrow> int option) \<Rightarrow> Partition \<Rightarrow> nat \<Rightarrow> 'w cluster \<Rightarrow> bool" where
  "log_linked expects p con s \<longleftrightarrow> logid p = None \<or> (\<exists>a v. holds_con con \<lparr>con_address = a, client_cluster_version = v\<rparr> s
     \<and> expects (world s) a = Some v \<and> a \<notin> drive_address ` set (drives p))"

text \<open>A partition that can be repaired: keys are told apart by their versions.\<close>

definition repairable :: "('w \<Rightarrow> address \<Rightarrow> string \<rightharpoonup> KineticRecord) \<Rightarrow> ('w \<Rightarrow> address \<Rightarrow> int option) \<Rightarrow> nat \<Rightarrow> string set \<Rightarrow> 'w cluster \<Rightarrow> bool" where
  "repairable disk expects k keys s \<longleftrightarrow> (let p = cluster_map s ! k in
     list_ex (has_status GREEN) (drives p) \<and> linked p s \<and> serving expects p (world s)
     \<and> (\<forall>d \<in> set (drives p). in_use d \<longrightarrow> (\<forall>key \<in> keys.
          telling (disk (world s) (drive_address d) key) (disk (world s) (drive_address (reference_drive p)) key))))"

lemma keyToPartition_same: "keyToPartition E key s = (Inr k, s) \<Longrightarrow> same_cluster s s' \<Longrightarrow> keyToPartition E key s' = (Inr k, s')"
  by (auto simp: keyToPartition_def cmd_simps same_cluster_def split: if_splits)

context reliable_drives
begin

lemma delete_from_log:
  assumes "log_linked expects p con s" "logid p \<noteq> None"
  shows "\<exists>st w. request con (lib_Delete (lib E) key u wm) s = (Inr st, s\<lparr>world := w\<rparr>) \<and> expects w = expects (world s)
     \<and> log_linked expects p con (s\<lparr>world := w\<rparr>) \<and> (\<forall>d \<in> set (drives p). disk w (drive_address d) = disk (world s) (drive_address d))"
proof -
  obtain a v where c: "holds_con con \<lparr>con_address = a, client_cluster_version = v\<rparr> s" "expects (world s) a = Some v"
    "a \<notin> drive_address ` set (drives p)" using assms by (auto simp: log_linked_def)
  obtain st w where d: "lib_Delete (lib E) key u wm a v (world s) = (st, w)" "disk w = (disk (world s))(a := snd (kv_delete key u wm (disk (world s) a)))"
    "expects w = expects (world s)" using Delete_served [OF c(2)] by blast
  have "request con (lib_Delete (lib E) key u wm) s = (Inr st, s\<lparr>world := w\<rparr>)"
    using request_apply [of s con a v "lib_Delete (lib E) key u wm"] c(1) d(1) by (simp add: holds_con_def)
  moreover have "log_linked expects p con (s\<lparr>world := w\<rparr>)"
    using c d(3) unfolding log_linked_def holds_con_def by (metis cluster.select_convs(5,11) cluster.surjective cluster.update_convs(11))
  moreover have "disk w (drive_address e) = disk (world s) (drive_address e)" if "e \<in> set (drives p)" for e
    using d(2) c(3) that by auto
  ultimately show ?thesis using d(3) by blast
qed

text \<open>One round of the loop: the record pointer is what the round leaves in it.\<close>

lemma repair_step:
  fixes p :: Partition and s :: "'w cluster"
  defines "m \<equiv> disk (world s) (drive_address (reference_drive p))"
  assumes p: "p = cluster_map s ! k" "list_ex (has_status GREEN) (drives p)" "linked p s" "serving expects p (world s)"
    and log: "log_linked expects p con s" and key: "keyToPartition E (listed_key p e) s = (Inr k, s)"
    and ro: "ro = (case m (listed_key p e) of None \<Rightarrow> rec | Some r \<Rightarrow> Some r)"
    and tell: "\<And>d. d \<in> set (drives p) \<Longrightarrow> in_use d \<Longrightarrow> telling (disk (world s) (drive_address d) (listed_key p e)) ro"
  shows "\<exists>s'. repair_keys E p all con (e # es) rec s = repair_keys E p all con es ro s' \<and> same_cluster s s' \<and> linked p s'
     \<and> log_linked expects p con s' \<and> expects (world s') = expects (world s)
     \<and> (\<forall>d \<in> set (drives p). in_use d \<longrightarrow> disk (world s') (drive_address d) = (disk (world s) (drive_address d))(listed_key p e := ro))"
proof -
  let ?log = "log_prefix p @ drop (length (log_prefix p)) e"
  obtain s1 where s1: "readRepair E (listed_key p e) rec s = (Inr ((OK, 0), ro), s1)" "same_cluster s s1" "linked p s1"
    "expects (world s1) = expects (world s)"
    "\<forall>d \<in> set (drives p). in_use d \<longrightarrow> disk (world s1) (drive_address d) = (disk (world s) (drive_address d))(listed_key p e := ro)"
    using readRepair_result [OF key p ro [unfolded m_def] tell] by blast
  have log1: "log_linked expects p con s1"
    using log s1(1,4) keepsD [OF holds_con_readRepair] unfolding log_linked_def by metis
  show ?thesis
  proof (cases "logid p \<noteq> None \<and> all")
    case True
    with delete_from_log [OF log1, of ?log "''''" IGNORE_VERSION] obtain st w where
      w: "request con (lib_Delete (lib E) ?log '''' IGNORE_VERSION) s1 = (Inr st, s1\<lparr>world := w\<rparr>)"
      "expects w = expects (world s1)" "log_linked expects p con (s1\<lparr>world := w\<rparr>)"
      "\<forall>d \<in> set (drives p). disk w (drive_address d) = disk (world s1) (drive_address d)" by blast
    have "repair_keys E p all con (e # es) rec s = repair_keys E p all con es ro (s1\<lparr>world := w\<rparr>)"
      using True s1(1) w(1) by (simp add: call_def listed_key_def)
    with w s1 show ?thesis by (intro exI [of _ "s1\<lparr>world := w\<rparr>"]) (simp add: same_cluster_def)
  next
    case False
    then have "repair_keys E p all con (e # es) rec s = repair_keys E p all con es ro s1"
      using s1(1) by (auto simp: cmd_simps listed_key_def)
    with s1 log1 show ?thesis by blast
  qed
qed

lemma repair_keys_result:
  assumes "p = cluster_map s ! k" "repairable disk expects k (listed_key p ` set es) s" "log_linked expects p con s"
    "\<And>e. e \<in> set es \<Longrightarrow> keyToPartition E (listed_key p e) s = (Inr k, s)"
    "\<And>e. e \<in> set es \<Longrightarrow> disk (world s) (drive_address (reference_drive p)) (listed_key p e) \<noteq> None"
  shows "\<exists>rec' s'. repair_keys E p all con es rec s = (Inr (True, rec'), s') \<and> same_cluster s s' \<and> linked p s'
     \<and> expects (world s') = expects (world s)
     \<and> (\<forall>d \<in> set (drives p). in_use d \<longrightarrow> (\<forall>key. disk (world s') (drive_address d) key =
          (if key \<in> listed_key p ` set es then disk (world s) (drive_address (reference_drive p)) key else disk (world s) (drive_address d) key)))"
  using assms
proof (induction es arbitrary: s rec)
  case Nil
  then show ?case by (simp add: repairable_def Let_def)
next
  case (Cons e es)
  let ?key = "listed_key p e" and ?m = "disk (world s) (drive_address (reference_drive p))"
  obtain r where r: "?m ?key = Some r" using Cons.prems(5) [of e] by auto
  have p: "list_ex (has_status GREEN) (drives p)" "linked p s" "serving expects p (world s)"
    and tell: "\<And>d key. d \<in> set (drives p) \<Longrightarrow> in_use d \<Longrightarrow> key \<in> listed_key p ` set (e # es) \<Longrightarrow> telling (disk (world s) (drive_address d) key) (?m key)"
    using Cons.prems(1,2) by (auto simp: repairable_def Let_def)
  have ref: "reference_drive p \<in> set (drives p)" "in_use (reference_drive p)" using reference_found [OF p(1), of s] nth_mem by fastforce+
  obtain s1 where s1: "repair_keys E p all con (e # es) rec s = repair_keys E p all con es (Some r) s1" "same_cluster s s1" "linked p s1"
    "log_linked expects p con s1" "expects (world s1) = expects (world s)"
    "\<And>d. d \<in> set (drives p) \<Longrightarrow> in_use d \<Longrightarrow> disk (world s1) (drive_address d) = (disk (world s) (drive_address d))(?key \<mapsto> r)"
    using repair_step [OF Cons.prems(1) p Cons.prems(3) Cons.prems(4) [of e] refl, where rec = rec and all = all and es = es] tell [of _ ?key] r by auto
  have m1: "disk (world s1) (drive_address (reference_drive p)) = ?m" using s1(6) [OF ref] r by auto
  have "telling (disk (world s1) (drive_address d) key) (?m key)" if "d \<in> set (drives p)" "in_use d" "key \<in> listed_key p ` set es" for d key
    using tell [OF that(1,2), of key] that(3) s1(6) [OF that(1,2)] r by (cases "key = ?key") (auto simp: telling_def)
  then have rep: "repairable disk expects k (listed_key p ` set es) s1"
    using p s1(2,3,5) m1 unfolding Cons.prems(1) by (simp add: repairable_def Let_def same_cluster_def serving_def)
  have "p = cluster_map s1 ! k" using Cons.prems(1) s1(2) by (simp add: same_cluster_def)
  from Cons.IH [OF this rep s1(4), of "Some r"] Cons.prems(4,5) m1 keyToPartition_same [OF _ s1(2)]
  obtain rec' s' where IH: "repair_keys E p all con es (Some r) s1 = (Inr (True, rec'), s')" "same_cluster s1 s'" "linked p s'"
    "expects (world s') = expects (world s1)"
    "\<And>d key. d \<in> set (drives p) \<Longrightarrow> in_use d \<Longrightarrow> disk (world s') (drive_address d) key =
          (if key \<in> listed_key p ` set es then ?m key else disk (world s1) (drive_address d) key)"
    by auto
  have "disk (world s') (drive_address d) key = (if key \<in> listed_key p ` set (e # es) then ?m key else disk (world s) (drive_address d) key)"
    if "d \<in> set (drives p)" "in_use d" for d key
    using IH(5) [OF that] s1(6) [OF that] r by auto
  with s1(1,5) IH(1,3,4) same_cluster_trans [OF s1(2) IH(2)] show ?case by auto
qed

end

text \<open>
  A drive that returns is brought up to date: when the list names all keys in which the
  drives of a partition differ, and the keys of the list exist, the loop over the list succeeds
  and all drives of the partition hold what the first GREEN drive holds.
\<close>

theorem returned_drive_catches_up:
  assumes "reliable_drives E disk expects" "p = cluster_map s ! k" "log_linked expects p con s"
    "repairable disk expects k (listed_key p ` set es) s"
    "list_all (\<lambda>e. keyToPartition E (listed_key p e) s = (Inr k, s)) es"
    "list_all (\<lambda>e. disk (world s) (drive_address (reference_drive p)) (listed_key p e) \<noteq> None) es"
    "\<forall>d \<in> set (drives p). in_use d \<longrightarrow> (\<forall>key. key \<in> listed_key p ` set es
        \<or> disk (world s) (drive_address d) key = disk (world s) (drive_address (reference_drive p)) key)"
  shows "\<exists>rec' s'. repair_keys E p all con es rec s = (Inr (True, rec'), s')
     \<and> replicas disk p (world s') (disk (world s) (drive_address (reference_drive p)))"
  using reliable_drives.repair_keys_result [OF assms(1,2,4,3), of all rec] assms(5-7)
  by (fastforce simp: list_all_iff replicas_def)

definition behind_rack :: rack where
  "behind_rack = [(''a'', 8123) \<mapsto> ([(''/f'', \<lparr>kr_value = ''new'', kr_version = ''v2''\<rparr>), (''/g'', \<lparr>kr_value = ''g'', kr_version = ''v1''\<rparr>)], 3),
     (''b'', 8123) \<mapsto> ([(''/f'', \<lparr>kr_value = ''old'', kr_version = ''v1''\<rparr>)], 3)]"

abbreviation behind_cluster :: "rack cluster" where
  "behind_cluster \<equiv> pair_cluster (pair_partition 3 [drive_a GREEN, drive_b YELLOW]) behind_rack"

theorem returned_drive_catches_up_witness:
  "\<exists>rec' s'. repair_keys (rack_env id) (pair_partition 3 [drive_a GREEN, drive_b YELLOW]) True 0 [''/f'', ''/g''] None behind_cluster = (Inr (True, rec'), s')
     \<and> replicas rack_disk (pair_partition 3 [drive_a GREEN, drive_b YELLOW]) (world s')
         (rack_disk (world behind_cluster) (drive_address (reference_drive (pair_partition 3 [drive_a GREEN, drive_b YELLOW]))))"
  by (rule returned_drive_catches_up [OF rack.reliable_drives_axioms, where k = 0])
     (simp_all add: pair_defs log_linked_def repairable_def listed_key_def reference_drive_def serving_def rack_expects_def rack_disk_def
        behind_rack_def telling_def keyToPartition_def cmd_simps linked_def)

subsection \<open>Keys that were deleted\<close>

text \<open>
  C35. A key that was deleted while a drive was away comes back with the contents of another
  key: when the list names a key that exists and then one that the first GREEN drive no longer
  has, the loop reports success and every drive of the partition, the GREEN ones included,
  holds the record of the first key under the second one.
\<close>

theorem deleted_key_comes_back:
  assumes "reliable_drives E disk expects" "p = cluster_map s ! k" "log_linked expects p con s"
    "repairable disk expects k {listed_key p e} s"
    "keyToPartition E (listed_key p e) s = (Inr k, s)" "keyToPartition E (listed_key p e') s = (Inr k, s)" "listed_key p e \<noteq> listed_key p e'"
    "disk (world s) (drive_address (reference_drive p)) (listed_key p e) = Some r"
    "disk (world s) (drive_address (reference_drive p)) (listed_key p e') = None"
    "\<forall>d \<in> set (drives p). in_use d \<longrightarrow> telling (disk (world s) (drive_address d) (listed_key p e')) (Some r)"
  shows "\<exists>s'. repair_keys E p all con [e, e'] rec s = (Inr (True, Some r), s')
     \<and> (\<forall>d \<in> set (drives p). in_use d \<longrightarrow> disk (world s') (drive_address d) (listed_key p e') = Some r)"
proof -
  note step = reliable_drives.repair_step [OF assms(1) _ _ _ _ _ _ refl, where all = all]
  have p: "list_ex (has_status GREEN) (drives p)" "linked p s" "serving expects p (world s)"
    and tell: "\<And>d. d \<in> set (drives p) \<Longrightarrow> in_use d \<Longrightarrow> telling (disk (world s) (drive_address d) (listed_key p e)) (Some r)"
    using assms(2,4,8) by (auto simp: repairable_def Let_def)
  have ref: "reference_drive p \<in> set (drives p)" "in_use (reference_drive p)" using reference_found [OF p(1), of s] nth_mem by fastforce+
  obtain s1 where s1: "repair_keys E p all con [e, e'] rec s = repair_keys E p all con [e'] (Some r) s1" "same_cluster s s1" "linked p s1"
    "log_linked expects p con s1" "expects (world s1) = expects (world s)"
    "\<And>d. d \<in> set (drives p) \<Longrightarrow> in_use d \<Longrightarrow> disk (world s1) (drive_address d) = (disk (world s) (drive_address d))(listed_key p e \<mapsto> r)"
    using step [OF assms(2) p assms(3,5), where rec = rec and es = "[e']"] tell assms(8) by auto
  have p1: "p = cluster_map s1 ! k" "serving expects p (world s1)" using assms(2) p(3) s1(2,5) by (simp_all add: same_cluster_def serving_def)
  have gone: "disk (world s1) (drive_address (reference_drive p)) (listed_key p e') = None" using s1(6) [OF ref] assms(7,9) by simp
  have tell1: "telling (disk (world s1) (drive_address d) (listed_key p e')) (Some r)" if "d \<in> set (drives p)" "in_use d" for d
    using assms(7,10) that s1(6) [OF that] by simp
  obtain s2 where "repair_keys E p all con [e'] (Some r) s1 = repair_keys E p all con [] (Some r) s2"
    "\<forall>d \<in> set (drives p). in_use d \<longrightarrow> disk (world s2) (drive_address d) = (disk (world s1) (drive_address d))(listed_key p e' \<mapsto> r)"
    using step [OF p1(1) p(1) s1(3) p1(2) s1(4) keyToPartition_same [OF assms(6) s1(2)], where rec = "Some r" and es = "[]"] gone tell1 by auto
  with s1(1) show ?thesis by auto
qed

definition gone_rack :: rack where
  "gone_rack = [(''a'', 8123) \<mapsto> ([(''/f'', \<lparr>kr_value = ''f'', kr_version = ''v2''\<rparr>)], 3),
     (''b'', 8123) \<mapsto> ([(''/f'', \<lparr>kr_value = ''f'', kr_version = ''v2''\<rparr>), (''/g'', \<lparr>kr_value = ''g'', kr_version = ''v1''\<rparr>)], 3)]"

abbreviation gone_cluster :: "rack cluster" where
  "gone_cluster \<equiv> pair_cluster (pair_partition 3 [drive_a GREEN, drive_b YELLOW]) gone_rack"

theorem deleted_key_comes_back_witness:
  "\<exists>s'. repair_keys (rack_env id) (pair_partition 3 [drive_a GREEN, drive_b YELLOW]) True 0 [''/f'', ''/g''] None gone_cluster
       = (Inr (True, Some \<lparr>kr_value = ''f'', kr_version = ''v2''\<rparr>), s')
     \<and> rack_disk (world s') (''a'', 8123) ''/g'' = Some \<lparr>kr_value = ''f'', kr_version = ''v2''\<rparr>"
proof -
  let ?p = "pair_partition 3 [drive_a GREEN, drive_b YELLOW]" and ?r = "\<lparr>kr_value = ''f'', kr_version = ''v2''\<rparr>"
  have "\<exists>s'. repair_keys (rack_env id) ?p True 0 [''/f'', ''/g''] None gone_cluster = (Inr (True, Some ?r), s')
     \<and> (\<forall>d \<in> set (drives ?p). in_use d \<longrightarrow> rack_disk (world s') (drive_address d) (listed_key ?p ''/g'') = Some ?r)"
    by (rule deleted_key_comes_back [OF rack.reliable_drives_axioms, where k = 0])
       (simp_all add: pair_defs log_linked_def repairable_def listed_key_def reference_drive_def serving_def rack_expects_def rack_disk_def
          gone_rack_def telling_def keyToPartition_def cmd_simps linked_def)
  then show ?thesis by (auto simp: pair_defs listed_key_def simp del: repair_keys.simps)
qed

end
