(* ===== verification/Distributed_Return.thy ===== *)
theory Distributed_Return
  imports Distributed_Loss Distributed_Sync
begin

section \<open>The return of a drive\<close>

text \<open>
  The whole of \<^verbatim>\<open>synchronizeDrive\<close>: the keys the log names are repaired, the drive turns
  GREEN and the partition is published under the next cluster version.
\<close>

subsection \<open>Connections are kept\<close>

lemma attached_run_lib [keeps_intros]: "keeps (attached v a) (request i f)" "keeps (attached v a) (run_lib h)"
  by (auto simp: keeps_def request_def run_lib_def split: prod.splits)

lemma attached_enforce_record [keeps_intros]: "keeps (attached v a) (enforce_record E key rec index i con)"
  unfolding enforce_record_def Let_def by (intro keeps_intros)

lemma attached_enforce_on [keeps_intros]: "keeps (attached v a) (enforce_on E p key rec index is)"
proof (induction "is")
  case (Cons i "is")
  then show ?case unfolding enforce_on.simps deref_def by (intro keeps_intros keeps_attached_driveToConnection)
qed (unfold enforce_on.simps, intro keeps_intros)

lemma attached_readRepair [keeps_intros]: "keeps (attached v a) (readRepair E key rec)"
  unfolding readRepair_def Let_def deref_def by (intro keeps_intros keeps_attached_driveToConnection)

lemma attached_repair_keys [keeps_intros]: "keeps (attached v a) (repair_keys E p all con ks rec)"
proof (induction ks arbitrary: rec)
  case (Cons k ks)
  show ?case unfolding repair_keys.simps by (intro keeps_intros Cons)
qed (unfold repair_keys.simps, intro keeps_intros)

subsection \<open>Synchronizing from the log\<close>

text \<open>The partition when drive \<open>x\<close> is up to date: the log has served its purpose when all drives are.\<close>

definition recovered :: "nat \<Rightarrow> Partition \<Rightarrow> Partition" where
  "recovered x p = (let p = bump_version (set_status x GREEN p) in
     if logid p \<noteq> None \<and> list_all (has_status GREEN) (drives p) then p\<lparr>logid := None\<rparr> else p)"

lemma recovered_simps [simp]:
  "drives (recovered x p) = drives (set_status x GREEN p)" "cluster_version (recovered x p) = cluster_version p + 1"
  "partitionid (recovered x p) = partitionid p"
  by (simp_all add: recovered_def Let_def)

lemma recovered_in_use: "x < length (drives p) \<Longrightarrow> in_use (drives p ! x) \<Longrightarrow> in_use (drives (set_status x GREEN p) ! i) = in_use (drives p ! i)"
  by (cases "i = x") simp_all

text \<open>
  The log drive that is used for partition \<open>k\<close>, and the keys \<open>es\<close> it names for it. The list
  fits into one request.
\<close>

definition log_names :: "'w cluster_env \<Rightarrow> ('w \<Rightarrow> address \<Rightarrow> int option) \<Rightarrow> nat \<Rightarrow> string list \<Rightarrow> 'w cluster \<Rightarrow> bool" where
  "log_names E expects k es s \<longleftrightarrow> (let p = cluster_map s ! k; lp = log_partition s in
     (case logid p of None \<Rightarrow> False | Some l \<Rightarrow> 0 \<le> l \<and> nat l < length (drives lp) \<and> in_use (drives lp ! nat l) \<and> (let a = drive_address (drives lp ! nat l) in
        \<exists>e. lib_GetKeyRange (lib E) (log_prefix p @ '' '') True (log_prefix p @ ''|'') True False 100 a (part_version lp) (world s) = (((OK, e), Some es), world s)))
     \<and> linked lp s \<and> serving expects lp (world s) \<and> drive_address ` set (drives p) \<inter> drive_address ` set (drives lp) = {} \<and> length es < 100)"

context reliable_drives
begin

lemma driveToConnection_object:
  assumes "linked p s" "serving expects p (world s)" "i < length (drives p)" "in_use (drives p ! i)" "driveToConnection E p (int i) s = (Inr (Some c), s1)"
  shows "c < length (connections s1)"
  using assms by (auto simp: driveToConnection_def cmd_simps call_Inr linked_def serving_def run_lib_def connect split: option.splits if_splits prod.splits)

text \<open>The loop over the log, when the list fits into one request.\<close>

lemma synchronize_loop_result:
  assumes "p = cluster_map s ! k" "repairable disk expects k (listed_key p ` set es) s" "log_linked expects p con s"
    "\<And>e. e \<in> set es \<Longrightarrow> keyToPartition E (listed_key p e) s = (Inr k, s)"
    "\<And>e. e \<in> set es \<Longrightarrow> disk (world s) (drive_address (reference_drive p)) (listed_key p e) \<noteq> None"
    and range: "request con (lib_GetKeyRange (lib E) a True b True False 100) s = (Inr ((OK, e), Some es), s)" "length es < 100"
  shows "\<exists>s'. synchronize_loop (Suc n) E p all con a b rec s = (Inr True, s') \<and> same_cluster s s' \<and> linked p s' \<and> expects (world s') = expects (world s)
     \<and> (\<forall>v a. attached v a s \<longrightarrow> attached v a s')
     \<and> (\<forall>d \<in> set (drives p). in_use d \<longrightarrow> (\<forall>key. disk (world s') (drive_address d) key =
          (if key \<in> listed_key p ` set es then disk (world s) (drive_address (reference_drive p)) key else disk (world s) (drive_address d) key)))"
proof -
  obtain rec' s' where r: "repair_keys E p all con es rec s = (Inr (True, rec'), s')" "same_cluster s s'" "linked p s'" "expects (world s') = expects (world s)"
    "\<forall>d \<in> set (drives p). in_use d \<longrightarrow> (\<forall>key. disk (world s') (drive_address d) key =
          (if key \<in> listed_key p ` set es then disk (world s) (drive_address (reference_drive p)) key else disk (world s) (drive_address d) key))"
    using repair_keys_result [OF assms(1-5)] by blast
  have "synchronize_loop (Suc n) E p all con a b rec s = (Inr True, s')"
    using range r(1) by (simp add: cmd_simps call_def del: repair_keys.simps)
  with r(2-5) keepsD [OF attached_repair_keys _ r(1)] show ?thesis by blast
qed

lemma synchronize_result:
  assumes p: "k < length (cluster_map s)" "p = cluster_map s ! k" "partitionid p \<noteq> None" "distinct (map drive_address (drives p))"
      "x < length (drives p)" "has_status YELLOW (drives p ! x)"
    and log: "log_names E expects k es s" "repairable disk expects k (listed_key p ` set es) s"
      "\<And>e. e \<in> set es \<Longrightarrow> keyToPartition E (listed_key p e) s = (Inr k, s)"
      "\<And>e. e \<in> set es \<Longrightarrow> disk (world s) (drive_address (reference_drive p)) (listed_key p e) \<noteq> None"
    and pub: "\<And>d. d \<in> set (drives p) \<Longrightarrow> in_use d \<Longrightarrow> attached (part_version p) (drive_address d) s"
      "\<And>d. d \<in> set (drives p) \<Longrightarrow> in_use d \<Longrightarrow> disk (world s) (drive_address d) (cv_key (uint (cluster_version p + 1))) = None"
  shows "\<exists>s'. synchronizeDrive (Suc n) E (ClusterPart k) x s = (Inr True, s') \<and> cluster_map s' = (cluster_map s)[k := recovered x p]
     \<and> linked (recovered x p) s' \<and> serving expects (recovered x p) (world s')
     \<and> (\<forall>d \<in> set (drives (recovered x p)). in_use d \<longrightarrow> disk (world s') (drive_address d) =
          (\<lambda>key. if key \<in> listed_key p ` set es then disk (world s) (drive_address (reference_drive p)) key else disk (world s) (drive_address d) key)
          (cv_key (uint (cluster_version p + 1)) \<mapsto> \<lparr>kr_value = part_SerializeAsString E (recovered x p), kr_version = ''yes''\<rparr>))"
proof -
  let ?ref = "disk (world s) (drive_address (reference_drive p))" and ?all = "list_all (\<lambda>d. \<not> has_status RED d) (drives p)" and ?q = "recovered x p"
  let ?new = "\<lambda>a key. if key \<in> listed_key p ` set es then ?ref key else disk (world s) a key" and ?cv = "cv_key (uint (cluster_version p + 1))"
  have ref: "reference_drive p \<in> set (drives p)" "in_use (reference_drive p)"
    using log(2) p(2) reference_found [of p s] nth_mem by (fastforce simp: repairable_def Let_def)+
  have none: "?new (drive_address d) ?cv = None" if "d \<in> set (drives p)" "in_use d" for d using pub(2) [OF that] pub(2) [OF ref] by simp
  obtain i e where i: "logid p = Some (int i)" "i < length (drives (log_partition s))" "in_use (drives (log_partition s) ! i)"
    "linked (log_partition s) s" "serving expects (log_partition s) (world s)" "drive_address ` set (drives p) \<inter> drive_address ` set (drives (log_partition s)) = {}"
    "length es < 100" and range: "lib_GetKeyRange (lib E) (log_prefix p @ '' '') True (log_prefix p @ ''|'') True False 100 (drive_address (drives (log_partition s) ! i))
       (part_version (log_partition s)) (world s) = (((OK, e), Some es), world s)"
  proof -
    obtain l where l: "logid p = Some l" "0 \<le> l" using log(1) p(2) by (auto simp: log_names_def Let_def split: option.splits)
    then have "logid p = Some (int (nat l))" by simp
    with that [of "nat l"] l log(1) p(2) show ?thesis by (auto simp: log_names_def Let_def)
  qed
  have lp: "linked p s" "serving expects p (world s)" using log(2) p(2) by (simp_all add: repairable_def Let_def)
  obtain c s1 where s1: "driveToConnection E (log_partition s) (int i) s = (Inr (Some c), s1)" "same_cluster s s1" "world s1 = world s"
    "connections s1 ! c = \<lparr>con_address = drive_address (drives (log_partition s) ! i), client_cluster_version = part_version (log_partition s)\<rparr>" "linked p s1"
    using driveToConnection_linked [OF i(4,5,2,3)] lp by blast
  have log1: "log_linked expects p c s1"
  proof -
    have "drive_address (drives (log_partition s) ! i) \<notin> drive_address ` set (drives p)" using i(2,6) nth_mem by blast
    moreover have "expects (world s1) (drive_address (drives (log_partition s) ! i)) = Some (part_version (log_partition s))"
      using i(2,3,5) s1(3) by (simp add: serving_def)
    ultimately show ?thesis using s1(4) driveToConnection_object [OF i(4,5,2,3) s1(1)] unfolding log_linked_def holds_con_def by blast
  qed
  have rep1: "repairable disk expects k (listed_key p ` set es) s1" using log(2) s1(2,3,5) p(2) by (simp add: repairable_def Let_def same_cluster_def)
  have range1: "request c (lib_GetKeyRange (lib E) (log_prefix p @ '' '') True (log_prefix p @ ''|'') True False 100) s1 = (Inr ((OK, e), Some es), s1)"
    using request_apply [OF s1(4), of "lib_GetKeyRange (lib E) (log_prefix p @ '' '') True (log_prefix p @ ''|'') True False 100"] range [folded s1(3)]
    by simp
  have p1: "p = cluster_map s1 ! k" using p(2) s1(2) by (simp add: same_cluster_def)
  obtain s2 where s2: "synchronize_loop (Suc n) E p ?all c (log_prefix p @ '' '') (log_prefix p @ ''|'') None s1 = (Inr True, s2)" "same_cluster s1 s2" "linked p s2"
    "expects (world s2) = expects (world s)" "\<And>v a. attached v a s1 \<Longrightarrow> attached v a s2"
    "\<And>d key. d \<in> set (drives p) \<Longrightarrow> in_use d \<Longrightarrow> disk (world s2) (drive_address d) key = (if key \<in> listed_key p ` set es then ?ref key else disk (world s) (drive_address d) key)"
    using synchronize_loop_result [OF p1 rep1 log1 _ _ range1 i(7), where n = n and all = ?all and rec = None] log(3,4) keyToPartition_same [OF _ s1(2)] s1(3) by auto
  have up: "attached (part_version p) (drive_address d) s2" "expects (world s2) (drive_address d) = Some (part_version p)" "disk (world s2) (drive_address d) = ?new (drive_address d)"
    if "d \<in> set (drives p)" "in_use d" for d
  proof -
    show "attached (part_version p) (drive_address d) s2" using s2(5) keepsD [OF keeps_attached_driveToConnection pub(1) [OF that] s1(1)] by blast
    show "expects (world s2) (drive_address d) = Some (part_version p)" using s2(4) lp(2) that by (simp add: serving_def)
    show "disk (world s2) (drive_address d) = ?new (drive_address d)" using s2(6) [OF that] by (intro ext) simp
  qed
  let ?s3 = "set_part_of (ClusterPart k) ?q s2" and ?is = "[0 ..< length (drives ?q)]"
  have same: "same_cluster s s2" using same_cluster_trans [OF s1(2) s2(2)] .
  have part: "part_of (ClusterPart k) s2 = p" using p(2) same by (simp add: part_of_def same_cluster_def)
  have s3: "part_of (ClusterPart k) ?s3 = ?q" "world ?s3 = world s2" "cluster_map ?s3 = (cluster_map s)[k := ?q]"
    using p(1) same by (simp_all add: part_of_def set_part_of_def same_cluster_def)
  have use: "drives p ! j \<in> set (drives p)" "in_use (drives p ! j)" if "j < length (drives p)" "in_use (drives ?q ! j)" for j
    using that recovered_in_use [of x p j] p(5,6) by simp_all
  have pre: "\<forall>j \<in> set ?is. j < length (drives ?q) \<and> (in_use (drives ?q ! j) \<longrightarrow> attached (part_version p) (drive_address (drives ?q ! j)) ?s3
      \<and> expects (world ?s3) (drive_address (drives ?q ! j)) = Some (part_version p)
      \<and> disk (world ?s3) (drive_address (drives ?q ! j)) (cv_key (uint (cluster_version ?q))) = None)"
    using up use none s3(2) by simp
  have dist: "distinct (map drive_address (drives ?q))" using p(4) by simp
  obtain s4 where s4: "put_update_to E ?q ?is ?s3 = (Inr True, s4)" "same_cluster ?s3 s4"
    "\<forall>j \<in> set ?is. in_use (drives ?q ! j) \<longrightarrow> attached (part_version ?q) (drive_address (drives ?q ! j)) s4"
    "disk (world s4) = (\<lambda>a. if a \<in> reached ?q ?is
       then (disk (world s2) a)(cv_key (uint (cluster_version ?q)) \<mapsto> \<lparr>kr_value = part_SerializeAsString E ?q, kr_version = ''yes''\<rparr>) else disk (world s2) a)"
    "expects (world s4) = (\<lambda>a. if a \<in> reached ?q ?is then Some (part_version ?q) else expects (world s2) a)"
    using publish [OF pre distinct_upt dist, unfolded s3(2)] by blast
  have "synchronizeDrive (Suc n) E (ClusterPart k) x s = (Inr True, s4)"
    using p(1,2,3,5,6) i(1) s1(1) s2(1) part s3(1) s4(1)
    unfolding synchronizeDrive_def recovered_def [symmetric]
    by (auto simp: cmd_simps call_def Let_def part_of_def set_part_def putPartitionUpdate_def simp del: synchronize_loop.simps)
  moreover have "cluster_map s4 = (cluster_map s)[k := ?q]" using s3(3) s4(2) by (simp add: same_cluster_def)
  moreover have "linked ?q s4" by (rule linked_attached) (use s4(3) in simp)
  moreover have "drive_address d \<in> reached ?q ?is \<and> disk (world s2) (drive_address d) = ?new (drive_address d)" if d: "d \<in> set (drives ?q)" "in_use d" for d
  proof -
    obtain j where j: "j < length (drives p)" "d = drives ?q ! j" using d(1) unfolding in_set_conv_nth by auto
    then have "drive_address d = drive_address (drives p ! j)" by simp
    with j have "disk (world s2) (drive_address d) = ?new (drive_address d)" using up(3) [OF use [OF j(1)]] d(2) by metis
    then show ?thesis using j d(2) by (auto simp: reached_def)
  qed
  then have "serving expects ?q (world s4)" "\<forall>d \<in> set (drives ?q). in_use d \<longrightarrow> disk (world s4) (drive_address d) = (?new (drive_address d))
      (?cv \<mapsto> \<lparr>kr_value = part_SerializeAsString E ?q, kr_version = ''yes''\<rparr>)"
    unfolding serving_def s4(4,5) by simp_all
  ultimately show ?thesis by blast
qed

end

text \<open>
  C19. A drive that returns is brought up to date, provided that the log can be trusted: it names
  every key in which the drives of the partition differ, these are fewer than 100 keys, and none of
  them has been deleted in the meantime. Then \<^verbatim>\<open>synchronizeDrive\<close> succeeds. The drive is GREEN,
  the log is given up when no other drive is behind, all drives that are not RED expect the next
  cluster version, and they hold what the first GREEN drive held and the record of the partition
  under its new version.
\<close>

theorem drive_synchronized:
  assumes "reliable_drives E disk expects" "k < length (cluster_map s)" "p = cluster_map s ! k" "partitionid p \<noteq> None" "distinct (map drive_address (drives p))"
    "x < length (drives p)" "has_status YELLOW (drives p ! x)" "log_names E expects k es s" "repairable disk expects k (listed_key p ` set es) s"
    "\<And>e. e \<in> set es \<Longrightarrow> keyToPartition E (listed_key p e) s = (Inr k, s)"
    "\<And>e. e \<in> set es \<Longrightarrow> disk (world s) (drive_address (reference_drive p)) (listed_key p e) \<noteq> None"
    "\<And>d key. d \<in> set (drives p) \<Longrightarrow> in_use d \<Longrightarrow> key \<notin> listed_key p ` set es \<Longrightarrow>
        disk (world s) (drive_address d) key = disk (world s) (drive_address (reference_drive p)) key"
    "\<And>d. d \<in> set (drives p) \<Longrightarrow> in_use d \<Longrightarrow> attached (part_version p) (drive_address d) s"
    "disk (world s) (drive_address (reference_drive p)) (cv_key (uint (cluster_version p + 1))) = None"
  shows "\<exists>s'. synchronizeDrive (Suc n) E (ClusterPart k) x s = (Inr True, s') \<and> cluster_map s' = (cluster_map s)[k := recovered x p]
     \<and> linked (recovered x p) s' \<and> serving expects (recovered x p) (world s')
     \<and> replicas disk (recovered x p) (world s') ((disk (world s) (drive_address (reference_drive p)))
          (cv_key (uint (cluster_version p + 1)) \<mapsto> \<lparr>kr_value = part_SerializeAsString E (recovered x p), kr_version = ''yes''\<rparr>))"
proof -
  let ?ref = "disk (world s) (drive_address (reference_drive p))" and ?cv = "cv_key (uint (cluster_version p + 1))" and ?q = "recovered x p"
  have new: "?cv \<notin> listed_key p ` set es" using assms(11,14) by (metis imageE)
  then have none: "disk (world s) (drive_address d) ?cv = None" if "d \<in> set (drives p)" "in_use d" for d using assms(12) [OF that] assms(14) by simp
  obtain s' where s': "synchronizeDrive (Suc n) E (ClusterPart k) x s = (Inr True, s')" "cluster_map s' = (cluster_map s)[k := ?q]" "linked ?q s'"
    "serving expects ?q (world s')" "\<And>d. d \<in> set (drives ?q) \<Longrightarrow> in_use d \<Longrightarrow> disk (world s') (drive_address d) =
       (\<lambda>key. if key \<in> listed_key p ` set es then ?ref key else disk (world s) (drive_address d) key)
       (?cv \<mapsto> \<lparr>kr_value = part_SerializeAsString E ?q, kr_version = ''yes''\<rparr>)"
    using reliable_drives.synchronize_result [OF assms(1-11) assms(13) none] by blast
  have "(\<lambda>key. if key \<in> listed_key p ` set es then ?ref key else disk (world s) (drive_address d) key) = ?ref" if d: "d \<in> set (drives ?q)" "in_use d" for d
  proof -
    obtain j where j: "j < length (drives p)" "d = drives (set_status x GREEN p) ! j" using d(1) by (auto simp: in_set_conv_nth)
    then have "in_use (drives p ! j)" "drive_address d = drive_address (drives p ! j)" using recovered_in_use [of x p j] assms(6,7) d(2) by simp_all
    with assms(12) [of "drives p ! j"] j(1) show ?thesis by (intro ext) simp
  qed
  with s' show ?thesis by (auto simp: replicas_def)
qed

text \<open>Drive \<open>b\<close> has returned; the log on drive \<open>c\<close> names the file that was written in the meantime.\<close>

definition returned_partition :: Partition where
  "returned_partition = \<lparr>cluster_version = 3, partitionid = Some 0, drives = [drive_a GREEN, drive_b YELLOW], logid = Some 0\<rparr>"

definition returned_cluster :: "rack cluster" where
  "returned_cluster = (pair_cluster returned_partition
       [(''a'', 8123) \<mapsto> ([(''/f'', \<lparr>kr_value = ''new'', kr_version = ''v2''\<rparr>)], 3), (''b'', 8123) \<mapsto> ([(''/f'', \<lparr>kr_value = ''old'', kr_version = ''v1''\<rparr>)], 3),
        (''c'', 8123) \<mapsto> ([(''0log_/f'', \<lparr>kr_value = '''', kr_version = ''''\<rparr>)], 0)])
     \<lparr>log_partition := \<lparr>cluster_version = 0, partitionid = None, drives = [drive_c GREEN], logid = None\<rparr>,
      connections := [\<lparr>con_address = (''a'', 8123), client_cluster_version = 3\<rparr>, \<lparr>con_address = (''b'', 8123), client_cluster_version = 3\<rparr>],
      connection_map := [(''a'', 8123) \<mapsto> 0, (''b'', 8123) \<mapsto> 1]\<rparr>"

lemmas returned_defs = returned_cluster_def returned_partition_def drive_c_def pair_defs

lemma returned_log:
  assumes "w (''c'', 8123) = Some ([(''0log_/f'', \<lparr>kr_value = '''', kr_version = ''''\<rparr>)], 0)"
  shows "log_names (rack_env id) rack_expects 0 [''0log_/f''] (returned_cluster\<lparr>world := w\<rparr>)"
proof -
  have prefix: "log_prefix returned_partition = ''0log_''" by code_simp
  have "take 100 (filter (\<lambda>k. key_less (''0log_'' @ '' '') k \<and> key_less k (''0log_'' @ ''|'')) (key_sort [''0log_/f''])) = [''0log_/f'']" by code_simp
  then have range: "lib_GetKeyRange rack_library (''0log_'' @ '' '') True (''0log_'' @ ''|'') True False 100 (''c'', 8123) 0 w = (((OK, 0), Some [''0log_/f'']), w)"
    using assms by (simp add: rack_library_def served_def with_version'_def drive_connection_def fun_upd_idem)
  show ?thesis using prefix range assms by (simp add: log_names_def returned_defs linked_def serving_def rack_expects_def)
qed

theorem drive_synchronized_witness:
  "\<exists>s'. synchronizeDrive (Suc 0) (rack_env id) (ClusterPart 0) 1 returned_cluster = (Inr True, s') \<and> cluster_map s' = [pair_partition 4 [drive_a GREEN, drive_b GREEN]]
     \<and> rack_disk (world s') (''b'', 8123) ''/f'' = Some \<lparr>kr_value = ''new'', kr_version = ''v2''\<rparr>"
proof -
  let ?p = returned_partition and ?r = "\<lparr>kr_value = ''new'', kr_version = ''v2''\<rparr>"
  note defs = returned_defs rack_disk_def rack_expects_def
  have prefix: "log_prefix ?p = ''0log_''" by code_simp
  have key: "listed_key ?p ''0log_/f'' = ''/f''" by (simp add: listed_key_def prefix) (simp add: returned_partition_def)
  have ref: "reference_drive ?p = drive_a GREEN" by (simp add: reference_drive_def defs)
  have cv: "cv_key (uint (cluster_version ?p + 1)) \<noteq> ''/f''" by (simp add: cv_key_def)
  obtain s' where s': "synchronizeDrive (Suc 0) (rack_env id) (ClusterPart 0) 1 returned_cluster = (Inr True, s')"
    "cluster_map s' = (cluster_map returned_cluster)[0 := recovered 1 ?p]"
    "replicas rack_disk (recovered 1 ?p) (world s') ((rack_disk (world returned_cluster) (drive_address (reference_drive ?p)))
          (cv_key (uint (cluster_version ?p + 1)) \<mapsto> \<lparr>kr_value = part_SerializeAsString (rack_env id) (recovered 1 ?p), kr_version = ''yes''\<rparr>))"
  proof -
    have "?p = cluster_map returned_cluster ! 0" "0 < length (cluster_map returned_cluster)" "partitionid ?p \<noteq> None"
      "distinct (map drive_address (drives ?p))" "1 < length (drives ?p)" "has_status YELLOW (drives ?p ! 1)" by (simp_all add: defs)
    note p = this
    have log: "log_names (rack_env id) rack_expects 0 [''0log_/f''] returned_cluster"
      using returned_log [of "world returned_cluster"] by (simp add: returned_defs)
    have rep: "repairable rack_disk rack_expects 0 (listed_key ?p ` set [''0log_/f'']) returned_cluster"
      using ref by (simp add: key) (simp add: repairable_def defs linked_def serving_def telling_def)
    show thesis
      by (rule exE [OF drive_synchronized [OF rack.reliable_drives_axioms p(2,1,3-6) log rep, where n = 0]])
         (use key ref cv that in \<open>auto simp: defs keyToPartition_def cmd_simps attached_def split: if_splits\<close>)
  qed
  show ?thesis
    using s' ref cv by (intro exI [of _ s']) (simp add: replicas_def recovered_def set_status_def defs)
qed

subsection \<open>Keys the log does not name\<close>

text \<open>
  C30. A key that the log does not name stays out of date: when the drive that returns holds
  something else for the key than the first GREEN drive, \<^verbatim>\<open>synchronizeDrive\<close> succeeds all the
  same, the drive is GREEN and takes part in reads again, and the two drives still differ. The
  write that noticed the loss of the drive has left such a key.
\<close>

theorem stale_drive_turns_green:
  assumes "reliable_drives E disk expects" "k < length (cluster_map s)" "p = cluster_map s ! k" "partitionid p \<noteq> None" "distinct (map drive_address (drives p))"
    "x < length (drives p)" "has_status YELLOW (drives p ! x)" "log_names E expects k es s" "repairable disk expects k (listed_key p ` set es) s"
    "\<And>e. e \<in> set es \<Longrightarrow> keyToPartition E (listed_key p e) s = (Inr k, s)"
    "\<And>e. e \<in> set es \<Longrightarrow> disk (world s) (drive_address (reference_drive p)) (listed_key p e) \<noteq> None"
    "\<And>d. d \<in> set (drives p) \<Longrightarrow> in_use d \<Longrightarrow> attached (part_version p) (drive_address d) s"
    "\<And>d. d \<in> set (drives p) \<Longrightarrow> in_use d \<Longrightarrow> disk (world s) (drive_address d) (cv_key (uint (cluster_version p + 1))) = None"
    "key \<notin> listed_key p ` set es" "key \<noteq> cv_key (uint (cluster_version p + 1))"
    "disk (world s) (drive_address (drives p ! x)) key \<noteq> disk (world s) (drive_address (reference_drive p)) key"
  shows "\<exists>s'. synchronizeDrive (Suc n) E (ClusterPart k) x s = (Inr True, s') \<and> has_status GREEN (drives (cluster_map s' ! k) ! x)
     \<and> disk (world s') (drive_address (drives p ! x)) key = disk (world s) (drive_address (drives p ! x)) key
     \<and> disk (world s') (drive_address (reference_drive p)) key = disk (world s) (drive_address (reference_drive p)) key"
proof -
  let ?q = "recovered x p"
  obtain s' where s': "synchronizeDrive (Suc n) E (ClusterPart k) x s = (Inr True, s')" "cluster_map s' = (cluster_map s)[k := ?q]"
    "\<And>d. d \<in> set (drives ?q) \<Longrightarrow> in_use d \<Longrightarrow> disk (world s') (drive_address d) =
       (\<lambda>key. if key \<in> listed_key p ` set es then disk (world s) (drive_address (reference_drive p)) key else disk (world s) (drive_address d) key)
       (cv_key (uint (cluster_version p + 1)) \<mapsto> \<lparr>kr_value = part_SerializeAsString E ?q, kr_version = ''yes''\<rparr>)"
    using reliable_drives.synchronize_result [OF assms(1-13)] by blast
  have same: "disk (world s') (drive_address (drives p ! j)) key = disk (world s) (drive_address (drives p ! j)) key"
    if "j < length (drives p)" "in_use (drives p ! j)" for j
  proof -
    have "drives ?q ! j \<in> set (drives ?q)" "in_use (drives ?q ! j)" using that recovered_in_use [of x p j] assms(6,7) by simp_all
    from s'(3) [OF this] assms(14,15) show ?thesis by simp
  qed
  have "list_ex (has_status GREEN) (drives p)" using assms(3,9) by (simp add: repairable_def Let_def)
  from reference_found [OF this, of s] obtain g where "g < length (drives p)" "in_use (drives p ! g)" "drives p ! g = reference_drive p" by auto
  with same have "disk (world s') (drive_address (reference_drive p)) key = disk (world s) (drive_address (reference_drive p)) key" by metis
  moreover have "has_status GREEN (drives (cluster_map s' ! k) ! x)" using s'(2) assms(2,6) by simp
  ultimately show ?thesis using s'(1) same [OF assms(6)] assms(7) by simp
qed

text \<open>In the example the returned drive also lacks a file that the log does not name.\<close>

definition stale_cluster :: "rack cluster" where
  "stale_cluster = returned_cluster\<lparr>world := (world returned_cluster)((''a'', 8123) \<mapsto>
     ([(''/f'', \<lparr>kr_value = ''new'', kr_version = ''v2''\<rparr>), (''/g'', \<lparr>kr_value = ''g'', kr_version = ''v''\<rparr>)], 3))\<rparr>"

theorem stale_drive_turns_green_witness:
  "\<exists>s'. synchronizeDrive (Suc 0) (rack_env id) (ClusterPart 0) 1 stale_cluster = (Inr True, s') \<and> has_status GREEN (drives (cluster_map s' ! 0) ! 1)
     \<and> rack_disk (world s') (''b'', 8123) ''/g'' = None \<and> rack_disk (world s') (''a'', 8123) ''/g'' = Some \<lparr>kr_value = ''g'', kr_version = ''v''\<rparr>"
proof -
  let ?p = returned_partition
  note defs = stale_cluster_def returned_defs rack_disk_def rack_expects_def
  have prefix: "log_prefix ?p = ''0log_''" by code_simp
  have key: "listed_key ?p ''0log_/f'' = ''/f''" by (simp add: listed_key_def prefix) (simp add: returned_partition_def)
  have ref: "reference_drive ?p = drive_a GREEN" by (simp add: reference_drive_def defs)
  have p: "0 < length (cluster_map stale_cluster)" "?p = cluster_map stale_cluster ! 0" "partitionid ?p \<noteq> None"
    "distinct (map drive_address (drives ?p))" "1 < length (drives ?p)" "has_status YELLOW (drives ?p ! 1)" by (simp_all add: defs)
  have log: "log_names (rack_env id) rack_expects 0 [''0log_/f''] stale_cluster"
    unfolding stale_cluster_def by (rule returned_log) (simp add: returned_defs)
  have rep: "repairable rack_disk rack_expects 0 (listed_key ?p ` set [''0log_/f'']) stale_cluster"
    using ref by (simp add: key) (simp add: repairable_def defs linked_def serving_def telling_def)
  have cv: "cv_key (uint (cluster_version ?p + 1)) \<noteq> ''/f''" "cv_key (uint (cluster_version ?p + 1)) \<noteq> ''/g''" by (simp_all add: cv_key_def)
  have "\<exists>s'. synchronizeDrive (Suc 0) (rack_env id) (ClusterPart 0) 1 stale_cluster = (Inr True, s') \<and> has_status GREEN (drives (cluster_map s' ! 0) ! 1)
     \<and> rack_disk (world s') (drive_address (drives ?p ! 1)) ''/g'' = rack_disk (world stale_cluster) (drive_address (drives ?p ! 1)) ''/g''
     \<and> rack_disk (world s') (drive_address (reference_drive ?p)) ''/g'' = rack_disk (world stale_cluster) (drive_address (reference_drive ?p)) ''/g''"
    by (rule stale_drive_turns_green [OF rack.reliable_drives_axioms p log rep])
       (use key ref cv in \<open>auto simp: defs keyToPartition_def cmd_simps attached_def split: if_splits\<close>)
  then show ?thesis using ref by (simp add: defs)
qed

end
