(* ===== verification/Distributed_Capacity.thy ===== *)
theory Distributed_Capacity
  imports Distributed_Trace
begin

section \<open>The estimate of the used capacity\<close>

text \<open>
  The client asks the drives for their capacity when it mounts and keeps an estimate from then
  on, in single precision: every key that is created adds the part of the capacity that one
  megabyte takes.
\<close>

lemma Put_estimate:
  assumes "writeOperation n E key (\<lambda>con. request con (lib_Put (lib E) key v wm r)) s = (Inr (c, e), s')" "c \<noteq> REMOTE_OTHER_ERROR"
    "f_add (portion_full (capacity_estimate s')) (capacity_chunksize s') = portion_full (capacity_estimate s')"
  shows "Distributed_Put n E key v wm r s = (Inr c, s')"
proof -
  have "change_estimate f_add s' = (Inr (), s')" using assms(3) by (simp add: change_estimate_def)
  with assms(1,2) show ?thesis by (auto simp: Distributed_Put_def call_def)
qed

context reliable_drives
begin

lemma create_keeps_estimate:
  assumes h: "holds E disk expects s m"
    and f: "f_add (portion_full (capacity_estimate s)) (capacity_chunksize s) = portion_full (capacity_estimate s)"
  shows "\<exists>s'. cluster_step (Suc (Suc n)) E (Op_Put key v wm r) s = (Inr (Ans_Status (fst (kv_put key v wm r m))), s')
     \<and> same_cluster s s' \<and> holds E disk expects s' (snd (kv_put key v wm r m))"
proof -
  let ?g = "kv_put key v wm r"
  obtain e s' where w: "writeOperation (Suc (Suc n)) E key (\<lambda>con. request con (lib_Put (lib E) key v wm r)) s = (Inr (fst (?g m), e), s')"
    "same_cluster s s'" "holds E disk expects s' (snd (?g m))"
    using cluster_put [OF h] by blast
  have "fst (?g m) \<noteq> REMOTE_OTHER_ERROR" by (simp add: kv_put_def)
  from Put_estimate [OF w(1) this] w(2) f have "Distributed_Put (Suc (Suc n)) E key v wm r s = (Inr (fst (?g m)), s')"
    by (simp add: same_cluster_def)
  with w(2,3) show ?thesis by (simp add: cmd_simps)
qed

lemma creations_keep_estimate:
  assumes "holds E disk expects s m" "f_add (portion_full (capacity_estimate s)) (capacity_chunksize s) = portion_full (capacity_estimate s)"
  shows "\<exists>s'. cluster_run (Suc (Suc n)) E (map (\<lambda>(key, r). Op_Put key '''' wm r) xs) s
       = (Inr (fst (kv_run (map (\<lambda>(key, r). Op_Put key '''' wm r) xs) m)), s')
     \<and> capacity_estimate s' = capacity_estimate s"
  using assms
proof (induction xs arbitrary: s m)
  case (Cons x xs)
  obtain key r where x: "x = (key, r)" by (cases x)
  obtain s1 where s1: "cluster_step (Suc (Suc n)) E (Op_Put key '''' wm r) s = (Inr (Ans_Status (fst (kv_put key '''' wm r m))), s1)"
    "same_cluster s s1" "holds E disk expects s1 (snd (kv_put key '''' wm r m))"
    using create_keeps_estimate [OF Cons.prems] by blast
  have "f_add (portion_full (capacity_estimate s1)) (capacity_chunksize s1) = portion_full (capacity_estimate s1)"
    "capacity_estimate s1 = capacity_estimate s"
    using s1(2) Cons.prems(2) by (simp_all add: same_cluster_def)
  with Cons.IH [OF s1(3)] s1(1) x show ?case by (auto simp: cmd_simps split: prod.splits simp del: cluster_step.simps)
qed simp

end

text \<open>
  The estimate of the used capacity stops growing: on a cluster of more than 32 terabytes,
  where one megabyte is less than 1/33554432 of the capacity, and that is half full or more,
  any number of keys can be created and the estimate that \<^verbatim>\<open>statfs\<close> is answered from stays what
  it is, because every single addition is rounded away.
\<close>

theorem capacity_estimate_stalls:
  assumes "reliable_drives E disk expects" "holds E disk expects s m"
    "portion_full (capacity_estimate s) = Finite p" "upper_half p" "capacity_chunksize s = Finite c" "0 \<le> c" "c < 1 / 2 ^ 25"
  shows "\<exists>s'. cluster_run (Suc (Suc n)) E (map (\<lambda>(key, r). Op_Put key '''' wm r) xs) s
       = (Inr (fst (kv_run (map (\<lambda>(key, r). Op_Put key '''' wm r) xs) m)), s')
     \<and> capacity_estimate s' = capacity_estimate s"
  by (rule reliable_drives.creations_keep_estimate [OF assms(1,2)]) (simp only: assms(3,5) f_add_absorbs [OF assms(4,6,7)])

text \<open>A cluster of 64 terabytes, three quarters full: one megabyte is the 67108864th part of it.\<close>

definition large_cluster :: "rack cluster" where
  "large_cluster = empty_cluster\<lparr>capacity_estimate := \<lparr>nominal_capacity_in_bytes = 2 ^ 46, portion_full = Finite (3 / 4)\<rparr>,
     capacity_chunksize := Finite (2 ^ 20 / 2 ^ 46)\<rparr>"

lemma large_chunk: "capacity_chunksize large_cluster = Finite (1 / 2 ^ 26)"
  by (simp add: large_cluster_def)

theorem capacity_estimate_stalls_witness:
  "\<exists>s'. cluster_run (Suc (Suc 1)) (rack_env id)
       (map (\<lambda>(key, r). Op_Put key '''' REQUIRE_SAME_VERSION r) [(''/a'', \<lparr>kr_value = ''x'', kr_version = ''v''\<rparr>), (''/b'', \<lparr>kr_value = ''y'', kr_version = ''v''\<rparr>)])
       large_cluster = (Inr [Ans_Status OK, Ans_Status OK], s')
     \<and> capacity_estimate s' = capacity_estimate large_cluster"
proof -
  have "holds (rack_env id) rack_disk rack_expects large_cluster Map.empty"
    using empty_cluster_holds by (simp add: large_cluster_def holds_def routed_def all_in_sync_def in_sync_def linked_def partition_of_def)
  note this
  moreover have "portion_full (capacity_estimate large_cluster) = Finite (3 / 4)" by (simp add: large_cluster_def)
  moreover have "upper_half (3 / 4)" by (simp add: upper_half_def exI [of _ "3 * 2 ^ 22"])
  ultimately show ?thesis
    using capacity_estimate_stalls [OF rack.reliable_drives_axioms _ _ _ large_chunk, of id Map.empty "3 / 4" 1 REQUIRE_SAME_VERSION
        "[(''/a'', \<lparr>kr_value = ''x'', kr_version = ''v''\<rparr>), (''/b'', \<lparr>kr_value = ''y'', kr_version = ''v''\<rparr>)]"]
    by (auto simp: kv_put_def version_matches_def)
qed

end
