(* ===== verification/Mount_Config.thy ===== *)
theory Mount_Config
  imports HFlat_State Distributed_Listing
begin

section \<open>Configuration\<close>

text \<open>
  The parts of main.cc that decide how a file system is mounted: \<^verbatim>\<open>main\<close> takes the name of the
  configuration file from the command line, \<^verbatim>\<open>parse_configuration\<close> reads it, and \<^verbatim>\<open>hflat_init\<close>
  chooses a namespace. The file is read by libconfig; a configuration is what the lookups of
  this library give: the settings that exist, and lists of groups.
\<close>

record drive_setting =
  set_host :: "string option"
  set_status_name :: "string option"
  set_port :: "int option"

record options_setting =
  set_cache_expiration :: "int option"
  set_direntry_clustersize :: "int option"
  set_posix_mode :: "string option"

record configuration =
  cfg_log :: "drive_setting list option"
  cfg_clustermap :: "drive_setting list list option"
  cfg_options :: "options_setting option"

record mount_options =
  opt_clustermap :: "Partition list"
  opt_logpartition :: Partition
  opt_cache_expiration_ms :: int
  opt_direntry_clustersize :: int
  opt_posix :: PosixMode

definition Partition_default :: Partition where
  "Partition_default = \<lparr>cluster_version = 0, partitionid = None, drives = [], logid = None\<rparr>"

definition status_of_name :: "string \<Rightarrow> KineticDrive_Status option" where
  "status_of_name st = (if st = ''GREEN'' then Some GREEN else if st = ''YELLOW'' then Some YELLOW
     else if st = ''RED'' then Some RED else None)"

text \<open>
  A drive whose status is not known is already part of the partition when the function gives
  up; the message then has no status, which reads as the first value.
\<close>

fun cfg_to_hflat :: "drive_setting list \<Rightarrow> Partition \<Rightarrow> bool \<times> Partition" where
  "cfg_to_hflat [] p = (True, p)"
| "cfg_to_hflat (d # ds) p = (case (set_host d, set_status_name d, set_port d) of
     (Some host, Some st, Some port) \<Rightarrow>
       let drive = \<lparr>drive_status = (case status_of_name st of None \<Rightarrow> GREEN | Some c \<Rightarrow> c), drive_host = host, drive_port = port\<rparr>;
           p = p\<lparr>drives := drives p @ [drive]\<rparr> in
       if status_of_name st = None then (False, p) else cfg_to_hflat ds p
   | _ \<Rightarrow> (False, p))"

fun cfg_partitions :: "Partition \<Rightarrow> nat \<Rightarrow> drive_setting list list \<Rightarrow> Partition list \<Rightarrow> bool \<times> Partition list" where
  "cfg_partitions lp i [] cmap = (True, cmap)"
| "cfg_partitions lp i (ds # dss) cmap =
     (let (rtn, p) = cfg_to_hflat ds Partition_default;
          p = (if length (drives p) = 2 \<and> drives lp \<noteq> [] then p\<lparr>logid := Some (int (i mod length (drives lp)))\<rparr> else p);
          p = p\<lparr>partitionid := Some (int i)\<rparr>;
          cmap = cmap @ [p] in
      if rtn then cfg_partitions lp (Suc i) dss cmap else (False, cmap))"

text \<open>A file that cannot be read is an empty configuration; the options are read in any case.\<close>

definition parse_configuration :: "configuration option \<Rightarrow> mount_options \<Rightarrow> bool \<times> mount_options" where
  "parse_configuration cfg opts =
     (let rtn = (cfg \<noteq> None);
          cfg = (case cfg of None \<Rightarrow> \<lparr>cfg_log = None, cfg_clustermap = None, cfg_options = None\<rparr> | Some c \<Rightarrow> c);
          (rtn, lp) = (if rtn then (case cfg_log cfg of None \<Rightarrow> (True, opt_logpartition opts)
                                    | Some ds \<Rightarrow> cfg_to_hflat ds (opt_logpartition opts))
                       else (False, opt_logpartition opts));
          (rtn, cmap) = (case cfg_clustermap cfg of
                           None \<Rightarrow> (rtn, opt_clustermap opts)
                         | Some dss \<Rightarrow> if rtn then cfg_partitions lp 0 dss (opt_clustermap opts) else (rtn, opt_clustermap opts));
          opts = opts\<lparr>opt_clustermap := cmap, opt_logpartition := lp\<rparr>;
          opts = (case cfg_options cfg of
                    None \<Rightarrow> opts
                  | Some o' \<Rightarrow> opts\<lparr>
                      opt_cache_expiration_ms := (case set_cache_expiration o' of None \<Rightarrow> opt_cache_expiration_ms opts | Some v \<Rightarrow> v),
                      opt_direntry_clustersize := (case set_direntry_clustersize o' of None \<Rightarrow> opt_direntry_clustersize opts | Some v \<Rightarrow> v),
                      opt_posix := (if set_posix_mode o' = Some ''RELAXED'' then TIMERELAXED else opt_posix opts)\<rparr>)
      in (rtn, opts))"

subsection \<open>Mounting\<close>

definition default_options :: mount_options where
  "default_options = \<lparr>opt_clustermap = [], opt_logpartition = Partition_default, opt_cache_expiration_ms = 1000,
     opt_direntry_clustersize = 1, opt_posix = FULL\<rparr>"

datatype namespace_choice =
    Simple_localhost
  | Simple_drive KineticDrive
  | Distributed "Partition list" Partition int

definition choose_namespace :: "mount_options \<Rightarrow> namespace_choice" where
  "choose_namespace opts = (case opt_clustermap opts of
     [] \<Rightarrow> Simple_localhost
   | p # ps \<Rightarrow>
       if ps = [] \<and> length (drives p) = 1 then Simple_drive (drives p ! 0)
       else Distributed (p # ps) (opt_logpartition opts) (opt_direntry_clustersize opts))"

text \<open>
  The first part of \<^verbatim>\<open>hflat_init\<close>, up to the construction of the private data; the argument is
  absent when no file name was given. A configuration that cannot be used ends the client.
\<close>

definition hflat_init_options :: "configuration option option \<Rightarrow> stop + namespace_choice \<times> mount_options" where
  "hflat_init_options file =
     (let (ok, opts) = (case file of None \<Rightarrow> (True, default_options) | Some cfg \<Rightarrow> parse_configuration cfg default_options)
      in if ok then Inr (choose_namespace opts, opts) else Inl Exit_Failure)"

text \<open>
  The arguments \<^verbatim>\<open>-cfg=\<close> are taken out of the command line. The argument that moves into the
  place of one that is taken out is not looked at.
\<close>

fun extract_cfg :: "string list \<Rightarrow> string \<Rightarrow> string \<times> string list" where
  "extract_cfg [] filename = (filename, [])"
| "extract_cfg (x # xs) filename =
     (if take 5 x = ''-cfg='' then
        (case xs of
           [] \<Rightarrow> (drop 5 x, [])
         | y # ys \<Rightarrow> (case extract_cfg ys (drop 5 x) of (f, rest) \<Rightarrow> (f, y # rest)))
      else (case extract_cfg xs filename of (f, rest) \<Rightarrow> (f, x # rest)))"

definition main_filename :: "string \<Rightarrow> string list \<Rightarrow> string \<times> string list" where
  "main_filename working_directory argv =
     (case extract_cfg argv '''' of (filename, args) \<Rightarrow>
        (if filename \<noteq> [] \<and> hd filename \<noteq> CHR ''/'' then working_directory @ ''/'' @ filename else filename, args))"

subsection \<open>What a configuration that is accepted gives\<close>

definition configured_partition :: "Partition \<Rightarrow> Partition \<Rightarrow> bool" where
  "configured_partition lp p \<longleftrightarrow> cluster_version p = 0 \<and> (case logid p of
     None \<Rightarrow> length (drives p) \<noteq> 2 \<or> drives lp = []
   | Some l \<Rightarrow> length (drives p) = 2 \<and> 0 \<le> l \<and> l < int (length (drives lp)))"

lemma cfg_to_hflat_effect:
  "cfg_to_hflat ds p = (b, p') \<Longrightarrow> cluster_version p' = cluster_version p \<and> logid p' = logid p \<and> partitionid p' = partitionid p
     \<and> (b \<longrightarrow> length (drives p') = length (drives p) + length ds)"
  by (induction ds arbitrary: p) (auto simp: Let_def split: option.splits if_splits)

lemma cfg_partitions_effect:
  "cfg_partitions lp i dss cmap = (True, cmap') \<Longrightarrow> \<exists>ps. cmap' = cmap @ ps \<and> length ps = length dss
     \<and> map partitionid ps = map (\<lambda>k. Some (int k)) [i ..< i + length dss] \<and> list_all (configured_partition lp) ps"
proof (induction dss arbitrary: i cmap)
  case (Cons ds dss)
  obtain rtn q where q: "cfg_to_hflat ds Partition_default = (rtn, q)" by fastforce
  let ?p = "(if length (drives q) = 2 \<and> drives lp \<noteq> [] then q\<lparr>logid := Some (int (i mod length (drives lp)))\<rparr> else q)\<lparr>partitionid := Some (int i)\<rparr>"
  have rec: "cfg_partitions lp (Suc i) dss (cmap @ [?p]) = (True, cmap')"
    using Cons.prems q by (auto simp: Let_def split: if_splits)
  obtain ps where ps: "cmap' = (cmap @ [?p]) @ ps" "length ps = length dss"
    "map partitionid ps = map (\<lambda>k. Some (int k)) [Suc i ..< Suc i + length dss]" "list_all (configured_partition lp) ps"
    using Cons.IH [OF rec] by blast
  have "configured_partition lp ?p"
    using cfg_to_hflat_effect [OF q] by (auto simp: configured_partition_def Partition_default_def)
  moreover have "[i ..< i + length (ds # dss)] = i # [Suc i ..< Suc i + length dss]" by (simp add: upt_conv_Cons del: upt_Suc)
  ultimately show ?case using ps by (intro exI [of _ "?p # ps"]) (simp del: upt_Suc)
qed simp

text \<open>
  C29. A configuration that is accepted gives a cluster map the namespace can work with: the
  number of each partition is its place in the map, on which range requests rely, all versions
  are 0, and a partition has a log drive exactly if it has two drives and there are log drives,
  and then one that exists.
\<close>

theorem configuration_well_formed:
  assumes "parse_configuration (Some cfg) default_options = (True, opts)"
  shows "map partitionid (opt_clustermap opts) = map (\<lambda>k. Some (int k)) [0 ..< length (opt_clustermap opts)]
     \<and> list_all (configured_partition (opt_logpartition opts)) (opt_clustermap opts)"
proof -
  obtain lp cmap where o: "opt_clustermap opts = cmap" "opt_logpartition opts = lp"
    "cmap = [] \<or> (\<exists>dss. cfg_partitions lp 0 dss [] = (True, cmap))"
    using assms by (fastforce simp: parse_configuration_def Let_def default_options_def split: prod.splits option.splits if_splits)
  then show ?thesis
  proof (elim disjE exE)
    fix dss
    assume "cfg_partitions lp 0 dss [] = (True, cmap)"
    from cfg_partitions_effect [OF this] o(1,2) show ?thesis by auto
  qed simp
qed

definition example_drive :: "string \<Rightarrow> drive_setting" where
  "example_drive host = \<lparr>set_host = Some host, set_status_name = Some ''GREEN'', set_port = Some 8123\<rparr>"

definition example_configuration :: configuration where
  "example_configuration = \<lparr>cfg_log = Some [example_drive ''log''],
     cfg_clustermap = Some [[example_drive ''a'', example_drive ''b''], [example_drive ''c'']], cfg_options = None\<rparr>"

theorem configuration_well_formed_witness:
  "map partitionid (opt_clustermap (snd (parse_configuration (Some example_configuration) default_options)))
      = map (\<lambda>k. Some (int k)) [0 ..< length (opt_clustermap (snd (parse_configuration (Some example_configuration) default_options)))]
     \<and> list_all (configured_partition (opt_logpartition (snd (parse_configuration (Some example_configuration) default_options))))
         (opt_clustermap (snd (parse_configuration (Some example_configuration) default_options)))"
  by (rule configuration_well_formed [where cfg = example_configuration])
     (simp add: parse_configuration_def example_configuration_def example_drive_def default_options_def Partition_default_def status_of_name_def)

end
