(* ===== verification/Namespace_Setup.thy ===== *)
theory Namespace_Setup
  imports Mount_Config
begin

section \<open>Opening a namespace\<close>

text \<open>
  The connection of SimpleKineticNamespace to its drive, for the choice that is made when the file
  system starts, and what DistributedKineticNamespace prints about its partitions. The factory for
  connections belongs to the kinetic library: it is an argument, and gives no connection when
  its status is not OK.
\<close>

subsection \<open>One drive\<close>

record ConnectionOptions =
  options_host :: string
  options_port :: int
  options_user_id :: int
  options_hmac_key :: string
  options_use_ssl :: bool

definition SimpleKineticNamespace_connect :: "(ConnectionOptions \<Rightarrow> nat \<Rightarrow> 'n connection option) \<Rightarrow> string \<Rightarrow> int \<Rightarrow> stop + 'n KineticNamespace" where
  "SimpleKineticNamespace_connect factory host port =
     (let options = \<lparr>options_host = host, options_port = port, options_user_id = 1, options_hmac_key = ''asdfasdf'', options_use_ssl = False\<rparr> in
      case factory options 60 of
        None \<Rightarrow> Inl Uncaught_Exception
      | Some con \<Rightarrow> Inr (SimpleKineticNamespace con))"

definition SimpleKineticNamespace_drive :: "(ConnectionOptions \<Rightarrow> nat \<Rightarrow> 'n connection option) \<Rightarrow> KineticDrive \<Rightarrow> stop + 'n KineticNamespace" where
  "SimpleKineticNamespace_drive factory d = SimpleKineticNamespace_connect factory (drive_host d) (drive_port d)"

definition SimpleKineticNamespace_localhost :: "(ConnectionOptions \<Rightarrow> nat \<Rightarrow> 'n connection option) \<Rightarrow> stop + 'n KineticNamespace" where
  "SimpleKineticNamespace_localhost factory = SimpleKineticNamespace_connect factory ''localhost'' 8123"

text \<open>A namespace on one drive keeps the contract of its connection, whichever way it was opened.\<close>

context reliable_connection
begin

lemma namespace_reliable: "reliable_namespace (SimpleKineticNamespace con) store"
  by (rule simple.reliable_namespace_axioms)

end

lemma opened_namespace_reliable:
  assumes "\<And>options con. factory options 60 = Some con \<Longrightarrow> reliable_connection con store"
    "SimpleKineticNamespace_connect factory host port = Inr N"
  shows "reliable_namespace N store"
  using assms by (auto simp: SimpleKineticNamespace_connect_def Let_def intro: reliable_connection.namespace_reliable split: option.splits)

subsection \<open>Printing a cluster\<close>

definition statusToString :: "KineticDrive_Status \<Rightarrow> string" where
  "statusToString st = (case st of GREEN \<Rightarrow> ''GREEN'' | YELLOW \<Rightarrow> ''YELLOW'' | RED \<Rightarrow> ''RED'')"

abbreviation (input) endl :: string where "endl \<equiv> [CHR 0x0A]"

abbreviation (input) tab :: string where "tab \<equiv> [CHR 0x09]"

abbreviation (input) ruler :: string where "ruler \<equiv> ''[----------------------------------------]'' @ endl"

text \<open>The index of the log drive is not checked; an access outside the list ends the program or worse.\<close>

definition printPartition :: "Partition \<Rightarrow> Partition \<Rightarrow> stop + string" where
  "printPartition lp p =
     (let head = (case partitionid p of None \<Rightarrow> ''''
        | Some i \<Rightarrow> ''Partition #'' @ to_string i @ '' ClusterVersion '' @ to_string (uint (cluster_version p)) @ endl);
      body = concat (map (\<lambda>d. tab @ drive_host d @ '':'' @ to_string (drive_port d) @ '' - '' @ statusToString (drive_status d) @ endl) (drives p)) in
      case logid p of
        None \<Rightarrow> Inr (ruler @ head @ body @ ruler)
      | Some l \<Rightarrow>
          if 0 \<le> l \<and> nat l < length (drives lp)
          then Inr (ruler @ head @ body @ tab @ '' LOGDRIVE #'' @ to_string l @ '' - '' @ statusToString (drive_status (drives lp ! nat l)) @ endl @ ruler)
          else Inl Undefined_Behaviour)"

fun print_all :: "Partition \<Rightarrow> Partition list \<Rightarrow> stop + string" where
  "print_all lp [] = Inr ''''"
| "print_all lp (p # ps) = (case printPartition lp p of
     Inl e \<Rightarrow> Inl e
   | Inr out \<Rightarrow> map_sum id (\<lambda>rest. out @ rest) (print_all lp ps))"

definition printClusterMap :: "'w cluster \<Rightarrow> stop + string" where
  "printClusterMap s = (case print_all (log_partition s) (cluster_map s) of
     Inl e \<Rightarrow> Inl e
   | Inr out \<Rightarrow> map_sum id (\<lambda>log. ''  configured direntry cluster size is '' @ to_string (direntry_clustersize s) @ endl
        @ out @ ''LOG_PARTITION:'' @ endl @ log) (printPartition (log_partition s) (log_partition s)))"

lemma printPartition_defined: "(case logid p of None \<Rightarrow> True | Some l \<Rightarrow> 0 \<le> l \<and> nat l < length (drives lp)) \<Longrightarrow> \<exists>out. printPartition lp p = Inr out"
  by (auto simp: printPartition_def Let_def split: option.splits)

end
