(* ===== verification/IO_Intercept.thy ===== *)
theory IO_Intercept
  imports Path_Map_DB
begin

section \<open>Interception of system calls\<close>

text \<open>
  The preloaded library of iointercept/: pathchange.cc rewrites paths below an h-flat mount
  point so that the kernel sees a flat directory (a virtual directory between colons, then all
  slashes replaced by colons), and iointercept.cc wraps the functions of the C library that
  take paths. The file system undoes the rewriting in \<^verbatim>\<open>PathMapDB::iointercept\<close>. What the
  library takes from outside is a record: the table of mounted file systems, the working
  directory and the hash function of the standard library.
\<close>

subsection \<open>Rewriting a path\<close>

record io_env =
  mtab :: "(string \<times> string) list"
  cwd :: string
  io_hash :: "string \<Rightarrow> nat"

text \<open>The mount points are looked up until there are any.\<close>

definition getMountPoints :: "io_env \<Rightarrow> string list \<Rightarrow> string list" where
  "getMountPoints E mountpoints =
     (if mountpoints \<noteq> [] then mountpoints
      else map snd (filter (\<lambda>(fsname, _). take 5 fsname = ''hflat'') (mtab E)))"

text \<open>
  \<^verbatim>\<open>path[i]\<close> is the terminating NUL at the end of the string and undefined beyond it. Positions
  are computed in 64 bits, and \<^verbatim>\<open>npos\<close> is the largest of them.
\<close>

definition char_at :: "string \<Rightarrow> nat \<Rightarrow> stop + char" where
  "char_at s i = (if i < length s then Inr (s ! i) else if i = length s then Inr (CHR 0x00) else Inl Undefined_Behaviour)"

abbreviation (input) npos :: int where "npos \<equiv> 2 ^ 64 - 1"

definition as_size :: "int \<Rightarrow> nat" where
  "as_size i = nat (i mod 2 ^ 64)"

definition pos_of :: "nat option \<Rightarrow> int" where
  "pos_of p = (case p of None \<Rightarrow> npos | Some i \<Rightarrow> int i)"

text \<open>\<open>find_last_to P i s\<close> is \<^verbatim>\<open>s.find_last_of(c, i)\<close>.\<close>

definition find_last_to :: "(char \<Rightarrow> bool) \<Rightarrow> nat \<Rightarrow> string \<Rightarrow> nat option" where
  "find_last_to P i s = find_last P (take (Suc i) s)"

definition squeeze :: "string \<Rightarrow> nat \<Rightarrow> string" where
  "squeeze path pos =
     str_erase path pos (as_size (pos_of (find_first_from (\<lambda>c. c \<noteq> CHR ''/'') pos path) - int pos - 1))"

definition up_one :: "string \<Rightarrow> nat \<Rightarrow> string" where
  "up_one path pos =
     (let pre = pos_of (find_last_to is_slash (as_size (int pos - 1)) path)
      in str_erase path (as_size (pre + 1)) (as_size (int pos - pre + 2)))"

fun realpath_loop :: "nat \<Rightarrow> string \<Rightarrow> nat option \<Rightarrow> stop + string" where
  "realpath_loop 0 path pos = Inl OutOfFuel"
| "realpath_loop (Suc n) path None = Inr path"
| "realpath_loop (Suc n) path (Some pos) =
     (if \<not> pos < as_size (int (length path) - 1) then Inr path
      else case char_at path (pos + 1) of
        Inl s \<Rightarrow> Inl s
      | Inr next_char \<Rightarrow>
        let path = (if next_char = CHR ''/'' then squeeze path pos else path) in
        case char_at path (pos + 1) of
          Inl s \<Rightarrow> Inl s
        | Inr c \<Rightarrow>
            if c = CHR ''.'' \<and> (length path \<le> pos + 2 \<or> path ! (pos + 2) = CHR ''/'') then
              realpath_loop n (str_erase path pos 2) (Some pos)
            else if c = CHR ''.'' \<and> path ! (pos + 2) = CHR ''.'' then
              realpath_loop n (up_one path pos) (Some pos)
            else realpath_loop n path (find_first_from is_slash (pos + 1) path))"

definition realpath :: "nat \<Rightarrow> io_env \<Rightarrow> string \<Rightarrow> stop + string" where
  "realpath n E path =
     (case char_at path 0 of
        Inl s \<Rightarrow> Inl s
      | Inr c \<Rightarrow>
          let path = (if c \<noteq> CHR ''/'' then cwd E @ ''/'' @ path else path) in
          realpath_loop n path (find_first is_slash path))"

fun strip_colons :: "string \<Rightarrow> stop + string" where
  "strip_colons path = (if path = [] then Inl Undefined_Behaviour
     else if last path = CHR '':'' then strip_colons (butlast path) else Inr path)"

declare strip_colons.simps [simp del]

definition virtual_directory :: "io_env \<Rightarrow> string \<Rightarrow> string" where
  "virtual_directory E path = '':'' @ to_string (int (io_hash E path mod 100)) @ '':/''"

text \<open>
  The loop of step 2 replaces the slash at the position it starts with, if there is one, and
  then every slash it finds behind it.
\<close>

definition substitute :: "io_env \<Rightarrow> string \<Rightarrow> nat \<Rightarrow> stop + string" where
  "substitute E path pos =
     (let path = (if length path < pos then path @ ''/'' else path);
          path = (case find_first is_colon path of
                    None \<Rightarrow> path
                  | Some clean \<Rightarrow>
                      str_erase path clean (as_size (pos_of (find_first_from is_slash pos path) - int clean + 1)));
          vdir = virtual_directory E path in
      if pos > length path then Inl Uncaught_Exception
      else strip_colons (take pos path @ vdir @ map (\<lambda>c. if c = CHR ''/'' then CHR '':'' else c) (drop pos path)))"

fun change_all :: "io_env \<Rightarrow> string list \<Rightarrow> string \<Rightarrow> stop + string" where
  "change_all E [] p = Inr p"
| "change_all E (mnt # mnts) p =
     (if take (length mnt) p = mnt then
        (case substitute E p (length mnt + 1) of Inl s \<Rightarrow> Inl s | Inr p \<Rightarrow> change_all E mnts p)
      else change_all E mnts p)"

text \<open>The mount points that have been looked up are kept; the result holds them as well.\<close>

definition change :: "nat \<Rightarrow> io_env \<Rightarrow> string list \<Rightarrow> string \<Rightarrow> (stop + string) \<times> string list" where
  "change n E mountpoints path =
     (let mountpoints = getMountPoints E mountpoints in
      ((case realpath n E path of Inl s \<Rightarrow> Inl s | Inr p \<Rightarrow> change_all E mountpoints p), mountpoints))"

subsection \<open>The wrapped functions\<close>

text \<open>
  Every wrapper calls the function of the C library it replaces with the same arguments, paths
  changed. The tables say for each function which arguments are paths that are changed; all
  other arguments (modes, flags, buffers, descriptors of directories) are passed on. The
  functions that exist only on Mac OS are left out.
\<close>

definition wrapped_common :: "(string \<times> bool list) list" where
  "wrapped_common =
     [(''utimes'', [True, False]), (''utime'', [True, False]), (''statfs'', [True, False]), (''statvfs'', [True, False]),
      (''fopen'', [True, False]), (''realpath'', [True, False]), (''opendir'', [True]), (''remove'', [True]),
      (''rename'', [True, True]), (''chmod'', [True, False]), (''lstat'', [True, False]), (''mkdir'', [True, False]),
      (''mkfifo'', [True, False]), (''mknod'', [True, False, False]), (''stat'', [True, False]), (''access'', [True, False]),
      (''chown'', [True, False, False]), (''lchown'', [True, False, False]), (''link'', [True, True]), (''symlink'', [True, True]),
      (''readlink'', [True, False, False]), (''unlink'', [True]), (''rmdir'', [True]), (''truncate'', [True, False]),
      (''chdir'', [True]), (''pathconf'', [True, False]), (''creat'', [True, False])]"

definition wrapped_linux :: "(string \<times> bool list) list" where
  "wrapped_linux =
     [(''getxattr'', [True, False, False, False]), (''setxattr'', [True, False, False, False, False]),
      (''open'', [True, False, False]), (''open64'', [True, False, False]), (''openat'', [False, True, False, False]),
      (''statfs64'', [True, False]), (''stat64'', [True, False]), (''lstat64'', [True, False]), (''statvfs64'', [True, False]),
      (''creat64'', [True, False]), (''__xmknod'', [False, True, False, False]), (''__xstat'', [False, True, False]),
      (''__xstat64'', [False, True, False]), (''__lxstat'', [False, True, False]), (''__lxstat64'', [False, True, False]),
      (''lsetxattr'', [True, False, False, False, False]), (''lgetxattr'', [True, False, False, False]),
      (''unlinkat'', [False, True, False]), (''linkat'', [False, True, False, True, False]), (''mkdirat'', [False, True, False]),
      (''mknodat'', [False, True, False, False]), (''readlinkat'', [False, True, False, False]),
      (''renameat'', [False, True, False, True]), (''symlinkat'', [True, False, True]),
      (''utimensat'', [False, True, False, False]), (''mkfifoat'', [False, True, False])]"

datatype 'p argument = Path string | Value 'p

fun change_args :: "(string \<Rightarrow> stop + string) \<Rightarrow> bool list \<Rightarrow> 'p argument list \<Rightarrow> stop + 'p argument list" where
  "change_args f (True # bs) (Path path # args) = (case f path of
     Inl s \<Rightarrow> Inl s
   | Inr path \<Rightarrow> map_sum id ((#) (Path path)) (change_args f bs args))"
| "change_args f (b # bs) (arg # args) = map_sum id ((#) arg) (change_args f bs args)"
| "change_args f bs [] = Inr []"
| "change_args f [] args = Inr args"

text \<open>
  \<open>pc\<close> gives the arguments with which the function of the C library is called. The mount points
  are looked up by the first path and kept.
\<close>

definition pc :: "nat \<Rightarrow> io_env \<Rightarrow> string list \<Rightarrow> string \<Rightarrow> 'p argument list \<Rightarrow> stop + 'p argument list" where
  "pc n E mountpoints name args = (case map_of (wrapped_common @ wrapped_linux) name of
     None \<Rightarrow> Inr args
   | Some sig \<Rightarrow> change_args (\<lambda>path. fst (change n E mountpoints path)) sig args)"

end
