(* ===== verification/IO_Props.thy ===== *)
theory IO_Props
  imports IO_Intercept
begin

section \<open>Properties of the interception\<close>

text \<open>
  The rewriting of a path is undone by the file system, and the cases in which the rewriting
  itself goes wrong.
\<close>

subsection \<open>Normal paths\<close>

text \<open>An absolute path without empty components and components that start with a dot.\<close>

definition normal_path :: "string \<Rightarrow> bool" where
  "normal_path path \<longleftrightarrow> path \<noteq> [] \<and> hd path = CHR ''/''
     \<and> (\<forall>i. Suc i < length path \<longrightarrow> path ! i = CHR ''/'' \<longrightarrow> path ! Suc i \<noteq> CHR ''/'' \<and> path ! Suc i \<noteq> CHR ''.'')"

lemma find_first_from_Some:
  "find_first_from P i s = Some j \<Longrightarrow> i \<le> j \<and> j < length s \<and> P (s ! j)"
  unfolding find_first_from_def by (auto dest!: find_first_Some)

lemma as_size_nat [simp]: "int n < 2 ^ 64 \<Longrightarrow> as_size (int n) = n"
  by (simp add: as_size_def)

lemma as_size_pred: "0 < n \<Longrightarrow> int n < 2 ^ 64 \<Longrightarrow> as_size (int n - 1) = n - 1"
  using as_size_nat [of "n - 1"] by (simp add: of_nat_diff)

lemma realpath_loop_normal:
  assumes "normal_path path" "int (length path) < 2 ^ 64"
  shows "(\<forall>p. pos = Some p \<longrightarrow> p < length path \<and> path ! p = CHR ''/'' \<and> length path - p < n) \<Longrightarrow> 0 < n \<Longrightarrow>
     realpath_loop n path pos = Inr path"
proof (induction n arbitrary: pos)
  case (Suc n)
  show ?case
  proof (cases pos)
    case (Some p)
    with Suc.prems have p: "p < length path" "path ! p = CHR ''/''" "length path - p < Suc n" by auto
    have len: "as_size (int (length path) - 1) = length path - 1"
      using p(1) assms(2) by (intro as_size_pred) auto
    show ?thesis
    proof (cases "Suc p < length path")
      case False
      then have "\<not> p < length path - 1" by simp
      with Some len show ?thesis by simp
    next
      case True
      have c: "path ! Suc p \<noteq> CHR ''/''" "path ! Suc p \<noteq> CHR ''.''" using assms(1) p(2) True by (auto simp: normal_path_def)
      have next_pos: "q < length path \<and> path ! q = CHR ''/'' \<and> length path - q < n" if "find_first_from is_slash (Suc p) path = Some q" for q
        using find_first_from_Some [OF that] p(3) True by (auto simp: is_slash_def)
      have "0 < n" using p(3) True by linarith
      then have "realpath_loop n path (find_first_from is_slash (Suc p) path) = Inr path"
        using Suc.IH next_pos by blast
      with Some len True c show ?thesis by (simp add: char_at_def)
    qed
  qed simp
qed simp

lemma realpath_normal:
  assumes "normal_path path" "int (length path) < 2 ^ 64" "length path < n"
  shows "realpath n E path = Inr path"
proof -
  have "find_first is_slash path = Some 0" using assms(1) by (cases path) (auto simp: normal_path_def is_slash_def)
  moreover have "realpath_loop n path (Some 0) = Inr path"
    using assms by (intro realpath_loop_normal) (auto simp: normal_path_def hd_conv_nth)
  ultimately show ?thesis using assms(1) by (cases path) (auto simp: realpath_def char_at_def normal_path_def)
qed

subsection \<open>Round trip\<close>

lemma find_first_skip: "\<forall>c \<in> set xs. \<not> P c \<Longrightarrow> P y \<Longrightarrow> find_first P (xs @ y # ys) = Some (length xs)"
  by (induction xs) auto

lemma to_string_plain: "c \<in> set (to_string (int n)) \<Longrightarrow> c \<noteq> CHR ''/'' \<and> c \<noteq> CHR '':''"
  using nat_to_string_digits [of n] digit_not_special by (auto simp: to_string_def)

lemma virtual_directory_removed:
  assumes "\<forall>c \<in> set name. c \<noteq> CHR ''/''"
  shows "iointercept (''/'' @ virtual_directory E path @ name) = ''/'' @ map (\<lambda>c. if c = CHR '':'' then CHR ''/'' else c) name"
proof -
  let ?d = "to_string (int (io_hash E path mod 100))"
  let ?p = "''/'' @ virtual_directory E path @ name"
  have p: "?p = ''/'' @ CHR '':'' # ?d @ '':/'' @ name" by (simp add: virtual_directory_def)
  have colon: "find_first is_colon ?p = Some 1"
    unfolding p by (simp add: is_colon_def)
  have "drop 1 ?p = (CHR '':'' # ?d @ '':'') @ CHR ''/'' # name" unfolding p by simp
  then have slash: "find_first_from is_slash 1 ?p = Some (length ?d + 3)"
    using find_first_skip [of "CHR '':'' # ?d @ '':''" is_slash "CHR ''/''" name] to_string_plain
    by (auto simp: find_first_from_def is_slash_def)
  have "str_erase ?p 1 (length ?d + 3 - 1 + 1) = ''/'' @ name"
    unfolding p by (simp add: str_erase_def)
  then show ?thesis
    using colon slash by (simp add: iointercept_def is_colon_def)
qed

lemma substitute_below:
  assumes "\<forall>c \<in> set (mnt @ name). c \<noteq> CHR '':''" "name \<noteq> []" "last name \<noteq> CHR ''/''"
  shows "substitute E (mnt @ ''/'' @ name) (length mnt + 1) =
     Inr (mnt @ ''/'' @ virtual_directory E (mnt @ ''/'' @ name) @ map (\<lambda>c. if c = CHR ''/'' then CHR '':'' else c) name)"
proof -
  let ?q = "mnt @ ''/'' @ virtual_directory E (mnt @ ''/'' @ name) @ map (\<lambda>c. if c = CHR ''/'' then CHR '':'' else c) name"
  have "find_first is_colon (mnt @ ''/'' @ name) = None" using assms(1) by (auto simp: find_first_None is_colon_def)
  moreover have "last ?q \<noteq> CHR '':''" using assms by (auto simp: last_map)
  then have "strip_colons ?q = Inr ?q" by (simp add: strip_colons.simps)
  ultimately show ?thesis by (simp add: substitute_def Let_def)
qed

text \<open>
  C23. Interception is transparent for plain paths: a path below the only mount point that has no
  colon, no empty component, no component starting with a dot and no slash at the end is
  rewritten to a path in a virtual directory of the mount point, and the file system turns what it
  gets to see of it back into the path below the mount point, whichever virtual directory the hash
  selects.
\<close>

theorem interception_transparent:
  assumes "normal_path (mnt @ ''/'' @ name)" "\<forall>c \<in> set (mnt @ name). c \<noteq> CHR '':''" "name \<noteq> []" "last name \<noteq> CHR ''/''"
    "int (length (mnt @ ''/'' @ name)) < 2 ^ 64" "length (mnt @ ''/'' @ name) < n"
  shows "\<exists>dir flat. fst (change n E [mnt] (mnt @ ''/'' @ name)) = Inr (mnt @ ''/'' @ dir @ ''/'' @ flat) \<and> CHR ''/'' \<notin> set (dir @ flat)
     \<and> iointercept (''/'' @ dir @ ''/'' @ flat) = ''/'' @ name"
proof -
  let ?path = "mnt @ ''/'' @ name"
  let ?flat = "map (\<lambda>c. if c = CHR ''/'' then CHR '':'' else c) name"
  let ?dir = "'':'' @ to_string (int (io_hash E ?path mod 100)) @ '':''"
  have vd: "virtual_directory E ?path = ?dir @ ''/''" by (simp add: virtual_directory_def)
  have "fst (change n E [mnt] ?path) = Inr (mnt @ ''/'' @ ?dir @ ''/'' @ ?flat)"
    using realpath_normal [OF assms(1,5,6), of E] substitute_below [OF assms(2-4), of E] vd
    by (simp add: change_def getMountPoints_def Let_def)
  moreover have "CHR ''/'' \<notin> set (?dir @ ?flat)" using to_string_plain by auto
  moreover have flat: "map (\<lambda>c. if c = CHR '':'' then CHR ''/'' else c) ?flat = name"
    unfolding map_map by (rule map_idI) (use assms(2) in auto)
  moreover have "iointercept (''/'' @ (?dir @ ''/'') @ ?flat) = ''/'' @ map (\<lambda>c. if c = CHR '':'' then CHR ''/'' else c) ?flat"
    unfolding vd [symmetric] by (rule virtual_directory_removed) auto
  then have "iointercept (''/'' @ ?dir @ ''/'' @ ?flat) = ''/'' @ name" unfolding flat append_assoc .
  ultimately show ?thesis by blast
qed

theorem interception_transparent_witness:
  "\<exists>dir flat. fst (change 20 \<lparr>mtab = [], cwd = ''/'', io_hash = length\<rparr> [''/mnt''] (''/mnt'' @ ''/'' @ ''a/b'')) = Inr (''/mnt'' @ ''/'' @ dir @ ''/'' @ flat)
     \<and> CHR ''/'' \<notin> set (dir @ flat) \<and> iointercept (''/'' @ dir @ ''/'' @ flat) = ''/'' @ ''a/b''"
  by (rule interception_transparent) (auto simp: normal_path_def less_Suc_eq nth_Cons split: nat.splits)

subsection \<open>Paths that are not normal\<close>

text \<open>A path above the root is not shortened; the loop goes round with the same path.\<close>

lemma up_one_at_root:
  assumes "int (length rest) < 2 ^ 63"
  shows "\<exists>k. up_one (''/../'' @ rest) 0 = ''/../'' @ take k rest"
proof -
  let ?path = "''/../'' @ rest"
  obtain l where l: "find_last is_slash ?path = Some l"
    using find_last_None [of is_slash ?path] by (cases "find_last is_slash ?path") (auto simp: is_slash_def)
  note f = find_last_Some [OF l]
  have "3 \<le> l"
  proof (rule ccontr)
    assume "\<not> 3 \<le> l"
    then have "3 - Suc l < length (drop (Suc l) ?path)" "drop (Suc l) ?path ! (3 - Suc l) = CHR ''/''" by (auto simp: nth_append)
    then have "CHR ''/'' \<in> set (drop (Suc l) ?path)" using nth_mem by metis
    with f show False by (auto simp: is_slash_def)
  qed
  have "length ?path < 2 ^ 64" using assms by simp
  then have "find_last_to is_slash (as_size (int 0 - 1)) ?path = Some l"
    using l by (simp add: find_last_to_def as_size_def)
  moreover have "as_size (int l + 1) = Suc l" using f assms by (simp add: as_size_def)
  moreover have "length ?path \<le> Suc l + as_size (int 0 - int l + 2)"
  proof -
    have "l \<le> length rest + 3" using f by simp
    have "(2 - int l) mod 2 ^ 64 = (2 - int l + 2 ^ 64) mod 2 ^ 64" by (rule mod_add_self2 [symmetric])
    also have "\<dots> = 2 - int l + 2 ^ 64"
      using \<open>3 \<le> l\<close> \<open>l \<le> length rest + 3\<close> assms by (intro mod_pos_pos_trivial) auto
    finally have "(2 - int l) mod 2 ^ 64 = 2 - int l + 2 ^ 64" .
    then show ?thesis using assms \<open>3 \<le> l\<close> by (simp add: as_size_def)
  qed
  ultimately have "up_one ?path 0 = take (Suc l) ?path"
    by (simp add: up_one_def pos_of_def str_erase_def)
  also have "\<dots> = ''/../'' @ take (l - 3) rest" using \<open>3 \<le> l\<close> by (simp add: take_Cons' numeral_eq_Suc)
  finally show ?thesis by blast
qed

lemma realpath_loop_at_root:
  "int (length rest) < 2 ^ 63 \<Longrightarrow> realpath_loop n (''/../'' @ rest) (Some 0) = Inl OutOfFuel"
proof (induction n arbitrary: rest)
  case (Suc n)
  obtain k where k: "up_one (''/../'' @ rest) 0 = ''/../'' @ take k rest"
    using up_one_at_root [OF Suc.prems] by blast
  have "realpath_loop n (''/../'' @ take k rest) (Some 0) = Inl OutOfFuel"
    using Suc.prems by (intro Suc.IH) simp
  moreover have "as_size (int (length (''/../'' @ rest)) - 1) = length rest + 3"
    using Suc.prems by (simp add: as_size_def)
  ultimately show ?case using k by (simp add: char_at_def Let_def)
qed simp

text \<open>
  A path that leads above the root hangs the calling program: the component before the
  two dots is searched backwards from position -1, which is the end of the string, so what is
  erased is the end of the path and not the dots, and the loop starts over at the same place.
\<close>

theorem realpath_hangs_above_root:
  assumes "int (length rest) < 2 ^ 63"
  shows "realpath n E (''/../'' @ rest) = Inl OutOfFuel"
  using realpath_loop_at_root [OF assms, of n] by (simp add: realpath_def char_at_def is_slash_def)

theorem realpath_hangs_above_root_witness: "realpath 1000 \<lparr>mtab = [], cwd = ''/'', io_hash = length\<rparr> (''/../'' @ ''mnt/a'') = Inl OutOfFuel"
  by (rule realpath_hangs_above_root) simp

text \<open>Two dots elsewhere leave an empty component behind, which the file system does not remove.\<close>

lemma parent_leaves_empty_component: "realpath 5 E ''/a/b/../c'' = Inr ''/a//c''"
  by (simp add: realpath_def char_at_def is_slash_def numeral_eq_Suc as_size_def up_one_def find_last_to_def find_first_from_def
      str_erase_def pos_of_def Let_def)

end
