(* ===== verification/Spec2Isabelle.thy ===== *)
theory Spec2Isabelle
  imports Path_Map_Props Path_Map_Locks Fuse_Unlink_Props Fuse_Link_Props Fuse_Tree_Props Fuse_Statfs
    Client_Session Client_Cluster HFlat_Log_Props HFlat_Tools Distributed_Return Distributed_Capacity
    Mount_Config Namespace_Setup IO_Props
begin

text \<open>
  \<^bold>\<open>Verification of h-flat\<close>

  h-flat is a FUSE file system on Kinetic drives, which store keys and values and nothing else.
  Every file is stored under its full path, so a path is resolved with one request. What a
  hierarchy would do is done elsewhere: moves of directories are recorded in a database that
  every client holds and applies to paths, and the permissions of all directories on the way to
  a file are stored with the file. Several clients work on the same drives. They agree through
  the version every key has: a write names the version it replaces, or that there is none.

  \<^bold>\<open>Parts and theories.\<close> The sources are under src/; theories ending in Props hold the lemmas
  about the theory they are named after.

  \<^item> HFlat\_Prelude: strings of the C++ library (find, erase, \<^verbatim>\<open>to_string\<close>, \<^verbatim>\<open>stoll\<close>), the values with
    which a client stops (a failed assertion, an exception nobody catches, undefined behaviour,
    a wait that never ends, fuel used up), and commands: functions from a state to a stop or a
    result and the next state, with \<open>call\<close> as their sequence. \<open>keeps\<close> says that a command preserves
    a predicate on states.
  \<^item> Path\_Map\_DB, Path\_Map\_Props: src/pathmap\_db.cc. The map from paths to moves, links and
    permission changes as an association map, one definition per method. After a move the new
    path translates to the old location, and everything below it does; a snapshot carries the
    whole database; the log can be applied in pieces; translation ends in a settled database.
  \<^item> Path\_Map\_Locks: the lock of the same class, as a step relation of threads; readers are never
    there together with a writer.
  \<^item> Data\_Info: src/data\_info.cc, a block of file data with the regions written here.
  \<^item> Metadata\_Info: src/metadata\_info.cc, the check of src/lookup.cc and the inheritance of
    src/fuseops/file.cc: path permissions, which answer like a walk from the root.
  \<^item> LRU\_Cache: src/lru\_cache.h, with the locale \<open>blocking_cache\<close> for what its users rely on.
  \<^item> Float32: single precision numbers as rationals with rounding to even, for the capacities.
  \<^item> Kinetic\_Namespace: src/namespace/kinetic\_namespace.h and simple\_kinetic\_namespace.cc. The
    locales \<open>reliable_connection\<close> and \<open>reliable_namespace\<close> state what drives do; the second follows
    from the first through the operations of the code. A drive as an association list shows that
    the contract can be fulfilled, and runs the examples.
  \<^item> HFlat\_State: src/main.h, the private data of a client, with the objects behind shared
    pointers as a list and pointers as positions in it. Locale \<open>reliable_client\<close>: the namespace is
    reliable and messages survive their encoding. Reference\_Codec provides an encoding.
  \<^item> Kinetic\_Helper: src/namespace/kinetic\_helper.cc. Metadata, data blocks and database entries
    as records: created once, no update lost, both writers of a block served.
  \<^item> HFlat\_Util: src/util.cc. Inode numbers of all clients are different; a client that has lost a
    race for a slot of the log replays the winner's entry first. HFlat\_Log\_Props: any number of
    clients that append to the log in turns, however far behind they are, reach the database that
    the log describes.
  \<^item> HFlat\_Lookup: src/lookup.cc. A lookup returns what is stored. The locale \<open>zero_watch\<close> is a
    namespace that remembers under which keys it has handed out records with inode number 0: a
    lookup leaves no other key of the cache blocked and waits for no other, but such a key it
    blocks for good.
  \<^item> Fuse\_Files, Fuse\_Data, Fuse\_Attr, Fuse\_Links, Fsck: the operations under src/fuseops and
    src/fsck and the last part of \<^verbatim>\<open>hflat_init\<close>. Fuse\_Props: blocks through the data cache, removing
    data. Fuse\_Dir\_Props: creating, listing and checking directories. Fuse\_Rename\_Props,
    Fuse\_Unlink\_Props, Fuse\_Link\_Props: what renaming, removing and linking a file leave on the
    drive. Fuse\_Tree\_Props: renaming a directory moves everything below it, although only the
    path database and two directory entries change. Fuse\_Statfs: the free space that is reported.
  \<^item> Fuse\_Ops: the table of operations in src/main.cc, as one function on requests, and sessions
    of requests after a mount. Client\_Invariant: what an invariant of a client has to allow so that
    all operations keep it, as the locales \<open>object_invariant\<close> (no lookups) and its extension
    \<open>client_invariant\<close>; the operations are proved once in them. Client\_Session interprets them with
    coherent caches, and for a namespace under watch with no blocked keys but those with inode
    number 0. Any namespace can be put under watch without a client noticing, so a session on any
    namespace waits for itself only because of a record with inode number 0.
  \<^item> HFlat\_Tools: tools/tools.cc, the checks on the command line, down to the file system.
  \<^item> Distributed\_Namespace: src/namespace/distributed\_kinetic\_namespace.cc. Partitions of several
    drives, cluster versions, log drives, repair. Distributed\_Drives: what the drives promise as
    the locale \<open>reliable_drives\<close>, and a rack of drives in memory. Distributed\_Props: a partition in
    sync refines one drive; a cluster version has one owner. Distributed\_Listing: range requests
    over several partitions. Distributed\_Trace: sequences of operations on all partitions refine
    one store. Distributed\_Capacity: the estimate of the used capacity. Distributed\_Repair:
    partial writes. Distributed\_Failure: drives that stop answering, as the locale
    \<open>failing_drives\<close>, and the write that notices and takes the drive out. Distributed\_Loss: a cluster
    that loses a drive still refines one store, the write that noticed is not on the log, and
    a race between clients takes out a drive that works. Distributed\_Sync: the keys of a returned
    drive are brought up to date. Distributed\_Return: the whole synchronization, up to the
    partition that is published with the drive in use.
  \<^item> Client\_Simulation: a client cannot tell namespaces apart that give the same answers. The
    locale \<open>store_simulation\<close> relates two namespaces through the operations on single keys, its
    extension \<open>namespace_simulation\<close> also through range requests, \<open>drive_simulation\<close> through all
    requests, and every operation of the file
    system is proved to give the same result on both. Client\_Cluster puts the cluster behind the
    interface of a namespace and shows with the locales \<open>client_on_cluster\<close> and \<open>client_on_mirror\<close>
    that it simulates a single drive, so a mounted client behaves on it as on one drive.
  \<^item> IO\_Intercept: iointercept/, the preloaded library that flattens paths before the kernel sees
    them; the file system translates them back.
  \<^item> Mount\_Config: the configuration and the command line in src/main.cc. Namespace\_Setup: the
    constructors of SimpleKineticNamespace, which connect to its drive, and the description of the
    partitions that DistributedKineticNamespace prints, as strings.

  \<^bold>\<open>How the code is translated.\<close> A class or message is a record with the same fields, an enum a
  datatype, fixed-width integers are words where they can wrap and integers elsewhere. A method
  is a function on the record; code that uses the global private data is a command. Error codes
  are negative integers as in the code; statuses of the library are a datatype. The Kinetic
  client library, protocol buffers, hash function, clock, random numbers and unique identifiers
  are parameters, gathered in the records \<open>env\<close>, \<open>cluster_env\<close> and \<open>io_env\<close>; theorems name what
  they need of them through the locales. A wait for a key that nobody else can release is the
  value \<open>Deadlock\<close>.

  \<^bold>\<open>Fuel.\<close> Loops that depend on other clients or on drives (retries after a lost race, the chase
  after a cluster version, draws of a random drive, lookups that call each other) take a number
  of rounds and give \<open>OutOfFuel\<close> when it is used up. Theorems that say an operation succeeds say
  so for explicit fuel, given as successors of a variable: the number of rounds that the case at
  hand needs, or more. Where the code does not end, the theorem says that no fuel is enough.

  \<^bold>\<open>Concurrency.\<close> Interleavings of clients are sequences of commands on one drive. Within a client
  the operations run one at a time, apart from the lock protocol above. A detached thread runs
  where it is started (unlink) or is recorded (synchronization).

  \<^bold>\<open>Not modelled.\<close> Log output; the destructors and \<^verbatim>\<open>hflat_destroy\<close>, which release memory; the
  functions intercepted on Mac OS and the other parts compiled only there; the commented-out
  merge of metadata in src/metadata\_info.cc.

  \<^bold>\<open>Not proved.\<close> The operations are defined in the mode that updates time stamps of directories
  too, but their effects on the drive are stated without it. Losses of drives are followed
  for writes of clients that have a connection to the lost drive; a read that notices a loss is a
  definition only. The log drive is read by the synchronization; that each write between a loss
  and a return is recorded there is a hypothesis, which a proved counterexample shows is needed.
  That no file ever gets inode number 0 is not proved; what happens then is.
\<close>

end
